(* ===== verification/Prelude.thy ===== *)
theory Prelude
  imports Complex_Main
begin

text \<open>
  The ground the component theories share: exceptions as values with the sequencing of raising
  steps, loops that stop at the first raise, and insertion-ordered dictionaries with the interface
  that the components holding one rely on. A dictionary is the list of its items in insertion order.
\<close>

named_theorems py_simps \<open>evaluation rules of the Python operations\<close>

section \<open>Exceptions and results\<close>

datatype py_exn =
    ValueError | TypeError | KeyError | AttributeError | IndexError | OverflowError | RuntimeError

type_synonym 'a res = "py_exn + 'a"

fun res_bind :: "'e + 'a \<Rightarrow> ('a \<Rightarrow> 'e + 'b) \<Rightarrow> 'e + 'b" where
  "res_bind (Inl e) f = Inl e"
| "res_bind (Inr x) f = f x"

lemma res_bind_Inr_iff:
  "res_bind m f = Inr y \<longleftrightarrow> (\<exists>x. m = Inr x \<and> f x = Inr y)"
  by (cases m) auto

lemma res_bind_InrE:
  assumes "res_bind m f = Inr y" obtains x where "m = Inr x" "f x = Inr y"
  using assms by (cases m) auto

lemma res_bind_Inl_iff:
  "res_bind m f = Inl e \<longleftrightarrow> m = Inl e \<or> (\<exists>x. m = Inr x \<and> f x = Inl e)"
  by (cases m) auto

lemma case_sum_False: "(case x of Inl _ \<Rightarrow> False | Inr y \<Rightarrow> P y) \<Longrightarrow> \<exists>y. x = Inr y \<and> P y"
  by (cases x) auto

lemma case_option_False: "(case x of None \<Rightarrow> False | Some y \<Rightarrow> P y) \<Longrightarrow> \<exists>y. x = Some y \<and> P y"
  by (cases x) auto

text \<open>A loop that returns at the first element whose test holds and raises where a test raises.\<close>

fun any_res :: "('a \<Rightarrow> 'e + bool) \<Rightarrow> 'a list \<Rightarrow> 'e + bool" where
  "any_res p [] = Inr False"
| "any_res p (x # xs) = res_bind (p x) (\<lambda>b. if b then Inr True else any_res p xs)"

lemma any_res_True:
  "any_res p xs = Inr True \<Longrightarrow> \<exists>x \<in> set xs. p x = Inr True"
  by (induction xs) (auto simp: res_bind_Inr_iff split: if_splits)

lemma any_res_total:
  "(\<And>x. x \<in> set xs \<Longrightarrow> p x = Inr (q x)) \<Longrightarrow> any_res p xs = Inr (\<exists>x \<in> set xs. q x)"
  by (induction xs) auto

lemma any_res_all_False:
  "(\<And>x. x \<in> set xs \<Longrightarrow> p x = Inr False) \<Longrightarrow> any_res p xs = Inr False"
  by (induction xs) auto

text \<open>A loop that collects results and raises at the first element that does.\<close>

fun map_res :: "('a \<Rightarrow> 'e + 'b) \<Rightarrow> 'a list \<Rightarrow> 'e + 'b list" where
  "map_res f [] = Inr []"
| "map_res f (x # xs) = res_bind (f x) (\<lambda>y. res_bind (map_res f xs) (\<lambda>ys. Inr (y # ys)))"

lemma map_res_total: "(\<And>x. x \<in> set xs \<Longrightarrow> f x = Inr (g x)) \<Longrightarrow> map_res f xs = Inr (map g xs)"
  by (induction xs) auto

lemma map_res_map: "map_res f (map g xs) = map_res (\<lambda>x. f (g x)) xs"
  by (induction xs) simp_all

lemma any_res_map: "any_res p (map f xs) = any_res (\<lambda>x. p (f x)) xs"
  by (induction xs) (simp_all cong: if_cong)

section \<open>Insertion-ordered dictionaries\<close>

type_synonym ('k, 'v) dict = "('k \<times> 'v) list"

text \<open>Assigning to a present key keeps its position, a new key goes to the end.\<close>

fun dput :: "'k \<Rightarrow> 'v \<Rightarrow> ('k, 'v) dict \<Rightarrow> ('k, 'v) dict" where
  "dput k v [] = [(k, v)]"
| "dput k v ((k', v') # d) = (if k = k' then (k, v) # d else (k', v') # dput k v d)"

definition ddel :: "'k \<Rightarrow> ('k, 'v) dict \<Rightarrow> ('k, 'v) dict" where
  "ddel k d = filter (\<lambda>p. fst p \<noteq> k) d"

abbreviation dget :: "('k, 'v) dict \<Rightarrow> 'k \<Rightarrow> 'v option" where
  "dget d k \<equiv> map_of d k"

definition dget_or :: "('k, 'v) dict \<Rightarrow> 'k \<Rightarrow> 'v \<Rightarrow> 'v" where
  "dget_or d k v = (case dget d k of None \<Rightarrow> v | Some w \<Rightarrow> w)"

definition dkeys :: "('k, 'v) dict \<Rightarrow> 'k list" where
  "dkeys d = map fst d"

definition dhas :: "('k, 'v) dict \<Rightarrow> 'k \<Rightarrow> bool" where
  "dhas d k \<longleftrightarrow> k \<in> set (dkeys d)"

definition dict_ok :: "('k, 'v) dict \<Rightarrow> bool" where
  "dict_ok d \<longleftrightarrow> distinct (dkeys d)"

text \<open>\<open>base.update(other)\<close> and the display \<open>{**base, **other}\<close>.\<close>

definition dupdate :: "('k, 'v) dict \<Rightarrow> ('k, 'v) dict \<Rightarrow> ('k, 'v) dict" where
  "dupdate d e = foldl (\<lambda>acc (k, v). dput k v acc) d e"

lemma dkeys_simps [simp]: "dkeys [] = []" "dkeys ((k, v) # d) = k # dkeys d"
  by (simp_all add: dkeys_def)

lemma set_dkeys_dput [simp]: "set (dkeys (dput k v d)) = insert k (set (dkeys d))"
  by (induction d rule: dput.induct) auto

lemma dget_dput [simp]: "dget (dput k v d) j = (if j = k then Some v else dget d j)"
  by (induction k v d rule: dput.induct) auto

lemma dict_ok_dput [simp]: "dict_ok d \<Longrightarrow> dict_ok (dput k v d)"
  by (induction k v d rule: dput.induct) (auto simp: dict_ok_def)

lemma dict_ok_Nil [simp]: "dict_ok []"
  by (simp add: dict_ok_def)

lemma dget_ddel [simp]: "dget (ddel k d) j = (if j = k then None else dget d j)"
  by (induction d) (auto simp: ddel_def)

lemma set_dkeys_ddel [simp]: "set (dkeys (ddel k d)) = set (dkeys d) - {k}"
  by (auto simp: ddel_def dkeys_def)

lemma dict_ok_filter [simp]: "dict_ok d \<Longrightarrow> dict_ok (filter P d)"
  by (induction d) (auto simp: dict_ok_def dkeys_def)

lemma dict_ok_ddel [simp]: "dict_ok d \<Longrightarrow> dict_ok (ddel k d)"
  by (simp add: ddel_def)

lemma dhas_iff: "dhas d k \<longleftrightarrow> dget d k \<noteq> None"
  by (auto simp: dhas_def dkeys_def map_of_eq_None_iff)

lemma dget_None_iff: "dget d k = None \<longleftrightarrow> k \<notin> set (dkeys d)"
  by (simp add: dkeys_def map_of_eq_None_iff)

lemma dget_filter:
  "dict_ok d \<Longrightarrow> dget (filter (\<lambda>p. P (fst p) (snd p)) d) k =
     (case dget d k of None \<Rightarrow> None | Some v \<Rightarrow> if P k v then Some v else None)"
proof (induction d)
  case Nil
  then show ?case by simp
next
  case (Cons p d)
  obtain a b where p: "p = (a, b)" by (cases p)
  from Cons.prems have a: "dget d a = None" and ok: "dict_ok d"
    by (auto simp: p dict_ok_def dkeys_def map_of_eq_None_iff)
  show ?case using Cons.IH [OF ok] a by (auto simp: p split: option.splits)
qed

lemma dupdate_simps [simp]:
  "dupdate d [] = d" "dupdate d ((k, v) # e) = dupdate (dput k v d) e"
  by (simp_all add: dupdate_def)

lemma dict_ok_dupdate [simp]: "dict_ok d \<Longrightarrow> dict_ok (dupdate d e)"
  by (induction e arbitrary: d) (auto simp: dupdate_def)

lemma dget_dupdate:
  "dict_ok e \<Longrightarrow> dget (dupdate d e) k = (case dget e k of None \<Rightarrow> dget d k | Some v \<Rightarrow> Some v)"
proof (induction e arbitrary: d)
  case Nil
  then show ?case by simp
next
  case (Cons p e)
  obtain a b where p: "p = (a, b)" by (cases p)
  from Cons.prems have a: "dget e a = None" and ok: "dict_ok e"
    by (auto simp: p dict_ok_def dkeys_def map_of_eq_None_iff)
  show ?case using Cons.IH [OF ok] a by (auto simp: p split: option.splits)
qed

lemma set_dkeys_dupdate: "set (dkeys (dupdate d e)) = set (dkeys d) \<union> set (dkeys e)"
  by (induction e arbitrary: d) (auto simp: dupdate_def)

text \<open>\<open>del d[k]\<close> for each key of a list: a missing key raises.\<close>

fun del_keys :: "'k list \<Rightarrow> ('k, 'v) dict \<Rightarrow> ('k, 'v) dict res" where
  "del_keys [] d = Inr d"
| "del_keys (k # ks) d = (if dhas d k then del_keys ks (ddel k d) else Inl KeyError)"

lemma del_keys_ok:
  "distinct ks \<Longrightarrow> set ks \<subseteq> set (dkeys d) \<Longrightarrow> del_keys ks d = Inr (foldl (\<lambda>acc k. ddel k acc) d ks)"
  by (induction ks arbitrary: d) (simp_all add: dhas_def subset_Diff_insert)

text \<open>
  What a client of a dictionary relies on: lookup after store and after delete, the keys, and
  an invariant that the operations keep. The components that hold dictionaries are clients.
\<close>

locale dict_ops =
  fixes get :: "'d \<Rightarrow> 'k \<Rightarrow> 'v option"
    and put :: "'k \<Rightarrow> 'v \<Rightarrow> 'd \<Rightarrow> 'd"
    and del :: "'k \<Rightarrow> 'd \<Rightarrow> 'd"
    and keys :: "'d \<Rightarrow> 'k list"
    and inv :: "'d \<Rightarrow> bool"
  assumes get_put: "get (put k v d) j = (if j = k then Some v else get d j)"
    and get_del: "get (del k d) j = (if j = k then None else get d j)"
    and keys_get: "k \<in> set (keys d) \<longleftrightarrow> get d k \<noteq> None"
    and inv_put: "inv d \<Longrightarrow> inv (put k v d)"
    and inv_del: "inv d \<Longrightarrow> inv (del k d)"
begin

lemma keys_put: "set (keys (put k v d)) = insert k (set (keys d))"
  by (auto simp: keys_get get_put split: if_splits)

lemma keys_del: "set (keys (del k d)) = set (keys d) - {k}"
  by (auto simp: keys_get get_del split: if_splits)

lemma get_put_put: "get (put k w (put k v d)) = get (put k w d)"
  by (auto simp: get_put fun_eq_iff)

lemma get_del_put: "get (del k (put k v d)) = get (del k d)"
  by (auto simp: get_put get_del fun_eq_iff)

text \<open>Deleting a list of keys one by one, as the pruning loops do.\<close>

lemma get_del_all: "get (foldl (\<lambda>acc k. del k acc) d ks) j = (if j \<in> set ks then None else get d j)"
  by (induction ks arbitrary: d) (auto simp: get_del)

lemma inv_del_all: "inv d \<Longrightarrow> inv (foldl (\<lambda>acc k. del k acc) d ks)"
  by (induction ks arbitrary: d) (auto intro: inv_del)

end

interpretation pydict: dict_ops "map_of :: ('k, 'v) dict \<Rightarrow> 'k \<Rightarrow> 'v option" dput ddel dkeys dict_ok
  by unfold_locales (auto simp: dget_None_iff dhas_iff)

section \<open>Bounded buffers\<close>

text \<open>The last \<open>n\<close> elements: what a \<open>deque(maxlen=n)\<close> keeps.\<close>

definition last_n :: "nat \<Rightarrow> 'a list \<Rightarrow> 'a list" where
  "last_n n xs = drop (length xs - n) xs"

lemma last_n_id [simp]: "length xs \<le> n \<Longrightarrow> last_n n xs = xs"
  by (simp add: last_n_def)

lemma length_last_n [simp]: "length (last_n n xs) = min n (length xs)"
  by (simp add: last_n_def min_def)

lemma last_n_snoc: "last_n n (last_n n xs @ [x]) = last_n n (xs @ [x])"
proof (cases "length xs \<le> n")
  case False
  then obtain k where k: "length xs = k + n" by (metis add.commute le_iff_add nat_le_linear)
  show ?thesis by (cases n) (simp_all add: last_n_def k Suc_diff_le)
qed simp

locale bounded_buffer =
  fixes items :: "'b \<Rightarrow> 'a list"
    and push :: "'a \<Rightarrow> 'b \<Rightarrow> 'b"
    and cap :: "'b \<Rightarrow> nat"
  assumes items_push: "items (push x b) = last_n (cap b) (items b @ [x])"
    and cap_push: "cap (push x b) = cap b"
begin

lemma cap_push_all: "cap (fold push xs b) = cap b"
  by (induction xs arbitrary: b) (simp_all add: cap_push)

lemma items_push_all:
  "length (items b) \<le> cap b \<Longrightarrow> items (fold push xs b) = last_n (cap b) (items b @ xs)"
proof (induction xs rule: rev_induct)
  case (snoc x xs)
  then show ?case
    using last_n_snoc [of "cap b" "items b @ xs" x] by (simp add: items_push cap_push_all)
qed simp

lemma push_bounded: "length (items b) \<le> cap b \<Longrightarrow> length (items (fold push xs b)) \<le> cap b"
  by (simp add: items_push_all)

end

end
