(* ===== verification/Py_Values.thy ===== *)
theory Py_Values
  imports Prelude
begin

text \<open>
  Python's dynamic values as the framework uses them: what JSON and YAML parse to, with the truth
  value, equality, ordering and membership of the language, the conversions \<open>int\<close>, \<open>float\<close>, \<open>str\<close>, and
  the string methods the code calls.

  A character is a code point below 256. A float is the rational it denotes, an infinity or
  not-a-number: comparisons are exact, and neither the parsers nor the arithmetic round.
\<close>

section \<open>Values\<close>

datatype pyfloat = Fin rat | Infty bool | NaN

datatype pyval =
    PNone
  | PBool bool
  | PInt int
  | PFloat pyfloat
  | PStr string
  | PList "pyval list"
  | PDict "(string \<times> pyval) list"

type_synonym pydict = "(string, pyval) dict"

fun truthy :: "pyval \<Rightarrow> bool" where
  "truthy PNone = False"
| "truthy (PBool b) = b"
| "truthy (PInt n) = (n \<noteq> 0)"
| "truthy (PFloat f) = (f \<noteq> Fin 0)"
| "truthy (PStr s) = (s \<noteq> [])"
| "truthy (PList xs) = (xs \<noteq> [])"
| "truthy (PDict d) = (d \<noteq> [])"

text \<open>A boolean is an integer to arithmetic and to comparisons.\<close>

fun num_of :: "pyval \<Rightarrow> pyfloat option" where
  "num_of (PBool b) = Some (Fin (if b then 1 else 0))"
| "num_of (PInt n) = Some (Fin (of_int n))"
| "num_of (PFloat f) = Some f"
| "num_of _ = None"

fun feq :: "pyfloat \<Rightarrow> pyfloat \<Rightarrow> bool" where
  "feq (Fin p) (Fin q) = (p = q)"
| "feq (Infty a) (Infty b) = (a = b)"
| "feq _ _ = False"

text \<open>\<open>Infty True\<close> is plus infinity, \<open>Infty False\<close> minus infinity.\<close>

fun flt :: "pyfloat \<Rightarrow> pyfloat \<Rightarrow> bool" where
  "flt (Fin p) (Fin q) = (p < q)"
| "flt (Fin _) (Infty b) = b"
| "flt (Infty a) (Fin _) = (\<not> a)"
| "flt (Infty a) (Infty b) = (\<not> a \<and> b)"
| "flt _ _ = False"

section \<open>Equality, ordering, membership\<close>

fun peq :: "pyval \<Rightarrow> pyval \<Rightarrow> bool"
  and peq_list :: "pyval list \<Rightarrow> pyval list \<Rightarrow> bool"
  and peq_items :: "(string \<times> pyval) list \<Rightarrow> (string \<times> pyval) list \<Rightarrow> bool" where
  "peq PNone PNone = True"
| "peq (PStr s) (PStr t) = (s = t)"
| "peq (PList xs) (PList ys) = peq_list xs ys"
| "peq (PDict d) (PDict e) = (length d = length e \<and> peq_items d e)"
| "peq a b = (case (num_of a, num_of b) of (Some x, Some y) \<Rightarrow> feq x y | _ \<Rightarrow> False)"
| "peq_list [] [] = True"
| "peq_list (x # xs) (y # ys) = (peq x y \<and> peq_list xs ys)"
| "peq_list _ _ = False"
| "peq_items [] e = True"
| "peq_items ((k, v) # d) e =
     (case dget e k of None \<Rightarrow> False | Some w \<Rightarrow> peq v w \<and> peq_items d e)"

datatype cmpop = OpEq | OpNe | OpGe | OpLe | OpGt | OpLt

text \<open>\<open>cmp_by op lt eq\<close>: the comparison when the operands are strictly ordered, or equal, or neither.\<close>

fun cmp_by :: "cmpop \<Rightarrow> bool \<Rightarrow> bool \<Rightarrow> bool \<Rightarrow> bool" where
  "cmp_by OpEq lt eq gt = eq"
| "cmp_by OpNe lt eq gt = (\<not> eq)"
| "cmp_by OpGe lt eq gt = (gt \<or> eq)"
| "cmp_by OpLe lt eq gt = (lt \<or> eq)"
| "cmp_by OpGt lt eq gt = gt"
| "cmp_by OpLt lt eq gt = lt"

definition fcmp :: "cmpop \<Rightarrow> pyfloat \<Rightarrow> pyfloat \<Rightarrow> bool" where
  "fcmp op x y = cmp_by op (flt x y) (feq x y) (flt y x)"

fun str_lt :: "string \<Rightarrow> string \<Rightarrow> bool" where
  "str_lt [] [] = False"
| "str_lt [] (_ # _) = True"
| "str_lt (_ # _) [] = False"
| "str_lt (c # s) (d # t) =
     (if c = d then str_lt s t else (of_char c :: nat) < of_char d)"

definition scmp :: "cmpop \<Rightarrow> string \<Rightarrow> string \<Rightarrow> bool" where
  "scmp op s t = cmp_by op (str_lt s t) (s = t) (str_lt t s)"

text \<open>
  The ordering operators. Numbers compare with numbers, strings with strings, lists
  element by element from the first difference; anything else raises \<open>TypeError\<close>.
\<close>

fun py_ord :: "cmpop \<Rightarrow> pyval \<Rightarrow> pyval \<Rightarrow> bool res"
  and py_ord_list :: "cmpop \<Rightarrow> pyval list \<Rightarrow> pyval list \<Rightarrow> bool res" where
  "py_ord op (PStr s) (PStr t) = Inr (scmp op s t)"
| "py_ord op (PList xs) (PList ys) = py_ord_list op xs ys"
| "py_ord op a b = (case (num_of a, num_of b) of
     (Some x, Some y) \<Rightarrow> Inr (fcmp op x y) | _ \<Rightarrow> Inl TypeError)"
| "py_ord_list op [] [] = Inr (cmp_by op False True False)"
| "py_ord_list op [] (_ # _) = Inr (cmp_by op True False False)"
| "py_ord_list op (_ # _) [] = Inr (cmp_by op False False True)"
| "py_ord_list op (x # xs) (y # ys) = (if peq x y then py_ord_list op xs ys else py_ord op x y)"

text \<open>The six operators: \<open>==\<close> and \<open>!=\<close> never raise.\<close>

fun py_cmp :: "cmpop \<Rightarrow> pyval \<Rightarrow> pyval \<Rightarrow> bool res" where
  "py_cmp OpEq a b = Inr (peq a b)"
| "py_cmp OpNe a b = Inr (\<not> peq a b)"
| "py_cmp op a b = py_ord op a b"

fun is_str :: "pyval \<Rightarrow> bool" where
  "is_str (PStr _) = True" | "is_str _ = False"

fun is_bool :: "pyval \<Rightarrow> bool" where
  "is_bool (PBool _) = True" | "is_bool _ = False"

text \<open>\<open>isinstance(v, int)\<close> holds of booleans too.\<close>

fun is_int :: "pyval \<Rightarrow> bool" where
  "is_int (PInt _) = True" | "is_int (PBool _) = True" | "is_int _ = False"

fun is_float :: "pyval \<Rightarrow> bool" where
  "is_float (PFloat _) = True" | "is_float _ = False"

fun is_list :: "pyval \<Rightarrow> bool" where
  "is_list (PList _) = True" | "is_list _ = False"

fun is_dict :: "pyval \<Rightarrow> bool" where
  "is_dict (PDict _) = True" | "is_dict _ = False"

fun hashable :: "pyval \<Rightarrow> bool" where
  "hashable (PList _) = False" | "hashable (PDict _) = False" | "hashable _ = True"

fun is_substr :: "string \<Rightarrow> string \<Rightarrow> bool" where
  "is_substr s [] = (s = [])"
| "is_substr s (c # t) = (take (length s) (c # t) = s \<or> is_substr s t)"

text \<open>\<open>x in container\<close>.\<close>

fun py_in :: "pyval \<Rightarrow> pyval \<Rightarrow> bool res" where
  "py_in x (PStr t) = (case x of PStr s \<Rightarrow> Inr (is_substr s t) | _ \<Rightarrow> Inl TypeError)"
| "py_in x (PList ys) = Inr (list_ex (peq x) ys)"
| "py_in x (PDict d) =
     (if hashable x then Inr (case x of PStr s \<Rightarrow> dhas d s | _ \<Rightarrow> False) else Inl TypeError)"
| "py_in x _ = Inl TypeError"

text \<open>\<open>d.get(k, default)\<close>: only a dictionary has the method.\<close>

fun py_get :: "pyval \<Rightarrow> string \<Rightarrow> pyval \<Rightarrow> pyval res" where
  "py_get (PDict d) k v = Inr (dget_or d k v)"
| "py_get _ k v = Inl AttributeError"

text \<open>\<open>d[k]\<close> for a string key: a list or a string wants an index, the scalars are not subscriptable.\<close>

fun py_item :: "pyval \<Rightarrow> string \<Rightarrow> pyval res" where
  "py_item (PDict d) k = (case dget d k of None \<Rightarrow> Inl KeyError | Some v \<Rightarrow> Inr v)"
| "py_item _ k = Inl TypeError"

text \<open>\<open>for x in v\<close>: a list's elements, a string's characters, a dictionary's keys.\<close>

fun py_iter :: "pyval \<Rightarrow> pyval list res" where
  "py_iter (PList xs) = Inr xs"
| "py_iter (PStr s) = Inr (map (\<lambda>c. PStr [c]) s)"
| "py_iter (PDict d) = Inr (map PStr (dkeys d))"
| "py_iter _ = Inl TypeError"

lemma peq_PStr [simp]: "peq (PStr s) v \<longleftrightarrow> v = PStr s" "peq v (PStr s) \<longleftrightarrow> v = PStr s"
  by (cases v; auto)+

lemma is_substr_Nil [simp]: "is_substr [] t"
  by (cases t) auto

lemma is_substr_single: "is_substr [c] t \<longleftrightarrow> c \<in> set t"
  by (induction t) auto

lemma dget_or_simps [simp]:
  "dget d k = Some w \<Longrightarrow> dget_or d k v = w" "dget d k = None \<Longrightarrow> dget_or d k v = v"
  by (simp_all add: dget_or_def)

section \<open>String methods\<close>

text \<open>\<open>str.isspace\<close> on code points below 256.\<close>

definition is_ws :: "char \<Rightarrow> bool" where
  "is_ws c = (let n = of_char c :: nat in
     (9 \<le> n \<and> n \<le> 13) \<or> (28 \<le> n \<and> n \<le> 32) \<or> n = 133 \<or> n = 160)"

definition lstrip :: "string \<Rightarrow> string" where
  "lstrip s = dropWhile is_ws s"

definition rstrip :: "string \<Rightarrow> string" where
  "rstrip s = rev (dropWhile is_ws (rev s))"

definition strip :: "string \<Rightarrow> string" where
  "strip s = rstrip (lstrip s)"

definition lower_char :: "char \<Rightarrow> char" where
  "lower_char c = (let n = of_char c :: nat in
     if (65 \<le> n \<and> n \<le> 90) \<or> (192 \<le> n \<and> n \<le> 222 \<and> n \<noteq> 215) then char_of (n + 32) else c)"

definition to_lower :: "string \<Rightarrow> string" where
  "to_lower s = map lower_char s"

definition starts_with :: "string \<Rightarrow> string \<Rightarrow> bool" where
  "starts_with p s \<longleftrightarrow> take (length p) s = p"

definition ends_with :: "string \<Rightarrow> string \<Rightarrow> bool" where
  "ends_with p s \<longleftrightarrow> starts_with (rev p) (rev s)"

text \<open>\<open>str.split(None, n)\<close>: at most \<open>n\<close> splits at runs of whitespace.\<close>

fun split_ws :: "nat \<Rightarrow> string \<Rightarrow> string list" where
  "split_ws n s = (let t = lstrip s in
     if t = [] then []
     else case n of
       0 \<Rightarrow> [t]
     | Suc m \<Rightarrow> takeWhile (\<lambda>c. \<not> is_ws c) t # split_ws m (dropWhile (\<lambda>c. \<not> is_ws c) t))"

declare split_ws.simps [simp del]

text \<open>\<open>str.split(c)\<close> for a one-character separator.\<close>

fun split_on :: "char \<Rightarrow> string \<Rightarrow> string list" where
  "split_on c [] = [[]]"
| "split_on c (d # s) =
     (if c = d then [] # split_on c s
      else case split_on c s of [] \<Rightarrow> [[d]] | w # ws \<Rightarrow> (d # w) # ws)"

fun join_with :: "string \<Rightarrow> string list \<Rightarrow> string" where
  "join_with sep [] = []"
| "join_with sep [w] = w"
| "join_with sep (w # ws) = w @ sep @ join_with sep ws"

lemma split_on_nonempty [simp]: "split_on c s \<noteq> []"
  by (induction s) (auto split: list.splits)

lemma join_split: "join_with [c] (split_on c s) = s"
proof (induction s)
  case Nil
  then show ?case by simp
next
  case (Cons d s)
  obtain w ws where w: "split_on c s = w # ws" by (cases "split_on c s") auto
  with Cons show ?case by (cases ws) auto
qed

lemma split_on_no_sep: "w \<in> set (split_on c s) \<Longrightarrow> c \<notin> set w"
  by (induction s arbitrary: w) (auto split: if_splits list.splits)

lemma split_on_id: "c \<notin> set s \<Longrightarrow> split_on c s = [s]"
  by (induction s) auto

lemma lstrip_Nil [simp]: "lstrip [] = []" by (simp add: lstrip_def)

lemma strip_Nil [simp]: "strip [] = []" by (simp add: strip_def rstrip_def)

lemma lstrip_idem [simp]: "lstrip (lstrip s) = lstrip s"
  by (simp add: lstrip_def)

lemma rstrip_idem [simp]: "rstrip (rstrip s) = rstrip s"
  by (simp add: rstrip_def)

lemma lstrip_eq_self: "s = [] \<or> \<not> is_ws (hd s) \<Longrightarrow> lstrip s = s"
  by (cases s) (auto simp: lstrip_def)

lemma rstrip_eq_self: "s = [] \<or> \<not> is_ws (last s) \<Longrightarrow> rstrip s = s"
  by (cases s rule: rev_cases) (auto simp: rstrip_def)

lemma rstrip_prefix: "\<exists>w. s = rstrip s @ w \<and> (\<forall>c \<in> set w. is_ws c)"
proof -
  have "rev s = takeWhile is_ws (rev s) @ dropWhile is_ws (rev s)" by simp
  then have "s = rev (dropWhile is_ws (rev s)) @ rev (takeWhile is_ws (rev s))"
    by (metis rev_append rev_rev_ident)
  then show ?thesis
    by (metis rstrip_def set_rev set_takeWhileD)
qed

lemma strip_last: "strip s \<noteq> [] \<Longrightarrow> \<not> is_ws (last (strip s))"
  unfolding strip_def rstrip_def
  by (metis hd_dropWhile last_rev rev_is_Nil_conv)

lemma strip_hd: assumes "strip s \<noteq> []" shows "\<not> is_ws (hd (strip s))"
proof -
  obtain w where w: "lstrip s = strip s @ w" using rstrip_prefix [of "lstrip s"] by (auto simp: strip_def)
  with assms have "hd (lstrip s) = hd (strip s)" by simp
  moreover have "lstrip s \<noteq> []" using w assms by auto
  ultimately show ?thesis by (metis hd_dropWhile lstrip_def)
qed

lemma strip_idem [simp]: "strip (strip s) = strip s"
  using strip_hd [of s] strip_last [of s]
  by (cases "strip s = []") (auto simp: strip_def [of "strip s"] lstrip_eq_self rstrip_eq_self)

section \<open>Number parsers\<close>

definition digit_of :: "char \<Rightarrow> nat option" where
  "digit_of c = (let n = of_char c :: nat in if 48 \<le> n \<and> n \<le> 57 then Some (n - 48) else None)"

text \<open>Digits with single underscores between them, as Python's numerals allow.\<close>

fun digits_acc :: "nat \<Rightarrow> bool \<Rightarrow> string \<Rightarrow> nat option" where
  "digits_acc acc prev [] = (if prev then Some acc else None)"
| "digits_acc acc prev (c # s) =
     (if c = CHR ''_'' then (if prev then digits_acc acc False s else None)
      else case digit_of c of None \<Rightarrow> None | Some d \<Rightarrow> digits_acc (10 * acc + d) True s)"

definition parse_digits :: "string \<Rightarrow> nat option" where
  "parse_digits s = digits_acc 0 False s"

definition sign_split :: "string \<Rightarrow> bool \<times> string" where
  "sign_split s = (case s of
      [] \<Rightarrow> (False, [])
    | c # t \<Rightarrow> if c = CHR ''-'' then (True, t) else if c = CHR ''+'' then (False, t) else (False, s))"

text \<open>\<open>int(s)\<close>; \<open>None\<close> stands for the \<open>ValueError\<close>.\<close>

definition parse_int :: "string \<Rightarrow> int option" where
  "parse_int s = (let (neg, t) = sign_split (strip s) in
     map_option (\<lambda>n. if neg then - int n else int n) (parse_digits t))"

text \<open>\<open>float(s)\<close>: a decimal with optional fraction and exponent, an infinity or not-a-number.\<close>

definition digit_len :: "string \<Rightarrow> nat" where
  "digit_len s = length (filter (\<lambda>c. c \<noteq> CHR ''_'') s)"

definition parse_exp :: "string \<Rightarrow> int option" where
  "parse_exp s = (let (neg, t) = sign_split s in
     map_option (\<lambda>n. if neg then - int n else int n) (parse_digits t))"

definition pow10 :: "int \<Rightarrow> rat" where
  "pow10 e = (if 0 \<le> e then 10 ^ nat e else 1 / 10 ^ nat (- e))"

definition parse_mantissa :: "string \<Rightarrow> rat option" where
  "parse_mantissa s = (case split_on (CHR ''.'') s of
      [w] \<Rightarrow> map_option of_nat (parse_digits w)
    | [w, f] \<Rightarrow>
        (if w = [] then map_option (\<lambda>n. of_nat n * pow10 (- int (digit_len f))) (parse_digits f)
         else if f = [] then map_option of_nat (parse_digits w)
         else case (parse_digits w, parse_digits f) of
           (Some m, Some n) \<Rightarrow> Some (of_nat m + of_nat n * pow10 (- int (digit_len f)))
         | _ \<Rightarrow> None)
    | _ \<Rightarrow> None)"

definition parse_float :: "string \<Rightarrow> pyfloat option" where
  "parse_float s = (let (neg, t) = sign_split (strip s); l = to_lower t in
     if l = ''inf'' \<or> l = ''infinity'' then Some (Infty (\<not> neg))
     else if l = ''nan'' then Some NaN
     else let r = (case split_on (CHR ''e'') l of
              [m] \<Rightarrow> parse_mantissa m
            | [m, e] \<Rightarrow> (case (parse_mantissa m, parse_exp e) of
                 (Some q, Some x) \<Rightarrow> Some (q * pow10 x) | _ \<Rightarrow> None)
            | _ \<Rightarrow> None)
       in map_option (\<lambda>q. Fin (if neg then - q else q)) r)"

text \<open>\<open>int(v)\<close> of a dynamic value: a float is truncated towards zero.\<close>

definition trunc_rat :: "rat \<Rightarrow> int" where
  "trunc_rat q = (if q < 0 then - \<lfloor>- q\<rfloor> else \<lfloor>q\<rfloor>)"

fun py_int :: "pyval \<Rightarrow> int res" where
  "py_int (PBool b) = Inr (if b then 1 else 0)"
| "py_int (PInt n) = Inr n"
| "py_int (PFloat (Fin q)) = Inr (trunc_rat q)"
| "py_int (PFloat (Infty _)) = Inl OverflowError"
| "py_int (PFloat NaN) = Inl ValueError"
| "py_int (PStr s) = (case parse_int s of None \<Rightarrow> Inl ValueError | Some n \<Rightarrow> Inr n)"
| "py_int _ = Inl TypeError"

text \<open>\<open>float(v)\<close>.\<close>

fun py_float :: "pyval \<Rightarrow> pyfloat res" where
  "py_float (PBool b) = Inr (Fin (if b then 1 else 0))"
| "py_float (PInt n) = Inr (Fin (of_int n))"
| "py_float (PFloat f) = Inr f"
| "py_float (PStr s) = (case parse_float s of None \<Rightarrow> Inl ValueError | Some f \<Rightarrow> Inr f)"
| "py_float _ = Inl TypeError"

text \<open>\<open>str(v)\<close>. The rendering of floats and of containers is an argument.\<close>

fun nat_digits :: "nat \<Rightarrow> string" where
  "nat_digits n = (if n < 10 then [char_of (48 + n)] else nat_digits (n div 10) @ [char_of (48 + n mod 10)])"

declare nat_digits.simps [simp del]

definition int_str :: "int \<Rightarrow> string" where
  "int_str n = (if n < 0 then ''-'' @ nat_digits (nat (- n)) else nat_digits (nat n))"

fun py_str :: "(pyval \<Rightarrow> string) \<Rightarrow> pyval \<Rightarrow> string" where
  "py_str render PNone = ''None''"
| "py_str render (PBool b) = (if b then ''True'' else ''False'')"
| "py_str render (PInt n) = int_str n"
| "py_str render (PStr s) = s"
| "py_str render v = render v"

text \<open>\<open>v or w\<close>.\<close>

definition py_or :: "pyval \<Rightarrow> pyval \<Rightarrow> pyval" where
  "py_or v w = (if truthy v then v else w)"

text \<open>\<open>v.items()\<close>, and \<open>k in d\<close> for a dictionary with dynamic keys: an unhashable key raises.\<close>

fun py_items :: "pyval \<Rightarrow> pydict res" where
  "py_items (PDict d) = Inr d"
| "py_items _ = Inl AttributeError"

definition key_in :: "pyval \<Rightarrow> (pyval, 'v) dict \<Rightarrow> bool res" where
  "key_in k d = (if hashable k then Inr (dhas d k) else Inl TypeError)"

definition key_put :: "pyval \<Rightarrow> 'v \<Rightarrow> (pyval, 'v) dict \<Rightarrow> (pyval, 'v) dict res" where
  "key_put k v d = (if hashable k then Inr (dput k v d) else Inl TypeError)"

definition key_get :: "(pyval, 'v) dict \<Rightarrow> pyval \<Rightarrow> 'v option res" where
  "key_get d k = (if hashable k then Inr (dget d k) else Inl TypeError)"

text \<open>\<open>xs[:n]\<close>, a negative bound counting from the end.\<close>

definition slice_to :: "int \<Rightarrow> 'a list \<Rightarrow> 'a list" where
  "slice_to n xs = (if 0 \<le> n then take (nat n) xs else take (length xs - nat (- n)) xs)"

text \<open>A loop over a list that threads a state and raises where a step does.\<close>

fun fold_res :: "('a \<Rightarrow> 's \<Rightarrow> 'e + 's) \<Rightarrow> 'a list \<Rightarrow> 's \<Rightarrow> 'e + 's" where
  "fold_res f [] s = Inr s"
| "fold_res f (x # xs) s = res_bind (f x s) (fold_res f xs)"

lemma fold_res_inv:
  assumes "fold_res f xs s = Inr t" "P s"
    and "\<And>x u v. x \<in> set xs \<Longrightarrow> P u \<Longrightarrow> f x u = Inr v \<Longrightarrow> P v"
  shows "P t"
  using assms by (induction xs arbitrary: s) (auto simp: res_bind_Inr_iff)

lemma map_res_mem:
  "map_res f xs = Inr ys \<Longrightarrow> y \<in> set ys \<Longrightarrow> \<exists>x \<in> set xs. f x = Inr y"
  by (induction xs arbitrary: ys) (auto simp: res_bind_Inr_iff)

text \<open>\<open>round(q, n)\<close>: to the nearest multiple, ties to the even one.\<close>

definition round_half_even :: "rat \<Rightarrow> int" where
  "round_half_even q = (let f = \<lfloor>q\<rfloor>; r = q - of_int f in
     if r < 1 / 2 then f else if r > 1 / 2 then f + 1 else if even f then f else f + 1)"

definition py_round :: "nat \<Rightarrow> rat \<Rightarrow> rat" where
  "py_round n q = of_int (round_half_even (q * 10 ^ n)) / 10 ^ n"

text \<open>\<open>f"{q:.8g}"\<close>: eight significant digits, without trailing zeros, with an exponent where it is below -4 or above 7.\<close>

definition strip_zeros :: "string \<Rightarrow> string" where
  "strip_zeros s = rev (dropWhile (\<lambda>c. c = CHR ''0'') (rev s))"

text \<open>The last digits of a number, and the exponent of its leading digit.\<close>

fun last_digits :: "nat \<Rightarrow> int \<Rightarrow> string" where
  "last_digits 0 m = []"
| "last_digits (Suc k) m = last_digits k (m div 10) @ [char_of (48 + m mod 10)]"

fun int_log10 :: "int \<Rightarrow> nat" where
  "int_log10 n = (if n < 10 then 0 else Suc (int_log10 (n div 10)))"

declare int_log10.simps [simp del]

definition lead_exp :: "rat \<Rightarrow> int" where
  "lead_exp q = (if 1 \<le> q then int (int_log10 \<lfloor>q\<rfloor>) else - int (int_log10 (\<lceil>1 / q\<rceil> - 1)) - 1)"

definition with_point :: "string \<Rightarrow> string \<Rightarrow> string" where
  "with_point w f = (let t = strip_zeros f in if t = [] then w else w @ ''.'' @ t)"

definition fmt_8g :: "pyfloat \<Rightarrow> string" where
  "fmt_8g x = (case x of
      Infty b \<Rightarrow> if b then ''inf'' else ''-inf''
    | NaN \<Rightarrow> ''nan''
    | Fin q \<Rightarrow> if q = 0 then ''0'' else let a = \<bar>q\<bar>; e0 = lead_exp a; m0 = round_half_even (a * pow10 (7 - e0));
                 (m, e) = (if m0 = 100000000 then (10000000, e0 + 1) else (m0, e0));
                 ds = last_digits 8 m;
                 body = (if -4 \<le> e \<and> e < 8
                   then (if 0 \<le> e then with_point (take (nat e + 1) ds) (drop (nat e + 1) ds) else with_point ''0'' (replicate (nat (- e) - 1) (CHR ''0'') @ ds))
                   else with_point (take 1 ds) (drop 1 ds) @ (if e < 0 then ''e-'' else ''e+'') @ last_digits (max 2 (int_log10 \<bar>e\<bar> + 1)) \<bar>e\<bar>)
             in if q < 0 then ''-'' @ body else body)"

text \<open>Paths are lists of parts: joining splits at slashes, drops empty parts and single dots, and an absolute path wins.\<close>

type_synonym path = "string list"

definition path_parts :: "string \<Rightarrow> path" where
  "path_parts s = filter (\<lambda>p. p \<noteq> [] \<and> p \<noteq> ''.'') (split_on (CHR ''/'') s)"

definition join_path :: "path \<Rightarrow> string \<Rightarrow> path" where
  "join_path base s = (if starts_with ''/'' s then path_parts s else base @ path_parts s)"

end
