(* ===== verification/Permissions.thy ===== *)
theory Permissions
  imports Py_Values
begin

unbundle bit_operations_syntax

text \<open>
  Module permissions, \<^verbatim>\<open>core/permissions.py\<close>: the role tiers, the octal mode, group membership,
  the extended ACL, the domain-role overlay and the guest opt-in. A permission block is an untyped
  JSON object, so every shape test of the code is a branch here and every operation the code applies
  to a value of the wrong type raises. An operation is the integer value of an \<open>IntFlag\<close>, so unions of
  operations are operations too.
\<close>

section \<open>Operations and tiers\<close>

definition READ :: int where "READ = 4"
definition WRITE :: int where "WRITE = 2"
definition EXECUTE :: int where "EXECUTE = 1"
definition INGEST :: int where "INGEST = 8"

lemmas operation_defs = READ_def WRITE_def EXECUTE_def INGEST_def

definition TIER_LEVELS :: "(string, nat) dict" where
  "TIER_LEVELS = [(''root'', 0), (''super_admin'', 1), (''admin'', 2), (''operator'', 3),
     (''half_operator'', 4), (''user'', 5), (''guest'', 6)]"

definition check_min_tier :: "string \<Rightarrow> string \<Rightarrow> bool" where
  "check_min_tier user_role min_tier \<longleftrightarrow>
     dget_or TIER_LEVELS user_role 99 \<le> dget_or TIER_LEVELS min_tier 99"

definition octal_digit :: "char \<Rightarrow> int option" where
  "octal_digit c = (if c \<in> set ''01234567'' then Some (of_char c - 48) else None)"

fun parse_octal :: "pyval \<Rightarrow> (int \<times> int \<times> int) res" where
  "parse_octal (PStr [a, b, c]) = (case (octal_digit a, octal_digit b, octal_digit c) of
      (Some x, Some y, Some z) \<Rightarrow> Inr (x, y, z) | _ \<Rightarrow> Inl ValueError)"
| "parse_octal _ = Inl ValueError"

definition rwx :: "int \<Rightarrow> string" where
  "rwx bits = [if bits AND 4 \<noteq> 0 then CHR ''r'' else CHR ''-'',
               if bits AND 2 \<noteq> 0 then CHR ''w'' else CHR ''-'',
               if bits AND 1 \<noteq> 0 then CHR ''x'' else CHR ''-'']"

definition mode_to_symbolic :: "pyval \<Rightarrow> string res" where
  "mode_to_symbolic mode = res_bind (parse_octal mode)
     (\<lambda>(owner_bits, group_bits, others_bits). Inr (rwx owner_bits @ rwx group_bits @ rwx others_bits))"

section \<open>Group membership, ACL and domain roles\<close>

text \<open>The keyword arguments of \<open>check_permission\<close>.\<close>

record perm_ctx =
  pc_domain_role :: "string option"
  pc_domain_roles_config :: "pydict option"
  pc_groups_config :: "pydict option"
  pc_governed_modules :: "string list option"
  pc_module_id :: "string option"

definition no_ctx :: perm_ctx where
  "no_ctx = \<lparr>pc_domain_role = None, pc_domain_roles_config = None, pc_groups_config = None,
             pc_governed_modules = None, pc_module_id = None\<rparr>"

text \<open>\<open>if domain_role\<close> and \<open>if groups_config\<close>: the empty string and the empty dictionary are false.\<close>

definition opt_nonempty :: "'a list option \<Rightarrow> 'a list option" where
  "opt_nonempty x = (case x of Some (y # ys) \<Rightarrow> Some (y # ys) | _ \<Rightarrow> None)"

definition in_members :: "string \<Rightarrow> string option \<Rightarrow> pyval \<Rightarrow> bool res" where
  "in_members user_role domain_role grp =
     res_bind (py_get grp ''members'' (PDict [])) (\<lambda>members.
     res_bind (py_get members ''system_roles'' (PList [])) (\<lambda>sys_roles.
     res_bind (py_in (PStr user_role) sys_roles) (\<lambda>in_sys.
       if in_sys then Inr True
       else res_bind (py_get members ''domain_roles'' (PList [])) (\<lambda>dom_roles.
         case opt_nonempty domain_role of None \<Rightarrow> Inr False
         | Some r \<Rightarrow> py_in (PStr r) dom_roles))))"

definition is_group_member :: "string \<Rightarrow> string option \<Rightarrow> pydict option \<Rightarrow> pyval \<Rightarrow> bool res" where
  "is_group_member user_role domain_role groups_config group_name =
     (if user_role = ''admin'' then Inr True
      else case opt_nonempty groups_config of
        None \<Rightarrow> Inr (group_name = PStr user_role)
      | Some g \<Rightarrow> res_bind (py_in group_name (PDict g)) (\<lambda>listed.
          if \<not> listed then Inr (group_name = PStr user_role)
          else case group_name of
            PStr n \<Rightarrow> in_members user_role domain_role (dget_or g n PNone)
          | _ \<Rightarrow> Inr False))"

definition op_char :: "int \<Rightarrow> string" where
  "op_char operation =
     (if operation = READ then ''r'' else if operation = WRITE then ''w''
      else if operation = EXECUTE then ''x'' else if operation = INGEST then ''i'' else '''')"

text \<open>The scan of an ACL for an entry with \<open>entry[key] == role\<close> whose access string holds \<open>ch\<close>.\<close>

definition acl_entry_grants :: "string \<Rightarrow> string \<Rightarrow> string \<Rightarrow> pyval \<Rightarrow> bool res" where
  "acl_entry_grants key role ch entry = (case entry of
      PDict e \<Rightarrow> if dget_or e key PNone \<noteq> PStr role then Inr False
                  else py_in (PStr ch) (dget_or e ''access'' (PStr ''''))
    | _ \<Rightarrow> Inr False)"

definition acl_grants :: "string \<Rightarrow> string \<Rightarrow> string \<Rightarrow> pyval option \<Rightarrow> bool res" where
  "acl_grants key role ch acl = (case acl of
      Some (PList es) \<Rightarrow> any_res (acl_entry_grants key role ch) es
    | _ \<Rightarrow> Inr False)"

fun find_role :: "string \<Rightarrow> pyval list \<Rightarrow> pydict option" where
  "find_role r [] = None"
| "find_role r (PDict d # ds) =
     (if dget_or d ''role_id'' PNone = PStr r then Some d else find_role r ds)"
| "find_role r (_ # ds) = find_role r ds"

definition check_domain_role :: "string \<Rightarrow> string \<Rightarrow> pydict \<Rightarrow> pydict \<Rightarrow> bool res" where
  "check_domain_role domain_role ch config module_permissions =
     (case dget config ''roles'' of
        Some (PList roles) \<Rightarrow>
          (case find_role domain_role roles of
             None \<Rightarrow> Inr False
           | Some role_def \<Rightarrow>
               res_bind (py_in (PStr ch) (dget_or role_def ''default_access'' (PStr ''''))) (\<lambda>b.
                 if b then Inr True
                 else res_bind (acl_grants ''domain_role'' domain_role ch (dget config ''role_acl'')) (\<lambda>b.
                   if b then Inr True
                   else acl_grants ''domain_role'' domain_role ch (dget module_permissions ''acl''))))
      | _ \<Rightarrow> Inr False)"

section \<open>The decision\<close>

definition out_of_scope :: "string \<Rightarrow> perm_ctx \<Rightarrow> bool" where
  "out_of_scope user_role ctx \<longleftrightarrow> user_role = ''admin'' \<and>
     (case (pc_governed_modules ctx, pc_module_id ctx) of
        (Some gs, Some m) \<Rightarrow> m \<notin> set gs | _ \<Rightarrow> False)"

text \<open>Step 3, the guest: only the \<open>guest_access\<close> block counts.\<close>

definition guest_char :: "int \<Rightarrow> string" where
  "guest_char operation =
     (if operation = READ then ''r'' else if operation = WRITE then ''w''
      else if operation = EXECUTE then ''x'' else '''')"

definition guest_check :: "pydict \<Rightarrow> int \<Rightarrow> bool res" where
  "guest_check module_permissions operation = (case dget module_permissions ''guest_access'' of
      Some (PDict ga) \<Rightarrow>
        if \<not> truthy (dget_or ga ''enabled'' PNone) then Inr False
        else py_in (PStr (guest_char operation)) (dget_or ga ''permissions'' (PStr ''''))
    | _ \<Rightarrow> Inr False)"

text \<open>Step 4, the category whose bits apply.\<close>

definition category_bits ::
  "string \<Rightarrow> string \<Rightarrow> pydict \<Rightarrow> perm_ctx \<Rightarrow> int \<times> int \<times> int \<Rightarrow> int res" where
  "category_bits user_id user_role module_permissions ctx = (\<lambda>(owner_bits, group_bits, others_bits).
     if dget_or module_permissions ''owner'' (PStr '''') = PStr user_id then Inr owner_bits
     else res_bind (is_group_member user_role (pc_domain_role ctx) (pc_groups_config ctx)
                      (dget_or module_permissions ''group'' (PStr '''')))
            (\<lambda>member. Inr (if member then group_bits else others_bits)))"

text \<open>Step 7, the additive overlay.\<close>

definition domain_overlay :: "pydict \<Rightarrow> int \<Rightarrow> perm_ctx \<Rightarrow> bool res" where
  "domain_overlay module_permissions operation ctx =
     (case (opt_nonempty (pc_domain_role ctx), opt_nonempty (pc_domain_roles_config ctx)) of
        (Some r, Some config) \<Rightarrow>
          if op_char operation = '''' then Inr False
          else check_domain_role r (op_char operation) config module_permissions
      | _ \<Rightarrow> Inr False)"

definition check_permission :: "string \<Rightarrow> string \<Rightarrow> pydict \<Rightarrow> int \<Rightarrow> perm_ctx \<Rightarrow> bool res" where
  "check_permission user_id user_role module_permissions operation ctx =
     (if user_role = ''root'' then Inr True
      else if out_of_scope user_role ctx then Inr False
      else if operation = INGEST then
        acl_grants ''role'' user_role ''i'' (dget module_permissions ''acl'')
      else if user_role = ''guest'' then guest_check module_permissions operation
      else res_bind (parse_octal (dget_or module_permissions ''mode'' (PStr ''000''))) (\<lambda>mode.
           res_bind (category_bits user_id user_role module_permissions ctx mode) (\<lambda>bits.
             if bits AND operation \<noteq> 0 then Inr True
             else res_bind (acl_grants ''role'' user_role (op_char operation)
                              (dget module_permissions ''acl'')) (\<lambda>b.
               if b then Inr True else domain_overlay module_permissions operation ctx))))"

datatype perm_error = PermissionError | PermRaise py_exn

definition check_permission_or_raise ::
  "string \<Rightarrow> string \<Rightarrow> pydict \<Rightarrow> int \<Rightarrow> perm_ctx \<Rightarrow> perm_error + unit" where
  "check_permission_or_raise user_id user_role module_permissions operation ctx =
     (case check_permission user_id user_role module_permissions operation ctx of
        Inl e \<Rightarrow> Inl (PermRaise e)
      | Inr False \<Rightarrow> Inl PermissionError
      | Inr True \<Rightarrow> Inr ())"

section \<open>Shared facts\<close>

lemma in_members_admin [simp]: "is_group_member ''admin'' dr g n = Inr True"
  by (simp add: is_group_member_def)

lemma operation_neq [simp]:
  "READ \<noteq> WRITE" "READ \<noteq> EXECUTE" "READ \<noteq> INGEST" "WRITE \<noteq> EXECUTE" "WRITE \<noteq> INGEST"
  "EXECUTE \<noteq> INGEST" "WRITE \<noteq> READ" "EXECUTE \<noteq> READ" "INGEST \<noteq> READ" "EXECUTE \<noteq> WRITE"
  "INGEST \<noteq> WRITE" "INGEST \<noteq> EXECUTE"
  by (simp_all add: operation_defs)

lemma op_char_simps [simp]:
  "op_char READ = ''r''" "op_char WRITE = ''w''" "op_char EXECUTE = ''x''" "op_char INGEST = ''i''"
  "guest_char READ = ''r''" "guest_char WRITE = ''w''" "guest_char EXECUTE = ''x''"
  by (simp_all add: op_char_def guest_char_def)

lemma acl_grants_simps [simp]:
  "acl_grants key role ch None = Inr False"
  "acl_grants key role ch (Some (PList es)) = any_res (acl_entry_grants key role ch) es"
  by (simp_all add: acl_grants_def)

lemma octal_digit_range: "octal_digit c = Some n \<Longrightarrow> 0 \<le> n \<and> n \<le> 7"
  by (auto simp: octal_digit_def split: if_splits)

lemma parse_octal_range:
  "parse_octal v = Inr (x, y, z) \<Longrightarrow> x \<in> {0..7} \<and> y \<in> {0..7} \<and> z \<in> {0..7}"
  by (induction v rule: parse_octal.induct)
     (auto split: option.splits dest: octal_digit_range)

section \<open>A typed permission block and what it grants\<close>

text \<open>
  The abstract specification: permission blocks as data of the right shape and the access they
  grant as a predicate with no scan and no exception. \<open>encode_block\<close> and its companions write the
  typed data as the JSON object the code reads.
\<close>

datatype acl_entry = RoleEntry string string | DomainRoleEntry string string

record block =
  b_mode :: string
  b_owner :: string
  b_group :: string
  b_acl :: "acl_entry list"
  b_guest :: "(bool \<times> string) option"

record role_config =
  rc_roles :: "(string, string) dict"
  rc_role_acl :: "(string \<times> string) list"

type_synonym groups = "(string, string list \<times> string list) dict"

fun encode_entry :: "acl_entry \<Rightarrow> pyval" where
  "encode_entry (RoleEntry r a) = PDict [(''role'', PStr r), (''access'', PStr a)]"
| "encode_entry (DomainRoleEntry r a) = PDict [(''domain_role'', PStr r), (''access'', PStr a)]"

definition encode_block :: "block \<Rightarrow> pydict" where
  "encode_block b =
     [(''mode'', PStr (b_mode b)), (''owner'', PStr (b_owner b)), (''group'', PStr (b_group b)),
      (''acl'', PList (map encode_entry (b_acl b)))] @
     (case b_guest b of None \<Rightarrow> []
      | Some (en, perms) \<Rightarrow> [(''guest_access'', PDict [(''enabled'', PBool en), (''permissions'', PStr perms)])])"

definition encode_groups :: "groups \<Rightarrow> pydict" where
  "encode_groups g = map (\<lambda>(n, syss, doms). (n, PDict [(''members'',
     PDict [(''system_roles'', PList (map PStr syss)), (''domain_roles'', PList (map PStr doms))])])) g"

definition encode_roles :: "role_config \<Rightarrow> pydict" where
  "encode_roles c =
     [(''roles'', PList (map (\<lambda>(r, a). PDict [(''role_id'', PStr r), (''default_access'', PStr a)]) (rc_roles c))),
      (''role_acl'', PList (map (\<lambda>(r, a). PDict [(''domain_role'', PStr r), (''access'', PStr a)]) (rc_role_acl c)))]"

definition typed_ctx ::
  "string option \<Rightarrow> role_config option \<Rightarrow> groups \<Rightarrow> string list option \<Rightarrow> string option \<Rightarrow> perm_ctx" where
  "typed_ctx dr rc g gs m = \<lparr>pc_domain_role = dr, pc_domain_roles_config = map_option encode_roles rc,
     pc_groups_config = Some (encode_groups g), pc_governed_modules = gs, pc_module_id = m\<rparr>"

definition spec_member :: "string \<Rightarrow> string option \<Rightarrow> groups \<Rightarrow> string \<Rightarrow> bool" where
  "spec_member role dr g n \<longleftrightarrow> role = ''admin'' \<or>
     (case dget g n of
        None \<Rightarrow> n = role
      | Some (syss, doms) \<Rightarrow> role \<in> set syss \<or> (\<exists>r. dr = Some r \<and> r \<noteq> [] \<and> r \<in> set doms))"

definition spec_overlay :: "block \<Rightarrow> string option \<Rightarrow> role_config option \<Rightarrow> string \<Rightarrow> bool" where
  "spec_overlay b dr rc ch \<longleftrightarrow> ch \<noteq> [] \<and> (\<exists>r c d. dr = Some r \<and> r \<noteq> [] \<and> rc = Some c \<and>
     dget (rc_roles c) r = Some d \<and>
     (is_substr ch d \<or> (\<exists>a. (r, a) \<in> set (rc_role_acl c) \<and> is_substr ch a) \<or>
      (\<exists>a. DomainRoleEntry r a \<in> set (b_acl b) \<and> is_substr ch a)))"

definition spec_granted ::
  "string \<Rightarrow> string \<Rightarrow> block \<Rightarrow> int \<times> int \<times> int \<Rightarrow> int \<Rightarrow>
   string option \<Rightarrow> role_config option \<Rightarrow> groups \<Rightarrow> bool" where
  "spec_granted uid role b mode operation dr rc g =
     (case mode of (ob, gb, tb) \<Rightarrow>
        (if b_owner b = uid then ob else if spec_member role dr g (b_group b) then gb else tb) AND operation \<noteq> 0
        \<or> (\<exists>a. RoleEntry role a \<in> set (b_acl b) \<and> is_substr (op_char operation) a)
        \<or> spec_overlay b dr rc (op_char operation))"

lemma encode_block_gets [simp]:
  "dget (encode_block b) ''mode'' = Some (PStr (b_mode b))"
  "dget (encode_block b) ''owner'' = Some (PStr (b_owner b))"
  "dget (encode_block b) ''group'' = Some (PStr (b_group b))"
  "dget (encode_block b) ''acl'' = Some (PList (map encode_entry (b_acl b)))"
  "dget (encode_block b) ''guest_access'' = map_option
     (\<lambda>(en, perms). PDict [(''enabled'', PBool en), (''permissions'', PStr perms)]) (b_guest b)"
  by (simp_all add: encode_block_def split: option.splits)

lemma entry_role_typed:
  "acl_entry_grants ''role'' role ch (encode_entry e) =
     Inr (case e of RoleEntry r a \<Rightarrow> r = role \<and> is_substr ch a | DomainRoleEntry r a \<Rightarrow> False)"
  by (cases e) (auto simp: acl_entry_grants_def dget_or_def)

lemma entry_domain_role_typed:
  "acl_entry_grants ''domain_role'' r ch (encode_entry e) =
     Inr (case e of DomainRoleEntry r' a \<Rightarrow> r' = r \<and> is_substr ch a | RoleEntry r' a \<Rightarrow> False)"
  by (cases e) (auto simp: acl_entry_grants_def dget_or_def)

lemma ex_entry_iff:
  "(\<exists>e \<in> set es. case e of RoleEntry r a \<Rightarrow> r = role \<and> P a | DomainRoleEntry r a \<Rightarrow> False) \<longleftrightarrow>
     (\<exists>a. RoleEntry role a \<in> set es \<and> P a)"
  "(\<exists>e \<in> set es. case e of DomainRoleEntry r a \<Rightarrow> r = role \<and> P a | RoleEntry r a \<Rightarrow> False) \<longleftrightarrow>
     (\<exists>a. DomainRoleEntry role a \<in> set es \<and> P a)"
  by (induction es) (auto split: acl_entry.splits)

lemma acl_role_typed [simp]:
  "any_res (acl_entry_grants ''role'' role ch) (map encode_entry es) =
     Inr (\<exists>a. RoleEntry role a \<in> set es \<and> is_substr ch a)"
  by (simp only: any_res_map any_res_total [OF entry_role_typed] ex_entry_iff)

lemma acl_domain_role_typed [simp]:
  "any_res (acl_entry_grants ''domain_role'' r ch) (map encode_entry es) =
     Inr (\<exists>a. DomainRoleEntry r a \<in> set es \<and> is_substr ch a)"
  by (simp only: any_res_map any_res_total [OF entry_domain_role_typed] ex_entry_iff)

lemma role_acl_typed [simp]:
  "any_res (acl_entry_grants ''domain_role'' r ch)
     (map (\<lambda>(r, a). PDict [(''domain_role'', PStr r), (''access'', PStr a)]) xs) =
     Inr (\<exists>a. (r, a) \<in> set xs \<and> is_substr ch a)"
  by (induction xs) (auto simp: acl_entry_grants_def dget_or_def)

lemma find_role_typed [simp]:
  "find_role r (map (\<lambda>(r, a). PDict [(''role_id'', PStr r), (''default_access'', PStr a)]) xs) =
     map_option (\<lambda>a. [(''role_id'', PStr r), (''default_access'', PStr a)]) (dget xs r)"
  by (induction xs) (auto simp: dget_or_def)

lemma encode_groups_get: "dget (encode_groups g) n = map_option (\<lambda>(syss, doms). PDict [(''members'',
     PDict [(''system_roles'', PList (map PStr syss)), (''domain_roles'', PList (map PStr doms))])]) (dget g n)"
  by (induction g) (auto simp: encode_groups_def)

lemma encode_groups_empty [simp]: "encode_groups g = [] \<longleftrightarrow> g = []"
  by (simp add: encode_groups_def)

lemma list_ex_PStr [simp]: "list_ex (peq (PStr s)) (map PStr xs) \<longleftrightarrow> s \<in> set xs"
  by (auto simp: list_ex_iff)

lemma opt_nonempty_iff:
  "opt_nonempty x = None \<longleftrightarrow> x = None \<or> x = Some []"
  "opt_nonempty x = Some y \<longleftrightarrow> x = Some y \<and> y \<noteq> []"
  by (auto simp: opt_nonempty_def split: option.splits list.splits)

lemma in_members_typed:
  "in_members role dr (PDict [(''members'', PDict [(''system_roles'', PList (map PStr syss)),
     (''domain_roles'', PList (map PStr doms))])]) =
   Inr (role \<in> set syss \<or> (\<exists>r. dr = Some r \<and> r \<noteq> [] \<and> r \<in> set doms))"
  by (auto simp: in_members_def dget_or_def opt_nonempty_iff split: option.splits)

lemma is_group_member_typed:
  "is_group_member role dr (Some (encode_groups g)) (PStr n) = Inr (spec_member role dr g n)"
proof (cases "role = ''admin''")
  case True
  then show ?thesis by (simp add: spec_member_def)
next
  case admin: False
  show ?thesis
  proof (cases "g = []")
    case True
    with admin show ?thesis
      by (auto simp: is_group_member_def spec_member_def opt_nonempty_def encode_groups_def)
  next
    case False
    then have g: "opt_nonempty (Some (encode_groups g)) = Some (encode_groups g)"
      by (simp add: opt_nonempty_iff)
    show ?thesis
      using admin by (cases "dget g n")
        (auto simp: is_group_member_def g spec_member_def dhas_iff encode_groups_get dget_or_def
           in_members_typed split: prod.splits)
  qed
qed

lemma overlay_typed:
  "domain_overlay (encode_block b) operation (typed_ctx dr rc g gs m) =
     Inr (spec_overlay b dr rc (op_char operation))"
proof -
  have ne: "encode_roles c \<noteq> []" for c by (simp add: encode_roles_def)
  show ?thesis
    by (cases dr; cases rc)
       (auto simp: domain_overlay_def typed_ctx_def spec_overlay_def opt_nonempty_def ne
          check_domain_role_def encode_roles_def dget_or_def split: option.splits list.splits)
qed

definition spec_scope :: "string \<Rightarrow> string list option \<Rightarrow> string option \<Rightarrow> bool" where
  "spec_scope role gs m \<longleftrightarrow> (role = ''admin'' \<longrightarrow> (\<forall>G M. gs = Some G \<and> m = Some M \<longrightarrow> M \<in> set G))"

definition spec_guest :: "block \<Rightarrow> int \<Rightarrow> bool" where
  "spec_guest b operation \<longleftrightarrow> (\<exists>perms. b_guest b = Some (True, perms) \<and> is_substr (guest_char operation) perms)"

definition spec_access ::
  "string \<Rightarrow> string \<Rightarrow> block \<Rightarrow> int \<times> int \<times> int \<Rightarrow> int \<Rightarrow> string option \<Rightarrow> role_config option \<Rightarrow>
   groups \<Rightarrow> string list option \<Rightarrow> string option \<Rightarrow> bool" where
  "spec_access uid role b mode operation dr rc g gs m \<longleftrightarrow> role = ''root'' \<or> (spec_scope role gs m \<and>
     (if operation = INGEST then \<exists>a. RoleEntry role a \<in> set (b_acl b) \<and> CHR ''i'' \<in> set a
      else if role = ''guest'' then spec_guest b operation
      else spec_granted uid role b mode operation dr rc g))"

lemma out_of_scope_typed: "out_of_scope role (typed_ctx dr rc g gs m) \<longleftrightarrow> \<not> spec_scope role gs m"
  by (auto simp: out_of_scope_def typed_ctx_def spec_scope_def split: option.splits)

lemma guest_check_typed: "guest_check (encode_block b) operation = Inr (spec_guest b operation)"
  by (cases "b_guest b") (auto simp: guest_check_def spec_guest_def dget_or_def)

lemma category_bits_typed:
  "category_bits uid role (encode_block b) (typed_ctx dr rc g gs m) (ob, gb, tb) =
     Inr (if b_owner b = uid then ob else if spec_member role dr g (b_group b) then gb else tb)"
  by (simp add: category_bits_def dget_or_def typed_ctx_def is_group_member_typed)

lemma mode_check_typed:
  assumes "role \<noteq> ''root''" "spec_scope role gs m" "operation \<noteq> INGEST" "role \<noteq> ''guest''"
    and "parse_octal (PStr (b_mode b)) = Inr mode"
  shows "check_permission uid role (encode_block b) operation (typed_ctx dr rc g gs m) =
     Inr (spec_granted uid role b mode operation dr rc g)"
proof -
  obtain ob gb tb where mode: "mode = (ob, gb, tb)" by (cases mode)
  define bits where "bits = (if b_owner b = uid then ob else if spec_member role dr g (b_group b) then gb else tb)"
  have "check_permission uid role (encode_block b) operation (typed_ctx dr rc g gs m) =
      (if bits AND operation \<noteq> 0 then Inr True
       else if \<exists>a. RoleEntry role a \<in> set (b_acl b) \<and> is_substr (op_char operation) a then Inr True
       else Inr (spec_overlay b dr rc (op_char operation)))"
    using assms by (simp add: check_permission_def out_of_scope_typed category_bits_typed overlay_typed
        mode dget_or_def bits_def cong: if_cong)
  then show ?thesis by (auto simp: spec_granted_def mode bits_def)
qed

lemma ingest_check:
  assumes "role \<noteq> ''root''" "\<not> out_of_scope role ctx"
  shows "check_permission uid role p INGEST ctx = acl_grants ''role'' role ''i'' (dget p ''acl'')"
  using assms by (simp add: check_permission_def)

lemma guest_role_check:
  assumes "operation \<noteq> INGEST"
  shows "check_permission uid ''guest'' p operation ctx = guest_check p operation"
  using assms by (simp add: check_permission_def out_of_scope_def)

section \<open>Properties\<close>

text \<open>C12: on a permission block of the right shape with a valid octal mode, the permission check never
  raises and decides exactly the declarative access predicate: root passes, an administrator outside the
  governed modules does not, ingestion and guests have their own rules, and otherwise access is the union of
  the mode bits of the caller's category, the ACL entries of the role and the domain-role overlay.\<close>

theorem check_permission_refines_spec:
  assumes "parse_octal (PStr (b_mode b)) = Inr mode"
  shows "check_permission uid role (encode_block b) operation (typed_ctx dr rc g gs m) =
     Inr (spec_access uid role b mode operation dr rc g gs m)"
proof (cases "role = ''root'' \<or> \<not> spec_scope role gs m")
  case True
  then show ?thesis
    by (auto simp: check_permission_def spec_access_def out_of_scope_typed)
next
  case False
  then show ?thesis
    using mode_check_typed [OF _ _ _ _ assms, of role gs m operation uid dr rc g]
    by (cases "operation = INGEST"; cases "role = ''guest''")
       (simp_all add: spec_access_def ingest_check out_of_scope_typed guest_role_check guest_check_typed
          is_substr_single)
qed

theorem check_permission_refines_spec_witness:
  "check_permission ''u1'' ''user'' (encode_block
      \<lparr>b_mode = ''750'', b_owner = ''u2'', b_group = ''staff'', b_acl = [RoleEntry ''user'' ''w''], b_guest = None\<rparr>)
      READ (typed_ctx (Some ''ta'') None [(''staff'', [], [''ta''])] None None) = Inr True"
proof -
  let ?b = "\<lparr>b_mode = ''750'', b_owner = ''u2'', b_group = ''staff'', b_acl = [RoleEntry ''user'' ''w''], b_guest = None\<rparr>"
  have "parse_octal (PStr (b_mode ?b)) = Inr (7, 5, 0)" by (simp add: octal_digit_def)
  from check_permission_refines_spec [OF this, of "''u1''" "''user''" READ "Some ''ta''" None "[(''staff'', [], [''ta''])]" None None]
  show ?thesis
    by (simp add: spec_access_def spec_scope_def spec_granted_def spec_member_def operation_defs)
qed

text \<open>An administrator whose token lists governed modules is denied every operation on any other
  module: no ownership, mode bit, ACL entry or domain role restores the access, whatever the shape of the
  permission block.\<close>

theorem admin_denied_outside_scope:
  assumes "pc_governed_modules ctx = Some gs" "pc_module_id ctx = Some m" "m \<notin> set gs"
  shows "check_permission uid ''admin'' p operation ctx = Inr False"
  using assms by (simp add: check_permission_def out_of_scope_def)

theorem admin_denied_outside_scope_witness:
  "check_permission ''a'' ''admin'' [(''mode'', PStr ''777''), (''owner'', PStr ''a'')] WRITE
     (no_ctx\<lparr>pc_governed_modules := Some [''m1''], pc_module_id := Some ''m2''\<rparr>) = Inr False"
  by (rule admin_denied_outside_scope [where gs = "[''m1'']" and m = "''m2''"]) (simp_all add: no_ctx_def)

text \<open>Inside its scope an administrator who does not own the module has the group category, not
  the owner's: without ACL entries and overlay, a permission is granted exactly when the group bits hold it.\<close>

theorem admin_in_scope_has_group_bits:
  assumes "parse_octal (dget_or p ''mode'' (PStr ''000'')) = Inr (ob, gb, tb)"
    and "\<not> out_of_scope ''admin'' ctx" "dget_or p ''owner'' (PStr '''') \<noteq> PStr uid"
    and "dget p ''acl'' = None" "pc_domain_role ctx = None" "operation \<noteq> INGEST"
  shows "check_permission uid ''admin'' p operation ctx = Inr (gb AND operation \<noteq> 0)"
  using assms
  by (simp add: check_permission_def category_bits_def domain_overlay_def opt_nonempty_def)

theorem admin_in_scope_has_group_bits_witness:
  "check_permission ''a'' ''admin'' [(''mode'', PStr ''700''), (''owner'', PStr ''b'')] READ
     (no_ctx\<lparr>pc_governed_modules := Some [''m1''], pc_module_id := Some ''m1''\<rparr>) = Inr ((0::int) AND READ \<noteq> 0)"
  by (rule admin_in_scope_has_group_bits [where ob = 7 and tb = 0])
     (simp_all add: no_ctx_def dget_or_def octal_digit_def out_of_scope_def)

text \<open>The guest's access is decided by the \<open>guest_access\<close> block alone, and an operation that is not
  one of the single bits read, write, execute and ingest (a union of them, say) is granted whenever the
  block is enabled, because the empty permission character occurs in every string.\<close>

theorem guest_decision:
  assumes "operation \<noteq> INGEST"
    and "dget p ''guest_access'' = Some (PDict ga)" "dget ga ''permissions'' = Some (PStr perms)"
  shows "check_permission uid ''guest'' p operation ctx =
     Inr (truthy (dget_or ga ''enabled'' PNone) \<and>
          (if operation = READ then CHR ''r'' \<in> set perms
           else if operation = WRITE then CHR ''w'' \<in> set perms
           else if operation = EXECUTE then CHR ''x'' \<in> set perms
           else True))"
  using assms
  by (simp add: guest_role_check guest_check_def guest_char_def is_substr_single)

theorem guest_decision_witness:
  "check_permission ''g'' ''guest'' [(''guest_access'', PDict [(''enabled'', PBool True), (''permissions'', PStr ''r'')])]
     (READ OR WRITE) no_ctx = Inr True"
proof -
  have "READ OR WRITE = 6" by (simp add: operation_defs)
  moreover have "(6::int) \<noteq> INGEST" by (simp add: operation_defs)
  ultimately show ?thesis
    using guest_decision [of 6 "[(''guest_access'', PDict [(''enabled'', PBool True), (''permissions'', PStr ''r'')])]"
        "[(''enabled'', PBool True), (''permissions'', PStr ''r'')]" "''r''" "''g''" no_ctx]
    by (simp add: dget_or_def operation_defs)
qed

text \<open>A role meets a required tier exactly when the tier is unknown or the role is known and at
  least as privileged; so the check is fail-open for a misspelt tier and fail-closed for an unknown role.\<close>

theorem check_min_tier_iff:
  "check_min_tier user_role min_tier \<longleftrightarrow>
     (case dget TIER_LEVELS min_tier of
        None \<Rightarrow> True
      | Some need \<Rightarrow> (case dget TIER_LEVELS user_role of None \<Rightarrow> False | Some lvl \<Rightarrow> lvl \<le> need))"
proof -
  have "dget TIER_LEVELS r = Some l \<Longrightarrow> l \<le> 6" for r l
    by (auto simp: TIER_LEVELS_def split: if_splits)
  from this [of user_role] this [of min_tier] show ?thesis
    by (fastforce simp: check_min_tier_def dget_or_def split: option.splits)
qed

lemma octal_digit_inj: "octal_digit c = Some n \<Longrightarrow> octal_digit d = Some n \<Longrightarrow> c = d"
  by (auto simp: octal_digit_def split: if_splits)

lemma rwx_inj:
  assumes "0 \<le> x" "x \<le> 7" "0 \<le> y" "y \<le> 7" "rwx x = rwx y" shows "x = y"
proof -
  have "x \<in> {0, 1, 2, 3, 4, 5, 6, 7}" "y \<in> {0, 1, 2, 3, 4, 5, 6, 7}" using assms by auto
  with assms(5) show ?thesis by (auto simp: rwx_def)
qed

lemma mode_to_symbolic_elim:
  assumes "mode_to_symbolic v = Inr s"
  obtains a b c x y z where "v = PStr [a, b, c]" "octal_digit a = Some x" "octal_digit b = Some y"
    "octal_digit c = Some z" "s = rwx x @ rwx y @ rwx z"
  using assms that
  by (auto simp: mode_to_symbolic_def res_bind_Inr_iff elim!: parse_octal.elims split: option.splits)

text \<open>The symbolic form of an octal mode determines the mode: two modes with the same nine characters
  are the same string.\<close>

theorem mode_to_symbolic_injective:
  assumes "mode_to_symbolic u = Inr s" "mode_to_symbolic v = Inr s"
  shows "u = v"
proof -
  from assms(1) obtain a b c x y z where u: "u = PStr [a, b, c]" "octal_digit a = Some x"
    "octal_digit b = Some y" "octal_digit c = Some z" "s = rwx x @ rwx y @ rwx z"
    by (rule mode_to_symbolic_elim)
  from assms(2) obtain a' b' c' x' y' z' where v: "v = PStr [a', b', c']" "octal_digit a' = Some x'"
    "octal_digit b' = Some y'" "octal_digit c' = Some z'" "s = rwx x' @ rwx y' @ rwx z'"
    by (rule mode_to_symbolic_elim)
  have "length (rwx n) = 3" for n by (simp add: rwx_def)
  then have "rwx x = rwx x'" "rwx y = rwx y'" "rwx z = rwx z'" using u(5) v(5) by simp_all
  then have "x = x'" "y = y'" "z = z'"
    using u v octal_digit_range by (metis rwx_inj)+
  then show ?thesis using u v octal_digit_inj by metis
qed

theorem mode_to_symbolic_injective_witness:
  "mode_to_symbolic (PStr ''640'') = Inr ''rw-r-----'' \<and> PStr ''640'' = PStr ''640''"
proof -
  have "mode_to_symbolic (PStr ''640'') = Inr ''rw-r-----''"
    by (simp add: mode_to_symbolic_def octal_digit_def rwx_def)
  from this mode_to_symbolic_injective [OF this this] show ?thesis by simp
qed

end
