(* ===== verification/Transactions.thy ===== *)
theory Transactions
  imports Py_Values
begin

text \<open>
  The transaction kernel, \<^verbatim>\<open>core/state_machine.py\<close>: the five states, the table of legal transitions,
  \<open>advance\<close>, and the dictionary form. Dataclass fields are not type-checked by Python, so they are dynamic
  values here; the clock reading is an argument.
\<close>

section \<open>States and transitions\<close>

datatype tx_state = PROPOSED | VALIDATED | COMMITTED | FINALIZED | ROLLED_BACK

fun state_value :: "tx_state \<Rightarrow> string" where
  "state_value PROPOSED = ''PROPOSED''"
| "state_value VALIDATED = ''VALIDATED''"
| "state_value COMMITTED = ''COMMITTED''"
| "state_value FINALIZED = ''FINALIZED''"
| "state_value ROLLED_BACK = ''ROLLED_BACK''"

text \<open>\<open>TransactionState(value)\<close>: lookup by value; \<open>None\<close> stands for the \<open>ValueError\<close>.\<close>

definition state_of_value :: "pyval \<Rightarrow> tx_state option" where
  "state_of_value v = find (\<lambda>s. v = PStr (state_value s)) [PROPOSED, VALIDATED, COMMITTED, FINALIZED, ROLLED_BACK]"

fun legal_transitions :: "tx_state \<Rightarrow> tx_state list" where
  "legal_transitions PROPOSED = [VALIDATED, ROLLED_BACK]"
| "legal_transitions VALIDATED = [COMMITTED, ROLLED_BACK]"
| "legal_transitions COMMITTED = [FINALIZED]"
| "legal_transitions FINALIZED = []"
| "legal_transitions ROLLED_BACK = []"

record transaction =
  tx_id :: pyval
  tx_operation :: pyval
  tx_state :: tx_state
  tx_actor :: pyval
  tx_created :: pyval
  tx_updated :: pyval
  tx_metadata :: pyval
  tx_history :: "(pyval \<times> pyval \<times> pyval) list"

definition is_terminal :: "transaction \<Rightarrow> bool" where
  "is_terminal t \<longleftrightarrow> legal_transitions (tx_state t) = []"

definition can_advance :: "transaction \<Rightarrow> tx_state \<Rightarrow> bool" where
  "can_advance t target \<longleftrightarrow> target \<in> set (legal_transitions (tx_state t))"

datatype tx_error = IllegalTransition tx_state tx_state | TxRaise py_exn

definition advance ::
  "pyval \<Rightarrow> tx_state \<Rightarrow> pyval option \<Rightarrow> pydict option \<Rightarrow> transaction \<Rightarrow> tx_error + transaction" where
  "advance now target actor_id metadata_update t =
     (if \<not> can_advance t target then Inl (IllegalTransition (tx_state t) target)
      else
        let new_actor = (case actor_id of Some a \<Rightarrow> if truthy a then a else tx_actor t | None \<Rightarrow> tx_actor t)
        in case tx_metadata t of
             PDict m \<Rightarrow> Inr (t\<lparr>tx_state := target, tx_actor := new_actor, tx_updated := now,
                 tx_metadata := PDict (dupdate m (case metadata_update of Some u \<Rightarrow> u | None \<Rightarrow> [])),
                 tx_history := tx_history t @ [(PStr (state_value target), new_actor, now)]\<rparr>)
           | _ \<Rightarrow> Inl (TxRaise TypeError))"

section \<open>The dictionary form\<close>

definition history_entry :: "pyval \<times> pyval \<times> pyval \<Rightarrow> pyval" where
  "history_entry = (\<lambda>(s, a, t). PDict [(''state'', s), (''actor_id'', a), (''timestamp'', t)])"

definition to_dict :: "transaction \<Rightarrow> pydict" where
  "to_dict t =
     [(''transaction_id'', tx_id t), (''operation'', tx_operation t),
      (''state'', PStr (state_value (tx_state t))), (''actor_id'', tx_actor t),
      (''created_at'', tx_created t), (''updated_at'', tx_updated t), (''metadata'', tx_metadata t),
      (''history'', PList (map history_entry (tx_history t)))]"

definition read_history_entry :: "pyval \<Rightarrow> (pyval \<times> pyval \<times> pyval) res" where
  "read_history_entry h =
     res_bind (py_item h ''state'') (\<lambda>s.
     res_bind (py_item h ''actor_id'') (\<lambda>a.
     res_bind (py_item h ''timestamp'') (\<lambda>t. Inr (s, a, t))))"

definition from_dict :: "pydict \<Rightarrow> transaction res" where
  "from_dict data =
     res_bind (res_bind (py_iter (dget_or data ''history'' (PList []))) (map_res read_history_entry)) (\<lambda>history.
     res_bind (py_item (PDict data) ''transaction_id'') (\<lambda>i.
     res_bind (py_item (PDict data) ''state'') (\<lambda>v.
       case state_of_value v of
         None \<Rightarrow> Inl ValueError
       | Some s \<Rightarrow> Inr \<lparr>tx_id = i, tx_operation = dget_or data ''operation'' (PStr ''''), tx_state = s,
           tx_actor = dget_or data ''actor_id'' (PStr ''''),
           tx_created = dget_or data ''created_at'' (PFloat (Fin 0)),
           tx_updated = dget_or data ''updated_at'' (PFloat (Fin 0)),
           tx_metadata = dget_or data ''metadata'' (PDict []), tx_history = history\<rparr>)))"

section \<open>Steps and runs\<close>

lemma state_of_value_value [simp]: "state_of_value (PStr (state_value s)) = Some s"
  by (cases s) (simp_all add: state_of_value_def)

inductive tx_step :: "transaction \<Rightarrow> transaction \<Rightarrow> bool" where
  advanced: "advance now target actor meta t = Inr t' \<Longrightarrow> tx_step t t'"

inductive_cases tx_stepE: "tx_step t t'"

definition fresh :: "transaction \<Rightarrow> bool" where
  "fresh t \<longleftrightarrow> tx_state t = PROPOSED \<and> tx_history t = []"

text \<open>The recorded states form a legal path from \<open>s\<close> to \<open>e\<close>.\<close>

fun legal_path :: "tx_state \<Rightarrow> (pyval \<times> pyval \<times> pyval) list \<Rightarrow> tx_state \<Rightarrow> bool" where
  "legal_path s [] e = (s = e)"
| "legal_path s ((v, a, t) # h) e = (case state_of_value v of
     None \<Rightarrow> False | Some s' \<Rightarrow> s' \<in> set (legal_transitions s) \<and> legal_path s' h e)"

lemma legal_path_snoc:
  "legal_path s h e \<Longrightarrow> e' \<in> set (legal_transitions e) \<Longrightarrow>
     legal_path s (h @ [(PStr (state_value e'), a, t)]) e'"
  by (induction s h e rule: legal_path.induct) (auto split: option.splits)

lemma advance_Inr:
  assumes "advance now target actor meta t = Inr t'"
  shows "target \<in> set (legal_transitions (tx_state t))" "tx_state t' = target"
    "\<exists>a. tx_history t' = tx_history t @ [(PStr (state_value target), a, now)]"
    "tx_id t' = tx_id t" "tx_operation t' = tx_operation t" "tx_created t' = tx_created t"
    "tx_updated t' = now"
  using assms by (auto simp: advance_def can_advance_def Let_def split: if_splits pyval.splits)

text \<open>How many more transitions a state allows.\<close>

fun rank :: "tx_state \<Rightarrow> nat" where
  "rank PROPOSED = 3" | "rank VALIDATED = 2" | "rank COMMITTED = 1" | "rank FINALIZED = 0" | "rank ROLLED_BACK = 0"

lemma legal_rank: "s' \<in> set (legal_transitions s) \<Longrightarrow> rank s' < rank s"
  by (cases s) auto

lemma legal_path_length: "legal_path s h e \<Longrightarrow> length h + rank e \<le> rank s"
proof (induction s h e rule: legal_path.induct)
  case (2 s v a t h e)
  then show ?case by (force split: option.splits dest: legal_rank)
qed simp

lemma steps_legal_path:
  assumes "tx_step\<^sup>*\<^sup>* t t'" and "fresh t"
  shows "legal_path PROPOSED (tx_history t') (tx_state t')"
  using assms(1)
proof (induction rule: rtranclp_induct)
  case base
  then show ?case using assms(2) by (simp add: fresh_def)
next
  case (step u v)
  from step.hyps(2) obtain now target actor meta where "advance now target actor meta u = Inr v"
    by (auto elim: tx_stepE)
  from advance_Inr(1-3) [OF this] step.IH show ?case by (auto intro: legal_path_snoc)
qed

lemma steps_committed:
  "tx_step\<^sup>*\<^sup>* t t' \<Longrightarrow> tx_state t \<in> {COMMITTED, FINALIZED} \<Longrightarrow> tx_state t' \<in> {COMMITTED, FINALIZED}"
proof (induction rule: rtranclp_induct)
  case (step u v)
  then obtain now target actor meta where "advance now target actor meta u = Inr v" by (auto elim: tx_stepE)
  from advance_Inr(1,2) [OF this] step.IH [OF step.prems] show ?case by auto
qed simp

lemma steps_frame:
  "tx_step\<^sup>*\<^sup>* t t' \<Longrightarrow> tx_id t' = tx_id t \<and> tx_operation t' = tx_operation t \<and> tx_created t' = tx_created t"
proof (induction rule: rtranclp_induct)
  case (step u v)
  then obtain now target actor meta where "advance now target actor meta u = Inr v" by (auto elim: tx_stepE)
  from advance_Inr(4-6) [OF this] step.IH show ?case by simp
qed simp

section \<open>Properties\<close>

text \<open>C23: a committed transaction is never rolled back: whatever advances follow, it stays committed or
  becomes final, and its identity, operation and creation time never change.\<close>

theorem committed_is_irrevocable:
  assumes "tx_step\<^sup>*\<^sup>* t t'" "tx_state t = COMMITTED"
  shows "tx_state t' \<in> {COMMITTED, FINALIZED} \<and> tx_id t' = tx_id t \<and> tx_operation t' = tx_operation t
    \<and> tx_created t' = tx_created t"
  using steps_committed [OF assms(1)] steps_frame [OF assms(1)] assms(2) by blast

definition sample_tx :: "tx_state \<Rightarrow> transaction" where
  "sample_tx s = \<lparr>tx_id = PStr ''t1'', tx_operation = PStr ''stage_file'', tx_state = s, tx_actor = PStr ''alice'',
     tx_created = PInt 1, tx_updated = PInt 1, tx_metadata = PDict [], tx_history = []\<rparr>"

lemma sample_step:
  "s' \<in> set (legal_transitions s) \<Longrightarrow> tx_step (sample_tx s)
     ((sample_tx s)\<lparr>tx_state := s', tx_updated := PInt 2,
        tx_history := [(PStr (state_value s'), PStr ''alice'', PInt 2)]\<rparr>)"
  by (rule tx_step.advanced [where now = "PInt 2" and target = s' and actor = None and meta = None])
     (simp add: advance_def sample_tx_def can_advance_def Let_def)

theorem committed_is_irrevocable_witness:
  "\<exists>t'. tx_step (sample_tx COMMITTED) t' \<and> tx_state t' \<in> {COMMITTED, FINALIZED}"
proof -
  let ?t' = "(sample_tx COMMITTED)\<lparr>tx_state := FINALIZED, tx_updated := PInt 2,
        tx_history := [(PStr (state_value FINALIZED), PStr ''alice'', PInt 2)]\<rparr>"
  have st: "tx_step (sample_tx COMMITTED) ?t'" by (rule sample_step) simp
  have "tx_state (sample_tx COMMITTED) = COMMITTED" by (simp add: sample_tx_def)
  with st show ?thesis using committed_is_irrevocable [OF r_into_rtranclp [of tx_step, OF st]] by blast
qed

text \<open>The history of a transaction is its audit trail: from a fresh transaction, every reachable one
  records a legal path from \<open>PROPOSED\<close> to its current state, so it has at most three entries and its length
  is bounded by the transitions used up.\<close>

theorem history_is_legal_path:
  assumes "fresh t" "tx_step\<^sup>*\<^sup>* t t'"
  shows "legal_path PROPOSED (tx_history t') (tx_state t') \<and> length (tx_history t') \<le> 3 - rank (tx_state t')"
  using steps_legal_path [OF assms(2,1)] legal_path_length [OF steps_legal_path [OF assms(2,1)]] by simp

theorem history_is_legal_path_witness:
  "legal_path PROPOSED [(PStr ''VALIDATED'', PStr ''alice'', PInt 2)] VALIDATED"
proof -
  let ?t' = "(sample_tx PROPOSED)\<lparr>tx_state := VALIDATED, tx_updated := PInt 2,
        tx_history := [(PStr (state_value VALIDATED), PStr ''alice'', PInt 2)]\<rparr>"
  have "tx_step (sample_tx PROPOSED) ?t'" by (rule sample_step) simp
  moreover have "fresh (sample_tx PROPOSED)" by (simp add: fresh_def sample_tx_def)
  ultimately show ?thesis
    using history_is_legal_path [of "sample_tx PROPOSED" ?t'] by auto
qed

text \<open>A transaction survives the dictionary round trip: reading back what \<open>to_dict\<close> writes gives the
  transaction, its state, metadata and history included.\<close>

theorem from_dict_to_dict: "from_dict (to_dict t) = Inr t"
proof -
  have "read_history_entry (history_entry h) = Inr h" for h
    by (cases h) (simp add: read_history_entry_def history_entry_def)
  then have "map_res read_history_entry (map history_entry hs) = Inr hs" for hs
    by (simp add: map_res_map map_res_total [where g = "\<lambda>h. h"])
  then show ?thesis
    by (simp add: from_dict_def to_dict_def dget_or_def)
qed

end
