(* ===== verification/Context_Ttl.thy ===== *)
theory Context_Ttl
  imports Py_Values
begin

text \<open>
  The context pruner, \<^verbatim>\<open>core/ttl_manager.py\<close>: three time-to-live tiers, a dictionary of entries, and the
  operations of \<open>TTLManager\<close>. The clock is an argument; times are rationals.
\<close>

section \<open>State\<close>

datatype tier = MODULE | DOMAIN | SYSTEM

definition tier_of_value :: "string \<Rightarrow> tier option" where
  "tier_of_value s = (if s = ''module'' then Some MODULE else if s = ''domain'' then Some DOMAIN
     else if s = ''system'' then Some SYSTEM else None)"

text \<open>\<open>Tier | str\<close> arguments are coerced with \<open>Tier(tier)\<close>.\<close>

datatype tier_arg = TierArg tier | StrArg string

fun coerce_tier :: "tier_arg \<Rightarrow> tier res" where
  "coerce_tier (TierArg t) = Inr t"
| "coerce_tier (StrArg s) = (case tier_of_value s of None \<Rightarrow> Inl ValueError | Some t \<Rightarrow> Inr t)"

fun tier_default :: "tier \<Rightarrow> int" where
  "tier_default MODULE = 900"
| "tier_default DOMAIN = 14400"
| "tier_default SYSTEM = 86400"

record ttl_entry =
  te_tier :: tier
  te_key :: string
  te_touched :: rat
  te_metadata :: pydict

record ttl_manager =
  tm_ttls :: "tier \<Rightarrow> int"
  tm_entries :: "(string, ttl_entry) dict"

section \<open>Operations\<close>

definition new_manager :: "(tier, int) dict \<Rightarrow> ttl_manager" where
  "new_manager config = \<lparr>tm_ttls = (\<lambda>t. dget_or config t (tier_default t)), tm_entries = []\<rparr>"

definition policy_ttl :: "pydict \<Rightarrow> string \<Rightarrow> tier \<Rightarrow> (tier, int) dict \<Rightarrow> (tier, int) dict res" where
  "policy_ttl policy k t config = (case dget policy k of
      None \<Rightarrow> Inr config
    | Some v \<Rightarrow> res_bind (py_int v) (\<lambda>n. Inr (dput t n config)))"

definition from_temporal_policy :: "pydict option \<Rightarrow> ttl_manager res" where
  "from_temporal_policy policy = (case policy of
      None \<Rightarrow> Inr (new_manager [])
    | Some p \<Rightarrow>
        res_bind (policy_ttl p ''module_ttl_seconds'' MODULE []) (\<lambda>c.
        res_bind (policy_ttl p ''domain_ttl_seconds'' DOMAIN c) (\<lambda>c.
        res_bind (policy_ttl p ''system_ttl_seconds'' SYSTEM c) (\<lambda>c. Inr (new_manager c)))))"

definition register :: "rat \<Rightarrow> tier_arg \<Rightarrow> string \<Rightarrow> pydict \<Rightarrow> ttl_manager \<Rightarrow> (ttl_entry \<times> ttl_manager) res" where
  "register now t key metadata m = res_bind (coerce_tier t) (\<lambda>t.
     let e = \<lparr>te_tier = t, te_key = key, te_touched = now, te_metadata = metadata\<rparr>
     in Inr (e, m\<lparr>tm_entries := dput key e (tm_entries m)\<rparr>))"

definition touch :: "rat \<Rightarrow> tier_arg \<Rightarrow> string \<Rightarrow> ttl_manager \<Rightarrow> (ttl_entry \<times> ttl_manager) res" where
  "touch now t key m = (case dget (tm_entries m) key of
      None \<Rightarrow> register now t key [] m
    | Some e \<Rightarrow> let e' = e\<lparr>te_touched := now\<rparr> in Inr (e', m\<lparr>tm_entries := dput key e' (tm_entries m)\<rparr>))"

definition expired :: "rat \<Rightarrow> ttl_manager \<Rightarrow> ttl_entry \<Rightarrow> bool" where
  "expired now m e \<longleftrightarrow> now - te_touched e > of_int (tm_ttls m (te_tier e))"

definition prune :: "rat \<Rightarrow> ttl_manager \<Rightarrow> (ttl_entry list \<times> ttl_manager) res" where
  "prune now m =
     (let ex = filter (expired now m) (map snd (tm_entries m))
      in res_bind (del_keys (map te_key ex) (tm_entries m)) (\<lambda>d. Inr (ex, m\<lparr>tm_entries := d\<rparr>)))"

definition is_alive :: "rat \<Rightarrow> string \<Rightarrow> ttl_manager \<Rightarrow> bool" where
  "is_alive now key m = (case dget (tm_entries m) key of
      None \<Rightarrow> False
    | Some e \<Rightarrow> now - te_touched e \<le> of_int (tm_ttls m (te_tier e)))"

definition ttl_size :: "ttl_manager \<Rightarrow> nat" where
  "ttl_size m = length (tm_entries m)"

definition ttl_get :: "string \<Rightarrow> ttl_manager \<Rightarrow> ttl_entry option" where
  "ttl_get key m = dget (tm_entries m) key"

definition ttl_keys :: "ttl_manager \<Rightarrow> string list" where
  "ttl_keys m = dkeys (tm_entries m)"

definition get_ttl :: "tier_arg \<Rightarrow> ttl_manager \<Rightarrow> int res" where
  "get_ttl t m = res_bind (coerce_tier t) (\<lambda>t. Inr (tm_ttls m t))"

section \<open>Invariant\<close>

text \<open>The dictionary is keyed by the entries' own keys: what makes the deletions of \<open>prune\<close> safe.\<close>

definition ttl_inv :: "ttl_manager \<Rightarrow> bool" where
  "ttl_inv m \<longleftrightarrow> dict_ok (tm_entries m) \<and> (\<forall>k e. dget (tm_entries m) k = Some e \<longrightarrow> te_key e = k)"

lemma ttl_inv_new [simp]: "ttl_inv (new_manager config)"
  by (simp add: ttl_inv_def new_manager_def)

lemma register_inv: "ttl_inv m \<Longrightarrow> register now t key meta m = Inr (e, m') \<Longrightarrow> ttl_inv m'"
  by (auto simp: register_def res_bind_Inr_iff ttl_inv_def Let_def split: if_splits)

lemma touch_inv:
  assumes "ttl_inv m" "touch now t key m = Inr (e, m')" shows "ttl_inv m'"
proof (cases "dget (tm_entries m) key")
  case None
  with assms show ?thesis by (auto simp: touch_def intro: register_inv)
next
  case (Some old)
  with assms show ?thesis by (auto simp: touch_def ttl_inv_def Let_def split: if_splits)
qed

lemma entries_keys:
  assumes "ttl_inv m" shows "map te_key (map snd (tm_entries m)) = dkeys (tm_entries m)"
proof -
  have "te_key (snd p) = fst p" if "p \<in> set (tm_entries m)" for p
    using assms that by (cases p) (auto simp: ttl_inv_def dict_ok_def dkeys_def)
  then show ?thesis by (simp add: dkeys_def)
qed

lemma prune_keys:
  assumes "ttl_inv m"
  shows "distinct (map te_key (filter P (map snd (tm_entries m))))"
    and "set (map te_key (filter P (map snd (tm_entries m)))) \<subseteq> set (dkeys (tm_entries m))"
proof -
  have "distinct (map te_key (map snd (tm_entries m)))"
    using assms entries_keys [OF assms] by (simp add: ttl_inv_def dict_ok_def)
  then show "distinct (map te_key (filter P (map snd (tm_entries m))))"
    by (rule distinct_map_filter)
  show "set (map te_key (filter P (map snd (tm_entries m)))) \<subseteq> set (dkeys (tm_entries m))"
    using entries_keys [OF assms] by (metis filter_is_subset image_mono list.set_map)
qed

lemma expired_key_iff:
  assumes "ttl_inv m" "dget (tm_entries m) k = Some e"
  shows "k \<in> set (map te_key (filter P (map snd (tm_entries m)))) \<longleftrightarrow> P e"
proof -
  have ok: "dict_ok (tm_entries m)" and key: "te_key e = k" using assms by (auto simp: ttl_inv_def)
  have mem: "(j, f) \<in> set (tm_entries m) \<longleftrightarrow> dget (tm_entries m) j = Some f" for j f
    using ok by (auto simp: dict_ok_def dkeys_def)
  show ?thesis
  proof
    assume "k \<in> set (map te_key (filter P (map snd (tm_entries m))))"
    then obtain j f where f: "(j, f) \<in> set (tm_entries m)" "te_key f = k" "P f" by auto
    then have "te_key f = j" using assms(1) mem by (auto simp: ttl_inv_def)
    with f assms(2) mem show "P e" by auto
  next
    assume "P e"
    with assms(2) key mem show "k \<in> set (map te_key (filter P (map snd (tm_entries m))))" by force
  qed
qed

section \<open>Properties\<close>

text \<open>Pruning never raises on a manager the operations built, keeps its invariant, and leaves exactly
  the entries that were alive: an entry survives unchanged if its age is within the limit of its tier and
  is gone otherwise.\<close>

theorem prune_keeps_exactly_alive:
  assumes "ttl_inv m"
  shows "\<exists>ex m'. prune now m = Inr (ex, m') \<and> ttl_inv m' \<and>
    (\<forall>k. ttl_get k m' = (if is_alive now k m then ttl_get k m else None))"
proof -
  let ?ks = "map te_key (filter (expired now m) (map snd (tm_entries m)))"
  let ?d = "foldl (\<lambda>acc k. ddel k acc) (tm_entries m) ?ks"
  have del: "del_keys ?ks (tm_entries m) = Inr ?d"
    by (rule del_keys_ok) (use prune_keys [OF assms] in blast)+
  have get: "dget ?d k = (if is_alive now k m then dget (tm_entries m) k else None)" for k
    using expired_key_iff [OF assms, of k _ "expired now m"]
    by (cases "dget (tm_entries m) k") (auto simp: pydict.get_del_all is_alive_def expired_def not_le)
  have "ttl_inv (m\<lparr>tm_entries := ?d\<rparr>)"
    using assms by (auto simp: ttl_inv_def pydict.inv_del_all get split: if_splits)
  then show ?thesis using del get by (auto simp: prune_def Let_def ttl_get_def)
qed

definition sample_manager :: ttl_manager where
  "sample_manager = (new_manager [])\<lparr>tm_entries :=
     [(''a'', \<lparr>te_tier = MODULE, te_key = ''a'', te_touched = 0, te_metadata = []\<rparr>),
      (''b'', \<lparr>te_tier = SYSTEM, te_key = ''b'', te_touched = 0, te_metadata = []\<rparr>)]\<rparr>"

theorem prune_keeps_exactly_alive_witness:
  "\<exists>ex m'. prune 1000 sample_manager = Inr (ex, m') \<and> ttl_get ''a'' m' = None \<and> ttl_get ''b'' m' \<noteq> None"
proof -
  have "ttl_inv sample_manager"
    by (auto simp: ttl_inv_def sample_manager_def dict_ok_def new_manager_def split: if_splits)
  from prune_keeps_exactly_alive [OF this, of 1000] show ?thesis
    by (auto simp: is_alive_def sample_manager_def new_manager_def dget_or_def ttl_get_def)
qed

text \<open>Touching a key makes it live for the whole time-to-live of the entry's own tier: the tier given
  with the call decides only when the key is new, and no other entry changes.\<close>

theorem touch_restarts_clock:
  assumes "touch now t key m = Inr (e, m')"
  shows "ttl_get key m' = Some e \<and> te_touched e = now
    \<and> (\<forall>old. ttl_get key m = Some old \<longrightarrow> te_tier e = te_tier old)
    \<and> (\<forall>later. is_alive later key m' \<longleftrightarrow> later - now \<le> of_int (tm_ttls m (te_tier e)))
    \<and> (\<forall>k. k \<noteq> key \<longrightarrow> ttl_get k m' = ttl_get k m)"
  using assms
  by (auto simp: touch_def register_def Let_def res_bind_Inr_iff ttl_get_def is_alive_def split: option.splits)

theorem touch_restarts_clock_witness:
  "\<exists>e m'. touch 500 (StrArg ''system'') ''a'' sample_manager = Inr (e, m') \<and> te_tier e = MODULE"
proof -
  let ?old = "\<lparr>te_tier = MODULE, te_key = ''a'', te_touched = 0, te_metadata = []\<rparr>"
  have "\<exists>e m'. touch 500 (StrArg ''system'') ''a'' sample_manager = Inr (e, m')"
    by (simp add: touch_def sample_manager_def Let_def)
  moreover have "ttl_get ''a'' sample_manager = Some ?old" by (simp add: ttl_get_def sample_manager_def)
  ultimately show ?thesis using touch_restarts_clock by fastforce
qed

end
