(* ===== verification/Inspection.thy ===== *)
theory Inspection
  imports Py_Values
begin

text \<open>
  The inspection middleware: the invariant expressions and their evaluation
  (\<^verbatim>\<open>middleware/invariant_checker.py\<close>), the schema validator and the default filler
  (\<^verbatim>\<open>middleware/output_validator.py\<close>), the merge of preprocessor anchors
  (\<^verbatim>\<open>middleware/nlp_preprocessor.py\<close>) and the three-stage pipeline (\<^verbatim>\<open>middleware/pipeline.py\<close>).
  Extractors come from model packs and are arguments. A violation is a constructor per message the code
  formats.
\<close>

section \<open>Check expressions\<close>

definition parse_check_literal :: "string \<Rightarrow> pyval" where
  "parse_check_literal raw = (let s = strip raw in
     if s = ''[]'' then PList []
     else if to_lower s = ''true'' then PBool True
     else if to_lower s = ''false'' then PBool False
     else case parse_int s of Some n \<Rightarrow> PInt n
     | None \<Rightarrow> (case parse_float s of Some f \<Rightarrow> PFloat f | None \<Rightarrow> PStr s))"

definition cmpop_of :: "string \<Rightarrow> cmpop option" where
  "cmpop_of s = (if s = ''=='' then Some OpEq else if s = ''!='' then Some OpNe
     else if s = ''>='' then Some OpGe else if s = ''<='' then Some OpLe
     else if s = ''>'' then Some OpGt else if s = ''<'' then Some OpLt else None)"

text \<open>The right-hand side: a literal, or the evidence field that a plain string names.\<close>

definition check_rhs :: "string \<Rightarrow> pydict \<Rightarrow> pyval option" where
  "check_rhs raw_val evidence = (case parse_check_literal raw_val of
      PStr _ \<Rightarrow> dget evidence raw_val
    | v \<Rightarrow> Some v)"

definition evaluate_check_expr :: "string \<Rightarrow> pydict \<Rightarrow> bool option res" where
  "evaluate_check_expr check_expr evidence = (case split_ws 2 (strip check_expr) of
      [field] \<Rightarrow> (case dget evidence field of
          None \<Rightarrow> Inr None
        | Some v \<Rightarrow> if v = PNone then Inr None else Inr (Some (truthy v)))
    | [field, op, raw_val] \<Rightarrow> (case dget evidence field of
          None \<Rightarrow> Inr None
        | Some ev_val \<Rightarrow> (case check_rhs raw_val evidence of
             None \<Rightarrow> Inr None
           | Some rhs \<Rightarrow> (case cmpop_of op of
                None \<Rightarrow> Inr None
              | Some c \<Rightarrow> res_bind (py_cmp c ev_val rhs) (\<lambda>b. Inr (Some b)))))
    | _ \<Rightarrow> Inr None)"

record inv_result =
  ir_id :: pyval
  ir_severity :: pyval
  ir_passed :: bool
  ir_standing_order :: pyval
  ir_signal :: pyval

text \<open>The verdict on one invariant: \<open>None\<close> when it is skipped (delegated, without a check, raising, or
  without evidence). Only a missing \<open>id\<close> raises.\<close>

definition check_verdict :: "pydict \<Rightarrow> pydict \<Rightarrow> bool option" where
  "check_verdict iv evidence =
     (if truthy (dget_or iv ''handled_by'' PNone) then None
      else case dget_or iv ''check'' PNone of
        PStr s \<Rightarrow> if s = [] then None
                  else (case evaluate_check_expr s evidence of Inl _ \<Rightarrow> None | Inr r \<Rightarrow> r)
      | _ \<Rightarrow> None)"

fun evaluate_invariants :: "pydict list \<Rightarrow> pydict \<Rightarrow> inv_result list res" where
  "evaluate_invariants [] evidence = Inr []"
| "evaluate_invariants (iv # invs) evidence =
     (case dget iv ''id'' of
        None \<Rightarrow> Inl KeyError
      | Some i \<Rightarrow> (case check_verdict iv evidence of
          None \<Rightarrow> evaluate_invariants invs evidence
        | Some b \<Rightarrow> res_bind (evaluate_invariants invs evidence) (\<lambda>rs.
            Inr (\<lparr>ir_id = i, ir_severity = dget_or iv ''severity'' (PStr ''warning''), ir_passed = b,
                  ir_standing_order = dget_or iv ''standing_order_on_violation'' PNone,
                  ir_signal = dget_or iv ''signal_type'' PNone\<rparr> # rs))))"

section \<open>Schema validation\<close>

text \<open>\<open>_TYPE_MAP\<close>: the test of a type name, \<open>None\<close> for an unknown name.\<close>

definition type_test :: "string \<Rightarrow> (pyval \<Rightarrow> bool) option" where
  "type_test t = (if t = ''string'' then Some is_str
     else if t = ''integer'' then Some is_int
     else if t = ''number'' then Some (\<lambda>v. is_int v \<or> is_float v)
     else if t = ''boolean'' then Some is_bool
     else if t = ''array'' then Some is_list
     else if t = ''object'' then Some is_dict
     else if t = ''null'' then Some (\<lambda>v. v = PNone)
     else None)"

fun check_type :: "pyval \<Rightarrow> pyval \<Rightarrow> bool res"
  and check_types :: "pyval \<Rightarrow> pyval list \<Rightarrow> bool res" where
  "check_type v (PList ts) = check_types v ts"
| "check_type v (PDict d) = Inl TypeError"
| "check_type v (PStr t) = (case type_test t of
      None \<Rightarrow> Inr True
    | Some test \<Rightarrow> if t = ''integer'' \<and> is_bool v then Inr False else Inr (test v))"
| "check_type v _ = Inr True"
| "check_types v [] = Inr False"
| "check_types v (t # ts) = res_bind (check_type v t) (\<lambda>b. if b then Inr True else check_types v ts)"

datatype violation =
    MissingRequired string
  | TypeMismatch string
  | InvalidValue string
  | BelowMinimum string
  | AboveMaximum string
  | InvariantFailed pyval pyval

text \<open>A test that appends its message when it fails.\<close>

definition note_if :: "bool res \<Rightarrow> violation \<Rightarrow> violation list res" where
  "note_if r v = res_bind r (\<lambda>b. Inr (if b then [v] else []))"

definition bound_check :: "cmpop \<Rightarrow> pyval \<Rightarrow> pyval \<Rightarrow> violation \<Rightarrow> violation list res" where
  "bound_check op value bound v =
     (if (is_int value \<or> is_float value) \<and> \<not> is_bool value \<and> bound \<noteq> PNone
      then note_if (py_ord op value bound) v else Inr [])"

definition field_violations :: "pydict \<Rightarrow> string \<Rightarrow> pyval \<Rightarrow> violation list res" where
  "field_violations payload name spec = (case spec of
      PDict s \<Rightarrow> (case dget payload name of
          None \<Rightarrow> Inr (if truthy (dget_or s ''required'' (PBool False)) then [MissingRequired name] else [])
        | Some value \<Rightarrow>
            res_bind (if dget_or s ''type'' PNone = PNone \<or> value = PNone then Inr []
                      else note_if (res_bind (check_type value (dget_or s ''type'' PNone)) (\<lambda>b. Inr (\<not> b))) (TypeMismatch name)) (\<lambda>v1.
            res_bind (if dget_or s ''enum'' PNone = PNone then Inr []
                      else note_if (res_bind (py_in value (dget_or s ''enum'' PNone)) (\<lambda>b. Inr (\<not> b))) (InvalidValue name)) (\<lambda>v2.
            res_bind (bound_check OpLt value (dget_or s ''minimum'' PNone) (BelowMinimum name)) (\<lambda>v3.
            res_bind (bound_check OpGt value (dget_or s ''maximum'' PNone) (AboveMaximum name)) (\<lambda>v4.
              Inr (v1 @ v2 @ v3 @ v4))))))
    | _ \<Rightarrow> Inr [])"

fun validate_fields :: "pydict \<Rightarrow> pydict \<Rightarrow> violation list res" where
  "validate_fields payload [] = Inr []"
| "validate_fields payload ((name, spec) # schema) =
     res_bind (field_violations payload name spec) (\<lambda>vs.
     res_bind (validate_fields payload schema) (\<lambda>ws. Inr (vs @ ws)))"

definition validate_output :: "pydict \<Rightarrow> pydict \<Rightarrow> (bool \<times> violation list) res" where
  "validate_output payload schema =
     res_bind (validate_fields payload schema) (\<lambda>vs. Inr (vs = [], vs))"

fun sanitize_output :: "pydict \<Rightarrow> pydict \<Rightarrow> pydict" where
  "sanitize_output result [] = result"
| "sanitize_output result ((name, spec) # schema) =
     sanitize_output (case spec of
         PDict s \<Rightarrow> (case dget s ''default'' of
             Some v \<Rightarrow> if dhas result name then result else dput name v result
           | None \<Rightarrow> result)
       | _ \<Rightarrow> result) schema"

section \<open>Preprocessor anchors\<close>

type_synonym extractor = "string \<Rightarrow> pydict \<Rightarrow> (string \<times> pyval) option"

record nlp_result =
  nr_anchors :: "(string \<times> pyval) list"
  nr_evidence :: pydict

definition run_extractors :: "string \<Rightarrow> pydict \<Rightarrow> extractor list \<Rightarrow> nlp_result" where
  "run_extractors input_text task_context extractors =
     (let as = List.map_filter (\<lambda>f. f input_text task_context) extractors
      in \<lparr>nr_anchors = as, nr_evidence = dupdate [] as\<rparr>)"

definition merge_into :: "nlp_result \<Rightarrow> pydict \<Rightarrow> pydict" where
  "merge_into r evidence =
     foldl (\<lambda>merged (k, v). if dhas merged k then merged else dput k v merged) evidence (nr_evidence r)"

section \<open>The pipeline\<close>

record inspection =
  in_approved :: bool
  in_violations :: "violation list"
  in_payload :: pydict
  in_results :: "inv_result list"
  in_nlp :: "nlp_result option"

record pipeline =
  pl_schema :: pydict
  pl_invariants :: "pydict list"
  pl_extractors :: "extractor list"
  pl_strict :: bool

fun schema_blocking :: "violation \<Rightarrow> bool" where
  "schema_blocking (MissingRequired _) = True"
| "schema_blocking (TypeMismatch _) = True"
| "schema_blocking _ = False"

definition critical_failure :: "inv_result \<Rightarrow> bool" where
  "critical_failure r \<longleftrightarrow> \<not> ir_passed r \<and> ir_severity r = PStr ''critical''"

definition failure_notes :: "inv_result list \<Rightarrow> violation list" where
  "failure_notes rs = map (\<lambda>r. InvariantFailed (ir_id r) (ir_severity r)) (filter (\<lambda>r. \<not> ir_passed r) rs)"

definition run_pipeline :: "pipeline \<Rightarrow> pydict \<Rightarrow> string \<Rightarrow> pydict \<Rightarrow> inspection res" where
  "run_pipeline p payload input_text task_context =
     (let nlp = (if pl_extractors p = [] then None
                 else Some (run_extractors input_text task_context (pl_extractors p)));
          payload1 = (case nlp of None \<Rightarrow> payload | Some r \<Rightarrow> merge_into r payload)
      in res_bind (if pl_schema p = [] then Inr (True, []) else validate_output payload1 (pl_schema p)) (\<lambda>(valid, schema_violations).
         let payload2 = (if pl_schema p = [] then payload1 else sanitize_output payload1 (pl_schema p))
         in res_bind (if pl_invariants p = [] then Inr [] else evaluate_invariants (pl_invariants p) payload2) (\<lambda>results.
              let violations = schema_violations @ failure_notes results;
                  critical_failures = list_ex critical_failure results;
                  schema_blocked = (pl_strict p \<and> list_ex schema_blocking violations)
              in Inr \<lparr>in_approved = (\<not> critical_failures \<and> \<not> schema_blocked), in_violations = violations,
                      in_payload = payload2, in_results = results, in_nlp = nlp\<rparr>)))"

section \<open>Facts about the stages\<close>

text \<open>The entry an invariant contributes to the results.\<close>

definition inv_outcome :: "pydict \<Rightarrow> pydict \<Rightarrow> inv_result option" where
  "inv_outcome evidence iv = (case check_verdict iv evidence of
      None \<Rightarrow> None
    | Some b \<Rightarrow> Some \<lparr>ir_id = dget_or iv ''id'' PNone, ir_severity = dget_or iv ''severity'' (PStr ''warning''),
        ir_passed = b, ir_standing_order = dget_or iv ''standing_order_on_violation'' PNone,
        ir_signal = dget_or iv ''signal_type'' PNone\<rparr>)"

lemma evaluate_invariants_filter:
  "(\<And>iv. iv \<in> set invs \<Longrightarrow> dhas iv ''id'') \<Longrightarrow>
     evaluate_invariants invs evidence = Inr (List.map_filter (inv_outcome evidence) invs)"
  by (induction invs)
     (fastforce simp: List.map_filter_simps inv_outcome_def dhas_iff dget_or_def split: option.splits)+

lemma evaluate_invariants_no_id:
  "iv \<in> set invs \<Longrightarrow> \<not> dhas iv ''id'' \<Longrightarrow> evaluate_invariants invs evidence = Inl KeyError"
  by (induction invs) (auto simp: dhas_iff split: option.splits)

text \<open>A decided check read a field that the evidence holds.\<close>

lemma evaluate_check_expr_reads:
  assumes "evaluate_check_expr s evidence = Inr (Some b)"
  shows "\<exists>field rest. split_ws 2 (strip s) = field # rest \<and> dhas evidence field"
  using assms
  by (fastforce simp: evaluate_check_expr_def dhas_iff split: list.splits option.splits)

lemma check_verdict_Some:
  assumes "check_verdict iv evidence = Some b"
  shows "\<not> truthy (dget_or iv ''handled_by'' PNone) \<and>
    (\<exists>s. dget iv ''check'' = Some (PStr s) \<and> evaluate_check_expr s evidence = Inr (Some b))"
  using assms
  by (cases "dget iv ''check''")
     (auto simp: check_verdict_def dget_or_def split: if_splits pyval.splits sum.splits)

lemma dget_sanitize_present:
  "dget result k = Some v \<Longrightarrow> dget (sanitize_output result schema) k = Some v"
proof (induction result schema rule: sanitize_output.induct)
  case (2 result name spec schema)
  have "dget result name = None \<Longrightarrow> name \<noteq> k" using 2(2) by auto
  then show ?case
    using 2 by (auto simp: dhas_iff split: pyval.splits option.splits)
qed simp

definition field_default :: "pydict \<Rightarrow> string \<Rightarrow> pyval option" where
  "field_default schema k = (case dget schema k of Some (PDict s) \<Rightarrow> dget s ''default'' | _ \<Rightarrow> None)"

lemma dget_sanitize:
  "dict_ok schema \<Longrightarrow> dget (sanitize_output result schema) k =
     (case dget result k of Some v \<Rightarrow> Some v | None \<Rightarrow> field_default schema k)"
proof (induction result schema rule: sanitize_output.induct)
  case (1 result)
  then show ?case by (simp add: field_default_def split: option.splits)
next
  case (2 result name spec schema)
  from 2(2) have ok: "dict_ok schema" and new: "dget schema name = None"
    by (auto simp: dict_ok_def dget_None_iff)
  show ?case
    using 2(1) [OF ok] new
    by (auto simp: field_default_def dhas_iff split: pyval.splits option.splits if_splits)
qed

lemma merge_into_present:
  "dget evidence k = Some v \<Longrightarrow> dget (merge_into r evidence) k = Some v"
proof -
  have "dget ev k = Some v \<Longrightarrow>
      dget (foldl (\<lambda>merged (k, v). if dhas merged k then merged else dput k v merged) ev items) k = Some v" for ev items
  proof (induction items arbitrary: ev)
    case (Cons p items)
    have "\<not> dhas ev (fst p) \<Longrightarrow> fst p \<noteq> k" using Cons.prems by (auto simp: dhas_iff)
    then show ?case using Cons by (cases p) auto
  qed simp
  then show "dget evidence k = Some v \<Longrightarrow> dget (merge_into r evidence) k = Some v"
    by (simp add: merge_into_def)
qed

text \<open>What a field without violations satisfies.\<close>

definition conforms :: "pydict \<Rightarrow> string \<Rightarrow> pydict \<Rightarrow> bool" where
  "conforms payload name s = (case dget payload name of
      None \<Rightarrow> \<not> truthy (dget_or s ''required'' (PBool False))
    | Some value \<Rightarrow>
        (dget_or s ''type'' PNone \<noteq> PNone \<and> value \<noteq> PNone \<longrightarrow> check_type value (dget_or s ''type'' PNone) = Inr True) \<and>
        (dget_or s ''enum'' PNone \<noteq> PNone \<longrightarrow> py_in value (dget_or s ''enum'' PNone) = Inr True) \<and>
        ((is_int value \<or> is_float value) \<and> \<not> is_bool value \<longrightarrow>
           (dget_or s ''minimum'' PNone \<noteq> PNone \<longrightarrow> py_ord OpLt value (dget_or s ''minimum'' PNone) = Inr False) \<and>
           (dget_or s ''maximum'' PNone \<noteq> PNone \<longrightarrow> py_ord OpGt value (dget_or s ''maximum'' PNone) = Inr False)))"

lemma note_if_Nil: "note_if r v = Inr [] \<longleftrightarrow> r = Inr False"
  by (auto simp: note_if_def res_bind_Inr_iff split: if_splits)

lemma bound_check_Nil: "bound_check op value bound v = Inr [] \<longleftrightarrow>
    ((is_int value \<or> is_float value) \<and> \<not> is_bool value \<and> bound \<noteq> PNone \<longrightarrow> py_ord op value bound = Inr False)"
  by (auto simp: bound_check_def note_if_Nil)

lemma field_violations_Nil:
  "field_violations payload name (PDict s) = Inr [] \<longleftrightarrow> conforms payload name s"
proof (cases "dget payload name")
  case None
  then show ?thesis by (simp add: field_violations_def conforms_def)
next
  case (Some a)
  have neg: "res_bind r (\<lambda>b. Inr (\<not> b)) = Inr False \<longleftrightarrow> r = Inr True" for r
    by (cases r) auto
  show ?thesis
    by (auto simp: Some field_violations_def conforms_def res_bind_Inr_iff bound_check_Nil note_if_Nil neg)
qed

lemma validate_fields_Nil:
  "validate_fields payload schema = Inr [] \<longleftrightarrow>
     (\<forall>name s. (name, PDict s) \<in> set schema \<longrightarrow> conforms payload name s)"
proof (induction schema)
  case (Cons p schema)
  obtain name spec where p: "p = (name, spec)" by (cases p)
  have "validate_fields payload (p # schema) = Inr [] \<longleftrightarrow>
      field_violations payload name spec = Inr [] \<and> validate_fields payload schema = Inr []"
    by (auto simp: p res_bind_Inr_iff)
  also have "field_violations payload name spec = Inr [] \<longleftrightarrow> (\<forall>s. spec = PDict s \<longrightarrow> conforms payload name s)"
    using field_violations_Nil by (cases spec) (auto simp: field_violations_def)
  finally show ?case using Cons.IH by (auto simp: p)
qed simp

text \<open>Specification of the stages by lookup: what a key of the payload holds after the preprocessor, and what of a declared
  field blocks in strict mode.\<close>

definition prepared :: "pipeline \<Rightarrow> pydict \<Rightarrow> string \<Rightarrow> pydict \<Rightarrow> string \<Rightarrow> pyval option" where
  "prepared p payload input_text task_context k = (case dget payload k of
      Some v \<Rightarrow> Some v
    | None \<Rightarrow> dget (dupdate [] (List.map_filter (\<lambda>f. f input_text task_context) (pl_extractors p))) k)"

definition field_blocks :: "pyval option \<Rightarrow> pydict \<Rightarrow> bool" where
  "field_blocks v s \<longleftrightarrow> (case v of
      None \<Rightarrow> truthy (dget_or s ''required'' (PBool False))
    | Some w \<Rightarrow> w \<noteq> PNone \<and> dget_or s ''type'' PNone \<noteq> PNone \<and> check_type w (dget_or s ''type'' PNone) = Inr False)"

lemma dget_merge_into:
  assumes "dict_ok (nr_evidence r)"
  shows "dget (merge_into r evidence) k = (case dget evidence k of Some v \<Rightarrow> Some v | None \<Rightarrow> dget (nr_evidence r) k)"
proof -
  have "dict_ok items \<Longrightarrow> dget (foldl (\<lambda>merged (k, v). if dhas merged k then merged else dput k v merged) ev items) k
      = (case dget ev k of Some v \<Rightarrow> Some v | None \<Rightarrow> dget items k)" for ev items
  proof (induction items arbitrary: ev)
    case (Cons q items)
    obtain a b where q: "q = (a, b)" by (cases q)
    have "dget items a = None" "dict_ok items" using Cons.prems by (auto simp: q dict_ok_def dget_None_iff)
    then show ?case using Cons.IH by (auto simp: q dhas_iff split: option.splits)
  qed (simp split: option.split)
  from this [OF assms] show ?thesis by (simp add: merge_into_def)
qed

lemma note_if_Inr: "note_if r v = Inr vs \<longleftrightarrow> (\<exists>b. r = Inr b \<and> vs = (if b then [v] else []))"
  by (auto simp: note_if_def res_bind_Inr_iff)

lemma bound_check_blocking: "bound_check op a b v = Inr vs \<Longrightarrow> \<not> schema_blocking v \<Longrightarrow> \<not> list_ex schema_blocking vs"
  by (auto simp: bound_check_def note_if_Inr split: if_split_asm)

lemma field_violations_blocking:
  assumes "field_violations payload name spec = Inr vs"
  shows "list_ex schema_blocking vs \<longleftrightarrow> (\<exists>s. spec = PDict s \<and> field_blocks (dget payload name) s)"
proof (cases "\<exists>s. spec = PDict s")
  case True
  then obtain s where s: "spec = PDict s" by blast
  show ?thesis
  proof (cases "dget payload name")
    case None
    then show ?thesis using assms by (auto simp: s field_violations_def field_blocks_def split: if_split_asm)
  next
    case (Some a)
    from assms obtain v1 v2 v3 v4 where v:
      "(if dget_or s ''type'' PNone = PNone \<or> a = PNone then Inr []
         else note_if (res_bind (check_type a (dget_or s ''type'' PNone)) (\<lambda>b. Inr (\<not> b))) (TypeMismatch name)) = Inr v1"
      "(if dget_or s ''enum'' PNone = PNone then Inr [] else note_if (res_bind (py_in a (dget_or s ''enum'' PNone)) (\<lambda>b. Inr (\<not> b))) (InvalidValue name)) = Inr v2"
      "bound_check OpLt a (dget_or s ''minimum'' PNone) (BelowMinimum name) = Inr v3"
      "bound_check OpGt a (dget_or s ''maximum'' PNone) (AboveMaximum name) = Inr v4" "vs = v1 @ v2 @ v3 @ v4"
      by (auto simp: s Some field_violations_def res_bind_Inr_iff)
    have "\<not> list_ex schema_blocking v2" using v(2) by (auto simp: note_if_Inr split: if_split_asm)
    moreover have "\<not> list_ex schema_blocking v3" "\<not> list_ex schema_blocking v4" using v(3,4) by (auto dest!: bound_check_blocking)
    moreover have "list_ex schema_blocking v1 \<longleftrightarrow> field_blocks (Some a) s"
      using v(1) by (auto simp: field_blocks_def note_if_Inr res_bind_Inr_iff split: if_split_asm)
    ultimately show ?thesis by (simp add: s Some v(5))
  qed
next
  case False
  then have "vs = []" using assms by (cases spec) (auto simp: field_violations_def)
  with False show ?thesis by simp
qed

lemma validate_fields_blocking:
  "validate_fields payload schema = Inr vs \<Longrightarrow>
     list_ex schema_blocking vs \<longleftrightarrow> (\<exists>name s. (name, PDict s) \<in> set schema \<and> field_blocks (dget payload name) s)"
proof (induction payload schema arbitrary: vs rule: validate_fields.induct)
  case (2 payload name spec schema)
  then obtain v1 v2 where v: "field_violations payload name spec = Inr v1" "validate_fields payload schema = Inr v2" "vs = v1 @ v2"
    by (auto simp: res_bind_Inr_iff)
  show ?case using field_violations_blocking [OF v(1)] "2.IH" [OF v(2)] by (auto simp: v(3))
qed simp

lemma set_map_filter: "set (List.map_filter f xs) = {y. \<exists>x \<in> set xs. f x = Some y}"
  by (auto simp: List.map_filter_def image_iff) (metis option.sel option.simps(3))

lemma failure_notes_blocking: "\<not> list_ex schema_blocking (failure_notes rs)"
  by (auto simp: failure_notes_def list_ex_iff)

lemma evaluate_invariants_Inr:
  assumes "evaluate_invariants invs evidence = Inr rs" shows "rs = List.map_filter (inv_outcome evidence) invs"
proof -
  have "\<And>iv. iv \<in> set invs \<Longrightarrow> dhas iv ''id''" using evaluate_invariants_no_id [of _ invs evidence] assms by fastforce
  from evaluate_invariants_filter [OF this] assms show ?thesis by simp
qed

section \<open>Properties\<close>

text \<open>Evaluating the invariants of a domain yields, in order, one result per invariant that has a check
  of its own that the evidence decides; delegated invariants, missing evidence and raising checks give no
  result, so a failure is never reported without the evidence field the check names. An invariant without
  an id is the only error.\<close>

theorem evaluate_invariants_exact:
  "evaluate_invariants invs evidence =
     (if list_all (\<lambda>iv. dhas iv ''id'') invs then Inr (List.map_filter (inv_outcome evidence) invs) else Inl KeyError) \<and>
   (\<forall>iv r. inv_outcome evidence iv = Some r \<longrightarrow>
      (\<exists>s field rest. dget iv ''check'' = Some (PStr s) \<and> split_ws 2 (strip s) = field # rest \<and> dhas evidence field
         \<and> evaluate_check_expr s evidence = Inr (Some (ir_passed r)) \<and> \<not> truthy (dget_or iv ''handled_by'' PNone)))"
proof (intro conjI allI impI)
  show "evaluate_invariants invs evidence =
     (if list_all (\<lambda>iv. dhas iv ''id'') invs then Inr (List.map_filter (inv_outcome evidence) invs) else Inl KeyError)"
    using evaluate_invariants_filter [of invs evidence] evaluate_invariants_no_id [of _ invs evidence]
    by (auto simp: list_all_iff)
next
  fix iv r assume "inv_outcome evidence iv = Some r"
  then have v: "check_verdict iv evidence = Some (ir_passed r)"
    by (auto simp: inv_outcome_def split: option.splits)
  then obtain s where s: "dget iv ''check'' = Some (PStr s)" "evaluate_check_expr s evidence = Inr (Some (ir_passed r))"
    using check_verdict_Some by blast
  then show "\<exists>s field rest. dget iv ''check'' = Some (PStr s) \<and> split_ws 2 (strip s) = field # rest \<and> dhas evidence field
      \<and> evaluate_check_expr s evidence = Inr (Some (ir_passed r)) \<and> \<not> truthy (dget_or iv ''handled_by'' PNone)"
    using evaluate_check_expr_reads [OF s(2)] check_verdict_Some [OF v] by blast
qed

definition sample_invariant :: pydict where
  "sample_invariant = [(''id'', PStr ''steps''), (''check'', PStr ''step_count >= min_steps''), (''severity'', PStr ''critical'')]"

theorem evaluate_invariants_exact_witness:
  "evaluate_invariants [sample_invariant] [(''step_count'', PInt 1), (''min_steps'', PInt 3)] =
     Inr [\<lparr>ir_id = PStr ''steps'', ir_severity = PStr ''critical'', ir_passed = False, ir_standing_order = PNone, ir_signal = PNone\<rparr>]"
proof -
  have "List.map_filter (inv_outcome [(''step_count'', PInt 1), (''min_steps'', PInt 3)]) [sample_invariant] =
      [\<lparr>ir_id = PStr ''steps'', ir_severity = PStr ''critical'', ir_passed = False, ir_standing_order = PNone, ir_signal = PNone\<rparr>]"
    by code_simp
  moreover have "list_all (\<lambda>iv. dhas iv ''id'') [sample_invariant]" by code_simp
  ultimately show ?thesis
    using evaluate_invariants_exact [of "[sample_invariant]" "[(''step_count'', PInt 1), (''min_steps'', PInt 3)]"] by simp
qed

text \<open>A check never compares a field with a plain string literal: a right-hand side that is no number,
  boolean or empty list is read as the name of an evidence field, and the invariant is skipped when the
  evidence has no such field.\<close>

theorem string_literal_never_compared:
  assumes "split_ws 2 (strip s) = [field, op, raw_val]" "parse_check_literal raw_val = PStr w"
  shows "evaluate_check_expr s evidence = (case (dget evidence field, dget evidence raw_val) of
      (Some a, Some b) \<Rightarrow> (case cmpop_of op of
          None \<Rightarrow> Inr None | Some c \<Rightarrow> res_bind (py_cmp c a b) (\<lambda>r. Inr (Some r)))
    | _ \<Rightarrow> Inr None)"
  using assms by (simp add: evaluate_check_expr_def check_rhs_def split: option.splits)

theorem string_literal_never_compared_witness:
  "evaluate_check_expr ''mode == hint'' [(''mode'', PStr ''free'')] = Inr None"
proof -
  have s: "split_ws 2 (strip ''mode == hint'') = [''mode'', ''=='', ''hint'']" by code_simp
  have w: "parse_check_literal ''hint'' = PStr ''hint''" by code_simp
  show ?thesis using string_literal_never_compared [OF s w, of "[(''mode'', PStr ''free'')]"] by simp
qed

text \<open>The validator accepts a payload exactly when every declared field conforms: present if required,
  of a declared type, among the enumerated values and within the bounds.\<close>

theorem validate_output_sound:
  "validate_output payload schema = Inr (True, []) \<longleftrightarrow>
     (\<forall>name s. (name, PDict s) \<in> set schema \<longrightarrow> conforms payload name s)"
  unfolding validate_fields_Nil [symmetric] by (auto simp: validate_output_def res_bind_Inr_iff)

theorem validate_output_sound_witness:
  "conforms [(''n'', PInt 3)] ''n'' [(''type'', PStr ''integer''), (''required'', PBool True), (''minimum'', PInt 1)]"
proof -
  have "validate_output [(''n'', PInt 3)]
      [(''n'', PDict [(''type'', PStr ''integer''), (''required'', PBool True), (''minimum'', PInt 1)])] = Inr (True, [])"
    by code_simp
  then show ?thesis using validate_output_sound by fastforce
qed

text \<open>Filling defaults never changes a field the payload has, gives every absent field its declared
  default, adds nothing else, and is idempotent.\<close>

theorem sanitize_output_fills:
  assumes "dict_ok schema"
  shows "dget (sanitize_output result schema) k =
      (case dget result k of Some v \<Rightarrow> Some v | None \<Rightarrow> field_default schema k)
    \<and> dget (sanitize_output (sanitize_output result schema) schema) k = dget (sanitize_output result schema) k"
  using assms by (simp add: dget_sanitize split: option.splits)

theorem sanitize_output_fills_witness:
  "dget (sanitize_output [(''a'', PInt 1)] [(''a'', PDict [(''default'', PInt 7)]), (''b'', PDict [(''default'', PInt 8)])]) ''b'' = Some (PInt 8)"
proof -
  have "dict_ok [(''a'', PDict [(''default'', PInt 7)]), (''b'', PDict [(''default'', PInt 8)])]" by code_simp
  from sanitize_output_fills [OF this, of "[(''a'', PInt 1)]" "''b''"] show ?thesis by (simp add: field_default_def)
qed

text \<open>C28: the verdict as a function of the input. The result payload has, for every key, the value the payload carried, else
  the anchor the extractors found for it, else the default of the schema. The invariants are evaluated on it, one result for each that
  its evidence decides. The turn is approved exactly when none of them is a failure of critical severity and, in strict
  mode, no declared field is required and missing, or of a wrong type, before the defaults are filled in; values
  outside an enumeration or a bound are recorded but never deny, although the class documents any violation to. Nothing
  is recorded exactly when every declared field conforms and no invariant fails.\<close>

theorem pipeline_verdict:
  assumes "run_pipeline p payload input_text task_context = Inr i" "dict_ok (pl_schema p)"
  defines "pre \<equiv> prepared p payload input_text task_context"
  shows "(\<forall>k. dget (in_payload i) k = (case pre k of Some v \<Rightarrow> Some v | None \<Rightarrow> field_default (pl_schema p) k))
    \<and> in_results i = List.map_filter (inv_outcome (in_payload i)) (pl_invariants p)
    \<and> (in_approved i \<longleftrightarrow>
        \<not> (\<exists>iv \<in> set (pl_invariants p). \<exists>r. inv_outcome (in_payload i) iv = Some r \<and> \<not> ir_passed r \<and> ir_severity r = PStr ''critical'')
        \<and> \<not> (pl_strict p \<and> (\<exists>name s. (name, PDict s) \<in> set (pl_schema p) \<and> field_blocks (pre name) s)))
    \<and> (in_violations i = [] \<longleftrightarrow> (\<forall>r \<in> set (in_results i). ir_passed r)
        \<and> (\<exists>d. (\<forall>k. dget d k = pre k) \<and> (\<forall>name s. (name, PDict s) \<in> set (pl_schema p) \<longrightarrow> conforms d name s)))"
proof -
  define payload1 where "payload1 = (case (if pl_extractors p = [] then None else Some (run_extractors input_text task_context (pl_extractors p)))
      of None \<Rightarrow> payload | Some r \<Rightarrow> merge_into r payload)"
  define payload2 where "payload2 = (if pl_schema p = [] then payload1 else sanitize_output payload1 (pl_schema p))"
  obtain vs rs where r: "validate_fields payload1 (pl_schema p) = Inr vs" "evaluate_invariants (pl_invariants p) payload2 = Inr rs"
    and i: "in_results i = rs" "in_payload i = payload2" "in_violations i = vs @ failure_notes rs"
      "in_approved i = (\<not> list_ex critical_failure rs \<and> \<not> (pl_strict p \<and> list_ex schema_blocking (vs @ failure_notes rs)))"
    using assms(1) unfolding run_pipeline_def payload2_def
    by (auto simp: Let_def payload1_def [symmetric] validate_output_def res_bind_Inr_iff simp del: list_ex_append split: if_split_asm)
  have one: "dget payload1 k = pre k" for k
    by (simp add: payload1_def pre_def prepared_def run_extractors_def dget_merge_into Let_def split: option.split)
  have two: "dget payload2 k = (case pre k of Some v \<Rightarrow> Some v | None \<Rightarrow> field_default (pl_schema p) k)" for k
    using dget_sanitize [OF assms(2), of payload1 k] by (simp add: payload2_def one field_default_def split: option.split)
  have rs: "rs = List.map_filter (inv_outcome payload2) (pl_invariants p)" by (rule evaluate_invariants_Inr [OF r(2)])
  have "list_ex critical_failure rs \<longleftrightarrow> (\<exists>iv \<in> set (pl_invariants p). \<exists>r. inv_outcome payload2 iv = Some r \<and> \<not> ir_passed r \<and> ir_severity r = PStr ''critical'')"
    by (auto simp: rs list_ex_iff critical_failure_def set_map_filter)
  moreover have "list_ex schema_blocking (vs @ failure_notes rs) \<longleftrightarrow> (\<exists>name s. (name, PDict s) \<in> set (pl_schema p) \<and> field_blocks (pre name) s)"
    using validate_fields_blocking [OF r(1)] failure_notes_blocking by (simp add: one)
  moreover have "failure_notes rs = [] \<longleftrightarrow> (\<forall>r \<in> set rs. ir_passed r)" by (auto simp: failure_notes_def filter_empty_conv)
  moreover have "vs = [] \<longleftrightarrow> (\<exists>d. (\<forall>k. dget d k = pre k) \<and> (\<forall>name s. (name, PDict s) \<in> set (pl_schema p) \<longrightarrow> conforms d name s))"
    using validate_fields_Nil [of payload1 "pl_schema p"] r(1) one by (fastforce simp: conforms_def)
  ultimately show ?thesis using two rs by (simp add: i) blast
qed

definition enum_pipeline :: pipeline where
  "enum_pipeline = \<lparr>pl_schema = [(''tone'', PDict [(''enum'', PList [PStr ''calm''])]), (''steps'', PDict [(''default'', PInt 0)])],
     pl_invariants = [sample_invariant], pl_extractors = [\<lambda>t c. Some (''min_steps'', PInt 3)], pl_strict = True\<rparr>"

theorem pipeline_verdict_witness:
  "\<exists>i. run_pipeline enum_pipeline [(''tone'', PStr ''angry''), (''step_count'', PInt 1)] '''' [] = Inr i
     \<and> in_violations i = [InvalidValue ''tone'', InvariantFailed (PStr ''steps'') (PStr ''critical'')] \<and> \<not> in_approved i
     \<and> dget (in_payload i) ''min_steps'' = Some (PInt 3)"
proof -
  let ?payload = "[(''tone'', PStr ''angry''), (''step_count'', PInt 1)]"
  have "case run_pipeline enum_pipeline ?payload '''' [] of Inl _ \<Rightarrow> False
      | Inr i \<Rightarrow> in_violations i = [InvalidValue ''tone'', InvariantFailed (PStr ''steps'') (PStr ''critical'')]
          \<and> in_results i \<noteq> [] \<and> \<not> ir_passed (hd (in_results i)) \<and> ir_severity (hd (in_results i)) = PStr ''critical''" by code_simp
  from case_sum_False [OF this] obtain i where i: "run_pipeline enum_pipeline ?payload '''' [] = Inr i"
    "in_violations i = [InvalidValue ''tone'', InvariantFailed (PStr ''steps'') (PStr ''critical'')]"
    "in_results i \<noteq> []" "\<not> ir_passed (hd (in_results i))" "ir_severity (hd (in_results i)) = PStr ''critical''" by blast
  have "dict_ok (pl_schema enum_pipeline)" by code_simp
  note v = pipeline_verdict [OF i(1) this]
  have "hd (in_results i) \<in> set (List.map_filter (inv_outcome (in_payload i)) (pl_invariants enum_pipeline))"
    using v i(3) by (metis hd_in_set)
  then have "\<not> in_approved i" using v i(4,5) by (auto simp: set_map_filter)
  moreover have "prepared enum_pipeline ?payload '''' [] ''min_steps'' = Some (PInt 3)" by code_simp
  then have "dget (in_payload i) ''min_steps'' = Some (PInt 3)" using v by simp
  ultimately show ?thesis using i(1,2) by blast
qed

end
