(* ===== verification/Telemetry.thy ===== *)
theory Telemetry
  imports Py_Values
begin

text \<open>
  Log events (\<^verbatim>\<open>system_log/event_payload.py\<close>) and their masking before they reach the bus
  (\<^verbatim>\<open>system_log/telemetry_mask.py\<close>): dot-path patterns, the ordered rule list, the strategies and the
  recursive walk. Digest, keyed digest and rendering of values are arguments; the switches read from the
  environment are arguments too. The ellipsis of \<open>truncate\<close> is the three bytes of its encoding.
\<close>

section \<open>Events\<close>

datatype log_level = DEBUG | INFO | WARNING | ERROR | CRITICAL | AUDIT

definition level_of_value :: "string \<Rightarrow> log_level option" where
  "level_of_value s = (if s = ''DEBUG'' then Some DEBUG else if s = ''INFO'' then Some INFO
     else if s = ''WARNING'' then Some WARNING else if s = ''ERROR'' then Some ERROR
     else if s = ''CRITICAL'' then Some CRITICAL else if s = ''AUDIT'' then Some AUDIT else None)"

datatype level_arg = Level log_level | LevelStr string

fun coerce_level :: "level_arg \<Rightarrow> log_level res" where
  "coerce_level (Level l) = Inr l"
| "coerce_level (LevelStr s) = (case level_of_value s of None \<Rightarrow> Inl ValueError | Some l \<Rightarrow> Inr l)"

record log_event =
  ev_timestamp :: string
  ev_source :: string
  ev_level :: log_level
  ev_category :: string
  ev_message :: string
  ev_data :: pydict
  ev_record :: "pydict option"
  ev_domain :: "string option"

definition create_event ::
  "string \<Rightarrow> string \<Rightarrow> level_arg \<Rightarrow> string \<Rightarrow> string \<Rightarrow> pydict option \<Rightarrow> pydict option \<Rightarrow> string option \<Rightarrow> log_event res" where
  "create_event now source level category message data rcd domain_id =
     res_bind (coerce_level level) (\<lambda>l.
       Inr \<lparr>ev_timestamp = now, ev_source = source, ev_level = l, ev_category = category, ev_message = message,
            ev_data = (case data of None \<Rightarrow> [] | Some d \<Rightarrow> d), ev_record = rcd, ev_domain = domain_id\<rparr>)"

section \<open>Path patterns\<close>

text \<open>\<open>fnmatch\<close>: star, question mark and bracket classes; a class is what stands between the brackets.\<close>

fun in_ranges :: "string \<Rightarrow> char \<Rightarrow> bool" where
  "in_ranges (a # b # c # s) x =
     (if b = CHR ''-'' then (of_char a \<le> (of_char x :: nat) \<and> of_char x \<le> (of_char c :: nat)) \<or> in_ranges s x
      else a = x \<or> in_ranges (b # c # s) x)"
| "in_ranges (a # s) x = (a = x \<or> in_ranges s x)"
| "in_ranges [] x = False"

definition in_class :: "string \<Rightarrow> char \<Rightarrow> bool" where
  "in_class cls x = (case cls of
      c # s \<Rightarrow> if c = CHR ''!'' then \<not> in_ranges s x else in_ranges cls x
    | [] \<Rightarrow> False)"

definition bracket :: "string \<Rightarrow> (string \<times> string) option" where
  "bracket p =
     (let n = (if p \<noteq> [] \<and> hd p = CHR ''!'' then 1 else 0);
          m = (if n < length p \<and> p ! n = CHR '']'' then n + 1 else n);
          closing = dropWhile (\<lambda>c. c \<noteq> CHR '']'') (drop m p)
      in if closing = [] then None
         else Some (take m p @ takeWhile (\<lambda>c. c \<noteq> CHR '']'') (drop m p), tl closing))"

lemma bracket_shorter:
  assumes "bracket p = Some (cls, rest)" shows "length rest < length p"
proof -
  obtain m where m: "dropWhile (\<lambda>c. c \<noteq> CHR '']'') (drop m p) \<noteq> []"
      "rest = tl (dropWhile (\<lambda>c. c \<noteq> CHR '']'') (drop m p))"
    using assms unfolding bracket_def Let_def by (metis (no_types, lifting) option.distinct(1) option.inject prod.inject)
  have "length (dropWhile (\<lambda>c. c \<noteq> CHR '']'') (drop m p)) \<le> length p"
    using length_dropWhile_le [of "\<lambda>c. c \<noteq> CHR '']''" "drop m p"] by simp
  with m show ?thesis by (cases "dropWhile (\<lambda>c. c \<noteq> CHR '']'') (drop m p)") auto
qed

function (sequential) fnmatch :: "string \<Rightarrow> string \<Rightarrow> bool" where
  "fnmatch s [] = (s = [])"
| "fnmatch s (c # p) =
     (if c = CHR ''*'' then fnmatch s p \<or> (case s of [] \<Rightarrow> False | _ # t \<Rightarrow> fnmatch t (c # p))
      else case s of
        [] \<Rightarrow> False
      | d # t \<Rightarrow>
          if c = CHR ''?'' then fnmatch t p
          else if c = CHR ''['' then
            (case bracket p of
               None \<Rightarrow> d = c \<and> fnmatch t p
             | Some (cls, rest) \<Rightarrow> in_class cls d \<and> fnmatch t rest)
          else d = c \<and> fnmatch t p)"
  by pat_completeness auto

termination
  by (relation "measure (\<lambda>(s, p). length s + length p)") (auto dest: bracket_shorter)

fun match_parts :: "string list \<Rightarrow> string list \<Rightarrow> bool" where
  "match_parts [] path = (path = [])"
| "match_parts (p # pat) path =
     (if path = [] then list_all (\<lambda>q. q = ''**'') (p # pat)
      else if p = ''**''
      then pat = [] \<or> list_ex (\<lambda>k. match_parts pat (drop k path)) [0..<Suc (length path)]
      else fnmatch (hd path) p \<and> match_parts pat (tl path))"

definition path_matches :: "string \<Rightarrow> string \<Rightarrow> bool" where
  "path_matches pattern path = match_parts (split_on (CHR ''.'') pattern) (split_on (CHR ''.'') path)"

section \<open>Rules and strategies\<close>

datatype sensitivity = PUBLIC | INTERNAL | CONFIDENTIAL | RESTRICTED

datatype strategy = PASS | SHA256_HASH | HMAC_PSEUDONYM | REDACT | TRUNCATE

definition sensitivity_of_value :: "pyval \<Rightarrow> sensitivity res" where
  "sensitivity_of_value v = (if v = PStr ''public'' then Inr PUBLIC else if v = PStr ''internal'' then Inr INTERNAL
     else if v = PStr ''confidential'' then Inr CONFIDENTIAL else if v = PStr ''restricted'' then Inr RESTRICTED
     else Inl ValueError)"

definition strategy_of_value :: "pyval \<Rightarrow> strategy res" where
  "strategy_of_value v = (if v = PStr ''pass'' then Inr PASS else if v = PStr ''sha256_hash'' then Inr SHA256_HASH
     else if v = PStr ''hmac_pseudonym'' then Inr HMAC_PSEUDONYM else if v = PStr ''redact'' then Inr REDACT
     else if v = PStr ''truncate'' then Inr TRUNCATE else Inl ValueError)"

record field_rule =
  fr_path :: string
  fr_sensitivity :: sensitivity
  fr_strategy :: strategy
  fr_length :: "int option"

record masking_policy =
  mp_rules :: "field_rule list"
  mp_default :: strategy

text \<open>The digests and the key of a deployment.\<close>

record mask_env =
  me_sha256 :: "string \<Rightarrow> string"
  me_hmac :: "string \<Rightarrow> string \<Rightarrow> string"
  me_key :: "string option"
  me_render :: "pyval \<Rightarrow> string"

definition ellipsis :: string where
  "ellipsis = [CHR 0xE2, CHR 0x80, CHR 0xA6]"

definition apply_truncate :: "string \<Rightarrow> int \<Rightarrow> string" where
  "apply_truncate v n = (if int (length v) \<le> n then v else slice_to n v @ ellipsis)"

definition mask_str :: "mask_env \<Rightarrow> strategy \<Rightarrow> int option \<Rightarrow> string \<Rightarrow> string" where
  "mask_str env st len s = (case st of
      PASS \<Rightarrow> s
    | SHA256_HASH \<Rightarrow> me_sha256 env s
    | HMAC_PSEUDONYM \<Rightarrow> (case me_key env of Some k \<Rightarrow> me_hmac env k s | None \<Rightarrow> me_sha256 env s)
    | REDACT \<Rightarrow> ''[REDACTED]''
    | TRUNCATE \<Rightarrow> apply_truncate s (case len of None \<Rightarrow> 8 | Some n \<Rightarrow> if n = 0 then 8 else n))"

definition mask_value :: "mask_env \<Rightarrow> strategy \<Rightarrow> int option \<Rightarrow> pyval \<Rightarrow> pyval" where
  "mask_value env st len v = (if st = PASS then v else PStr (mask_str env st len (py_str (me_render env) v)))"

definition find_rule_obj :: "masking_policy \<Rightarrow> string \<Rightarrow> field_rule option" where
  "find_rule_obj policy path = find (\<lambda>r. path_matches (fr_path r) path) (mp_rules policy)"

definition find_rule :: "masking_policy \<Rightarrow> string \<Rightarrow> strategy option" where
  "find_rule policy path = map_option fr_strategy (find_rule_obj policy path)"

section \<open>Masking\<close>

definition sub_path :: "string \<Rightarrow> string \<Rightarrow> string" where
  "sub_path prefix k = (if prefix = [] then k else prefix @ ''.'' @ k)"

fun mask_dict :: "mask_env \<Rightarrow> masking_policy \<Rightarrow> string \<Rightarrow> pydict \<Rightarrow> pydict" where
  "mask_dict env policy prefix [] = []"
| "mask_dict env policy prefix ((k, v) # d) =
     (k, let path = sub_path prefix k in
         case find_rule_obj policy path of
           Some r \<Rightarrow> mask_value env (fr_strategy r) (fr_length r) v
         | None \<Rightarrow> (case v of
             PDict e \<Rightarrow> PDict (mask_dict env policy path e)
           | _ \<Rightarrow> mask_value env (mp_default policy) None v)) # mask_dict env policy prefix d"

definition mask_top :: "mask_env \<Rightarrow> masking_policy \<Rightarrow> string \<Rightarrow> string \<Rightarrow> string" where
  "mask_top env policy field s = (case find_rule_obj policy field of
      None \<Rightarrow> s | Some r \<Rightarrow> mask_str env (fr_strategy r) (fr_length r) s)"

definition mask_event :: "mask_env \<Rightarrow> masking_policy \<Rightarrow> log_event \<Rightarrow> log_event" where
  "mask_event env policy e =
     \<lparr>ev_timestamp = ev_timestamp e, ev_source = mask_top env policy ''source'' (ev_source e), ev_level = ev_level e,
      ev_category = mask_top env policy ''category'' (ev_category e),
      ev_message = mask_top env policy ''message'' (ev_message e),
      ev_data = mask_dict env policy ''data'' (ev_data e), ev_record = ev_record e, ev_domain = None\<rparr>"

text \<open>A rule whose path is no string or whose length is no integer raises here; the code stores it and raises
  when the rule is first used.\<close>

definition load_rule :: "pyval \<Rightarrow> field_rule res" where
  "load_rule entry =
     res_bind (py_item entry ''path'') (\<lambda>p.
     res_bind (py_item entry ''sensitivity'') (\<lambda>sv.
     res_bind (sensitivity_of_value sv) (\<lambda>s.
     res_bind (py_item entry ''strategy'') (\<lambda>tv.
     res_bind (strategy_of_value tv) (\<lambda>t.
     res_bind (py_get entry ''truncate_length'' PNone) (\<lambda>n.
       case (p, n) of
         (PStr path, PNone) \<Rightarrow> Inr \<lparr>fr_path = path, fr_sensitivity = s, fr_strategy = t, fr_length = None\<rparr>
       | (PStr path, PInt i) \<Rightarrow> Inr \<lparr>fr_path = path, fr_sensitivity = s, fr_strategy = t, fr_length = Some i\<rparr>
       | _ \<Rightarrow> Inl TypeError))))))"

definition load_policy_from_dict :: "pydict \<Rightarrow> masking_policy res" where
  "load_policy_from_dict raw =
     res_bind (py_iter (dget_or raw ''fields'' (PList []))) (\<lambda>entries.
     res_bind (map_res load_rule entries) (\<lambda>rules.
     res_bind (strategy_of_value (dget_or raw ''default_strategy'' (PStr ''pass''))) (\<lambda>d.
       Inr \<lparr>mp_rules = rules, mp_default = d\<rparr>)))"

definition apply_masking :: "mask_env \<Rightarrow> bool \<Rightarrow> masking_policy option \<Rightarrow> log_event \<Rightarrow> log_event" where
  "apply_masking env enabled active e =
     (if \<not> enabled then e else case active of None \<Rightarrow> e | Some p \<Rightarrow> mask_event env p e)"

section \<open>Facts about the walk\<close>

fun at_path :: "pydict \<Rightarrow> string list \<Rightarrow> pyval option" where
  "at_path d [] = None"
| "at_path d [k] = dget d k"
| "at_path d (k # ks) = (case dget d k of Some (PDict e) \<Rightarrow> at_path e ks | _ \<Rightarrow> None)"

definition full_path :: "string \<Rightarrow> string list \<Rightarrow> string" where
  "full_path prefix ks = foldl sub_path prefix ks"

text \<open>What the walk puts at a key.\<close>

definition mask_entry :: "mask_env \<Rightarrow> masking_policy \<Rightarrow> string \<Rightarrow> pyval \<Rightarrow> pyval" where
  "mask_entry env policy path v = (case find_rule_obj policy path of
      Some r \<Rightarrow> mask_value env (fr_strategy r) (fr_length r) v
    | None \<Rightarrow> (case v of PDict e \<Rightarrow> PDict (mask_dict env policy path e) | _ \<Rightarrow> mask_value env (mp_default policy) None v))"

lemma dget_mask_dict:
  "dget (mask_dict env policy prefix d) k = map_option (mask_entry env policy (sub_path prefix k)) (dget d k)"
  by (induction d) (auto simp: mask_entry_def Let_def split: option.splits pyval.splits)

lemma keys_mask_dict: "dkeys (mask_dict env policy prefix d) = dkeys d"
  by (induction d) auto

text \<open>No rule applies to a proper ancestor of the path.\<close>

fun unshielded :: "masking_policy \<Rightarrow> string \<Rightarrow> string list \<Rightarrow> bool" where
  "unshielded policy prefix [] = True"
| "unshielded policy prefix [k] = True"
| "unshielded policy prefix (k # ks) =
     (find_rule_obj policy (sub_path prefix k) = None \<and> unshielded policy (sub_path prefix k) ks)"

lemma at_path_mask:
  "unshielded policy prefix ks \<Longrightarrow> at_path d ks = Some v \<Longrightarrow>
     at_path (mask_dict env policy prefix d) ks = Some (mask_entry env policy (full_path prefix ks) v)"
proof (induction d ks arbitrary: prefix rule: at_path.induct)
  case (3 d k j ks)
  then obtain e where e: "dget d k = Some (PDict e)" "at_path e (j # ks) = Some v"
    by (auto split: option.splits pyval.splits)
  then show ?case
    using 3 by (simp add: dget_mask_dict mask_entry_def full_path_def)
qed (simp_all add: dget_mask_dict full_path_def)

lemma unshielded_iff:
  "unshielded policy prefix ks \<longleftrightarrow>
     (\<forall>n r. 0 < n \<and> n < length ks \<and> r \<in> set (mp_rules policy) \<longrightarrow> \<not> path_matches (fr_path r) (full_path prefix (take n ks)))"
proof (induction policy prefix ks rule: unshielded.induct)
  case (3 policy prefix k j ks)
  have "(\<forall>n. 0 < n \<and> n < length (k # j # ks) \<longrightarrow> P n) \<longleftrightarrow> P 1 \<and> (\<forall>n. 0 < n \<and> n < length (j # ks) \<longrightarrow> P (Suc n))" for P
    by (metis One_nat_def Suc_less_eq Suc_mono length_Cons length_greater_0_conv list.discI not0_implies_Suc not_gr_zero zero_less_Suc)
  from this [of "\<lambda>n. \<forall>r \<in> set (mp_rules policy). \<not> path_matches (fr_path r) (full_path prefix (take n (k # j # ks)))"] show ?case
    using 3 by (auto simp: full_path_def find_rule_obj_def find_None_iff)
qed simp_all

section \<open>Properties\<close>

text \<open>C29: the first rule whose pattern matches the path of a field decides what subscribers see of it,
  at any depth, unless a rule already took one of its ancestors: later rules that match are not considered, and a field under
  \<open>REDACT\<close> shows nothing of its value. A field that no rule matches is walked if it is a dictionary and gets the default
  strategy otherwise.\<close>

theorem masking_first_match_decides:
  assumes "at_path (ev_data e) ks = Some v"
    and "\<forall>n r. 0 < n \<and> n < length ks \<and> r \<in> set (mp_rules policy) \<longrightarrow> \<not> path_matches (fr_path r) (full_path ''data'' (take n ks))"
  shows "(\<forall>i < length (mp_rules policy). path_matches (fr_path (mp_rules policy ! i)) (full_path ''data'' ks)
        \<and> (\<forall>j < i. \<not> path_matches (fr_path (mp_rules policy ! j)) (full_path ''data'' ks)) \<longrightarrow>
        at_path (ev_data (mask_event env policy e)) ks =
          Some (mask_value env (fr_strategy (mp_rules policy ! i)) (fr_length (mp_rules policy ! i)) v)
        \<and> (fr_strategy (mp_rules policy ! i) = REDACT \<longrightarrow> at_path (ev_data (mask_event env policy e)) ks = Some (PStr ''[REDACTED]'')))
    \<and> ((\<forall>r \<in> set (mp_rules policy). \<not> path_matches (fr_path r) (full_path ''data'' ks)) \<longrightarrow>
        at_path (ev_data (mask_event env policy e)) ks =
          Some (case v of PDict d \<Rightarrow> PDict (mask_dict env policy (full_path ''data'' ks) d) | _ \<Rightarrow> mask_value env (mp_default policy) None v))"
proof -
  have "unshielded policy ''data'' ks" using assms(2) by (simp add: unshielded_iff)
  from at_path_mask [OF this assms(1), of env]
  have masked: "at_path (ev_data (mask_event env policy e)) ks = Some (mask_entry env policy (full_path ''data'' ks) v)"
    by (simp add: mask_event_def)
  have found: "find_rule_obj policy (full_path ''data'' ks) = Some (mp_rules policy ! i)"
    if "i < length (mp_rules policy)" "path_matches (fr_path (mp_rules policy ! i)) (full_path ''data'' ks)"
      "\<forall>j < i. \<not> path_matches (fr_path (mp_rules policy ! j)) (full_path ''data'' ks)" for i
    using that by (auto simp: find_rule_obj_def find_Some_iff)
  have none: "find_rule_obj policy (full_path ''data'' ks) = None"
    if "\<forall>r \<in> set (mp_rules policy). \<not> path_matches (fr_path r) (full_path ''data'' ks)"
    using that by (auto simp: find_rule_obj_def find_None_iff)
  show ?thesis by (auto simp: masked mask_entry_def found none mask_value_def mask_str_def)
qed

definition sample_policy :: masking_policy where
  "sample_policy = \<lparr>mp_rules = [\<lparr>fr_path = ''data.**.email'', fr_sensitivity = RESTRICTED, fr_strategy = REDACT, fr_length = None\<rparr>],
     mp_default = PASS\<rparr>"

definition sample_env :: mask_env where
  "sample_env = \<lparr>me_sha256 = rev, me_hmac = (\<lambda>k s. k @ s), me_key = None, me_render = (\<lambda>_. '''')\<rparr>"

definition sample_event :: "pydict \<Rightarrow> log_event" where
  "sample_event d = \<lparr>ev_timestamp = ''t'', ev_source = ''api'', ev_level = WARNING, ev_category = ''auth'',
     ev_message = ''login'', ev_data = d, ev_record = None, ev_domain = Some ''edu''\<rparr>"

definition sample_rules :: masking_policy where
  "sample_rules = \<lparr>mp_rules = [\<lparr>fr_path = ''data.**.email'', fr_sensitivity = RESTRICTED, fr_strategy = REDACT, fr_length = None\<rparr>,
     \<lparr>fr_path = ''data.user.*'', fr_sensitivity = PUBLIC, fr_strategy = PASS, fr_length = None\<rparr>], mp_default = SHA256_HASH\<rparr>"

theorem masking_first_match_decides_witness:
  "at_path (ev_data (mask_event sample_env sample_rules
      (sample_event [(''user'', PDict [(''email'', PStr ''a@b'')])]))) [''user'', ''email''] = Some (PStr ''[REDACTED]'')"
proof -
  have a: "at_path (ev_data (sample_event [(''user'', PDict [(''email'', PStr ''a@b'')])])) [''user'', ''email''] = Some (PStr ''a@b'')"
    by (simp add: sample_event_def)
  have "unshielded sample_rules ''data'' [''user'', ''email'']" by code_simp
  then have u: "\<forall>n r. 0 < n \<and> n < length [''user'', ''email''] \<and> r \<in> set (mp_rules sample_rules) \<longrightarrow>
      \<not> path_matches (fr_path r) (full_path ''data'' (take n [''user'', ''email'']))" by (simp only: unshielded_iff)
  have m: "0 < length (mp_rules sample_rules)" "path_matches (fr_path (mp_rules sample_rules ! 0)) (full_path ''data'' [''user'', ''email''])"
    "fr_strategy (mp_rules sample_rules ! 0) = REDACT" by code_simp+
  show ?thesis using masking_first_match_decides [OF a u, of sample_env] m by blast
qed

text \<open>A list is a leaf of the walk: without a rule for the list's own path and with the default strategy
  \<open>PASS\<close>, everything inside it passes unmasked, whatever rules name the fields of its elements.\<close>

theorem masking_skips_lists:
  assumes "at_path (ev_data e) ks = Some (PList vs)" "unshielded policy ''data'' ks"
    and "find_rule_obj policy (full_path ''data'' ks) = None" "mp_default policy = PASS"
  shows "at_path (ev_data (mask_event env policy e)) ks = Some (PList vs)"
  using at_path_mask [OF assms(2,1), of env] assms(3,4)
  by (simp add: mask_event_def mask_entry_def mask_value_def)

theorem masking_skips_lists_witness:
  "at_path (ev_data (mask_event sample_env sample_policy
      (sample_event [(''users'', PList [PDict [(''email'', PStr ''a@b'')]])]))) [''users''] =
   Some (PList [PDict [(''email'', PStr ''a@b'')]])"
proof (rule masking_skips_lists)
  show "find_rule_obj sample_policy (full_path ''data'' [''users'']) = None" by code_simp
qed (simp_all add: sample_event_def sample_policy_def)

end
