(* ===== verification/Log_Bus.thy ===== *)
theory Log_Bus
  imports Telemetry
begin

text \<open>
  The event bus (\<^verbatim>\<open>system_log/log_bus.py\<close>), the micro-router (\<^verbatim>\<open>system_log/log_router.py\<close>), the bounded
  stores it feeds (\<^verbatim>\<open>system_log/alert_store.py\<close>) and the commit guard (\<^verbatim>\<open>system_log/commit_guard.py\<close>).
  A callback is a name with an effect on the state of the logs; what a failing callback did before it
  raised is its effect, since the dispatch loop swallows the exception.
\<close>

section \<open>Stores\<close>

record event_store =
  es_buf :: "log_event list"
  es_max :: nat

definition new_store :: "nat \<Rightarrow> event_store" where
  "new_store n = \<lparr>es_buf = [], es_max = n\<rparr>"

definition store_push :: "log_event \<Rightarrow> event_store \<Rightarrow> event_store" where
  "store_push e s = s\<lparr>es_buf := last_n (es_max s) (es_buf s @ [e])\<rparr>"

interpretation event_buf: bounded_buffer es_buf store_push es_max
  by unfold_locales (simp_all add: store_push_def)

text \<open>\<open>items[offset : offset + limit]\<close> with Python's treatment of negative bounds.\<close>

definition slice_bound :: "nat \<Rightarrow> int \<Rightarrow> nat" where
  "slice_bound len i = (if 0 \<le> i then min len (nat i) else len - min len (nat (- i)))"

definition py_slice :: "int \<Rightarrow> int \<Rightarrow> 'a list \<Rightarrow> 'a list" where
  "py_slice i j xs = (let a = slice_bound (length xs) i; b = slice_bound (length xs) j in take (b - a) (drop a xs))"

definition wanted :: "string option \<Rightarrow> bool" where
  "wanted f \<longleftrightarrow> f \<noteq> None \<and> f \<noteq> Some []"

definition warning_query :: "int \<Rightarrow> int \<Rightarrow> string option \<Rightarrow> string option \<Rightarrow> event_store \<Rightarrow> log_event list" where
  "warning_query limit offset category_filter domain_id s =
     (let items = es_buf s;
          items = (if wanted category_filter then filter (\<lambda>e. Some (ev_category e) = category_filter) items else items);
          items = (if wanted domain_id then filter (\<lambda>e. ev_domain e = domain_id) items else items)
      in py_slice offset (offset + limit) (rev items))"

definition alert_query :: "int \<Rightarrow> int \<Rightarrow> string option \<Rightarrow> event_store \<Rightarrow> log_event list" where
  "alert_query limit offset domain_id s = warning_query limit offset None domain_id s"

section \<open>The bus\<close>

record 'cb subscription =
  su_callback :: 'cb
  su_levels :: "log_level list option"
  su_categories :: "string list option"

definition filter_allows :: "'a \<Rightarrow> 'a list option \<Rightarrow> bool" where
  "filter_allows x f = (case f of None \<Rightarrow> True | Some xs \<Rightarrow> xs = [] \<or> x \<in> set xs)"

definition sub_matches :: "log_event \<Rightarrow> 'cb subscription \<Rightarrow> bool" where
  "sub_matches e s \<longleftrightarrow> filter_allows (ev_level e) (su_levels s) \<and> filter_allows (ev_category e) (su_categories s)"

record 'cb bus =
  bs_queue :: "log_event option list"
  bs_subs :: "'cb subscription list"
  bs_running :: bool

definition new_bus :: "'cb bus" where
  "new_bus = \<lparr>bs_queue = [], bs_subs = [], bs_running = False\<rparr>"

definition subscribe :: "'cb \<Rightarrow> level_arg list option \<Rightarrow> string list option \<Rightarrow> 'cb bus \<Rightarrow> 'cb bus res" where
  "subscribe cb levels categories b =
     res_bind (case levels of None \<Rightarrow> Inr None | Some ls \<Rightarrow> res_bind (map_res coerce_level ls) (\<lambda>xs. Inr (Some xs))) (\<lambda>lf.
       Inr (b\<lparr>bs_subs := bs_subs b @ [\<lparr>su_callback = cb, su_levels = lf, su_categories = categories\<rparr>]\<rparr>))"

text \<open>\<open>emit\<close>; the masking that is in force is an argument.\<close>

definition emit :: "(log_event \<Rightarrow> log_event) \<Rightarrow> log_event \<Rightarrow> 'cb bus \<Rightarrow> 'cb bus" where
  "emit mk e b = (if \<not> bs_running b then b else b\<lparr>bs_queue := bs_queue b @ [Some (mk e)]\<rparr>)"

definition bus_start :: "'cb bus \<Rightarrow> 'cb bus" where
  "bus_start b = (if bs_running b then b else b\<lparr>bs_running := True\<rparr>)"

text \<open>\<open>stop\<close> up to the wait: events are refused, the sentinel is queued.\<close>

definition bus_stop :: "'cb bus \<Rightarrow> 'cb bus" where
  "bus_stop b = (if \<not> bs_running b then b else b\<lparr>bs_running := False, bs_queue := bs_queue b @ [None]\<rparr>)"

definition clear_subscriptions :: "'cb bus \<Rightarrow> 'cb bus" where
  "clear_subscriptions b = b\<lparr>bs_subs := []\<rparr>"

definition deliver :: "('cb \<Rightarrow> log_event \<Rightarrow> 's \<Rightarrow> 's) \<Rightarrow> 'cb subscription list \<Rightarrow> log_event \<Rightarrow> 's \<Rightarrow> 's" where
  "deliver run subs e s = fold (\<lambda>sub st. if sub_matches e sub then run (su_callback sub) e st else st) subs s"

text \<open>The dispatch loop over what is queued: it ends at the sentinel, leaving what came after it.\<close>

fun dispatch_loop ::
  "('cb \<Rightarrow> log_event \<Rightarrow> 's \<Rightarrow> 's) \<Rightarrow> 'cb subscription list \<Rightarrow> log_event option list \<Rightarrow> 's \<Rightarrow> log_event option list \<times> 's" where
  "dispatch_loop run subs [] s = ([], s)"
| "dispatch_loop run subs (None # q) s = (q, s)"
| "dispatch_loop run subs (Some e # q) s = dispatch_loop run subs q (deliver run subs e s)"

definition drain :: "('cb \<Rightarrow> log_event \<Rightarrow> 's \<Rightarrow> 's) \<Rightarrow> 'cb bus \<Rightarrow> 's \<Rightarrow> 'cb bus \<times> 's" where
  "drain run b s = (let (q, s') = dispatch_loop run (bs_subs b) (bs_queue b) s in (b\<lparr>bs_queue := q\<rparr>, s'))"

section \<open>The micro-router\<close>

datatype route = RouteArchive | RouteStaging | RouteImmediate | RouteAudit

record log_state =
  ls_archive :: "log_event list"
  ls_errors :: "log_event list"
  ls_audit :: "log_event list"
  ls_warnings :: event_store
  ls_alerts :: event_store

definition init_logs :: log_state where
  "init_logs = \<lparr>ls_archive = [], ls_errors = [], ls_audit = [], ls_warnings = new_store 1000, ls_alerts = new_store 100\<rparr>"

fun run_route :: "route \<Rightarrow> log_event \<Rightarrow> log_state \<Rightarrow> log_state" where
  "run_route RouteArchive e s = s\<lparr>ls_archive := ls_archive s @ [e]\<rparr>"
| "run_route RouteStaging e s = s\<lparr>ls_archive := ls_archive s @ [e], ls_warnings := store_push e (ls_warnings s)\<rparr>"
| "run_route RouteImmediate e s = s\<lparr>ls_errors := ls_errors s @ [e], ls_alerts := store_push e (ls_alerts s)\<rparr>"
| "run_route RouteAudit e s = s\<lparr>ls_audit := ls_audit s @ [e]\<rparr>"

record router =
  ro_bus :: "route bus"
  ro_started :: bool

definition router_start :: "router \<Rightarrow> router res" where
  "router_start r = (if ro_started r then Inr r
     else res_bind (subscribe RouteArchive (Some [Level DEBUG, Level INFO]) None (ro_bus r)) (\<lambda>b.
          res_bind (subscribe RouteStaging (Some [Level WARNING]) None b) (\<lambda>b.
          res_bind (subscribe RouteImmediate (Some [Level ERROR, Level CRITICAL]) None b) (\<lambda>b.
          res_bind (subscribe RouteAudit (Some [Level AUDIT]) None b) (\<lambda>b.
            Inr \<lparr>ro_bus = b, ro_started = True\<rparr>)))))"

definition router_stop :: "router \<Rightarrow> router" where
  "router_stop r = r\<lparr>ro_started := False\<rparr>"

section \<open>The commit guard\<close>

record signal =
  sg_pending :: bool
  sg_satisfied :: bool

definition notify_log_commit :: "signal option \<Rightarrow> signal option" where
  "notify_log_commit s = (case s of None \<Rightarrow> None | Some g \<Rightarrow> Some (if sg_pending g then g\<lparr>sg_satisfied := True\<rparr> else g))"

definition is_commit_pending :: "signal option \<Rightarrow> bool" where
  "is_commit_pending s = (case s of None \<Rightarrow> False | Some g \<Rightarrow> sg_pending g)"

definition is_commit_satisfied :: "signal option \<Rightarrow> bool" where
  "is_commit_satisfied s = (case s of None \<Rightarrow> False | Some g \<Rightarrow> sg_satisfied g)"

text \<open>What an endpoint does, as far as the guard sees it: it writes records and calls other guarded
  endpoints; the flag says whether it then raises on its own.\<close>

datatype act = WriteRecord | CallGuarded "act list" bool

datatype guard_error = LogCommitMissing | EndpointError

fun run_acts :: "act list \<Rightarrow> signal option \<Rightarrow> guard_error option \<times> signal option"
  and requires_log_commit :: "act list \<Rightarrow> bool \<Rightarrow> guard_error option" where
  "run_acts [] s = (None, s)"
| "run_acts (WriteRecord # as) s = run_acts as (notify_log_commit s)"
| "run_acts (CallGuarded body raises # as) s = (case requires_log_commit body raises of
      Some e \<Rightarrow> (Some e, s)
    | None \<Rightarrow> run_acts as s)"
| "requires_log_commit body raises = (case run_acts body (Some \<lparr>sg_pending = True, sg_satisfied = False\<rparr>) of
      (Some e, _) \<Rightarrow> Some e
    | (None, s) \<Rightarrow> if raises then Some EndpointError
                   else if is_commit_satisfied s then None else Some LogCommitMissing)"

section \<open>Facts about routing\<close>

fun route_of :: "log_level \<Rightarrow> route" where
  "route_of DEBUG = RouteArchive"
| "route_of INFO = RouteArchive"
| "route_of WARNING = RouteStaging"
| "route_of ERROR = RouteImmediate"
| "route_of CRITICAL = RouteImmediate"
| "route_of AUDIT = RouteAudit"

definition router_subs :: "route subscription list" where
  "router_subs =
     [\<lparr>su_callback = RouteArchive, su_levels = Some [DEBUG, INFO], su_categories = None\<rparr>,
      \<lparr>su_callback = RouteStaging, su_levels = Some [WARNING], su_categories = None\<rparr>,
      \<lparr>su_callback = RouteImmediate, su_levels = Some [ERROR, CRITICAL], su_categories = None\<rparr>,
      \<lparr>su_callback = RouteAudit, su_levels = Some [AUDIT], su_categories = None\<rparr>]"

lemma router_start_subs:
  "\<not> ro_started r \<Longrightarrow> router_start r =
     Inr \<lparr>ro_bus = (ro_bus r)\<lparr>bs_subs := bs_subs (ro_bus r) @ router_subs\<rparr>, ro_started = True\<rparr>"
  by (simp add: router_start_def subscribe_def router_subs_def)

lemma deliver_router: "deliver run_route router_subs e s = run_route (route_of (ev_level e)) e s"
  by (cases "ev_level e") (simp_all add: deliver_def router_subs_def sub_matches_def filter_allows_def)

text \<open>Stopping the router leaves its subscriptions on the bus, so a second start registers them twice.\<close>

lemma restart_duplicates:
  assumes "router_start \<lparr>ro_bus = new_bus, ro_started = False\<rparr> = Inr r" "router_start (router_stop r) = Inr r'"
  shows "bs_subs (ro_bus r') = router_subs @ router_subs"
proof -
  have "ro_bus r = new_bus\<lparr>bs_subs := router_subs\<rparr>"
    using assms(1) router_start_subs [of "\<lparr>ro_bus = new_bus, ro_started = False\<rparr>"] by (auto simp: new_bus_def)
  then show ?thesis
    using assms(2) router_start_subs [of "router_stop r"] by (auto simp: router_stop_def)
qed

definition routed :: "route \<Rightarrow> log_event list \<Rightarrow> log_event list" where
  "routed h es = filter (\<lambda>e. route_of (ev_level e) = h) es"

lemma emit_all:
  "bs_running b \<Longrightarrow> fold (emit mk) es b = b\<lparr>bs_queue := bs_queue b @ map (Some \<circ> mk) es\<rparr>"
  by (induction es arbitrary: b) (simp_all add: emit_def)

lemma dispatch_all:
  "dispatch_loop run subs (map Some es) s = ([], fold (deliver run subs) es s)"
  by (induction es arbitrary: s) simp_all

lemma run_all:
  "ls_warnings (fold (\<lambda>e. run_route (route_of (ev_level e)) e) es s) = fold store_push (routed RouteStaging es) (ls_warnings s)
   \<and> ls_alerts (fold (\<lambda>e. run_route (route_of (ev_level e)) e) es s) = fold store_push (routed RouteImmediate es) (ls_alerts s)
   \<and> ls_errors (fold (\<lambda>e. run_route (route_of (ev_level e)) e) es s) = ls_errors s @ routed RouteImmediate es
   \<and> ls_audit (fold (\<lambda>e. run_route (route_of (ev_level e)) e) es s) = ls_audit s @ routed RouteAudit es
   \<and> ls_archive (fold (\<lambda>e. run_route (route_of (ev_level e)) e) es s) =
       ls_archive s @ filter (\<lambda>e. route_of (ev_level e) \<in> {RouteArchive, RouteStaging}) es"
proof (induction es arbitrary: s)
  case (Cons e es)
  show ?case using Cons [of "run_route (route_of (ev_level e)) e s"]
    by (cases "ev_level e") (simp_all add: routed_def)
qed (simp add: routed_def)

section \<open>Properties\<close>

text \<open>C30: with the router started on a running bus, the events emitted are each handled once, by level:
  after the queue is drained the archive holds all debug, info and warning events, the warning store the last thousand warnings,
  the error log all errors and critical events, the alert store their last hundred, and the audit log all audit events,
  each in the order of emission and as masked.\<close>

theorem router_delivers_by_level:
  assumes "router_start \<lparr>ro_bus = bus_start new_bus, ro_started = False\<rparr> = Inr r"
    and "drain run_route (fold (emit mk) es (ro_bus r)) init_logs = (b, s)"
  shows "bs_queue b = []
    \<and> ls_archive s = filter (\<lambda>e. ev_level e \<in> {DEBUG, INFO, WARNING}) (map mk es)
    \<and> es_buf (ls_warnings s) = last_n 1000 (filter (\<lambda>e. ev_level e = WARNING) (map mk es))
    \<and> ls_errors s = filter (\<lambda>e. ev_level e \<in> {ERROR, CRITICAL}) (map mk es)
    \<and> es_buf (ls_alerts s) = last_n 100 (filter (\<lambda>e. ev_level e \<in> {ERROR, CRITICAL}) (map mk es))
    \<and> ls_audit s = filter (\<lambda>e. ev_level e = AUDIT) (map mk es)"
proof -
  have bus: "ro_bus r = (bus_start new_bus)\<lparr>bs_subs := router_subs\<rparr>"
    using assms(1) router_start_subs [of "\<lparr>ro_bus = bus_start new_bus, ro_started = False\<rparr>"]
    by (auto simp: new_bus_def bus_start_def)
  have fe: "fold (emit mk) es (ro_bus r) = (ro_bus r)\<lparr>bs_queue := map Some (map mk es)\<rparr>"
    by (subst emit_all) (simp_all add: bus bus_start_def new_bus_def)
  have "deliver run_route router_subs = (\<lambda>e. run_route (route_of (ev_level e)) e)"
    by (intro ext) (simp add: deliver_router)
  then have "s = fold (\<lambda>e. run_route (route_of (ev_level e)) e) (map mk es) init_logs" "bs_queue b = []"
    using assms(2) unfolding fe drain_def by (auto simp: bus dispatch_all simp del: map_map)
  moreover have "routed RouteStaging es = filter (\<lambda>e. ev_level e = WARNING) es" "routed RouteAudit es = filter (\<lambda>e. ev_level e = AUDIT) es"
    "routed RouteImmediate es = filter (\<lambda>e. ev_level e \<in> {ERROR, CRITICAL}) es"
    "filter (\<lambda>e. route_of (ev_level e) \<in> {RouteArchive, RouteStaging}) es = filter (\<lambda>e. ev_level e \<in> {DEBUG, INFO, WARNING}) es" for es
    unfolding routed_def by (rule filter_cong [OF refl], case_tac "ev_level x"; simp)+
  ultimately show ?thesis
    using run_all [of "map mk es" init_logs]
    by (simp add: init_logs_def new_store_def event_buf.items_push_all del: filter_map)
qed

theorem router_delivers_by_level_witness:
  "\<exists>r b s. router_start \<lparr>ro_bus = bus_start new_bus, ro_started = False\<rparr> = Inr r
     \<and> drain run_route (fold (emit (\<lambda>e. e)) [sample_event []] (ro_bus r)) init_logs = (b, s)
     \<and> es_buf (ls_warnings s) = [sample_event []] \<and> ls_archive s = [sample_event []] \<and> es_buf (ls_alerts s) = []"
proof -
  obtain r where r: "router_start \<lparr>ro_bus = bus_start new_bus, ro_started = False\<rparr> = Inr r"
    using router_start_subs [of "\<lparr>ro_bus = bus_start new_bus, ro_started = False\<rparr>"] by simp
  obtain b s where d: "drain run_route (fold (emit (\<lambda>e. e)) [sample_event []] (ro_bus r)) init_logs = (b, s)"
    by (cases "drain run_route (fold (emit (\<lambda>e. e)) [sample_event []] (ro_bus r)) init_logs")
  have "ev_level (sample_event []) = WARNING" by (simp add: sample_event_def)
  then show ?thesis using r d router_delivers_by_level [OF r d] by auto
qed

text \<open>Masking an event drops its domain, so a dashboard query that asks for a domain never returns a
  masked warning, whatever the policy.\<close>

theorem masked_events_lost_to_domain_query:
  assumes "bs_running b" "wanted domain_id"
    and "drain run_route (fold (emit (apply_masking env True (Some policy))) es (b\<lparr>bs_queue := [], bs_subs := router_subs\<rparr>)) init_logs = (b', s)"
  shows "warning_query limit offset category_filter domain_id (ls_warnings s) = []"
proof -
  let ?mk = "apply_masking env True (Some policy)"
  have fe: "fold (emit ?mk) es (b\<lparr>bs_queue := [], bs_subs := router_subs\<rparr>) =
      b\<lparr>bs_queue := map Some (map ?mk es), bs_subs := router_subs\<rparr>"
    by (subst emit_all) (simp_all add: assms(1))
  have "deliver run_route router_subs = (\<lambda>e. run_route (route_of (ev_level e)) e)"
    by (intro ext) (simp add: deliver_router)
  then have "s = fold (\<lambda>e. run_route (route_of (ev_level e)) e) (map ?mk es) init_logs"
    using assms(3) unfolding fe drain_def by (auto simp: dispatch_all simp del: map_map)
  then have "es_buf (ls_warnings s) = last_n 1000 (routed RouteStaging (map ?mk es))"
    using run_all [of "map ?mk es" init_logs] by (simp add: init_logs_def new_store_def event_buf.items_push_all)
  then have "e \<in> set (es_buf (ls_warnings s)) \<Longrightarrow> ev_domain e = None" for e
    by (auto simp: last_n_def routed_def apply_masking_def mask_event_def dest!: in_set_dropD)
  then have "filter (\<lambda>e. ev_domain e = domain_id) (filter P (es_buf (ls_warnings s))) = []" for P
    using assms(2) by (auto simp: wanted_def filter_empty_conv)
  from this [of "\<lambda>_. True"] this show ?thesis
    using assms(2) by (simp add: warning_query_def Let_def py_slice_def)
qed

theorem masked_events_lost_to_domain_query_witness:
  "\<exists>b' s. drain run_route (fold (emit (apply_masking sample_env True (Some sample_policy))) [sample_event []]
       ((bus_start new_bus)\<lparr>bs_queue := [], bs_subs := router_subs\<rparr>)) init_logs = (b', s)
     \<and> warning_query 50 0 None (Some ''edu'') (ls_warnings s) = []"
proof -
  obtain b' s where d: "drain run_route (fold (emit (apply_masking sample_env True (Some sample_policy))) [sample_event []]
       ((bus_start new_bus)\<lparr>bs_queue := [], bs_subs := router_subs\<rparr>)) init_logs = (b', s)"
    by (rule prod.exhaust)
  have "bs_running (bus_start new_bus)" "wanted (Some ''edu'')" by (simp_all add: bus_start_def new_bus_def wanted_def)
  from masked_events_lost_to_domain_query [OF this d] d show ?thesis by blast
qed

lemma run_acts_signal:
  "fst (run_acts as (Some \<lparr>sg_pending = True, sg_satisfied = b\<rparr>)) = None \<longleftrightarrow>
     (\<forall>body raises. CallGuarded body raises \<in> set as \<longrightarrow> requires_log_commit body raises = None)"
  "fst (run_acts as (Some \<lparr>sg_pending = True, sg_satisfied = b\<rparr>)) = None \<Longrightarrow>
     snd (run_acts as (Some \<lparr>sg_pending = True, sg_satisfied = b\<rparr>)) =
       Some \<lparr>sg_pending = True, sg_satisfied = (b \<or> WriteRecord \<in> set as)\<rparr>"
proof (induction as arbitrary: b)
  case (Cons a as)
  { case 1 show ?case
      using Cons(1) by (cases a) (auto simp: notify_log_commit_def simp del: requires_log_commit.simps split: option.splits)
  next
    case 2 then show ?case
      using Cons(2) by (cases a) (auto simp: notify_log_commit_def simp del: requires_log_commit.simps split: option.splits) }
qed simp_all

text \<open>The commit guard lets an endpoint return exactly when it does not raise, every guarded endpoint it
  calls returns, and it wrote a record itself: a record written by a nested guarded endpoint does not count.\<close>

theorem commit_guard_exact:
  "requires_log_commit body raises = None \<longleftrightarrow>
     \<not> raises \<and> WriteRecord \<in> set body \<and>
     (\<forall>inner r. CallGuarded inner r \<in> set body \<longrightarrow> requires_log_commit inner r = None)"
  using run_acts_signal [of body False]
  by (subst requires_log_commit.simps) (auto simp: is_commit_satisfied_def simp del: requires_log_commit.simps split: prod.split option.split)

theorem commit_guard_exact_witness:
  "requires_log_commit [CallGuarded [WriteRecord] False] False = Some LogCommitMissing"
proof -
  have "requires_log_commit [CallGuarded [WriteRecord] False] False \<noteq> None"
    by (subst commit_guard_exact) simp
  then show ?thesis by (simp add: notify_log_commit_def is_commit_satisfied_def)
qed

end
