(* ===== verification/Session_State.thy ===== *)
theory Session_State
  imports Py_Values
begin

text \<open>
  Per-session state: the conversation ring buffer (\<^verbatim>\<open>session/ring_buffer.py\<close>), the black-box triggers and
  snapshots (\<^verbatim>\<open>session/blackbox_triggers.py\<close>, \<^verbatim>\<open>session/blackbox.py\<close>) and the freeze with its unlock pins
  (\<^verbatim>\<open>core/session_unlock.py\<close>). Clock readings, the random draw and the file times are arguments; the limits the
  environment sets are fields of the state.
\<close>

section \<open>Ring buffer\<close>

record turn_record =
  tr_timestamp :: pyfloat
  tr_user :: string
  tr_response :: string
  tr_number :: int
  tr_domain :: string

record ring_buffer =
  rb_buf :: "turn_record list"
  rb_max :: nat

definition new_ring :: "int \<Rightarrow> ring_buffer" where
  "new_ring maxlen = \<lparr>rb_buf = [], rb_max = nat (max maxlen 1)\<rparr>"

definition ring_append :: "turn_record \<Rightarrow> ring_buffer \<Rightarrow> ring_buffer" where
  "ring_append t b = b\<lparr>rb_buf := last_n (rb_max b) (rb_buf b @ [t])\<rparr>"

interpretation ring: bounded_buffer rb_buf ring_append rb_max
  by unfold_locales (simp_all add: ring_append_def)

definition ring_push :: "rat \<Rightarrow> string \<Rightarrow> string \<Rightarrow> int \<Rightarrow> string \<Rightarrow> ring_buffer \<Rightarrow> ring_buffer" where
  "ring_push now user response n domain b =
     ring_append \<lparr>tr_timestamp = Fin now, tr_user = user, tr_response = response, tr_number = n, tr_domain = domain\<rparr> b"

definition ring_clear :: "ring_buffer \<Rightarrow> ring_buffer" where
  "ring_clear b = b\<lparr>rb_buf := []\<rparr>"

text \<open>\<open>hydrate\<close>: a timestamp that is no number raises, with the turns before it already in the buffer.\<close>

fun hydrate_from :: "(pyval \<Rightarrow> string) \<Rightarrow> int \<Rightarrow> pydict list \<Rightarrow> ring_buffer \<Rightarrow> py_exn option \<times> ring_buffer" where
  "hydrate_from render idx [] b = (None, b)"
| "hydrate_from render idx (r # rs) b = (case py_float (dget_or r ''timestamp'' (PFloat (Fin 0))) of
      Inl e \<Rightarrow> (Some e, b)
    | Inr t \<Rightarrow> hydrate_from render (idx + 1) rs
        (ring_append \<lparr>tr_timestamp = t, tr_user = py_str render (dget_or r ''user_message'' (PStr '''')),
           tr_response = py_str render (dget_or r ''llm_response'' (PStr '''')), tr_number = idx,
           tr_domain = py_str render (dget_or r ''domain_id'' (PStr ''''))\<rparr> b))"

definition hydrate :: "(pyval \<Rightarrow> string) \<Rightarrow> pydict list \<Rightarrow> ring_buffer \<Rightarrow> py_exn option \<times> ring_buffer" where
  "hydrate render rs b = hydrate_from render 0 rs (ring_clear b)"

definition ring_snapshot :: "ring_buffer \<Rightarrow> turn_record list" where
  "ring_snapshot b = rb_buf b"

section \<open>Black-box triggers\<close>

type_synonym trigger = "pydict \<Rightarrow> bool res"

type_synonym trigger_registry = "(string, trigger) dict"

definition register_trigger :: "string \<Rightarrow> trigger \<Rightarrow> trigger_registry \<Rightarrow> trigger_registry" where
  "register_trigger name f reg = dput name f reg"

definition unregister_trigger :: "string \<Rightarrow> trigger_registry \<Rightarrow> trigger_registry" where
  "unregister_trigger name reg = ddel name reg"

definition check_triggers :: "pydict \<Rightarrow> trigger_registry \<Rightarrow> string list" where
  "check_triggers event reg = map fst (filter (\<lambda>(name, f). f event = Inr True) reg)"

definition escalation_critical :: "(pyval \<Rightarrow> string) \<Rightarrow> trigger" where
  "escalation_critical render e = Inr (dget_or e ''record_type'' PNone = PStr ''EscalationRecord''
     \<and> ends_with ''critical_invariant_violation'' (py_str render (dget_or e ''trigger'' (PStr ''''))))"

definition escalation_severe :: trigger where
  "escalation_severe e = Inr (dget_or e ''record_type'' PNone = PStr ''EscalationRecord''
     \<and> (dget_or e ''target_role'' PNone = PStr ''meta_authority'' \<or> dget_or e ''target_role'' PNone = PStr ''admin''))"

definition builtin_triggers :: "(pyval \<Rightarrow> string) \<Rightarrow> trigger_registry" where
  "builtin_triggers render =
     register_trigger ''escalation_severe'' escalation_severe
       (register_trigger ''escalation_critical'' (escalation_critical render) [])"

section \<open>Snapshots on disk\<close>

text \<open>A snapshot file: its name, its modification time and what it holds.\<close>

record 'a snapshot_file =
  sf_name :: string
  sf_mtime :: rat
  sf_body :: 'a

definition prune_old_snapshots :: "int \<Rightarrow> 'a snapshot_file list \<Rightarrow> 'a snapshot_file list" where
  "prune_old_snapshots max_files dir =
     (let json_files = sort_key sf_mtime dir;
          excess = int (length json_files) - max_files
      in filter (\<lambda>f. f \<notin> set (slice_to excess json_files)) json_files)"

text \<open>\<open>write_blackbox\<close>: the rename replaces a file of the same name, then the directory is pruned.\<close>

definition write_blackbox :: "'a snapshot_file \<Rightarrow> int \<Rightarrow> 'a snapshot_file list \<Rightarrow> 'a snapshot_file list" where
  "write_blackbox f max_files dir = prune_old_snapshots max_files (filter (\<lambda>g. sf_name g \<noteq> sf_name f) dir @ [f])"

section \<open>Freeze and unlock\<close>

record pin_entry =
  pe_pin :: string
  pe_escalation :: string
  pe_expires :: rat

record freeze_entry =
  fe_frozen_at :: rat
  fe_expires :: rat
  fe_escalation :: string
  fe_session :: string

record lock_state =
  lk_pin_ttl :: int
  lk_freeze_ttl :: int
  lk_pins :: "(string, pin_entry) dict"
  lk_frozen :: "(string, freeze_entry) dict"

definition purge_expired :: "rat \<Rightarrow> lock_state \<Rightarrow> lock_state" where
  "purge_expired now s = s\<lparr>lk_pins := filter (\<lambda>(sid, e). \<not> now > pe_expires e) (lk_pins s)\<rparr>"

text \<open>\<open>f"{n:06d}"\<close> of the random draw.\<close>

definition pin_digits :: "nat \<Rightarrow> string" where
  "pin_digits n = (let d = nat_digits n in replicate (6 - length d) (CHR ''0'') @ d)"

definition generate_unlock_pin :: "rat \<Rightarrow> nat \<Rightarrow> string \<Rightarrow> string \<Rightarrow> lock_state \<Rightarrow> string \<times> lock_state" where
  "generate_unlock_pin now draw sid esc s =
     (let s1 = purge_expired now s; pin = pin_digits draw
      in (pin, s1\<lparr>lk_pins := dput sid \<lparr>pe_pin = pin, pe_escalation = esc, pe_expires = now + of_int (lk_pin_ttl s)\<rparr> (lk_pins s1)\<rparr>))"

definition validate_unlock_pin :: "rat \<Rightarrow> string \<Rightarrow> string \<Rightarrow> lock_state \<Rightarrow> bool \<times> lock_state" where
  "validate_unlock_pin now sid submitted s =
     (let s1 = purge_expired now s in
      case dget (lk_pins s1) sid of
        None \<Rightarrow> (False, s1)
      | Some e \<Rightarrow> if pe_pin e = submitted then (True, s1\<lparr>lk_pins := ddel sid (lk_pins s1)\<rparr>) else (False, s1))"

definition has_pending_pin :: "rat \<Rightarrow> string \<Rightarrow> lock_state \<Rightarrow> bool \<times> lock_state" where
  "has_pending_pin now sid s = (let s1 = purge_expired now s in (dhas (lk_pins s1) sid, s1))"

definition purge_user_freezes :: "rat \<Rightarrow> lock_state \<Rightarrow> lock_state" where
  "purge_user_freezes now s = s\<lparr>lk_frozen := filter (\<lambda>(uid, e). \<not> now > fe_expires e) (lk_frozen s)\<rparr>"

definition freeze_user :: "rat \<Rightarrow> string \<Rightarrow> string \<Rightarrow> string \<Rightarrow> lock_state \<Rightarrow> lock_state" where
  "freeze_user now uid esc sid s =
     (let s1 = purge_user_freezes now s
      in s1\<lparr>lk_frozen := dput uid \<lparr>fe_frozen_at = now, fe_expires = now + of_int (lk_freeze_ttl s),
              fe_escalation = esc, fe_session = sid\<rparr> (lk_frozen s1)\<rparr>)"

definition is_user_frozen :: "rat \<Rightarrow> string \<Rightarrow> lock_state \<Rightarrow> bool \<times> lock_state" where
  "is_user_frozen now uid s = (let s1 = purge_user_freezes now s in (dhas (lk_frozen s1) uid, s1))"

definition unfreeze_user :: "string \<Rightarrow> lock_state \<Rightarrow> lock_state" where
  "unfreeze_user uid s = s\<lparr>lk_frozen := ddel uid (lk_frozen s)\<rparr>"

text \<open>The operations on the pins as steps, with the clock reading of each.\<close>

datatype pin_op = Generate rat nat string string | Validate rat string string | Pending rat string

fun pin_step :: "pin_op \<Rightarrow> lock_state \<Rightarrow> lock_state" where
  "pin_step (Generate now draw sid esc) s = snd (generate_unlock_pin now draw sid esc s)"
| "pin_step (Validate now sid p) s = snd (validate_unlock_pin now sid p s)"
| "pin_step (Pending now sid) s = snd (has_pending_pin now sid s)"

section \<open>Facts\<close>

lemma dget_purge:
  "dict_ok (lk_pins s) \<Longrightarrow> dget (lk_pins (purge_expired now s)) sid =
     (case dget (lk_pins s) sid of None \<Rightarrow> None | Some e \<Rightarrow> if now \<le> pe_expires e then Some e else None)"
  using dget_filter [of "lk_pins s" "\<lambda>_ e. \<not> now > pe_expires e" sid]
  by (simp add: purge_expired_def case_prod_unfold not_less split: option.splits)

lemma purge_ok [simp]: "dict_ok (lk_pins s) \<Longrightarrow> dict_ok (lk_pins (purge_expired now s))"
  by (simp add: purge_expired_def)

fun op_time :: "pin_op \<Rightarrow> rat" where
  "op_time (Generate now _ _ _) = now" | "op_time (Validate now _ _) = now" | "op_time (Pending now _) = now"

text \<open>Operations that cannot use up or replace the pin of a session: those on other sessions, queries, and
  attempts with a wrong pin.\<close>

fun leaves_pin :: "string \<Rightarrow> string \<Rightarrow> pin_op \<Rightarrow> bool" where
  "leaves_pin sid pin (Generate _ _ sid' _) = (sid' \<noteq> sid)"
| "leaves_pin sid pin (Validate _ sid' p) = (sid' \<noteq> sid \<or> p \<noteq> pin)"
| "leaves_pin sid pin (Pending _ _) = True"

lemma pin_step_keeps:
  assumes "dict_ok (lk_pins s)" "dget (lk_pins s) sid = Some e" "leaves_pin sid (pe_pin e) op" "op_time op \<le> pe_expires e"
  shows "dict_ok (lk_pins (pin_step op s)) \<and> dget (lk_pins (pin_step op s)) sid = Some e"
  using assms
  by (cases op)
     (auto simp: generate_unlock_pin_def validate_unlock_pin_def has_pending_pin_def Let_def dget_purge split: option.splits)

lemma pin_steps_keep:
  assumes "dict_ok (lk_pins s)" "dget (lk_pins s) sid = Some e"
    and "\<forall>op \<in> set ops. leaves_pin sid (pe_pin e) op \<and> op_time op \<le> pe_expires e"
  shows "dict_ok (lk_pins (fold pin_step ops s)) \<and> dget (lk_pins (fold pin_step ops s)) sid = Some e"
  using assms
proof (induction ops arbitrary: s)
  case (Cons op ops)
  from pin_step_keeps [OF Cons.prems(1,2)] Cons.prems(3)
  have "dict_ok (lk_pins (pin_step op s))" "dget (lk_pins (pin_step op s)) sid = Some e" by auto
  from Cons.IH [OF this] Cons.prems(3) show ?case by simp
qed simp

text \<open>The number of files that survive a prune of \<open>n\<close> files.\<close>

definition kept :: "int \<Rightarrow> nat \<Rightarrow> nat" where
  "kept max_files n = (if max_files \<le> int n then min n (nat max_files)
     else if 2 * int n \<le> max_files then n else nat (max_files - int n))"

lemma slice_to_take: "slice_to i xs = take (length (slice_to i xs)) xs"
  by (cases xs) (auto simp: slice_to_def min_def)

lemma filter_not_prefix: "distinct xs \<Longrightarrow> filter (\<lambda>x. x \<notin> set (take k xs)) xs = drop k xs"
proof -
  assume d: "distinct xs"
  let ?P = "\<lambda>x. x \<notin> set (take k xs)"
  have "filter ?P (take k xs) = []" by (simp add: filter_empty_conv)
  moreover have "filter ?P (drop k xs) = drop k xs"
    using d set_take_disj_set_drop_if_distinct [of xs k k] by (auto simp: filter_id_conv)
  moreover have "filter ?P xs = filter ?P (take k xs) @ filter ?P (drop k xs)" by (metis append_take_drop_id filter_append)
  ultimately show ?thesis by simp
qed

section \<open>Properties\<close>

text \<open>C27: an unlock pin works exactly once and only while it is fresh: after it is generated, and whatever
  other sessions do and however often the session tries wrong pins, a submission is accepted exactly if it is
  that pin and its time-to-live has not passed; once accepted, no submission is accepted again.\<close>

theorem pin_works_once:
  fixes esc :: string
  assumes "dict_ok (lk_pins s)"
    and "\<forall>op \<in> set ops. leaves_pin sid (pin_digits draw) op \<and> op_time op \<le> t + of_int (lk_pin_ttl s)"
  defines "s1 \<equiv> fold pin_step ops (snd (generate_unlock_pin t draw sid esc s))"
  shows "(fst (validate_unlock_pin now sid p s1) \<longleftrightarrow> p = pin_digits draw \<and> now \<le> t + of_int (lk_pin_ttl s)) \<and>
    (fst (validate_unlock_pin now sid p s1) \<longrightarrow>
       \<not> fst (validate_unlock_pin later sid q (snd (validate_unlock_pin now sid p s1))))"
proof -
  let ?e = "\<lparr>pe_pin = pin_digits draw, pe_escalation = esc, pe_expires = t + of_int (lk_pin_ttl s)\<rparr>"
  have "dict_ok (lk_pins (snd (generate_unlock_pin t draw sid esc s)))"
    "dget (lk_pins (snd (generate_unlock_pin t draw sid esc s))) sid = Some ?e"
    using assms(1) by (simp_all add: generate_unlock_pin_def Let_def)
  from pin_steps_keep [OF this] assms(2)
  have s1: "dict_ok (lk_pins s1)" "dget (lk_pins s1) sid = Some ?e" by (simp_all add: s1_def)
  show ?thesis
    using s1 by (auto simp: validate_unlock_pin_def Let_def dget_purge)
qed

definition no_locks :: lock_state where
  "no_locks = \<lparr>lk_pin_ttl = 900, lk_freeze_ttl = 3600, lk_pins = [], lk_frozen = []\<rparr>"

theorem pin_works_once_witness:
  "fst (validate_unlock_pin 100 ''s1'' (pin_digits 7)
     (fold pin_step [Validate 50 ''s1'' ''999999''] (snd (generate_unlock_pin 0 7 ''s1'' ''e1'' no_locks))))"
proof -
  have "pin_digits 7 = ''000007''" by code_simp
  then have "\<forall>op \<in> set [Validate 50 ''s1'' ''999999'']. leaves_pin ''s1'' (pin_digits 7) op
      \<and> op_time op \<le> 0 + of_int (lk_pin_ttl no_locks)"
    by (simp add: no_locks_def)
  from pin_works_once [OF _ this, where now = 100 and p = "pin_digits 7" and esc = "''e1''"] show ?thesis by (simp add: no_locks_def)
qed

text \<open>Pruning the snapshots keeps the newest files, but fewer than the limit allows as soon as the
  directory is more than half full: below the limit the negative excess is a slice bound that counts from the
  end, so with \<open>n\<close> files only \<open>max_files - n\<close> survive.\<close>

theorem prune_keeps_newest:
  assumes "distinct dir" "0 \<le> max_files"
  shows "prune_old_snapshots max_files dir = drop (length dir - kept max_files (length dir)) (sort_key sf_mtime dir)
    \<and> length (prune_old_snapshots max_files dir) = kept max_files (length dir)"
proof -
  let ?k = "length (slice_to (int (length dir) - max_files) (sort_key sf_mtime dir))"
  have p: "prune_old_snapshots max_files dir = drop ?k (sort_key sf_mtime dir)"
    unfolding prune_old_snapshots_def Let_def length_sort
    by (subst slice_to_take) (rule filter_not_prefix, use assms(1) in simp)
  have "?k = length dir - kept max_files (length dir)" "kept max_files (length dir) \<le> length dir"
    using assms(2) by (auto simp: slice_to_def kept_def min_def)
  then show ?thesis using p by simp
qed

theorem prune_keeps_newest_witness:
  "length (prune_old_snapshots 100 (map (\<lambda>n. \<lparr>sf_name = nat_digits n, sf_mtime = of_nat n, sf_body = ()\<rparr>) [0..<99])) = 1"
proof -
  let ?dir = "map (\<lambda>n. \<lparr>sf_name = nat_digits n, sf_mtime = of_nat n, sf_body = ()\<rparr>) [0..<99]"
  have "distinct ?dir" by (simp add: distinct_map inj_on_def del: upt_rec_numeral)
  from prune_keeps_newest [OF this, of 100] show ?thesis
    by (simp add: kept_def del: upt_rec_numeral)
qed

lemma hydrate_from_ok:
  assumes "hydrate_from render idx rs b = (None, b')"
  shows "\<exists>ts. b' = fold ring_append ts b \<and> map tr_number ts = map (\<lambda>i. idx + int i) [0..<length rs]"
  using assms
proof (induction rs arbitrary: idx b)
  case (Cons r rs)
  then obtain t ts where "b' = fold ring_append ts (ring_append t b)" "tr_number t = idx"
      "map tr_number ts = map (\<lambda>i. idx + 1 + int i) [0..<length rs]"
    by (fastforce split: sum.splits)
  then have "b' = fold ring_append (t # ts) b" "map tr_number (t # ts) = map (\<lambda>i. idx + int i) [0..<length (r # rs)]"
    by (simp_all add: upt_conv_Cons map_Suc_upt [symmetric] o_def add.assoc del: upt_Suc)
  then show ?case by blast
qed simp

text \<open>The ring buffer holds the most recent turns: after any pushes onto a fresh buffer its snapshot is
  the last \<open>maxlen\<close> turns in order, and a hydrated buffer numbers the replayed turns from zero.\<close>

theorem ring_buffer_recent:
  assumes "hydrate render rs (new_ring maxlen) = (None, b)"
  shows "map tr_number (ring_snapshot b) = last_n (nat (max maxlen 1)) (map int [0..<length rs])
    \<and> ring_snapshot (fold ring_append turns b) = last_n (nat (max maxlen 1)) (ring_snapshot b @ turns)"
proof -
  obtain ts where ts: "b = fold ring_append ts (ring_clear (new_ring maxlen))"
      "map tr_number ts = map int [0..<length rs]"
    using hydrate_from_ok [OF assms [unfolded hydrate_def]] by auto
  have c: "rb_max b = nat (max maxlen 1)" and it: "rb_buf b = last_n (nat (max maxlen 1)) ts"
    by (simp_all add: ts(1) ring.cap_push_all ring.items_push_all ring_clear_def new_ring_def)
  have "map tr_number (last_n n ts) = last_n n (map tr_number ts)" for n by (simp add: last_n_def drop_map)
  then show ?thesis
    using ring.items_push_all [of b turns] by (simp add: ring_snapshot_def it c ts(2))
qed

theorem ring_buffer_recent_witness:
  "\<exists>b. hydrate (\<lambda>_. '''') [[], [], []] (new_ring 2) = (None, b) \<and> map tr_number (ring_snapshot b) = [1, 2]"
proof -
  have "\<exists>b. hydrate (\<lambda>_. '''') [[], [], []] (new_ring 2) = (None, b)" by (simp add: hydrate_def)
  moreover have "last_n 2 [0, 1, 2 :: int] = [1, 2]" by code_simp
  ultimately show ?thesis using ring_buffer_recent [of "\<lambda>_. ''''" "[[], [], []]" 2] by auto
qed

end
