(* ===== verification/Route_Compiler.thy ===== *)
theory Route_Compiler
  imports Py_Values
begin

text \<open>
  The route compiler, \<^verbatim>\<open>core/route_compiler.py\<close>: invariant handlers and standing-order tool chains of a
  domain are resolved once into flat tables, every reference checked. The keys of the tables are dynamic
  values; numeric keys of different types that compare equal are kept apart.
\<close>

section \<open>Tables\<close>

record inv_route =
  ivr_invariant :: pyval
  ivr_order :: pyval
  ivr_tool :: pyval
  ivr_libs :: "pyval list"

record so_route =
  sor_order :: string
  sor_chain :: "pyval list"
  sor_libs :: "pyval list"

record compiled_routes =
  cr_inv :: "(pyval, inv_route) dict"
  cr_so :: "(string, so_route) dict"
  cr_domain :: string

definition invariant_route :: "compiled_routes \<Rightarrow> pyval \<Rightarrow> inv_route option" where
  "invariant_route c i = dget (cr_inv c) i"

definition standing_order_tools :: "compiled_routes \<Rightarrow> string \<Rightarrow> so_route option" where
  "standing_order_tools c i = dget (cr_so c) i"

definition invariant_ids :: "compiled_routes \<Rightarrow> pyval list" where
  "invariant_ids c = dkeys (cr_inv c)"

definition standing_order_ids :: "compiled_routes \<Rightarrow> string list" where
  "standing_order_ids c = dkeys (cr_so c)"

definition has_routes :: "compiled_routes \<Rightarrow> bool" where
  "has_routes c \<longleftrightarrow> cr_inv c \<noteq> [] \<or> cr_so c \<noteq> []"

definition all_library_deps :: "compiled_routes \<Rightarrow> pyval set" where
  "all_library_deps c = set (concat (map (ivr_libs \<circ> snd) (cr_inv c))) \<union> set (concat (map (sor_libs \<circ> snd) (cr_so c)))"

definition all_tool_ids :: "compiled_routes \<Rightarrow> pyval set" where
  "all_tool_ids c = set (filter truthy (map (ivr_tool \<circ> snd) (cr_inv c))) \<union> set (concat (map (sor_chain \<circ> snd) (cr_so c)))"

datatype route_problem =
    UnknownInvariant string
  | HandlerUnknownOrder string pyval
  | HandlerUnknownTool string pyval
  | HandlerUnknownLibrary string pyval
  | ChainUnknownOrder string
  | ChainUnknownTool string pyval
  | ChainUnknownLibrary string pyval

datatype compile_error = CompileRaise py_exn | RouteCompilationError "route_problem list"

section \<open>Compilation\<close>

text \<open>The comprehension \<open>{x["id"]: x for x in xs if "id" in x}\<close>.\<close>

definition index_by_id :: "pyval list \<Rightarrow> (pyval, pyval) dict res" where
  "index_by_id xs = fold_res (\<lambda>x d. res_bind (py_in (PStr ''id'') x) (\<lambda>b.
     if b then res_bind (py_item x ''id'') (\<lambda>i. key_put i x d) else Inr d)) xs []"

text \<open>The elements of a reference list that a non-empty index does not know.\<close>

fun unknown_refs :: "pydict \<Rightarrow> pyval list \<Rightarrow> pyval list res" where
  "unknown_refs ix [] = Inr []"
| "unknown_refs ix (r # rs) =
     res_bind (if ix = [] then Inr True else py_in r (PDict ix)) (\<lambda>known.
     res_bind (unknown_refs ix rs) (\<lambda>us. Inr (if known then us else r # us)))"

definition handler_step ::
  "(pyval, pyval) dict \<Rightarrow> (pyval, pyval) dict \<Rightarrow> pydict \<Rightarrow> pydict \<Rightarrow> string \<times> pyval
     \<Rightarrow> (inv_route option \<times> route_problem list) res" where
  "handler_step invariants orders tools libs = (\<lambda>(inv_id, handler).
     if \<not> dhas invariants (PStr inv_id) then Inr (None, [UnknownInvariant inv_id])
     else
       res_bind (py_get handler ''standing_order_id'' (PStr '''')) (\<lambda>so_id.
       res_bind (if truthy so_id then key_in so_id orders else Inr True) (\<lambda>so_known.
       if \<not> so_known then Inr (None, [HandlerUnknownOrder inv_id so_id])
       else
         res_bind (py_get handler ''tool_adapter_id'' PNone) (\<lambda>tool_id.
         res_bind (if truthy tool_id \<and> tools \<noteq> [] then py_in tool_id (PDict tools) else Inr True) (\<lambda>tool_known.
         if \<not> tool_known then Inr (None, [HandlerUnknownTool inv_id tool_id])
         else
           res_bind (py_get handler ''library_deps'' PNone) (\<lambda>deps.
           res_bind (py_iter (py_or deps (PList []))) (\<lambda>lib_deps.
           res_bind (unknown_refs libs lib_deps) (\<lambda>unknown.
             Inr (Some \<lparr>ivr_invariant = PStr inv_id, ivr_order = so_id, ivr_tool = tool_id, ivr_libs = lib_deps\<rparr>,
                  map (HandlerUnknownLibrary inv_id) unknown)))))))))"

definition chain_step ::
  "(pyval, pyval) dict \<Rightarrow> pydict \<Rightarrow> pydict \<Rightarrow> string \<times> pyval \<Rightarrow> (so_route option \<times> route_problem list) res" where
  "chain_step orders tools libs = (\<lambda>(so_id, cfg).
     if \<not> dhas orders (PStr so_id) then Inr (None, [ChainUnknownOrder so_id])
     else
       res_bind (py_get cfg ''tool_chain'' PNone) (\<lambda>tc.
       res_bind (py_iter (py_or tc (PList []))) (\<lambda>chain.
       res_bind (unknown_refs tools chain) (\<lambda>bad_tools.
       res_bind (py_get cfg ''library_deps'' PNone) (\<lambda>deps.
       res_bind (py_iter (py_or deps (PList []))) (\<lambda>lib_deps.
       res_bind (unknown_refs libs lib_deps) (\<lambda>bad_libs.
         Inr (Some \<lparr>sor_order = so_id, sor_chain = chain, sor_libs = lib_deps\<rparr>,
              map (ChainUnknownTool so_id) bad_tools @ map (ChainUnknownLibrary so_id) bad_libs))))))))"

text \<open>\<open>so_ref in standing_orders or any(so.get("action") == so_ref ...)\<close>.\<close>

definition names_order :: "(pyval, pyval) dict \<Rightarrow> pyval list \<Rightarrow> pyval \<Rightarrow> bool res" where
  "names_order orders order_list so_ref = res_bind (key_in so_ref orders) (\<lambda>b.
     if b then Inr True
     else any_res (\<lambda>so. res_bind (py_get so ''action'' PNone) (\<lambda>a. Inr (peq a so_ref))) order_list)"

definition auto_step ::
  "(pyval, pyval) dict \<Rightarrow> pyval list \<Rightarrow> pyval \<Rightarrow> (pyval, inv_route) dict \<Rightarrow> (pyval, inv_route) dict res" where
  "auto_step orders order_list iv routes =
     res_bind (py_get iv ''id'' (PStr '''')) (\<lambda>inv_id.
     res_bind (py_get iv ''standing_order_on_violation'' PNone) (\<lambda>so_ref.
     if \<not> truthy inv_id \<or> \<not> truthy so_ref then Inr routes
     else res_bind (py_get iv ''handled_by'' PNone) (\<lambda>h.
       if truthy h then Inr routes
       else res_bind (names_order orders order_list so_ref) (\<lambda>b.
         if b then key_put inv_id \<lparr>ivr_invariant = inv_id, ivr_order = so_ref, ivr_tool = PNone, ivr_libs = []\<rparr> routes
         else Inr routes))))"

text \<open>The routes of the steps that made one, keyed in order.\<close>

definition route_table :: "('k \<times> 'v) list \<Rightarrow> ('k, 'v) dict" where
  "route_table rs = dupdate [] rs"

definition compile_tables ::
  "pydict \<Rightarrow> pydict \<Rightarrow> pydict \<Rightarrow> ((pyval, inv_route) dict \<times> (string, so_route) dict \<times> route_problem list) res" where
  "compile_tables physics tools libs =
     res_bind (py_iter (dget_or physics ''invariants'' (PList []))) (\<lambda>inv_list.
     res_bind (index_by_id inv_list) (\<lambda>invariants.
     res_bind (py_iter (dget_or physics ''standing_orders'' (PList []))) (\<lambda>order_list.
     res_bind (index_by_id order_list) (\<lambda>orders.
     res_bind (py_get (py_or (dget_or physics ''execution_policy'' PNone) (PDict [])) ''precompiled_routes'' PNone) (\<lambda>pr.
     let precompiled = py_or pr (PDict []) in
     res_bind (py_get precompiled ''invariant_handlers'' PNone) (\<lambda>ih.
     res_bind (py_items (py_or ih (PDict []))) (\<lambda>handlers.
     res_bind (map_res (handler_step invariants orders tools libs) handlers) (\<lambda>hs.
     res_bind (py_get precompiled ''standing_order_tools'' PNone) (\<lambda>st.
     res_bind (py_items (py_or st (PDict []))) (\<lambda>chains.
     res_bind (map_res (chain_step orders tools libs) chains) (\<lambda>cs.
     res_bind (if truthy precompiled
               then Inr (route_table (map (\<lambda>r. (ivr_invariant r, r)) (List.map_filter fst hs)))
               else fold_res (auto_step orders order_list) inv_list []) (\<lambda>inv_routes.
       Inr (inv_routes, route_table (map (\<lambda>r. (sor_order r, r)) (List.map_filter fst cs)),
            concat (map snd hs) @ concat (map snd cs))))))))))))))"

definition compile_execution_routes ::
  "(pyval \<Rightarrow> string) \<Rightarrow> pydict \<Rightarrow> pydict \<Rightarrow> pydict \<Rightarrow> bool \<Rightarrow> compile_error + compiled_routes" where
  "compile_execution_routes render physics tools libs strict =
     (case compile_tables physics tools libs of
        Inl e \<Rightarrow> Inl (CompileRaise e)
      | Inr (ir, sr, errors) \<Rightarrow>
          if errors \<noteq> [] \<and> strict then Inl (RouteCompilationError errors)
          else Inr \<lparr>cr_inv = ir, cr_so = sr, cr_domain = py_str render (dget_or physics ''id'' (PStr ''''))\<rparr>)"

section \<open>Closed references\<close>

definition refs_known :: "pydict \<Rightarrow> pyval list \<Rightarrow> bool" where
  "refs_known ix rs \<longleftrightarrow> ix = [] \<or> (\<forall>r \<in> set rs. py_in r (PDict ix) = Inr True)"

lemma unknown_refs_Nil: "unknown_refs ix rs = Inr [] \<Longrightarrow> refs_known ix rs"
  by (induction rs) (auto simp: refs_known_def res_bind_Inr_iff split: if_splits)

definition inv_route_ok :: "(pyval, pyval) dict \<Rightarrow> pyval list \<Rightarrow> pydict \<Rightarrow> pydict \<Rightarrow> inv_route \<Rightarrow> bool" where
  "inv_route_ok orders order_list tools libs r \<longleftrightarrow>
     (truthy (ivr_order r) \<longrightarrow> names_order orders order_list (ivr_order r) = Inr True) \<and>
     (truthy (ivr_tool r) \<longrightarrow> refs_known tools [ivr_tool r]) \<and> refs_known libs (ivr_libs r)"

definition so_route_ok :: "(pyval, pyval) dict \<Rightarrow> pydict \<Rightarrow> pydict \<Rightarrow> so_route \<Rightarrow> bool" where
  "so_route_ok orders tools libs r \<longleftrightarrow>
     dhas orders (PStr (sor_order r)) \<and> refs_known tools (sor_chain r) \<and> refs_known libs (sor_libs r)"

lemma names_order_key: "key_in k orders = Inr True \<Longrightarrow> names_order orders ol k = Inr True"
  by (simp add: names_order_def)

lemma handler_step_ok:
  "handler_step invariants orders tools libs (i, h) = Inr (Some r, []) \<Longrightarrow> inv_route_ok orders ol tools libs r"
  unfolding handler_step_def inv_route_ok_def
  by (auto simp: refs_known_def names_order_key dest!: unknown_refs_Nil elim!: res_bind_InrE split: if_split_asm)

lemma chain_step_ok:
  "chain_step orders tools libs (i, h) = Inr (Some r, []) \<Longrightarrow> so_route_ok orders tools libs r"
  by (auto simp: chain_step_def res_bind_Inr_iff so_route_ok_def dest!: unknown_refs_Nil split: if_splits)

lemma auto_step_ok:
  assumes "auto_step orders ol iv u = Inr v" "\<forall>r \<in> snd ` set u. inv_route_ok orders ol tools libs r"
  shows "\<forall>r \<in> snd ` set v. inv_route_ok orders ol tools libs r"
proof -
  have sub: "snd ` set (dput k x d) \<subseteq> insert x (snd ` set d)" for k :: pyval and x :: inv_route and d
    by (induction d rule: dput.induct) auto
  have "v = u \<or> (\<exists>k so. names_order orders ol so = Inr True \<and>
      v = dput k \<lparr>ivr_invariant = k, ivr_order = so, ivr_tool = PNone, ivr_libs = []\<rparr> u)"
    using assms(1) unfolding auto_step_def key_put_def 
    by (auto elim!: res_bind_InrE split: if_split_asm; blast)
  then show ?thesis
  proof (elim disjE exE conjE)
    fix k so
    let ?r = "\<lparr>ivr_invariant = k, ivr_order = so, ivr_tool = PNone, ivr_libs = []\<rparr>"
    assume so: "names_order orders ol so = Inr True" and v: "v = dput k ?r u"
    have "inv_route_ok orders ol tools libs ?r" using so by (simp add: inv_route_ok_def refs_known_def)
    show ?thesis
    proof
      fix r assume "r \<in> snd ` set v"
      then have "r \<in> insert ?r (snd ` set u)" unfolding v by (rule subsetD [OF sub])
      then show "inv_route_ok orders ol tools libs r"
        using \<open>inv_route_ok orders ol tools libs ?r\<close> assms(2) by (elim insertE) (simp, blast)
    qed
  qed (use assms(2) in simp)
qed

lemma dget_dupdate_mem: "dget (dupdate d rs) k = Some v \<Longrightarrow> dget d k = Some v \<or> v \<in> snd ` set rs"
  by (induction rs arbitrary: d) (force split: if_splits)+

lemma route_table_mem: "dget (route_table rs) k = Some v \<Longrightarrow> v \<in> snd ` set rs"
  using dget_dupdate_mem [of "[]" rs k v] by (simp add: route_table_def)

lemma mem_map_filter_fst: "r \<in> set (List.map_filter fst hs) \<longleftrightarrow> (\<exists>es. (Some r, es) \<in> set hs)"
  by (induction hs) (auto simp: List.map_filter_simps split: option.splits)

lemma steps_ok:
  assumes "map_res step xs = Inr hs" "concat (map snd hs) = []" "r \<in> set (List.map_filter fst hs)"
  shows "\<exists>x. step x = Inr (Some r, [])"
  using assms map_res_mem [OF assms(1)] by (fastforce simp: mem_map_filter_fst)

section \<open>Property\<close>

text \<open>Strict compilation yields closed tables: every compiled invariant route names a standing order
  of the domain (by id, or by action when the routes are derived), a registered tool and registered
  libraries, and every tool chain belongs to a standing order and uses only registered tools and libraries.\<close>

theorem strict_routes_closed:
  assumes "compile_execution_routes render physics tools libs True = Inr c"
  shows "\<exists>order_list orders. py_iter (dget_or physics ''standing_orders'' (PList [])) = Inr order_list
    \<and> index_by_id order_list = Inr orders
    \<and> (\<forall>i r. invariant_route c i = Some r \<longrightarrow> inv_route_ok orders order_list tools libs r)
    \<and> (\<forall>i r. standing_order_tools c i = Some r \<longrightarrow> so_route_ok orders tools libs r)"
proof -
  obtain ir sr where t: "compile_tables physics tools libs = Inr (ir, sr, [])" and c: "cr_inv c = ir" "cr_so c = sr"
    using assms by (auto simp: compile_execution_routes_def split: sum.splits if_splits)
  then obtain inv_list invariants ol orders precompiled handlers hs chains cs where o:
      "py_iter (dget_or physics ''standing_orders'' (PList [])) = Inr ol" "index_by_id ol = Inr orders"
      "map_res (handler_step invariants orders tools libs) handlers = Inr hs" "concat (map snd hs) = []"
      "map_res (chain_step orders tools libs) chains = Inr cs" "concat (map snd cs) = []"
      "(if truthy precompiled then Inr (route_table (map (\<lambda>r. (ivr_invariant r, r)) (List.map_filter fst hs)))
        else fold_res (auto_step orders ol) inv_list []) = Inr ir"
      "sr = route_table (map (\<lambda>r. (sor_order r, r)) (List.map_filter fst cs))"
    by (auto simp: compile_tables_def res_bind_Inr_iff Let_def)
  have "inv_route_ok orders ol tools libs r" if "dget ir i = Some r" for i r
  proof (cases "truthy precompiled")
    case True
    with o(7) that have "r \<in> set (List.map_filter fst hs)" by (auto dest: route_table_mem)
    from steps_ok [OF o(3,4) this] show ?thesis by (auto intro: handler_step_ok)
  next
    case False
    with o(7) have "fold_res (auto_step orders ol) inv_list [] = Inr ir" by simp
    then have "\<forall>r \<in> snd ` set ir. inv_route_ok orders ol tools libs r"
      by (rule fold_res_inv) (simp, rule auto_step_ok)
    with that show ?thesis by (force dest: map_of_SomeD)
  qed
  moreover have "so_route_ok orders tools libs r" if "dget sr i = Some r" for i r
  proof -
    have "r \<in> set (List.map_filter fst cs)" using that o(8) by (auto dest: route_table_mem)
    from steps_ok [OF o(5,6) this] show ?thesis by (auto intro: chain_step_ok)
  qed
  ultimately show ?thesis using o(1,2) by (auto simp: c invariant_route_def standing_order_tools_def)
qed

definition sample_physics :: pydict where
  "sample_physics = [(''id'', PStr ''algebra''),
     (''invariants'', PList [PDict [(''id'', PStr ''steps''), (''standing_order_on_violation'', PStr ''ask_steps'')]]),
     (''standing_orders'', PList [PDict [(''id'', PStr ''so1''), (''action'', PStr ''ask_steps'')]]),
     (''execution_policy'', PDict [(''precompiled_routes'', PDict
        [(''standing_order_tools'', PDict [(''so1'', PDict [(''tool_chain'', PList [PStr ''calc''])])])])])]"

theorem strict_routes_closed_witness:
  "\<exists>c. compile_execution_routes (\<lambda>_. '''') sample_physics [(''calc'', PNone)] [] True = Inr c
     \<and> (\<exists>orders. so_route_ok orders [(''calc'', PNone)] [] \<lparr>sor_order = ''so1'', sor_chain = [PStr ''calc''], sor_libs = []\<rparr>)"
proof -
  define c where "c = \<lparr>cr_inv = [],
      cr_so = [(''so1'', \<lparr>sor_order = ''so1'', sor_chain = [PStr ''calc''], sor_libs = []\<rparr>)], cr_domain = ''algebra''\<rparr>"
  have run: "compile_execution_routes (\<lambda>_. '''') sample_physics [(''calc'', PNone)] [] True = Inr c"
    unfolding c_def by code_simp
  moreover have "standing_order_tools c ''so1'' = Some \<lparr>sor_order = ''so1'', sor_chain = [PStr ''calc''], sor_libs = []\<rparr>"
    by (simp add: c_def standing_order_tools_def)
  ultimately show ?thesis using strict_routes_closed [OF run] by blast
qed

end
