(* ===== verification/Resolver.thy ===== *)
theory Resolver
  imports Inspection Route_Compiler
begin

text \<open>
  The judge and the clerk of a turn: \<^verbatim>\<open>orchestrator/actor_resolver.py\<close> (standing-order attempts, the action
  and the escalation of a turn) and \<^verbatim>\<open>orchestrator/contract_drafter.py\<close> (the prompt contract).
\<close>

fun dict_of :: "pyval \<Rightarrow> pydict" where
  "dict_of (PDict d) = d" | "dict_of _ = []"

section \<open>The resolver\<close>

record resolver =
  rs_domain :: pydict
  rs_routes :: "compiled_routes option"
  rs_index :: "(pyval, pydict) dict"
  rs_attempts :: "(string, int) dict"
  rs_last_id :: "string option"
  rs_last_attempt :: "int option"
  rs_last_chain :: "pyval list option"

text \<open>The index of standing orders by id and by action.\<close>

definition index_order :: "pyval \<Rightarrow> (pyval, pydict) dict \<Rightarrow> (pyval, pydict) dict res" where
  "index_order item ix = (case item of
      PDict d \<Rightarrow>
        res_bind (case dget d ''id'' of None \<Rightarrow> Inr ix | Some i \<Rightarrow> key_put i d ix) (\<lambda>ix1.
          case dget d ''action'' of
            None \<Rightarrow> Inr ix1
          | Some a \<Rightarrow> if peq a (dget_or d ''id'' PNone) then Inr ix1 else key_put a d ix1)
    | _ \<Rightarrow> Inr ix)"

definition new_resolver :: "pydict \<Rightarrow> compiled_routes option \<Rightarrow> resolver res" where
  "new_resolver domain routes =
     res_bind (py_iter (dget_or domain ''standing_orders'' (PList []))) (\<lambda>items.
     res_bind (fold_res index_order items []) (\<lambda>ix.
       Inr \<lparr>rs_domain = domain, rs_routes = routes, rs_index = ix, rs_attempts = [],
            rs_last_id = None, rs_last_attempt = None, rs_last_chain = None\<rparr>))"

text \<open>Persisted counters: unreadable and negative values are dropped; only \<open>OverflowError\<close> (an infinite
  float) escapes the handler.\<close>

definition restore_attempt :: "string \<times> pyval \<Rightarrow> (string, int) dict \<Rightarrow> (string, int) dict res" where
  "restore_attempt = (\<lambda>(k, v) acc. case py_int v of
      Inl e \<Rightarrow> if e = TypeError \<or> e = ValueError then Inr acc else Inl e
    | Inr n \<Rightarrow> Inr (if n \<ge> 0 then dput k n acc else acc))"

definition set_attempts :: "pydict option \<Rightarrow> resolver \<Rightarrow> resolver res" where
  "set_attempts attempts r =
     res_bind (fold_res restore_attempt (case attempts of None \<Rightarrow> [] | Some d \<Rightarrow> d) [])
       (\<lambda>restored. Inr (r\<lparr>rs_attempts := restored\<rparr>))"

definition get_attempts :: "resolver \<Rightarrow> (string, int) dict" where
  "get_attempts r = rs_attempts r"

text \<open>An invariant that is no dictionary raises at its turn, after the ones before it.\<close>

definition check_invariants :: "resolver \<Rightarrow> pydict \<Rightarrow> inv_result list res" where
  "check_invariants r evidence =
     res_bind (py_iter (dget_or (rs_domain r) ''invariants'' (PList []))) (\<lambda>invs.
     let before = takeWhile is_dict invs in
     res_bind (evaluate_invariants (map dict_of before) evidence) (\<lambda>results.
       if length before = length invs then Inr results else Inl TypeError))"

section \<open>Resolution\<close>

record decision =
  de_action :: pyval
  de_escalate :: bool
  de_trigger :: "string option"

text \<open>\<open>int(max_attempts_raw)\<close> with its fallback to 1.\<close>

definition max_attempts_of :: "pydict \<Rightarrow> int res" where
  "max_attempts_of so = (case py_int (dget_or so ''max_attempts'' (PInt 1)) of
      Inl e \<Rightarrow> if e = TypeError \<or> e = ValueError then Inr 1 else Inl e
    | Inr n \<Rightarrow> Inr n)"

definition order_id :: "(pyval \<Rightarrow> string) \<Rightarrow> pydict \<Rightarrow> pyval \<Rightarrow> string" where
  "order_id render so action = py_str render (dget_or so ''id'' action)"

definition resolve_standing_order_action ::
  "(pyval \<Rightarrow> string) \<Rightarrow> pyval \<Rightarrow> resolver \<Rightarrow> (decision \<times> resolver) res" where
  "resolve_standing_order_action render action r =
     (let plain = \<lparr>de_action = action, de_escalate = False, de_trigger = None\<rparr> in
      if \<not> truthy action then Inr (plain, r)
      else res_bind (key_get (rs_index r) action) (\<lambda>found. case found of
          None \<Rightarrow> Inr (plain, r)
        | Some so \<Rightarrow>
            res_bind (max_attempts_of so) (\<lambda>max_attempts.
            let i = order_id render so action;
                escalate_on_exhaust = truthy (dget_or so ''escalation_on_exhaust'' (PBool False));
                attempt = dget_or (rs_attempts r) i 0 + 1;
                r1 = r\<lparr>rs_attempts := dput i attempt (rs_attempts r), rs_last_id := Some i, rs_last_attempt := Some attempt\<rparr>
            in if max_attempts \<ge> 0 \<and> attempt > max_attempts
               then Inr (\<lparr>de_action = PNone, de_escalate = escalate_on_exhaust,
                          de_trigger = (if escalate_on_exhaust then Some (''standing_order_exhausted:'' @ i) else None)\<rparr>, r1)
               else Inr (plain,
                 case rs_routes r of
                   None \<Rightarrow> r1
                 | Some c \<Rightarrow> (case standing_order_tools c i of
                      None \<Rightarrow> r1 | Some t \<Rightarrow> r1\<lparr>rs_last_chain := Some (sor_chain t)\<rparr>)))))"

text \<open>The reset: a passed invariant drops the counter named by its standing order.\<close>

definition reset_step :: "inv_result \<Rightarrow> (string, int) dict \<Rightarrow> (string, int) dict res" where
  "reset_step x attempts =
     (if ir_passed x \<and> truthy (ir_standing_order x)
      then (if hashable (ir_standing_order x)
            then Inr (case ir_standing_order x of PStr s \<Rightarrow> (if dhas attempts s then ddel s attempts else attempts) | _ \<Rightarrow> attempts)
            else Inl TypeError)
      else Inr attempts)"

text \<open>One pass over the failures of a severity: the first action, or the first exhaustion to escalate.\<close>

fun failure_pass ::
  "(pyval \<Rightarrow> string) \<Rightarrow> string \<Rightarrow> inv_result list \<Rightarrow> decision option \<Rightarrow> resolver
     \<Rightarrow> (decision option \<times> decision option \<times> resolver) res" where
  "failure_pass render sev [] esc r = Inr (None, esc, r)"
| "failure_pass render sev (x # xs) esc r =
     (if \<not> ir_passed x \<and> ir_severity x = PStr sev
      then res_bind (resolve_standing_order_action render (ir_standing_order x) r) (\<lambda>(d, r1).
        if de_action d \<noteq> PNone then Inr (Some d, esc, r1)
        else failure_pass render sev xs (if de_escalate d \<and> esc = None then Some d else esc) r1)
      else failure_pass render sev xs esc r)"

definition lib_decision :: "pydict \<Rightarrow> decision" where
  "lib_decision lib =
     (let should_escalate = truthy (dget_or lib ''should_escalate'' (PBool False))
                            \<and> truthy (dget_or lib ''escalation_eligible'' (PBool True))
      in \<lparr>de_action = dget_or lib ''action'' PNone, de_escalate = should_escalate,
          de_trigger = (if should_escalate then Some ''domain_lib_escalation_event'' else None)\<rparr>)"

definition resolve ::
  "(pyval \<Rightarrow> string) \<Rightarrow> inv_result list \<Rightarrow> pydict \<Rightarrow> resolver \<Rightarrow> (decision \<times> resolver) res" where
  "resolve render results lib r =
     res_bind (fold_res reset_step results (rs_attempts r)) (\<lambda>attempts.
     res_bind (failure_pass render ''critical'' results None
         (r\<lparr>rs_attempts := attempts, rs_last_id := None, rs_last_attempt := None, rs_last_chain := None\<rparr>)) (\<lambda>(d1, esc1, r1).
     case d1 of Some d \<Rightarrow> Inr (d, r1)
     | None \<Rightarrow> res_bind (failure_pass render ''warning'' results esc1 r1) (\<lambda>(d2, esc2, r2).
         case d2 of Some d \<Rightarrow> Inr (d, r2)
         | None \<Rightarrow> (case esc2 of Some e \<Rightarrow> Inr (e, r2) | None \<Rightarrow> Inr (lib_decision lib, r2)))))"

section \<open>The prompt contract\<close>

record drafter =
  dr_domain :: pydict
  dr_profile :: pydict
  dr_types :: "(pyval, string) dict"

definition new_drafter :: "(pyval \<Rightarrow> string) \<Rightarrow> pydict \<Rightarrow> pydict \<Rightarrow> pydict option \<Rightarrow> drafter" where
  "new_drafter render domain profile action_map =
     \<lparr>dr_domain = domain, dr_profile = profile,
      dr_types = foldl (\<lambda>acc (a, t). dput (PStr a) (py_str render t) acc) [(PNone, ''task_presentation'')]
                   (case action_map of None \<Rightarrow> [] | Some d \<Rightarrow> d)\<rparr>"

text \<open>\<open>interests[0] if interests else None\<close>.\<close>

definition first_interest :: "pyval \<Rightarrow> pyval res" where
  "first_interest interests = (if \<not> truthy interests then Inr PNone
     else case interests of
       PList (x # _) \<Rightarrow> Inr x
     | PStr (c # _) \<Rightarrow> Inr (PStr [c])
     | PDict _ \<Rightarrow> Inl KeyError
     | _ \<Rightarrow> Inl TypeError)"

definition prompt_type_of :: "drafter \<Rightarrow> pyval \<Rightarrow> pyval res" where
  "prompt_type_of dr action = res_bind (key_get (dr_types dr) action) (\<lambda>t.
     Inr (case t of Some s \<Rightarrow> PStr s | None \<Rightarrow> py_or action (PStr ''task_presentation'')))"

definition build_contract ::
  "pydict \<Rightarrow> pyval \<Rightarrow> pydict \<Rightarrow> pyval \<Rightarrow> pyval list \<Rightarrow> drafter \<Rightarrow> pydict res" where
  "build_contract task action lib trigger references dr =
     res_bind (prompt_type_of dr action) (\<lambda>prompt_type.
     res_bind (py_get (dget_or (dr_profile dr) ''preferences'' (PDict [])) ''interests'' PNone) (\<lambda>interests.
     res_bind (first_interest (py_or interests (PList []))) (\<lambda>theme.
     res_bind (py_float (dget_or task ''nominal_difficulty'' (dget_or lib ''challenge'' (PFloat (Fin (1 / 2)))))) (\<lambda>difficulty.
     res_bind (py_iter (dget_or task ''skills_required'' (PList []))) (\<lambda>skills.
       Inr ([(''prompt_type'', prompt_type),
             (''model_pack_id'', dget_or (dr_domain dr) ''id'' (PStr '''')),
             (''model_pack_version'', dget_or (dr_domain dr) ''version'' (PStr '''')),
             (''task_id'', dget_or task ''task_id'' (PStr '''')),
             (''task_nominal_difficulty'', PFloat difficulty),
             (''skills_targeted'', PList skills),
             (''theme'', theme),
             (''standing_order_trigger'', trigger),
             (''references'', PList references),
             (''grounded'', PBool (references \<noteq> []))] @
            (if prompt_type = PStr ''hint'' then [(''hint_level'', PInt 1)] else [])))))))"

section \<open>Facts about resolution\<close>

lemma failure_pass_quiet:
  "\<forall>x \<in> set xs. ir_passed x \<or> ir_severity x \<noteq> PStr sev \<Longrightarrow>
     failure_pass render sev (xs @ ys) esc r = failure_pass render sev ys esc r"
  by (induction xs) auto

lemma failure_pass_none:
  "\<forall>x \<in> set xs. ir_passed x \<or> ir_severity x \<noteq> PStr sev \<Longrightarrow> failure_pass render sev xs esc r = Inr (None, esc, r)"
  using failure_pass_quiet [of xs sev render "[]"] by simp

definition passed_ok :: "inv_result list \<Rightarrow> bool" where
  "passed_ok xs \<longleftrightarrow> (\<forall>x \<in> set xs. ir_passed x \<longrightarrow> hashable (ir_standing_order x))"

definition resets :: "inv_result list \<Rightarrow> string \<Rightarrow> bool" where
  "resets xs s \<longleftrightarrow> s \<noteq> [] \<and> (\<exists>x \<in> set xs. ir_passed x \<and> ir_standing_order x = PStr s)"

lemma reset_one:
  "passed_ok [x] \<Longrightarrow> \<exists>att. reset_step x attempts = Inr att \<and>
    (\<forall>s. dget att s = (if resets [x] s then None else dget attempts s))"
  by (cases "ir_passed x"; cases "ir_standing_order x")
     (auto simp: reset_step_def resets_def passed_ok_def dhas_iff)

lemma reset_all:
  assumes "passed_ok xs"
  shows "\<exists>att. fold_res reset_step xs attempts = Inr att \<and>
    (\<forall>s. dget att s = (if resets xs s then None else dget attempts s))"
  using assms
proof (induction xs arbitrary: attempts)
  case (Cons x xs)
  have ok: "passed_ok xs" using Cons.prems by (simp add: passed_ok_def)
  have "passed_ok [x]" using Cons.prems by (simp add: passed_ok_def)
  then obtain att1 where step: "reset_step x attempts = Inr att1"
      and get: "\<And>s. dget att1 s = (if resets [x] s then None else dget attempts s)"
    using reset_one by blast
  have "resets (x # xs) s \<longleftrightarrow> resets [x] s \<or> resets xs s" for s by (auto simp: resets_def)
  then show ?case using Cons.IH [OF ok, of att1] step get by auto
qed (simp add: resets_def)

text \<open>A turn without failures: the domain library decides, and exactly the counters named by the passed
  invariants are dropped. The counters are keyed by standing-order id.\<close>

lemma resolve_all_passed:
  assumes "\<forall>x \<in> set results. ir_passed x" "passed_ok results"
  shows "\<exists>r'. resolve render results lib r = Inr (lib_decision lib, r') \<and>
    (\<forall>s. dget (rs_attempts r') s = (if resets results s then None else dget (rs_attempts r) s))"
  using reset_all [OF assms(2), of "rs_attempts r"] failure_pass_none [of results] assms(1)
  by (fastforce simp: resolve_def)

text \<open>One failing invariant, its standing order and its budget.\<close>

definition single_failure :: "inv_result list \<Rightarrow> inv_result \<Rightarrow> bool" where
  "single_failure results x \<longleftrightarrow> passed_ok results \<and> \<not> ir_passed x
     \<and> (ir_severity x = PStr ''critical'' \<or> ir_severity x = PStr ''warning'')
     \<and> (\<exists>pre post. results = pre @ x # post \<and> (\<forall>y \<in> set pre \<union> set post. ir_passed y))"

definition order_budget :: "(pyval \<Rightarrow> string) \<Rightarrow> resolver \<Rightarrow> inv_result \<Rightarrow> pydict \<Rightarrow> int \<Rightarrow> string \<Rightarrow> bool" where
  "order_budget render r x so m i \<longleftrightarrow> truthy (ir_standing_order x)
     \<and> key_get (rs_index r) (ir_standing_order x) = Inr (Some so)
     \<and> max_attempts_of so = Inr m \<and> 0 \<le> m \<and> order_id render so (ir_standing_order x) = i"

definition counter :: "resolver \<Rightarrow> string \<Rightarrow> int" where
  "counter r i = dget_or (rs_attempts r) i 0"

text \<open>The decision of the turn that makes attempt number \<open>n\<close>.\<close>

definition turn_decision :: "pydict \<Rightarrow> pyval \<Rightarrow> pydict \<Rightarrow> int \<Rightarrow> string \<Rightarrow> int \<Rightarrow> decision" where
  "turn_decision lib action so m i n =
     (if n \<le> m then \<lparr>de_action = action, de_escalate = False, de_trigger = None\<rparr>
      else if truthy (dget_or so ''escalation_on_exhaust'' (PBool False))
      then \<lparr>de_action = PNone, de_escalate = True, de_trigger = Some (''standing_order_exhausted:'' @ i)\<rparr>
      else lib_decision lib)"

lemma take_order:
  assumes "order_budget render r x so m i"
  obtains r1 where "resolve_standing_order_action render (ir_standing_order x) r =
      Inr (if counter r i + 1 \<le> m then \<lparr>de_action = ir_standing_order x, de_escalate = False, de_trigger = None\<rparr>
           else \<lparr>de_action = PNone, de_escalate = truthy (dget_or so ''escalation_on_exhaust'' (PBool False)),
                 de_trigger = (if truthy (dget_or so ''escalation_on_exhaust'' (PBool False))
                               then Some (''standing_order_exhausted:'' @ i) else None)\<rparr>, r1)"
    and "rs_index r1 = rs_index r" "counter r1 i = counter r i + 1"
proof (rule that)
  let ?r1 = "snd (projr (resolve_standing_order_action render (ir_standing_order x) r))"
  show "resolve_standing_order_action render (ir_standing_order x) r =
      Inr (if counter r i + 1 \<le> m then \<lparr>de_action = ir_standing_order x, de_escalate = False, de_trigger = None\<rparr>
           else \<lparr>de_action = PNone, de_escalate = truthy (dget_or so ''escalation_on_exhaust'' (PBool False)),
                 de_trigger = (if truthy (dget_or so ''escalation_on_exhaust'' (PBool False))
                               then Some (''standing_order_exhausted:'' @ i) else None)\<rparr>, ?r1)"
    "rs_index ?r1 = rs_index r" "counter ?r1 i = counter r i + 1"
    using assms
    by (auto simp: resolve_standing_order_action_def order_budget_def Let_def counter_def not_le dget_or_def [of _ i]
        split: option.splits)
qed

lemma resolve_single_failure:
  assumes sf: "single_failure results x" and ob: "order_budget render r x so m i" and nr: "\<not> resets results i"
  obtains r1 where "resolve render results lib r = Inr (turn_decision lib (ir_standing_order x) so m i (counter r i + 1), r1)"
    and "order_budget render r1 x so m i" "counter r1 i = counter r i + 1"
proof -
  obtain att where att: "fold_res reset_step results (rs_attempts r) = Inr att" "dget att i = dget (rs_attempts r) i"
    using reset_all [of results "rs_attempts r"] sf nr by (auto simp: single_failure_def)
  define r0 where "r0 = r\<lparr>rs_attempts := att, rs_last_id := None, rs_last_attempt := None, rs_last_chain := None\<rparr>"
  have ob0: "order_budget render r0 x so m i" and c0: "counter r0 i = counter r i"
    using ob att(2) by (simp_all add: r0_def order_budget_def counter_def dget_or_def)
  obtain r1 where tk: "resolve_standing_order_action render (ir_standing_order x) r0 =
      Inr (if counter r i + 1 \<le> m then \<lparr>de_action = ir_standing_order x, de_escalate = False, de_trigger = None\<rparr>
           else \<lparr>de_action = PNone, de_escalate = truthy (dget_or so ''escalation_on_exhaust'' (PBool False)),
                 de_trigger = (if truthy (dget_or so ''escalation_on_exhaust'' (PBool False))
                               then Some (''standing_order_exhausted:'' @ i) else None)\<rparr>, r1)"
    and r1: "rs_index r1 = rs_index r0" "counter r1 i = counter r i + 1"
    using take_order [OF ob0] c0 by metis
  obtain pre post where res: "results = pre @ x # post" and quiet: "\<forall>y \<in> set pre. ir_passed y" "\<forall>y \<in> set post. ir_passed y"
      and sev: "\<not> ir_passed x" "ir_severity x = PStr ''critical'' \<or> ir_severity x = PStr ''warning''"
    using sf by (auto simp: single_failure_def)
  have act: "ir_standing_order x \<noteq> PNone" using ob by (auto simp: order_budget_def)
  let ?d = "if counter r i + 1 \<le> m then Some \<lparr>de_action = ir_standing_order x, de_escalate = False, de_trigger = None\<rparr> else None"
  let ?e = "if counter r i + 1 \<le> m \<or> \<not> truthy (dget_or so ''escalation_on_exhaust'' (PBool False)) then None
      else Some \<lparr>de_action = PNone, de_escalate = True, de_trigger = Some (''standing_order_exhausted:'' @ i)\<rparr>"
  have hit: "failure_pass render sev results None r0 = Inr (?d, ?e, r1)" if "ir_severity x = PStr sev" for sev
    using that tk sev(1) act quiet by (simp add: res failure_pass_quiet failure_pass_none)
  have miss: "failure_pass render sev results esc r' = Inr (None, esc, r')" if "ir_severity x \<noteq> PStr sev" for sev esc r'
    using that quiet by (intro failure_pass_none) (auto simp: res)
  have "resolve render results lib r = Inr (turn_decision lib (ir_standing_order x) so m i (counter r i + 1), r1)"
    using sev(2) by (elim disjE) (auto simp: resolve_def att(1) r0_def [symmetric] hit miss turn_decision_def)
  moreover have "order_budget render r1 x so m i" using ob0 r1 by (simp add: order_budget_def)
  ultimately show ?thesis using r1(2) that by blast
qed

fun run_turns ::
  "(pyval \<Rightarrow> string) \<Rightarrow> inv_result list \<Rightarrow> pydict \<Rightarrow> nat \<Rightarrow> resolver \<Rightarrow> (decision list \<times> resolver) res" where
  "run_turns render results lib 0 r = Inr ([], r)"
| "run_turns render results lib (Suc n) r =
     res_bind (resolve render results lib r) (\<lambda>(d, r1).
     res_bind (run_turns render results lib n r1) (\<lambda>(ds, r2). Inr (d # ds, r2)))"

section \<open>Properties\<close>

text \<open>C21: when the same critical or warning invariant fails turn after turn, its standing order is the
  action of exactly the turns its remaining budget allows; every later turn escalates with the exhaustion
  trigger if the order says so, and otherwise leaves the turn to the domain library. The resolver never
  raises on the way.\<close>

theorem standing_order_budget:
  assumes "single_failure results x" "order_budget render r x so m i" "\<not> resets results i"
  shows "\<exists>r'. run_turns render results lib n r =
      Inr (map (\<lambda>k. turn_decision lib (ir_standing_order x) so m i (counter r i + int k)) [1..<Suc n], r')
    \<and> counter r' i = counter r i + int n"
  using assms(2)
proof (induction n arbitrary: r)
  case (Suc n)
  obtain r1 where one: "resolve render results lib r = Inr (turn_decision lib (ir_standing_order x) so m i (counter r i + 1), r1)"
    "order_budget render r1 x so m i" "counter r1 i = counter r i + 1"
    using resolve_single_failure [OF assms(1) Suc.prems assms(3)] by metis
  have "[1..<Suc (Suc n)] = 1 # map Suc [1..<Suc n]" by (simp add: map_Suc_upt upt_conv_Cons del: upt_Suc)
  then show ?case using Suc.IH [OF one(2)] one by (auto simp: o_def add.assoc simp del: upt_Suc)
qed simp

definition sample_order :: pydict where
  "sample_order = [(''id'', PStr ''so1''), (''action'', PStr ''ask_steps''), (''max_attempts'', PInt 2),
     (''escalation_on_exhaust'', PBool True)]"

definition sample_resolver :: resolver where
  "sample_resolver = \<lparr>rs_domain = [(''standing_orders'', PList [PDict sample_order])], rs_routes = None,
     rs_index = [(PStr ''so1'', sample_order), (PStr ''ask_steps'', sample_order)], rs_attempts = [],
     rs_last_id = None, rs_last_attempt = None, rs_last_chain = None\<rparr>"

definition sample_failure :: inv_result where
  "sample_failure = \<lparr>ir_id = PStr ''steps'', ir_severity = PStr ''critical'', ir_passed = False,
     ir_standing_order = PStr ''ask_steps'', ir_signal = PNone\<rparr>"

theorem standing_order_budget_witness:
  "\<exists>ds r'. run_turns (\<lambda>_. '''') [sample_failure] [] 3 sample_resolver = Inr (ds, r')
     \<and> map de_action ds = [PStr ''ask_steps'', PStr ''ask_steps'', PNone]
     \<and> map de_trigger ds = [None, None, Some ''standing_order_exhausted:so1'']"
proof -
  have sf: "single_failure [sample_failure] sample_failure"
    by (auto simp: single_failure_def passed_ok_def sample_failure_def intro: exI [of _ "[]"])
  have ob: "order_budget (\<lambda>_. '''') sample_resolver sample_failure sample_order 2 ''so1''"
    by (simp add: order_budget_def sample_failure_def sample_resolver_def sample_order_def key_get_def
        max_attempts_of_def order_id_def)
  have nr: "\<not> resets [sample_failure] ''so1''" by (simp add: resets_def sample_failure_def)
  have three: "[1..<Suc 3] = [1, 2, 3]" by (simp add: upt_rec)
  have c: "counter sample_resolver ''so1'' = 0" by (simp add: counter_def sample_resolver_def)
  from standing_order_budget [OF sf ob nr, of "[]" 3] show ?thesis
    unfolding three by (auto simp: c turn_decision_def sample_failure_def sample_order_def)
qed

lemma restore_all:
  "dict_ok cs \<Longrightarrow> \<forall>n \<in> snd ` set cs. 0 \<le> n \<Longrightarrow> set (dkeys acc) \<inter> set (dkeys cs) = {} \<Longrightarrow>
     fold_res restore_attempt (map (\<lambda>(k, n). (k, PInt n)) cs) acc = Inr (acc @ cs)"
proof (induction cs arbitrary: acc)
  case (Cons p cs)
  obtain k n where p: "p = (k, n)" by (cases p)
  have "k \<notin> set (dkeys acc) \<Longrightarrow> dput k n acc = acc @ [(k, n)]" for acc :: "(string, int) dict"
    by (induction acc) auto
  with Cons.prems have "dput k n acc = acc @ [(k, n)]" by (auto simp: p)
  moreover have "dict_ok cs" "set (dkeys (acc @ [(k, n)])) \<inter> set (dkeys cs) = {}"
    using Cons.prems by (auto simp: p dict_ok_def dkeys_def)
  ultimately show ?case using Cons.IH [of "acc @ [(k, n)]"] Cons.prems by (simp add: p restore_attempt_def)
qed simp

text \<open>The attempt counters survive the session store: restoring what \<open>get_attempts\<close> exposes gives back
  the same counters, provided they are the non-negative counts the resolver keeps.\<close>

theorem attempts_survive_persistence:
  assumes "dict_ok (get_attempts r)" "\<forall>n \<in> snd ` set (get_attempts r). 0 \<le> n"
  shows "set_attempts (Some (map (\<lambda>(k, n). (k, PInt n)) (get_attempts r))) r' = Inr (r'\<lparr>rs_attempts := get_attempts r\<rparr>)"
  using restore_all [OF assms, of "[]"] by (simp add: set_attempts_def)

theorem attempts_survive_persistence_witness:
  "set_attempts (Some [(''so1'', PInt 2)]) sample_resolver = Inr (sample_resolver\<lparr>rs_attempts := [(''so1'', 2)]\<rparr>)"
  using attempts_survive_persistence [of "sample_resolver\<lparr>rs_attempts := [(''so1'', 2)]\<rparr>" sample_resolver]
  by (simp add: get_attempts_def dict_ok_def)

end
