(* ===== verification/Ledger.thy ===== *)
theory Ledger
  imports Log_Bus Session_State Inspection
begin

text \<open>
  The scribe of a turn, \<^verbatim>\<open>orchestrator/system_log_writer.py\<close>: the hash-chained ledger of a session, the scope
  check, the four record writers, and what an escalation does to the session (freeze, unlock pin, black box).
  Reading pack ids from records is \<^verbatim>\<open>core/pack_identity.py\<close>. The digest of a record and the append to the
  ledger file (or to the callback that replaces it) are arguments; record ids and timestamps are passed in.
\<close>

section \<open>Pack identity\<close>

definition clean :: "(pyval \<Rightarrow> string) \<Rightarrow> pyval \<Rightarrow> string" where
  "clean render v = (if v = PNone \<or> v = PStr [] then [] else py_str render v)"

definition nested_mapping :: "pydict \<Rightarrow> string \<Rightarrow> pydict" where
  "nested_mapping r k = (case dget r k of Some (PDict d) \<Rightarrow> d | _ \<Rightarrow> [])"

definition first_clean :: "(pyval \<Rightarrow> string) \<Rightarrow> pydict \<Rightarrow> string \<Rightarrow> string \<Rightarrow> string" where
  "first_clean render r k old =
     (let m = nested_mapping r ''metadata'';
          cands = [clean render (dget_or r k PNone), clean render (dget_or r old PNone),
                   clean render (dget_or m k PNone), clean render (dget_or m old PNone)]
      in case filter (\<lambda>s. s \<noteq> []) cands of [] \<Rightarrow> [] | s # _ \<Rightarrow> s)"

definition get_model_pack_id :: "(pyval \<Rightarrow> string) \<Rightarrow> pydict \<Rightarrow> string" where
  "get_model_pack_id render r = first_clean render r ''model_pack_id'' ''domain_pack_id''"

definition get_model_pack_version :: "(pyval \<Rightarrow> string) \<Rightarrow> pydict \<Rightarrow> string" where
  "get_model_pack_version render r = first_clean render r ''model_pack_version'' ''domain_pack_version''"

definition normalize_pack_commitment_type :: "(pyval \<Rightarrow> string) \<Rightarrow> pyval \<Rightarrow> string" where
  "normalize_pack_commitment_type render v =
     (let s = clean render v in
      if s = ''domain_pack_activation'' then ''model_pack_activation''
      else if s = ''domain_pack_rollback'' then ''model_pack_rollback'' else s)"

definition is_model_pack_commitment_type :: "(pyval \<Rightarrow> string) \<Rightarrow> pyval \<Rightarrow> bool" where
  "is_model_pack_commitment_type render v \<longleftrightarrow>
     normalize_pack_commitment_type render v \<in> {''model_pack_activation'', ''model_pack_rollback''}"

section \<open>The hash chain\<close>

text \<open>A ledger that appends records and remembers the digest of the last one.\<close>

fun linked :: "('r \<Rightarrow> 'h) \<Rightarrow> ('r \<Rightarrow> 'h option) \<Rightarrow> 'h \<Rightarrow> 'r list \<Rightarrow> 'h \<Rightarrow> bool" where
  "linked h prev start [] head = (head = start)"
| "linked h prev start (r # rs) head = (prev r = Some start \<and> linked h prev (h r) rs head)"

lemma linked_snoc: "linked h prev start (rs @ [r]) head \<longleftrightarrow>
    (\<exists>mid. linked h prev start rs mid \<and> prev r = Some mid \<and> head = h r)"
  by (induction rs arbitrary: start) auto

locale hash_chain =
  fixes entries :: "'s \<Rightarrow> 'r list"
    and head :: "'s \<Rightarrow> 'h"
    and append :: "'r \<Rightarrow> 's \<Rightarrow> 's"
    and h :: "'r \<Rightarrow> 'h"
    and prev :: "'r \<Rightarrow> 'h option"
    and genesis :: 'h
  assumes entries_append: "entries (append r s) = entries s @ [r]"
    and head_append: "head (append r s) = h r"
begin

lemma append_keeps_link:
  "linked h prev genesis (entries s) (head s) \<Longrightarrow> prev r = Some (head s) \<Longrightarrow>
     linked h prev genesis (entries (append r s)) (head (append r s))"
  by (simp add: entries_append head_append linked_snoc)

text \<open>With no collision among the records at hand, the head digest determines the whole history.\<close>

lemma head_determines_history:
  assumes "linked h prev genesis rs x" "linked h prev genesis rs' x"
    and "inj_on h (set rs \<union> set rs')" "genesis \<notin> h ` (set rs \<union> set rs')"
  shows "rs = rs'"
  using assms
proof (induction rs arbitrary: rs' x rule: rev_induct)
  case Nil
  show ?case
  proof (rule ccontr)
    assume "[] \<noteq> rs'"
    then obtain ss s where ss: "rs' = ss @ [s]" by (metis rev_exhaust)
    with Nil.prems(1,2) have "genesis = h s" by (auto simp: linked_snoc)
    with Nil.prems(4) ss show False by simp
  qed
next
  case (snoc r rs)
  from snoc.prems(1) obtain a where a: "linked h prev genesis rs a" "prev r = Some a" "x = h r"
    by (auto simp: linked_snoc)
  have "rs' \<noteq> []"
  proof
    assume "rs' = []"
    with snoc.prems(2) a(3) have "genesis = h r" by simp
    with snoc.prems(4) show False by simp
  qed
  then obtain ss s where ss: "rs' = ss @ [s]" by (metis rev_exhaust)
  with snoc.prems(2) obtain b where b: "linked h prev genesis ss b" "prev s = Some b" "x = h s"
    by (auto simp: linked_snoc)
  have "r = s" using inj_onD [OF snoc.prems(3), of r s] a(3) b(3) by (simp add: ss)
  with a(2) b(2) have "a = b" by simp
  moreover have "inj_on h (set rs \<union> set ss)" using snoc.prems(3) by (rule inj_on_subset) (auto simp: ss)
  moreover have "genesis \<notin> h ` (set rs \<union> set ss)" using snoc.prems(4) by (auto simp: ss)
  ultimately have "rs = ss" using snoc.IH [OF a(1), of ss] b(1) by simp
  with \<open>r = s\<close> ss show ?case by simp
qed

end

section \<open>The writer\<close>

record writer =
  lw_session :: string
  lw_profile :: pydict
  lw_physics_hash :: "string option"
  lw_prev_hash :: string
  lw_records :: "pydict list"
  lw_ledger :: "pydict list"

record ledger_env =
  le_hash :: "pydict \<Rightarrow> string"
  le_sink :: "pydict \<Rightarrow> py_exn option"
  le_render :: "pyval \<Rightarrow> string"

text \<open>What a write touches besides the writer: the events handed to the bus, the session container and the
  locks, and the black-box captures (the names of the triggers that fired).\<close>

record container =
  co_frozen :: bool
  co_user :: string
  co_domain :: string

record world =
  wo_writer :: writer
  wo_emitted :: "log_event list"
  wo_container :: "container option"
  wo_locks :: lock_state
  wo_triggers :: trigger_registry
  wo_captures :: "string list"

definition new_writer :: "string \<Rightarrow> pydict \<Rightarrow> string option \<Rightarrow> writer" where
  "new_writer session profile physics_hash =
     \<lparr>lw_session = session, lw_profile = profile, lw_physics_hash = physics_hash, lw_prev_hash = ''genesis'',
      lw_records = [], lw_ledger = []\<rparr>"

definition writer_append :: "(pydict \<Rightarrow> string) \<Rightarrow> pydict \<Rightarrow> writer \<Rightarrow> writer" where
  "writer_append hash r w = w\<lparr>lw_prev_hash := hash r, lw_records := lw_records w @ [r], lw_ledger := lw_ledger w @ [r]\<rparr>"

definition prev_of :: "pydict \<Rightarrow> string option" where
  "prev_of r = (case dget r ''prev_record_hash'' of Some (PStr s) \<Rightarrow> Some s | _ \<Rightarrow> None)"

interpretation chain: hash_chain lw_records lw_prev_hash "writer_append hash" hash prev_of "''genesis''" for hash
  by unfold_locales (simp_all add: writer_append_def)

text \<open>\<open>_append_log_record\<close>: a failing ledger raises before the chain advances; the audit event follows.\<close>

definition append_log_record :: "ledger_env \<Rightarrow> string \<Rightarrow> pydict \<Rightarrow> world \<Rightarrow> world res" where
  "append_log_record env now r w = (case le_sink env r of
      Some e \<Rightarrow> Inl e
    | None \<Rightarrow> Inr (w\<lparr>wo_writer := writer_append (le_hash env) r (wo_writer w),
        wo_emitted := wo_emitted w @
          [\<lparr>ev_timestamp = now, ev_source = ''system_log_writer'', ev_level = AUDIT, ev_category = ''hash_chain'',
            ev_message = py_str (le_render env) (dget_or r ''record_type'' (PStr ''record'')) @ '' appended'',
            ev_data = [], ev_record = Some r, ev_domain = Some (get_model_pack_id (le_render env) r)\<rparr>]\<rparr>))"

definition scope_ok :: "pyval \<Rightarrow> bool" where
  "scope_ok v = (case v of
      PStr s \<Rightarrow> strip s \<noteq> [] \<and> \<not> (starts_with ''<'' (strip s) \<and> ends_with ''>'' (strip s))
    | _ \<Rightarrow> False)"

definition required_scope_fields :: "writer \<Rightarrow> pydict res" where
  "required_scope_fields w =
     (let get = (\<lambda>k. dget_or (lw_profile w) k PNone);
          keys = [''organization_id'', ''site_id'']
      in if list_ex (\<lambda>k. \<not> scope_ok (get k)) keys then Inl ValueError
         else Inr (map (\<lambda>k. (k, get k)) keys @
                   (case get ''device_id'' of PStr s \<Rightarrow> if strip s \<noteq> [] then [(''device_id'', PStr s)] else [] | _ \<Rightarrow> [])))"

definition opt_str :: "string option \<Rightarrow> pyval" where
  "opt_str s = (case s of None \<Rightarrow> PNone | Some x \<Rightarrow> PStr x)"

definition em_dash :: string where
  "em_dash = [CHR 0xE2, CHR 0x80, CHR 0x94]"

definition commitment_summary :: "(pyval \<Rightarrow> string) \<Rightarrow> string \<Rightarrow> pyval \<Rightarrow> pyval \<Rightarrow> pyval \<Rightarrow> string" where
  "commitment_summary render session i v hash =
     ''Session '' @ session @ '' opened '' @ em_dash @ '' model-pack '' @ py_str render i @ '' v'' @ py_str render v @
     '' hash='' @ take 12 (py_str render hash) @ ''...''"

definition write_commitment_record ::
  "ledger_env \<Rightarrow> string \<Rightarrow> string \<Rightarrow> pydict \<Rightarrow> pydict \<Rightarrow> world \<Rightarrow> world res" where
  "write_commitment_record env rid now domain pc w =
     (let wr = wo_writer w;
          i = dget_or pc ''subject_id'' (dget_or domain ''id'' (PStr ''unknown''));
          v = dget_or pc ''subject_version'' (dget_or domain ''version'' (PStr ''unknown''));
          hash = dget_or pc ''subject_hash'' (PStr ''unknown'')
      in res_bind (py_get (py_or (dget_or domain ''domain_authority'' PNone) (PDict [])) ''pseudonymous_id'' (PStr ''unknown'')) (\<lambda>actor.
         res_bind (required_scope_fields wr) (\<lambda>scope.
         append_log_record env now (dupdate
           [(''record_type'', PStr ''CommitmentRecord''),
            (''record_id'', PStr rid),
            (''prev_record_hash'', PStr (lw_prev_hash wr)),
            (''timestamp_utc'', PStr now),
            (''actor_id'', actor),
            (''actor_role'', PStr ''domain_authority''),
            (''commitment_type'', PStr ''model_pack_activation''),
            (''subject_id'', i),
            (''subject_version'', v),
            (''subject_hash'', hash),
            (''summary'', PStr (commitment_summary (le_render env) (lw_session wr) i v hash)),
            (''references'', PList []),
            (''metadata'', PDict [(''session_id'', PStr (lw_session wr))])] scope) w)))"

definition subject_of :: "writer \<Rightarrow> pyval" where
  "subject_of wr = dget_or (lw_profile wr) ''subject_id'' (dget_or (lw_profile wr) ''student_id'' (PStr ''unknown''))"

definition with_physics_hash :: "writer \<Rightarrow> pydict \<Rightarrow> pydict" where
  "with_physics_hash wr meta = (case lw_physics_hash wr of None \<Rightarrow> meta | Some x \<Rightarrow> dput ''system_physics_hash'' (PStr x) meta)"

definition synthesis_signal :: "inv_result list \<Rightarrow> pydict \<Rightarrow> pydict" where
  "synthesis_signal results meta = (case find (\<lambda>r. \<not> ir_passed r \<and> truthy (ir_signal r)) results of
      None \<Rightarrow> meta | Some r \<Rightarrow> dput ''novel_synthesis_signal'' (ir_signal r) meta)"

definition write_trace_event ::
  "ledger_env \<Rightarrow> string \<Rightarrow> string \<Rightarrow> pydict \<Rightarrow> inv_result list \<Rightarrow> pydict \<Rightarrow> pyval \<Rightarrow> pydict \<Rightarrow> pydict
     \<Rightarrow> string option \<Rightarrow> int option \<Rightarrow> world \<Rightarrow> world res" where
  "write_trace_event env rid now task results lib action contract provenance so_id so_attempt w =
     (let wr = wo_writer w in
      append_log_record env now
        [(''record_type'', PStr ''TraceEvent''),
         (''record_id'', PStr rid),
         (''prev_record_hash'', PStr (lw_prev_hash wr)),
         (''timestamp_utc'', PStr now),
         (''session_id'', PStr (lw_session wr)),
         (''event_type'', PStr ''turn_processed''),
         (''actor_id'', subject_of wr),
         (''actor_role'', PStr ''subject''),
         (''decision'', action),
         (''decision_rationale'', PDict
           [(''domain_lib_tier'', dget_or lib ''tier'' PNone),
            (''domain_metric_pct'', dget_or lib ''drift_pct'' PNone),
            (''domain_alert_flag'', dget_or lib ''frustration'' PNone),
            (''standing_order_id'', opt_str so_id),
            (''standing_order_attempt'', case so_attempt of None \<Rightarrow> PNone | Some n \<Rightarrow> PInt n),
            (''invariant_failures'', PList (map ir_id (filter (\<lambda>r. \<not> ir_passed r) results)))]),
         (''task_id'', dget_or task ''task_id'' (PStr '''')),
         (''prompt_type'', dget_or contract ''prompt_type'' PNone),
         (''metadata'', PDict (synthesis_signal results (with_physics_hash wr provenance)))] w)"

text \<open>The role and the deadline of an escalation: the first declared trigger with the id.\<close>

fun escalation_target :: "string \<Rightarrow> pyval list \<Rightarrow> (pyval \<times> pyval) res" where
  "escalation_target trig [] = Inr (PStr ''teacher'', PInt 30)"
| "escalation_target trig (et # ets) =
     res_bind (py_get et ''id'' PNone) (\<lambda>i.
       if i = PStr trig
       then res_bind (py_get et ''target_role'' (PStr ''teacher'')) (\<lambda>r.
            res_bind (py_get et ''sla_minutes'' (PInt 30)) (\<lambda>s. Inr (r, s)))
       else escalation_target trig ets)"

definition auto_freeze :: "rat \<Rightarrow> nat \<Rightarrow> string \<Rightarrow> world \<Rightarrow> world" where
  "auto_freeze clock draw rid w = (case wo_container w of
      None \<Rightarrow> w
    | Some c \<Rightarrow> if co_frozen c then w
        else let s = lw_session (wo_writer w);
                 locks = snd (generate_unlock_pin clock draw s rid (wo_locks w));
                 locks' = (if co_user c = [] then locks else freeze_user clock (co_user c) rid s locks)
             in w\<lparr>wo_container := Some (c\<lparr>co_frozen := True\<rparr>), wo_locks := locks'\<rparr>)"

definition capture_on_trigger :: "pydict \<Rightarrow> world \<Rightarrow> world" where
  "capture_on_trigger r w = (case check_triggers r (wo_triggers w) of
      [] \<Rightarrow> w | fired \<Rightarrow> w\<lparr>wo_captures := wo_captures w @ [join_with '','' fired]\<rparr>)"

definition escalation_record ::
  "string \<Rightarrow> string \<Rightarrow> pydict \<Rightarrow> pydict \<Rightarrow> string \<Rightarrow> pydict \<Rightarrow> pydict \<Rightarrow> pyval \<times> pyval \<Rightarrow> pydict \<Rightarrow> writer \<Rightarrow> pydict" where
  "escalation_record rid now task lib trig provenance physics target scope wr = dupdate
     [(''record_type'', PStr ''EscalationRecord''),
      (''record_id'', PStr rid),
      (''prev_record_hash'', PStr (lw_prev_hash wr)),
      (''timestamp_utc'', PStr now),
      (''session_id'', PStr (lw_session wr)),
      (''model_pack_id'', dget_or physics ''id'' (PStr '''')),
      (''model_pack_version'', dget_or physics ''version'' (PStr '''')),
      (''actor_id'', subject_of wr),
      (''actor_role'', PStr ''subject''),
      (''status'', PStr ''open''),
      (''trigger'', PStr trig),
      (''task_id'', dget_or task ''task_id'' (PStr '''')),
      (''domain_lib_decision'', PDict
        [(''tier'', dget_or lib ''tier'' PNone),
         (''domain_alert_flag'', dget_or lib ''frustration'' PNone),
         (''domain_metric_pct'', dget_or lib ''drift_pct'' PNone)]),
      (''target_role'', fst target),
      (''escalation_target_id'', py_or (dget_or (lw_profile wr) ''assigned_teacher_id'' PNone) PNone),
      (''assigned_room_id'', py_or (dget_or (lw_profile wr) ''assigned_room_id'' PNone) PNone),
      (''sla_minutes'', snd target),
      (''metadata'', PDict (with_physics_hash wr provenance))] scope"

definition write_escalation_record ::
  "ledger_env \<Rightarrow> string \<Rightarrow> string \<Rightarrow> rat \<Rightarrow> nat \<Rightarrow> pydict \<Rightarrow> pydict \<Rightarrow> string \<Rightarrow> pydict \<Rightarrow> pydict \<Rightarrow> world \<Rightarrow> world res" where
  "write_escalation_record env rid now clock draw task lib trig provenance physics w =
     res_bind (py_iter (py_or (dget_or physics ''escalation_triggers'' PNone) (PList []))) (\<lambda>ets.
     res_bind (escalation_target trig ets) (\<lambda>target.
     res_bind (required_scope_fields (wo_writer w)) (\<lambda>scope.
     let r = escalation_record rid now task lib trig provenance physics target scope (wo_writer w) in
     res_bind (append_log_record env now r w) (\<lambda>w1.
     let w2 = (if truthy (dget_or physics ''auto_freeze_on_escalation'' (PBool True)) then auto_freeze clock draw rid w1 else w1)
     in Inr (capture_on_trigger r w2)))))"

definition append_provenance_trace ::
  "ledger_env \<Rightarrow> string \<Rightarrow> string \<Rightarrow> string \<Rightarrow> string \<Rightarrow> string \<Rightarrow> pydict \<Rightarrow> world \<Rightarrow> world res" where
  "append_provenance_trace env rid now task_id action prompt_type meta w =
     (let wr = wo_writer w in
      append_log_record env now
        [(''record_type'', PStr ''TraceEvent''),
         (''record_id'', PStr rid),
         (''prev_record_hash'', PStr (lw_prev_hash wr)),
         (''timestamp_utc'', PStr now),
         (''session_id'', PStr (lw_session wr)),
         (''event_type'', PStr ''other''),
         (''actor_id'', subject_of wr),
         (''actor_role'', PStr ''subject''),
         (''decision'', PStr action),
         (''task_id'', PStr task_id),
         (''prompt_type'', PStr prompt_type),
         (''metadata'', PDict meta)] w)"

section \<open>Facts about the writers\<close>

text \<open>The ledger of a session is what its writer recorded, and it is linked.\<close>

definition chain_ok :: "ledger_env \<Rightarrow> world \<Rightarrow> bool" where
  "chain_ok env w \<longleftrightarrow> lw_ledger (wo_writer w) = lw_records (wo_writer w) \<and>
     linked (le_hash env) prev_of ''genesis'' (lw_records (wo_writer w)) (lw_prev_hash (wo_writer w))"

text \<open>What one write does: a record that extends the chain is appended, an audit event carries it.\<close>

definition wrote :: "ledger_env \<Rightarrow> world \<Rightarrow> pydict \<Rightarrow> world \<Rightarrow> bool" where
  "wrote env w r w' \<longleftrightarrow> prev_of r = Some (lw_prev_hash (wo_writer w)) \<and> le_sink env r = None
     \<and> wo_writer w' = writer_append (le_hash env) r (wo_writer w)
     \<and> (\<exists>e. wo_emitted w' = wo_emitted w @ [e] \<and> ev_record e = Some r \<and> ev_level e = AUDIT)"

lemma append_wrote:
  "append_log_record env now r w = Inr w' \<Longrightarrow> prev_of r = Some (lw_prev_hash (wo_writer w)) \<Longrightarrow> wrote env w r w'"
  by (auto simp: append_log_record_def wrote_def split: option.splits)

lemma append_wroteI:
  assumes "append_log_record env now r w = Inr w'" "prev_of r = Some (lw_prev_hash (wo_writer w))" "P r"
  shows "\<exists>r. wrote env w r w' \<and> P r"
  using append_wrote [OF assms(1,2)] assms(3) by blast

lemma append_frame: "append_log_record env now r w = Inr w' \<Longrightarrow> w' = w\<lparr>wo_writer := wo_writer w', wo_emitted := wo_emitted w'\<rparr>"
  by (auto simp: append_log_record_def split: option.splits)

lemma wrote_chain: "wrote env w r w' \<Longrightarrow> chain_ok env w \<Longrightarrow> chain_ok env w'"
  using chain.append_keeps_link [of "le_hash env" "wo_writer w" r]
  by (simp add: wrote_def chain_ok_def) (simp add: writer_append_def)

lemma scope_keys:
  assumes "required_scope_fields wr = Inr scope"
  shows "dict_ok scope" "dget scope ''prev_record_hash'' = None" "dget scope ''record_type'' = None"
  using assms by (auto simp: required_scope_fields_def Let_def dict_ok_def split: if_splits pyval.splits)

lemma prev_of_dupdate:
  assumes "required_scope_fields wr = Inr scope" shows "prev_of (dupdate r scope) = prev_of r"
  using scope_keys [OF assms] by (simp add: prev_of_def dget_dupdate)

lemma commitment_wrote:
  assumes "write_commitment_record env rid now domain pc w = Inr w'"
  shows "\<exists>r. wrote env w r w' \<and> dget r ''record_type'' = Some (PStr ''CommitmentRecord'')
    \<and> (\<exists>scope. required_scope_fields (wo_writer w) = Inr scope)"
proof -
  obtain scope actor where s: "required_scope_fields (wo_writer w) = Inr scope"
    and a: "append_log_record env now (dupdate
           [(''record_type'', PStr ''CommitmentRecord''), (''record_id'', PStr rid),
            (''prev_record_hash'', PStr (lw_prev_hash (wo_writer w))), (''timestamp_utc'', PStr now),
            (''actor_id'', actor), (''actor_role'', PStr ''domain_authority''),
            (''commitment_type'', PStr ''model_pack_activation''),
            (''subject_id'', dget_or pc ''subject_id'' (dget_or domain ''id'' (PStr ''unknown''))),
            (''subject_version'', dget_or pc ''subject_version'' (dget_or domain ''version'' (PStr ''unknown''))),
            (''subject_hash'', dget_or pc ''subject_hash'' (PStr ''unknown'')),
            (''summary'', PStr (commitment_summary (le_render env) (lw_session (wo_writer w))
               (dget_or pc ''subject_id'' (dget_or domain ''id'' (PStr ''unknown'')))
               (dget_or pc ''subject_version'' (dget_or domain ''version'' (PStr ''unknown'')))
               (dget_or pc ''subject_hash'' (PStr ''unknown'')))),
            (''references'', PList []), (''metadata'', PDict [(''session_id'', PStr (lw_session (wo_writer w)))])] scope) w = Inr w'"
    using assms unfolding write_commitment_record_def Let_def by (elim res_bind_InrE)
  show ?thesis
    by (rule append_wroteI [OF a]) (use s scope_keys [OF s] in \<open>simp_all add: prev_of_dupdate [OF s] prev_of_def dget_dupdate\<close>)
qed

lemma trace_wrote:
  assumes "write_trace_event env rid now task results lib action contract provenance so_id so_attempt w = Inr w'"
  shows "\<exists>r. wrote env w r w' \<and> dget r ''record_type'' = Some (PStr ''TraceEvent'') \<and> dget r ''decision'' = Some action
    \<and> dget r ''metadata'' = Some (PDict (synthesis_signal results (with_physics_hash (wo_writer w) provenance)))
    \<and> w' = w\<lparr>wo_writer := wo_writer w', wo_emitted := wo_emitted w'\<rparr>"
  using append_frame [OF assms [unfolded write_trace_event_def Let_def]]
  by (intro append_wroteI [OF assms [unfolded write_trace_event_def Let_def]]) (simp_all add: prev_of_def)

lemma provenance_wrote:
  assumes "append_provenance_trace env rid now task_id action prompt_type meta w = Inr w'"
  shows "\<exists>r. wrote env w r w' \<and> dget r ''record_type'' = Some (PStr ''TraceEvent'')"
  by (intro append_wroteI [OF assms [unfolded append_provenance_trace_def Let_def]]) (simp_all add: prev_of_def)

lemma freeze_frame: "wo_writer (auto_freeze clock draw rid w) = wo_writer w \<and> wo_emitted (auto_freeze clock draw rid w) = wo_emitted w"
  by (simp add: auto_freeze_def Let_def split: option.split)

lemma capture_frame: "wo_writer (capture_on_trigger r w) = wo_writer w \<and> wo_emitted (capture_on_trigger r w) = wo_emitted w
   \<and> wo_container (capture_on_trigger r w) = wo_container w \<and> wo_locks (capture_on_trigger r w) = wo_locks w"
  by (simp add: capture_on_trigger_def split: list.split)

lemma escalation_wrote:
  assumes "write_escalation_record env rid now clock draw task lib trig provenance physics w = Inr w'"
  shows "\<exists>r. wrote env w r w' \<and> dget r ''record_type'' = Some (PStr ''EscalationRecord'') \<and>
    (\<exists>w1. wo_container w1 = wo_container w \<and> wo_locks w1 = wo_locks w \<and> lw_session (wo_writer w1) = lw_session (wo_writer w) \<and>
      w' = capture_on_trigger r (if truthy (dget_or physics ''auto_freeze_on_escalation'' (PBool True)) then auto_freeze clock draw rid w1 else w1))"
proof -
  obtain scope target w1 where s: "required_scope_fields (wo_writer w) = Inr scope"
    and a: "append_log_record env now (escalation_record rid now task lib trig provenance physics target scope (wo_writer w)) w = Inr w1"
    and w': "w' = capture_on_trigger (escalation_record rid now task lib trig provenance physics target scope (wo_writer w))
       (if truthy (dget_or physics ''auto_freeze_on_escalation'' (PBool True)) then auto_freeze clock draw rid w1 else w1)"
    using assms unfolding write_escalation_record_def Let_def by (elim res_bind_InrE) auto
  let ?r = "escalation_record rid now task lib trig provenance physics target scope (wo_writer w)"
  have "prev_of ?r = Some (lw_prev_hash (wo_writer w))"
    unfolding escalation_record_def prev_of_dupdate [OF s] by (simp add: prev_of_def)
  from append_wrote [OF a this] have "wrote env w ?r w1" .
  then have "wrote env w ?r w'" by (simp add: wrote_def w' capture_frame freeze_frame)
  moreover have "dget ?r ''record_type'' = Some (PStr ''EscalationRecord'')"
    using scope_keys [OF s] by (simp add: escalation_record_def dget_dupdate)
  moreover have "wo_container w1 = wo_container w" "wo_locks w1 = wo_locks w" "lw_session (wo_writer w1) = lw_session (wo_writer w)"
    using a by (auto simp: append_log_record_def writer_append_def split: option.splits)
  ultimately show ?thesis using w' by blast
qed

end
