(* ===== verification/Orchestrator.thy ===== *)
theory Orchestrator
  imports Ledger Resolver
begin

text \<open>
  The turn pipeline, \<^verbatim>\<open>orchestrator/ppa_orchestrator.py\<close>: judge, domain library, clerk and scribe wired
  together. The domain library's step and the retrieval of references are arguments. A turn that raises gives
  the exception; what it changed before is not described.
\<close>

section \<open>State and construction\<close>

record 's orchestrator =
  oc_domain :: pydict
  oc_policy :: pydict
  oc_step :: "('s \<Rightarrow> pydict \<Rightarrow> pydict \<Rightarrow> ('s \<times> pydict) res) option"
  oc_state :: 's
  oc_resolver :: resolver
  oc_drafter :: drafter
  oc_world :: world
  oc_last_results :: "inv_result list"
  oc_last_decision :: pydict

definition new_orchestrator ::
  "ledger_env \<Rightarrow> string \<Rightarrow> string \<Rightarrow> pydict \<Rightarrow> pydict \<Rightarrow> ('s \<Rightarrow> pydict \<Rightarrow> pydict \<Rightarrow> ('s \<times> pydict) res) option \<Rightarrow> 's
     \<Rightarrow> pydict option \<Rightarrow> pydict \<Rightarrow> compiled_routes option \<Rightarrow> world \<Rightarrow> 's orchestrator res" where
  "new_orchestrator env rid now domain profile step s0 action_map policy routes w =
     res_bind (new_resolver domain routes) (\<lambda>rs.
     res_bind (write_commitment_record env rid now domain policy w) (\<lambda>w1.
       Inr \<lparr>oc_domain = domain, oc_policy = policy, oc_step = step, oc_state = s0, oc_resolver = rs,
            oc_drafter = new_drafter (le_render env) domain profile action_map, oc_world = w1,
            oc_last_results = [], oc_last_decision = []\<rparr>))"

text \<open>The world a session starts in: a fresh writer and nothing emitted.\<close>

definition start_world :: "string \<Rightarrow> pydict \<Rightarrow> string option \<Rightarrow> container option \<Rightarrow> lock_state \<Rightarrow> trigger_registry \<Rightarrow> world" where
  "start_world session profile physics_hash c locks triggers =
     \<lparr>wo_writer = new_writer session profile physics_hash, wo_emitted = [], wo_container = c, wo_locks = locks,
      wo_triggers = triggers, wo_captures = []\<rparr>"

section \<open>A turn\<close>

definition step_domain_lib :: "'s orchestrator \<Rightarrow> pydict \<Rightarrow> pydict \<Rightarrow> ('s \<times> pydict) res" where
  "step_domain_lib oc task evidence = (case oc_step oc of
      None \<Rightarrow> Inr (oc_state oc, []) | Some f \<Rightarrow> f (oc_state oc) task evidence)"

definition standing_order_trigger :: "inv_result list \<Rightarrow> pyval \<Rightarrow> pyval" where
  "standing_order_trigger results action =
     (let t = (case find (\<lambda>r. \<not> ir_passed r) results of None \<Rightarrow> PNone | Some r \<Rightarrow> ir_standing_order r)
      in if t = PNone \<and> action \<noteq> PNone then action else t)"

definition bus_event :: "string \<Rightarrow> log_level \<Rightarrow> string \<Rightarrow> string \<Rightarrow> pydict \<Rightarrow> pydict \<Rightarrow> log_event" where
  "bus_event now level category message data domain =
     \<lparr>ev_timestamp = now, ev_source = ''ppa_orchestrator'', ev_level = level, ev_category = category,
      ev_message = message, ev_data = data, ev_record = None,
      ev_domain = (case dget domain ''id'' of Some (PStr s) \<Rightarrow> Some s | _ \<Rightarrow> None)\<rparr>"

definition emit_event :: "log_event \<Rightarrow> world \<Rightarrow> world" where
  "emit_event e w = w\<lparr>wo_emitted := wo_emitted w @ [e]\<rparr>"

definition warn_failures :: "string \<Rightarrow> pydict \<Rightarrow> pydict \<Rightarrow> inv_result list \<Rightarrow> world \<Rightarrow> world" where
  "warn_failures now task domain results w =
     (let failed = filter (\<lambda>r. \<not> ir_passed r) results in
      if failed = [] then w
      else emit_event (bus_event now WARNING ''invariant_check'' (int_str (int (length failed)) @ '' invariant(s) failed'')
        [(''session_id'', PStr (lw_session (wo_writer w))), (''task_id'', dget_or task ''task_id'' (PStr '''')),
         (''failed_ids'', PList (map ir_id failed))] domain) w)"

text \<open>The ids, clock readings and the random draw that a turn uses.\<close>

record turn_supply =
  ts_trace_id :: string
  ts_escalation_id :: string
  ts_now :: string
  ts_clock :: rat
  ts_draw :: nat

definition process_turn ::
  "ledger_env \<Rightarrow> (pydict \<Rightarrow> pydict \<Rightarrow> pyval \<Rightarrow> pyval list res) \<Rightarrow> turn_supply \<Rightarrow> pydict \<Rightarrow> pydict \<Rightarrow> pydict
     \<Rightarrow> 's orchestrator \<Rightarrow> ((pydict \<times> pyval) \<times> 's orchestrator) res" where
  "process_turn env retrieve ts task evidence provenance oc =
     res_bind (check_invariants (oc_resolver oc) evidence) (\<lambda>results.
     res_bind (step_domain_lib oc task evidence) (\<lambda>(s, lib).
     res_bind (resolve (le_render env) results lib (oc_resolver oc)) (\<lambda>(d, rs).
     let w1 = warn_failures (ts_now ts) task (oc_domain oc) results (oc_world oc) in
     res_bind (retrieve task evidence (dget_or (oc_domain oc) ''id'' (PStr ''''))) (\<lambda>references.
     res_bind (build_contract task (de_action d) lib (standing_order_trigger results (de_action d)) references (oc_drafter oc)) (\<lambda>contract.
     let meta = dput ''prompt_contract_hash'' (PStr (le_hash env contract)) provenance in
     res_bind (write_trace_event env (ts_trace_id ts) (ts_now ts) task results lib (de_action d) contract meta
         (rs_last_id rs) (rs_last_attempt rs) w1) (\<lambda>w2.
     res_bind (if de_escalate d
               then write_escalation_record env (ts_escalation_id ts) (ts_now ts) (ts_clock ts) (ts_draw ts) task lib
                      (case de_trigger d of None \<Rightarrow> ''domain_lib_escalation_event'' | Some t \<Rightarrow> t) meta (oc_domain oc) w2
               else Inr w2) (\<lambda>w3.
     let resolved = (if de_action d \<noteq> PNone then de_action d else PStr ''task_presentation'');
         w4 = emit_event (bus_event (ts_now ts) INFO ''session_lifecycle''
                (''Turn processed '' @ em_dash @ '' action='' @ py_str (le_render env) resolved)
                [(''session_id'', PStr (lw_session (wo_writer w3))), (''task_id'', dget_or task ''task_id'' (PStr '''')),
                 (''action'', resolved)] (oc_domain oc)) w3
     in Inr ((contract, resolved),
             oc\<lparr>oc_state := s, oc_resolver := rs, oc_world := w4, oc_last_results := results, oc_last_decision := lib\<rparr>))))))))"

definition provenance_trace ::
  "ledger_env \<Rightarrow> string \<Rightarrow> string \<Rightarrow> string \<Rightarrow> string \<Rightarrow> string \<Rightarrow> pydict \<Rightarrow> 's orchestrator \<Rightarrow> 's orchestrator res" where
  "provenance_trace env rid now task_id action prompt_type meta oc =
     res_bind (append_provenance_trace env rid now task_id action prompt_type meta (oc_world oc)) (\<lambda>w.
       Inr (oc\<lparr>oc_world := w\<rparr>))"

inductive session_step ::
  "ledger_env \<Rightarrow> (pydict \<Rightarrow> pydict \<Rightarrow> pyval \<Rightarrow> pyval list res) \<Rightarrow> 's orchestrator \<Rightarrow> 's orchestrator \<Rightarrow> bool"
  for env retrieve where
    turn: "process_turn env retrieve ts task evidence provenance oc = Inr (out, oc') \<Longrightarrow> session_step env retrieve oc oc'"
  | provenance: "provenance_trace env rid now task_id action prompt_type meta oc = Inr oc' \<Longrightarrow> session_step env retrieve oc oc'"

inductive_cases session_stepE: "session_step env retrieve oc oc'"

section \<open>Facts about a turn\<close>

lemma warn_frame: "wo_writer (warn_failures now task domain results w) = wo_writer w
   \<and> wo_container (warn_failures now task domain results w) = wo_container w
   \<and> wo_locks (warn_failures now task domain results w) = wo_locks w"
  by (simp add: warn_failures_def emit_event_def Let_def)

text \<open>A turn as the writes it makes: a trace record, and an escalation record when the decision escalates.\<close>

definition turn_writes ::
  "ledger_env \<Rightarrow> turn_supply \<Rightarrow> pydict \<Rightarrow> pydict \<Rightarrow> pydict \<Rightarrow> 's orchestrator \<Rightarrow> 's orchestrator
     \<Rightarrow> inv_result list \<Rightarrow> decision \<Rightarrow> pydict \<Rightarrow> world \<Rightarrow> world \<Rightarrow> bool" where
  "turn_writes env ts task meta contract oc oc' results d r w2 w3 \<longleftrightarrow>
     wrote env (warn_failures (ts_now ts) task (oc_domain oc) results (oc_world oc)) r w2
     \<and> w2 = (warn_failures (ts_now ts) task (oc_domain oc) results (oc_world oc))\<lparr>wo_writer := wo_writer w2, wo_emitted := wo_emitted w2\<rparr>
     \<and> dget r ''record_type'' = Some (PStr ''TraceEvent'') \<and> dget r ''decision'' = Some (de_action d)
     \<and> dget r ''metadata'' = Some (PDict (synthesis_signal results (with_physics_hash (wo_writer (oc_world oc)) meta)))
     \<and> (if de_escalate d then \<exists>lib trig. write_escalation_record env (ts_escalation_id ts) (ts_now ts) (ts_clock ts) (ts_draw ts)
           task lib trig meta (oc_domain oc) w2 = Inr w3 else w3 = w2)
     \<and> wo_writer (oc_world oc') = wo_writer w3 \<and> wo_container (oc_world oc') = wo_container w3
     \<and> wo_locks (oc_world oc') = wo_locks w3"

lemma process_turn_writes:
  assumes "process_turn env retrieve ts task evidence provenance oc = Inr ((contract, resolved), oc')"
  obtains d r w2 w3 where
    "check_invariants (oc_resolver oc) evidence = Inr (oc_last_results oc')"
    "step_domain_lib oc task evidence = Inr (oc_state oc', oc_last_decision oc')"
    "resolve (le_render env) (oc_last_results oc') (oc_last_decision oc') (oc_resolver oc) = Inr (d, oc_resolver oc')"
    "resolved = (if de_action d \<noteq> PNone then de_action d else PStr ''task_presentation'')"
    "turn_writes env ts task (dput ''prompt_contract_hash'' (PStr (le_hash env contract)) provenance) contract oc oc'
       (oc_last_results oc') d r w2 w3"
proof -
  obtain results s lib d rs w2 w3 where
    c: "check_invariants (oc_resolver oc) evidence = Inr results" and
    l: "step_domain_lib oc task evidence = Inr (s, lib)" and
    d: "resolve (le_render env) results lib (oc_resolver oc) = Inr (d, rs)" and
    t: "write_trace_event env (ts_trace_id ts) (ts_now ts) task results lib (de_action d) contract
         (dput ''prompt_contract_hash'' (PStr (le_hash env contract)) provenance) (rs_last_id rs) (rs_last_attempt rs)
         (warn_failures (ts_now ts) task (oc_domain oc) results (oc_world oc)) = Inr w2" and
    e: "(if de_escalate d
         then write_escalation_record env (ts_escalation_id ts) (ts_now ts) (ts_clock ts) (ts_draw ts) task lib
                (case de_trigger d of None \<Rightarrow> ''domain_lib_escalation_event'' | Some t \<Rightarrow> t)
                (dput ''prompt_contract_hash'' (PStr (le_hash env contract)) provenance) (oc_domain oc) w2
         else Inr w2) = Inr w3" and
    fin: "resolved = (if de_action d \<noteq> PNone then de_action d else PStr ''task_presentation'')"
      "wo_writer (oc_world oc') = wo_writer w3" "wo_container (oc_world oc') = wo_container w3" "wo_locks (oc_world oc') = wo_locks w3"
      and own: "oc_last_results oc' = results" "oc_last_decision oc' = lib" "oc_resolver oc' = rs" "oc_state oc' = s"
    using assms unfolding process_turn_def Let_def
    by (clarsimp simp: emit_event_def elim!: res_bind_InrE split del: if_split)
  have "wo_writer (warn_failures (ts_now ts) task (oc_domain oc) results (oc_world oc)) = wo_writer (oc_world oc)"
    using warn_frame by simp
  with trace_wrote [OF t] e fin obtain r where
    "turn_writes env ts task (dput ''prompt_contract_hash'' (PStr (le_hash env contract)) provenance) contract oc oc' results d r w2 w3"
    unfolding turn_writes_def by (auto split: if_splits)
  with that c l d fin(1) own show thesis by blast
qed

lemma wrote_records: "wrote env w r w' \<Longrightarrow> lw_records (wo_writer w') = lw_records (wo_writer w) @ [r]"
  by (simp add: wrote_def writer_append_def)

lemma chain_ok_frame: "wo_writer w' = wo_writer w \<Longrightarrow> chain_ok env w' = chain_ok env w"
  by (simp add: chain_ok_def)

lemma turn_records:
  assumes "process_turn env retrieve ts task evidence provenance oc = Inr ((contract, resolved), oc')"
  shows "(chain_ok env (oc_world oc) \<longrightarrow> chain_ok env (oc_world oc')) \<and>
    (\<exists>rs. lw_records (wo_writer (oc_world oc')) = lw_records (wo_writer (oc_world oc)) @ rs)"
proof -
  obtain d r w2 w3 where w:
    "turn_writes env ts task (dput ''prompt_contract_hash'' (PStr (le_hash env contract)) provenance) contract oc oc'
       (oc_last_results oc') d r w2 w3"
    by (rule process_turn_writes [OF assms])
  let ?w1 = "warn_failures (ts_now ts) task (oc_domain oc) (oc_last_results oc') (oc_world oc)"
  have "w3 = w2 \<or> (\<exists>lib trig. write_escalation_record env (ts_escalation_id ts) (ts_now ts) (ts_clock ts) (ts_draw ts)
      task lib trig (dput ''prompt_contract_hash'' (PStr (le_hash env contract)) provenance) (oc_domain oc) w2 = Inr w3)"
    using w by (auto simp: turn_writes_def split: if_splits)
  then have "w3 = w2 \<or> (\<exists>r2. wrote env w2 r2 w3)" using escalation_wrote by blast
  with w have 1: "wrote env ?w1 r w2" "wo_writer (oc_world oc') = wo_writer w3" "w3 = w2 \<or> (\<exists>r2. wrote env w2 r2 w3)"
    by (simp_all add: turn_writes_def)
  have "wo_writer ?w1 = wo_writer (oc_world oc)" using warn_frame by simp
  with 1 show ?thesis
    using wrote_chain [OF 1(1)] wrote_chain [of env w2 _ w3] wrote_records [OF 1(1)] wrote_records [of env w2 _ w3]
    by (auto simp: chain_ok_frame [of "oc_world oc'" w3] chain_ok_frame [of ?w1 "oc_world oc"])
qed

lemma step_records:
  assumes "session_step env retrieve oc oc'"
  shows "(chain_ok env (oc_world oc) \<longrightarrow> chain_ok env (oc_world oc')) \<and>
    (\<exists>rs. lw_records (wo_writer (oc_world oc')) = lw_records (wo_writer (oc_world oc)) @ rs)"
  using assms
proof (cases rule: session_step.cases)
  case (turn ts task evidence provenance out)
  then show ?thesis using turn_records by (cases out) blast
next
  case (provenance rid now task_id action prompt_type meta)
  then obtain r where "wrote env (oc_world oc) r (oc_world oc')"
    by (auto simp: provenance_trace_def dest!: provenance_wrote elim!: res_bind_InrE)
  then show ?thesis using wrote_chain wrote_records by blast
qed

lemma steps_records:
  assumes "(session_step env retrieve)\<^sup>*\<^sup>* oc oc'"
  shows "(chain_ok env (oc_world oc) \<longrightarrow> chain_ok env (oc_world oc')) \<and>
    (\<exists>rs. lw_records (wo_writer (oc_world oc')) = lw_records (wo_writer (oc_world oc)) @ rs)"
  using assms
proof (induction rule: rtranclp_induct)
  case (step u v)
  then show ?case using step_records [OF step.hyps(2)] by fastforce
qed simp

lemma start_records:
  assumes "new_orchestrator env rid now domain profile step s0 action_map policy routes
      (start_world session profile physics_hash c locks triggers) = Inr oc"
  shows "chain_ok env (oc_world oc) \<and> (\<exists>r. lw_records (wo_writer (oc_world oc)) = [r]
    \<and> dget r ''record_type'' = Some (PStr ''CommitmentRecord''))"
proof -
  let ?w = "start_world session profile physics_hash c locks triggers"
  obtain w where c: "write_commitment_record env rid now domain policy ?w = Inr w" and oc: "oc_world oc = w"
    using assms by (auto simp: new_orchestrator_def elim!: res_bind_InrE)
  have "chain_ok env ?w" "lw_records (wo_writer ?w) = []" by (simp_all add: chain_ok_def start_world_def new_writer_def)
  with commitment_wrote [OF c] show ?thesis using wrote_chain wrote_records oc by fastforce
qed

section \<open>Properties\<close>

text \<open>C1: the ledger of a session is an append-only hash chain: whatever turns and provenance traces follow
  the opening, it begins with the one commitment record, every record carries the digest of the one before it,
  the writer's head is the digest of the last, what was written stays, and the ledger file holds exactly the
  records in memory.\<close>

theorem session_ledger_linked:
  assumes "new_orchestrator env rid now domain profile step s0 action_map policy routes
      (start_world session profile physics_hash c locks triggers) = Inr oc"
    and "(session_step env retrieve)\<^sup>*\<^sup>* oc oc'"
  shows "linked (le_hash env) prev_of ''genesis'' (lw_records (wo_writer (oc_world oc'))) (lw_prev_hash (wo_writer (oc_world oc')))
    \<and> lw_ledger (wo_writer (oc_world oc')) = lw_records (wo_writer (oc_world oc'))
    \<and> (\<exists>r rs. lw_records (wo_writer (oc_world oc')) = r # rs \<and> dget r ''record_type'' = Some (PStr ''CommitmentRecord'')
         \<and> lw_records (wo_writer (oc_world oc)) = [r])"
  using start_records [OF assms(1)] steps_records [OF assms(2)] by (auto simp: chain_ok_def)

definition sample_ledger_env :: ledger_env where
  "sample_ledger_env = \<lparr>le_hash = (\<lambda>r. case dget r ''record_id'' of Some (PStr s) \<Rightarrow> s | _ \<Rightarrow> ''''), le_sink = (\<lambda>_. None),
     le_render = (\<lambda>_. '''')\<rparr>"

definition sample_profile :: pydict where
  "sample_profile = [(''organization_id'', PStr ''org''), (''site_id'', PStr ''site''), (''subject_id'', PStr ''alice'')]"

definition sample_world :: world where
  "sample_world = start_world ''s1'' sample_profile None
     (Some \<lparr>co_frozen = False, co_user = ''alice'', co_domain = ''algebra''\<rparr>) no_locks (builtin_triggers (\<lambda>_. ''''))"

definition sample_domain :: pydict where
  "sample_domain = [(''id'', PStr ''algebra''),
     (''invariants'', PList [PDict [(''id'', PStr ''steps''), (''check'', PStr ''shown''), (''severity'', PStr ''critical''),
        (''standing_order_on_violation'', PStr ''ask_steps'')]]),
     (''standing_orders'', PList [PDict [(''id'', PStr ''ask_steps''), (''max_attempts'', PInt 0),
        (''escalation_on_exhaust'', PBool True)]])]"

definition sample_open :: "unit orchestrator res" where
  "sample_open = new_orchestrator sample_ledger_env ''c1'' ''t0'' sample_domain sample_profile None () None [] None sample_world"

definition sample_supply :: turn_supply where
  "sample_supply = \<lparr>ts_trace_id = ''r1'', ts_escalation_id = ''e1'', ts_now = ''t1'', ts_clock = 10, ts_draw = 7\<rparr>"

definition sample_turn :: "unit orchestrator \<Rightarrow> ((pydict \<times> pyval) \<times> unit orchestrator) res" where
  "sample_turn = process_turn sample_ledger_env (\<lambda>_ _ _. Inr []) sample_supply [(''task_id'', PStr ''q1'')] [(''shown'', PBool False)] []"

text \<open>The sample session opens and its first turn runs.\<close>

definition sample_runs :: bool where
  "sample_runs = (case sample_open of Inl _ \<Rightarrow> False | Inr oc \<Rightarrow> \<not> isl (sample_turn oc))"

lemma sample_runs: "sample_runs"
  by code_simp

lemma sample_run_obtain:
  assumes sample_runs shows "\<exists>oc out oc'. sample_open = Inr oc \<and> sample_turn oc = Inr (out, oc')"
proof -
  obtain oc where o: "sample_open = Inr oc" "\<not> isl (sample_turn oc)"
    using case_sum_False [OF assms [unfolded sample_runs_def]] by blast
  then obtain p where "sample_turn oc = Inr p" by (cases "sample_turn oc") simp_all
  with o(1) show ?thesis by (cases p) blast
qed

lemma sample_session:
  obtains oc contract resolved oc' where "sample_open = Inr oc" "sample_turn oc = Inr ((contract, resolved), oc')"
    "(session_step sample_ledger_env (\<lambda>_ _ _. Inr []))\<^sup>*\<^sup>* oc oc'"
proof -
  obtain oc out oc' where o: "sample_open = Inr oc" "sample_turn oc = Inr (out, oc')"
    using sample_runs sample_run_obtain by blast
  have "session_step sample_ledger_env (\<lambda>_ _ _. Inr []) oc oc'"
    using o(2) unfolding sample_turn_def by (rule session_step.turn)
  with o show thesis using that by (cases out) blast
qed

theorem session_ledger_linked_witness:
  "\<exists>oc oc'. sample_open = Inr oc \<and> linked (le_hash sample_ledger_env) prev_of ''genesis''
     (lw_records (wo_writer (oc_world oc'))) (lw_prev_hash (wo_writer (oc_world oc')))
   \<and> (session_step sample_ledger_env (\<lambda>_ _ _. Inr []))\<^sup>*\<^sup>* oc oc'"
proof -
  obtain oc contract resolved oc' where o: "sample_open = Inr oc" "sample_turn oc = Inr ((contract, resolved), oc')"
    "(session_step sample_ledger_env (\<lambda>_ _ _. Inr []))\<^sup>*\<^sup>* oc oc'"
    by (rule sample_session)
  show ?thesis using session_ledger_linked [OF o(1) [unfolded sample_open_def sample_world_def] o(3)] o by blast
qed

text \<open>C3: the head digest commits to the whole history: if two sessions under the same digest end with the
  same head, and the digest has no collision among their records and none equal to the genesis mark, their
  ledgers are identical record by record.\<close>

theorem equal_heads_equal_ledgers:
  fixes oc :: "'s orchestrator" and oc2 :: "'t orchestrator"
  assumes "new_orchestrator env rid now domain profile step s0 action_map policy routes
      (start_world session profile physics_hash c locks triggers) = Inr oc"
    and "(session_step env retrieve)\<^sup>*\<^sup>* oc oc'"
    and "new_orchestrator env rid2 now2 domain2 profile2 step2 s2 action_map2 policy2 routes2
      (start_world session2 profile2 physics_hash2 c2 locks2 triggers2) = Inr oc2"
    and "(session_step env retrieve2)\<^sup>*\<^sup>* oc2 oc2'"
    and "lw_prev_hash (wo_writer (oc_world oc')) = lw_prev_hash (wo_writer (oc_world oc2'))"
    and "inj_on (le_hash env) (set (lw_records (wo_writer (oc_world oc'))) \<union> set (lw_records (wo_writer (oc_world oc2'))))"
    and "''genesis'' \<notin> le_hash env ` (set (lw_records (wo_writer (oc_world oc'))) \<union> set (lw_records (wo_writer (oc_world oc2'))))"
  shows "lw_ledger (wo_writer (oc_world oc')) = lw_ledger (wo_writer (oc_world oc2'))"
proof -
  have ok: "chain_ok env (oc_world oc')" "chain_ok env (oc_world oc2')"
    using start_records [OF assms(1)] steps_records [OF assms(2)] start_records [OF assms(3)] steps_records [OF assms(4)]
    by auto
  let ?x = "lw_prev_hash (wo_writer (oc_world oc'))"
  have l: "linked (le_hash env) prev_of ''genesis'' (lw_records (wo_writer (oc_world oc'))) ?x"
    "linked (le_hash env) prev_of ''genesis'' (lw_records (wo_writer (oc_world oc2'))) ?x"
    using ok assms(5) by (simp_all add: chain_ok_def)
  from chain.head_determines_history [OF l assms(6,7)] ok show ?thesis by (simp add: chain_ok_def)
qed

definition sample_open_mapped :: "unit orchestrator res" where
  "sample_open_mapped = new_orchestrator sample_ledger_env ''c1'' ''t0'' sample_domain sample_profile None ()
     (Some [(''ask_steps'', PStr ''hint'')]) [] None sample_world"

definition sample_opens :: bool where
  "sample_opens = (case sample_open of Inl _ \<Rightarrow> False | Inr oc \<Rightarrow> (case sample_open_mapped of Inl _ \<Rightarrow> False
      | Inr oc2 \<Rightarrow> lw_prev_hash (wo_writer (oc_world oc)) = lw_prev_hash (wo_writer (oc_world oc2))
         \<and> lw_records (wo_writer (oc_world oc)) = lw_records (wo_writer (oc_world oc2))
         \<and> map (\<lambda>r. dget r ''record_id'') (lw_records (wo_writer (oc_world oc))) = [Some (PStr ''c1'')]))"

lemma sample_opens: sample_opens
  by code_simp

lemma sample_opens_obtain:
  obtains oc oc2 r where "sample_open = Inr oc" "sample_open_mapped = Inr oc2"
    "lw_prev_hash (wo_writer (oc_world oc)) = lw_prev_hash (wo_writer (oc_world oc2))"
    "lw_records (wo_writer (oc_world oc)) = [r]" "lw_records (wo_writer (oc_world oc2)) = [r]"
    "dget r ''record_id'' = Some (PStr ''c1'')"
proof -
  obtain oc oc2 where o: "sample_open = Inr oc" "sample_open_mapped = Inr oc2"
    and "lw_prev_hash (wo_writer (oc_world oc)) = lw_prev_hash (wo_writer (oc_world oc2))
       \<and> lw_records (wo_writer (oc_world oc)) = lw_records (wo_writer (oc_world oc2))
       \<and> map (\<lambda>r. dget r ''record_id'') (lw_records (wo_writer (oc_world oc))) = [Some (PStr ''c1'')]"
    using case_sum_False [OF sample_opens [unfolded sample_opens_def]] case_sum_False by blast
  then have heads: "lw_prev_hash (wo_writer (oc_world oc)) = lw_prev_hash (wo_writer (oc_world oc2))"
    and same: "lw_records (wo_writer (oc_world oc2)) = lw_records (wo_writer (oc_world oc))"
    and ids: "map (\<lambda>r. dget r ''record_id'') (lw_records (wo_writer (oc_world oc))) = [Some (PStr ''c1'')]"
    by (elim conjE, simp only:)+
  from ids obtain r where r: "lw_records (wo_writer (oc_world oc)) = [r]" "dget r ''record_id'' = Some (PStr ''c1'')"
    by auto
  show thesis by (rule that [OF o heads r(1) _ r(2)]) (simp only: same r(1))
qed

theorem equal_heads_equal_ledgers_witness:
  "\<exists>oc oc2. sample_open = Inr oc \<and> sample_open_mapped = Inr oc2
     \<and> lw_ledger (wo_writer (oc_world oc)) = lw_ledger (wo_writer (oc_world oc2))"
proof -
  obtain oc oc2 r where o: "sample_open = Inr oc" "sample_open_mapped = Inr oc2"
    "lw_prev_hash (wo_writer (oc_world oc)) = lw_prev_hash (wo_writer (oc_world oc2))"
    "lw_records (wo_writer (oc_world oc)) = [r]" "lw_records (wo_writer (oc_world oc2)) = [r]"
    "dget r ''record_id'' = Some (PStr ''c1'')"
    by (rule sample_opens_obtain)
  have inj: "inj_on (le_hash sample_ledger_env)
      (set (lw_records (wo_writer (oc_world oc))) \<union> set (lw_records (wo_writer (oc_world oc2))))"
    "''genesis'' \<notin> le_hash sample_ledger_env ` (set (lw_records (wo_writer (oc_world oc))) \<union> set (lw_records (wo_writer (oc_world oc2))))"
    unfolding o(4,5) using o(6) by (simp_all add: sample_ledger_env_def)
  have "lw_ledger (wo_writer (oc_world oc)) = lw_ledger (wo_writer (oc_world oc2))"
    by (rule equal_heads_equal_ledgers [OF o(1) [unfolded sample_open_def sample_world_def] rtranclp.rtrancl_refl
        o(2) [unfolded sample_open_mapped_def sample_world_def] rtranclp.rtrancl_refl o(3) inj])
  with o(1,2) show ?thesis by (intro exI conjI)
qed

text \<open>C2: every turn leaves its audit trail. The turn's results are those of the invariants checked on its
  evidence, its library decision is that of the domain library's step on its task and evidence, and the resolver
  decides from these two. The ledger gains exactly one trace record, which names the decided action and carries the
  digest of the very contract the turn returns, followed by exactly one escalation record when that decision escalates
  and by nothing otherwise.\<close>

theorem turn_audit_trail:
  assumes "process_turn env retrieve ts task evidence provenance oc = Inr ((contract, resolved), oc')"
  shows "check_invariants (oc_resolver oc) evidence = Inr (oc_last_results oc')
    \<and> step_domain_lib oc task evidence = Inr (oc_state oc', oc_last_decision oc')
    \<and> (\<exists>d trace rest meta.
      resolve (le_render env) (oc_last_results oc') (oc_last_decision oc') (oc_resolver oc) = Inr (d, oc_resolver oc')
    \<and> resolved = (if de_action d \<noteq> PNone then de_action d else PStr ''task_presentation'')
    \<and> lw_records (wo_writer (oc_world oc')) = lw_records (wo_writer (oc_world oc)) @ trace # rest
    \<and> dget trace ''record_type'' = Some (PStr ''TraceEvent'') \<and> dget trace ''decision'' = Some (de_action d)
    \<and> dget trace ''metadata'' = Some (PDict meta)
    \<and> dget meta ''prompt_contract_hash'' = Some (PStr (le_hash env contract))
    \<and> (if de_escalate d then \<exists>r. rest = [r] \<and> dget r ''record_type'' = Some (PStr ''EscalationRecord'') else rest = []))"
proof -
  let ?m = "dput ''prompt_contract_hash'' (PStr (le_hash env contract)) provenance"
  obtain d r w2 w3 where
    res: "check_invariants (oc_resolver oc) evidence = Inr (oc_last_results oc')"
    "step_domain_lib oc task evidence = Inr (oc_state oc', oc_last_decision oc')"
    "resolve (le_render env) (oc_last_results oc') (oc_last_decision oc') (oc_resolver oc) = Inr (d, oc_resolver oc')"
    "resolved = (if de_action d \<noteq> PNone then de_action d else PStr ''task_presentation'')" and
    w: "turn_writes env ts task ?m contract oc oc' (oc_last_results oc') d r w2 w3"
    by (rule process_turn_writes [OF assms])
  let ?meta = "synthesis_signal (oc_last_results oc') (with_physics_hash (wo_writer (oc_world oc)) ?m)"
  let ?w1 = "warn_failures (ts_now ts) task (oc_domain oc) (oc_last_results oc') (oc_world oc)"
  have tr: "lw_records (wo_writer w2) = lw_records (wo_writer (oc_world oc)) @ [r]"
    using w wrote_records [of env ?w1 r w2] warn_frame by (simp add: turn_writes_def)
  have rest: "\<exists>rest. lw_records (wo_writer w3) = lw_records (wo_writer w2) @ rest \<and>
      (if de_escalate d then \<exists>r. rest = [r] \<and> dget r ''record_type'' = Some (PStr ''EscalationRecord'') else rest = [])"
  proof (cases "de_escalate d")
    case True
    with w obtain lib trig where "write_escalation_record env (ts_escalation_id ts) (ts_now ts) (ts_clock ts) (ts_draw ts)
        task lib trig ?m (oc_domain oc) w2 = Inr w3" by (auto simp: turn_writes_def)
    from escalation_wrote [OF this] True show ?thesis using wrote_records by fastforce
  qed (use w in \<open>simp add: turn_writes_def\<close>)
  have hash: "dget ?meta ''prompt_contract_hash'' = Some (PStr (le_hash env contract))"
    by (simp add: synthesis_signal_def with_physics_hash_def split: option.split)
  from rest obtain rest where rest: "lw_records (wo_writer w3) = lw_records (wo_writer w2) @ rest"
      "if de_escalate d then \<exists>r. rest = [r] \<and> dget r ''record_type'' = Some (PStr ''EscalationRecord'') else rest = []"
    by blast
  have "resolve (le_render env) (oc_last_results oc') (oc_last_decision oc') (oc_resolver oc) = Inr (d, oc_resolver oc')
    \<and> resolved = (if de_action d \<noteq> PNone then de_action d else PStr ''task_presentation'')
    \<and> lw_records (wo_writer (oc_world oc')) = lw_records (wo_writer (oc_world oc)) @ r # rest
    \<and> dget r ''record_type'' = Some (PStr ''TraceEvent'') \<and> dget r ''decision'' = Some (de_action d)
    \<and> dget r ''metadata'' = Some (PDict ?meta) \<and> dget ?meta ''prompt_contract_hash'' = Some (PStr (le_hash env contract))"
    using res(3,4) w tr rest(1) hash by (simp add: turn_writes_def)
  with res(1,2) rest(2) show ?thesis by blast
qed

theorem turn_audit_trail_witness:
  "\<exists>oc out oc' trace rest. sample_open = Inr oc \<and> sample_turn oc = Inr (out, oc')
     \<and> check_invariants (oc_resolver oc) [(''shown'', PBool False)] = Inr (oc_last_results oc')
     \<and> lw_records (wo_writer (oc_world oc')) = lw_records (wo_writer (oc_world oc)) @ trace # rest
     \<and> dget trace ''record_type'' = Some (PStr ''TraceEvent'')"
proof -
  obtain oc contract resolved oc' where o: "sample_open = Inr oc" "sample_turn oc = Inr ((contract, resolved), oc')"
    by (rule sample_session)
  from turn_audit_trail [OF o(2) [unfolded sample_turn_def]] obtain trace rest where
    "check_invariants (oc_resolver oc) [(''shown'', PBool False)] = Inr (oc_last_results oc')"
    "lw_records (wo_writer (oc_world oc')) = lw_records (wo_writer (oc_world oc)) @ trace # rest"
    "dget trace ''record_type'' = Some (PStr ''TraceEvent'')" by blast
  with o show ?thesis by blast
qed

text \<open>C5: an escalation locks the session: when the decision of a turn escalates, the domain does not opt out
  of freezing and the session container is live and not yet frozen, the container is frozen after the turn, the
  drawn unlock pin would be accepted, and a user the container names is frozen across sessions.\<close>

theorem escalation_freezes:
  assumes "process_turn env retrieve ts task evidence provenance oc = Inr ((contract, resolved), oc')"
    and "resolve (le_render env) (oc_last_results oc') (oc_last_decision oc') (oc_resolver oc) = Inr (d, oc_resolver oc')"
    and "de_escalate d" "truthy (dget_or (oc_domain oc) ''auto_freeze_on_escalation'' (PBool True))"
    and "wo_container (oc_world oc) = Some c" "\<not> co_frozen c"
    and "dict_ok (lk_pins (wo_locks (oc_world oc)))" "0 \<le> lk_pin_ttl (wo_locks (oc_world oc))"
  shows "wo_container (oc_world oc') = Some (c\<lparr>co_frozen := True\<rparr>)
    \<and> fst (validate_unlock_pin (ts_clock ts) (lw_session (wo_writer (oc_world oc))) (pin_digits (ts_draw ts)) (wo_locks (oc_world oc')))
    \<and> (co_user c \<noteq> [] \<longrightarrow> dhas (lk_frozen (wo_locks (oc_world oc'))) (co_user c))"
proof -
  obtain results s lib d' rs w2 w3 where
    d: "resolve (le_render env) results lib (oc_resolver oc) = Inr (d', rs)" and
    t: "write_trace_event env (ts_trace_id ts) (ts_now ts) task results lib (de_action d') contract
         (dput ''prompt_contract_hash'' (PStr (le_hash env contract)) provenance) (rs_last_id rs) (rs_last_attempt rs)
         (warn_failures (ts_now ts) task (oc_domain oc) results (oc_world oc)) = Inr w2" and
    e: "(if de_escalate d'
         then write_escalation_record env (ts_escalation_id ts) (ts_now ts) (ts_clock ts) (ts_draw ts) task lib
                (case de_trigger d' of None \<Rightarrow> ''domain_lib_escalation_event'' | Some t \<Rightarrow> t)
                (dput ''prompt_contract_hash'' (PStr (le_hash env contract)) provenance) (oc_domain oc) w2
         else Inr w2) = Inr w3" and
    fin: "wo_container (oc_world oc') = wo_container w3" "wo_locks (oc_world oc') = wo_locks w3"
      "oc_last_results oc' = results" "oc_last_decision oc' = lib"
    using assms(1) unfolding process_turn_def Let_def
    by (clarsimp simp: emit_event_def elim!: res_bind_InrE split del: if_split)
  have "d' = d" using d assms(2) fin(3,4) by simp
  then obtain trig where "write_escalation_record env (ts_escalation_id ts) (ts_now ts) (ts_clock ts) (ts_draw ts) task lib
      trig (dput ''prompt_contract_hash'' (PStr (le_hash env contract)) provenance) (oc_domain oc) w2 = Inr w3"
    using e assms(3) by auto
  from escalation_wrote [OF this] assms(4) obtain r w1 where
    w1: "wo_container w1 = wo_container w2" "wo_locks w1 = wo_locks w2" "lw_session (wo_writer w1) = lw_session (wo_writer w2)"
    and w3: "w3 = capture_on_trigger r (auto_freeze (ts_clock ts) (ts_draw ts) (ts_escalation_id ts) w1)" by auto
  from trace_wrote [OF t] have "wo_container w2 = wo_container (oc_world oc)" "wo_locks w2 = wo_locks (oc_world oc)"
      "lw_session (wo_writer w2) = lw_session (wo_writer (oc_world oc))"
    using warn_frame by (auto simp: wrote_def writer_append_def)
  with w1 assms(5-8) show ?thesis
    unfolding fin(1,2) w3
    by (auto simp: capture_frame auto_freeze_def Let_def generate_unlock_pin_def validate_unlock_pin_def freeze_user_def
        purge_user_freezes_def dget_purge dhas_iff purge_expired_def [of _ "_\<lparr>lk_frozen := _\<rparr>"])
qed

definition sample_escalates :: "unit orchestrator \<Rightarrow> unit orchestrator \<Rightarrow> bool" where
  "sample_escalates oc oc' \<longleftrightarrow>
     (case resolve (\<lambda>_. '''') (oc_last_results oc') (oc_last_decision oc') (oc_resolver oc) of Inl _ \<Rightarrow> False
      | Inr p \<Rightarrow> de_escalate (fst p) \<and> snd p = oc_resolver oc')
     \<and> truthy (dget_or (oc_domain oc) ''auto_freeze_on_escalation'' (PBool True))
     \<and> wo_container (oc_world oc) = Some \<lparr>co_frozen = False, co_user = ''alice'', co_domain = ''algebra''\<rparr>
     \<and> dict_ok (lk_pins (wo_locks (oc_world oc))) \<and> 0 \<le> lk_pin_ttl (wo_locks (oc_world oc))"

definition sample_turn_escalates :: bool where
  "sample_turn_escalates = (case sample_open of Inl _ \<Rightarrow> False | Inr oc \<Rightarrow>
     (case sample_turn oc of Inl _ \<Rightarrow> False | Inr p \<Rightarrow> sample_escalates oc (snd p)))"

lemma sample_turn_escalates: sample_turn_escalates
  by code_simp

theorem escalation_freezes_witness:
  "\<exists>oc out oc'. sample_open = Inr oc \<and> sample_turn oc = Inr (out, oc')
     \<and> wo_container (oc_world oc') = Some \<lparr>co_frozen = True, co_user = ''alice'', co_domain = ''algebra''\<rparr>
     \<and> dhas (lk_frozen (wo_locks (oc_world oc'))) ''alice''"
proof -
  obtain oc p where o: "sample_open = Inr oc" "sample_turn oc = Inr p" "sample_escalates oc (snd p)"
    using case_sum_False [OF sample_turn_escalates [unfolded sample_turn_escalates_def]] case_sum_False by blast
  obtain contract resolved oc' where p: "p = ((contract, resolved), oc')" by (metis surj_pair)
  have oc': "snd p = oc'" by (simp add: p)
  obtain q where q: "resolve (\<lambda>_. '''') (oc_last_results oc') (oc_last_decision oc') (oc_resolver oc) = Inr q"
    "de_escalate (fst q)" "snd q = oc_resolver oc'"
    using case_sum_False [OF conjunct1 [OF o(3) [unfolded oc' sample_escalates_def]]] by blast
  have run: "process_turn sample_ledger_env (\<lambda>_ _ _. Inr []) sample_supply [(''task_id'', PStr ''q1'')] [(''shown'', PBool False)] [] oc
      = Inr ((contract, resolved), oc')"
    using o(2) unfolding sample_turn_def p .
  have res: "resolve (le_render sample_ledger_env) (oc_last_results oc') (oc_last_decision oc') (oc_resolver oc) = Inr (fst q, oc_resolver oc')"
    using q(1,3) by (simp add: sample_ledger_env_def prod_eq_iff)
  have rest: "truthy (dget_or (oc_domain oc) ''auto_freeze_on_escalation'' (PBool True))"
    "wo_container (oc_world oc) = Some \<lparr>co_frozen = False, co_user = ''alice'', co_domain = ''algebra''\<rparr>"
    "dict_ok (lk_pins (wo_locks (oc_world oc)))" "0 \<le> lk_pin_ttl (wo_locks (oc_world oc))"
    using o(3) unfolding sample_escalates_def by blast+
  have "\<not> co_frozen \<lparr>co_frozen = False, co_user = ''alice'', co_domain = ''algebra''\<rparr>" by simp
  from escalation_freezes [OF run res q(2) rest(1,2) this rest(3,4)]
  have "wo_container (oc_world oc') = Some \<lparr>co_frozen = True, co_user = ''alice'', co_domain = ''algebra''\<rparr>
      \<and> dhas (lk_frozen (wo_locks (oc_world oc'))) ''alice''" by simp
  with o(1,2) p show ?thesis by blast
qed

end
