(* ===== verification/Connector_Routing.thy ===== *)
theory Connector_Routing
  imports Py_Values "HOL-Library.Char_ord" "HOL-Library.List_Lexorder" "HOL-Library.Product_Lexorder"
    "HOL-Library.Multiset"
begin

text \<open>
  Connector resolution, \<^verbatim>\<open>connector_routing/router.py\<close>: the eligibility of a registered connector and the
  ordered stages (idempotency, operation override, capability route, site primary, organization default). The
  resolution id and the evaluation time, which the code generates when they are not given, are arguments.
\<close>

section \<open>Data\<close>

datatype action_class = Query | CreateDraft | UpdateDraft | RequestCommit | RequestCancel | SyncEvent

datatype resolution_source = OperationOverride | FromCapabilityRoute | SitePrimary | OrganizationDefault | NoRoute

datatype resolution_status = Resolved | ResolutionError

datatype reason_code =
    Ok | MissingIdempotencyKey | OverrideNotFound | OverrideIneligible | AmbiguousRoute | CapabilityRouteNotFound
  | SitePrimaryNotFound | OrganizationDefaultNotFound | UnsupportedCapability | UnsupportedAction
  | ConnectorUnhealthy | NoEligibleConnector

datatype health_status = Healthy | Degraded | Unhealthy

definition mutation_actions :: "action_class list" where
  "mutation_actions = [CreateDraft, UpdateDraft, RequestCommit, RequestCancel, SyncEvent]"

record registry_entry =
  re_organization :: string
  re_site :: string
  re_id :: string
  re_capabilities :: "string list"
  re_actions :: "action_class list"
  re_enabled :: bool
  re_health :: health_status
  re_site_primary :: bool

record capability_route =
  ro_capability :: string
  ro_connector :: string
  ro_actions :: "action_class list"
  ro_priority :: int

record route_policy =
  po_version :: int
  po_organization :: string
  po_site :: string
  po_routes :: "capability_route list"
  po_default :: "string option"

text \<open>What a resolution request carries; the policy gives its organization and site.\<close>

record resolution_request =
  rq_id :: string
  rq_actor :: string
  rq_action :: action_class
  rq_capability :: string
  rq_override :: "string option"
  rq_idempotency :: "string option"
  rq_correlation :: "string option"

record resolution =
  rl_id :: string
  rl_request :: resolution_request
  rl_organization :: string
  rl_site :: string
  rl_status :: resolution_status
  rl_source :: resolution_source
  rl_reason :: reason_code
  rl_connector :: "string option"
  rl_policy_version :: int
  rl_candidates :: "string list"
  rl_evaluated :: string

section \<open>Eligibility\<close>

definition require_scope :: "string \<Rightarrow> string res" where
  "require_scope v = (if strip v = [] then Inl ValueError else Inr (strip v))"

definition normalize_optional :: "string option \<Rightarrow> string option" where
  "normalize_optional v = (case v of None \<Rightarrow> None | Some s \<Rightarrow> if strip s = [] then None else Some (strip s))"

definition entry_eligible :: "action_class \<Rightarrow> string \<Rightarrow> registry_entry \<Rightarrow> bool \<times> reason_code" where
  "entry_eligible action capability e =
     (if \<not> re_enabled e then (False, NoEligibleConnector)
      else if re_health e = Unhealthy then (False, ConnectorUnhealthy)
      else if capability \<notin> set (map strip (filter (\<lambda>c. strip c \<noteq> []) (re_capabilities e))) then (False, UnsupportedCapability)
      else if action \<notin> set (re_actions e) then (False, UnsupportedAction)
      else (True, Ok))"

text \<open>Strings are ordered by code point, as Python orders them; the sorts are stable.\<close>

definition scoped_entries :: "string \<Rightarrow> string \<Rightarrow> registry_entry list \<Rightarrow> registry_entry list" where
  "scoped_entries organization site entries =
     sort_key re_id
       (filter (\<lambda>e. re_organization e = organization \<and> re_site e = site) entries)"

section \<open>Stages\<close>

text \<open>A stage answers with status, source, reason, connector and candidates, or leaves the decision to the
  next one.\<close>

record verdict =
  ve_status :: resolution_status
  ve_source :: resolution_source
  ve_reason :: reason_code
  ve_connector :: "string option"
  ve_candidates :: "string list"

definition resolved_by :: "resolution_source \<Rightarrow> registry_entry \<Rightarrow> string list \<Rightarrow> verdict" where
  "resolved_by src e cands = \<lparr>ve_status = Resolved, ve_source = src, ve_reason = Ok, ve_connector = Some (re_id e), ve_candidates = cands\<rparr>"

definition error_by :: "resolution_source \<Rightarrow> reason_code \<Rightarrow> string list \<Rightarrow> verdict" where
  "error_by src r cands = \<lparr>ve_status = ResolutionError, ve_source = src, ve_reason = r, ve_connector = None, ve_candidates = cands\<rparr>"

definition idempotency_stage :: "resolution_request \<Rightarrow> string list \<Rightarrow> verdict option" where
  "idempotency_stage rq ids =
     (if rq_action rq \<in> set mutation_actions \<and> rq_idempotency rq = None
      then Some (error_by NoRoute MissingIdempotencyKey ids) else None)"

definition override_stage :: "resolution_request \<Rightarrow> registry_entry list \<Rightarrow> string list \<Rightarrow> verdict option" where
  "override_stage rq scoped ids = (case rq_override rq of
      None \<Rightarrow> None
    | Some i \<Rightarrow> (case find (\<lambda>e. re_id e = i) scoped of
        None \<Rightarrow> Some (error_by OperationOverride OverrideNotFound ids)
      | Some e \<Rightarrow>
          let (eligible, reason) = entry_eligible (rq_action rq) (rq_capability rq) e
          in if \<not> eligible
             then Some (error_by OperationOverride (if reason \<noteq> ConnectorUnhealthy then OverrideIneligible else ConnectorUnhealthy) ids)
             else Some (resolved_by OperationOverride e ids)))"

definition matching_routes :: "resolution_request \<Rightarrow> capability_route list \<Rightarrow> capability_route list" where
  "matching_routes rq routes =
     sort_key (\<lambda>r. (ro_priority r, ro_connector r))
       (filter (\<lambda>r. strip (ro_capability r) = rq_capability rq \<and> (ro_actions r = [] \<or> rq_action rq \<in> set (ro_actions r))) routes)"

text \<open>A connector found by id, if it is eligible; an unhealthy one ends the search, any other ineligible one
  leaves it to the next stage.\<close>

definition try_entry :: "resolution_request \<Rightarrow> resolution_source \<Rightarrow> string \<Rightarrow> registry_entry list \<Rightarrow> string list \<Rightarrow> verdict option" where
  "try_entry rq src i scoped ids = (case find (\<lambda>e. re_id e = i) scoped of
      None \<Rightarrow> None
    | Some e \<Rightarrow>
        let (eligible, reason) = entry_eligible (rq_action rq) (rq_capability rq) e
        in if eligible then Some (resolved_by src e ids)
           else if reason = ConnectorUnhealthy then Some (error_by src ConnectorUnhealthy ids)
           else None)"

definition route_stage :: "resolution_request \<Rightarrow> capability_route list \<Rightarrow> registry_entry list \<Rightarrow> string list \<Rightarrow> verdict option" where
  "route_stage rq routes scoped ids = (case matching_routes rq routes of
      [] \<Rightarrow> None
    | best # rest \<Rightarrow>
        let top = filter (\<lambda>r. ro_priority r = ro_priority best) (best # rest);
            route_ids = sort (remdups (map ro_connector top))
        in if length route_ids > 1 then Some (error_by FromCapabilityRoute AmbiguousRoute route_ids)
           else try_entry rq FromCapabilityRoute (ro_connector best) scoped ids)"

definition primary_stage :: "resolution_request \<Rightarrow> registry_entry list \<Rightarrow> string list \<Rightarrow> verdict option" where
  "primary_stage rq scoped ids =
     (case filter (\<lambda>e. re_site_primary e \<and> fst (entry_eligible (rq_action rq) (rq_capability rq) e)) scoped of
        [] \<Rightarrow> None
      | [e] \<Rightarrow> Some (resolved_by SitePrimary e ids)
      | es \<Rightarrow> Some (error_by SitePrimary AmbiguousRoute (map re_id es)))"

definition default_stage :: "resolution_request \<Rightarrow> string option \<Rightarrow> registry_entry list \<Rightarrow> string list \<Rightarrow> verdict option" where
  "default_stage rq dflt scoped ids = (case dflt of
      None \<Rightarrow> None
    | Some i \<Rightarrow> if i = [] then None else try_entry rq OrganizationDefault i scoped ids)"

fun first_verdict :: "verdict option list \<Rightarrow> verdict \<Rightarrow> verdict" where
  "first_verdict [] v = v"
| "first_verdict (Some w # ws) v = w"
| "first_verdict (None # ws) v = first_verdict ws v"

section \<open>Resolution\<close>

definition make_result :: "string \<Rightarrow> string \<Rightarrow> string \<Rightarrow> string \<Rightarrow> resolution_request \<Rightarrow> int \<Rightarrow> verdict \<Rightarrow> resolution" where
  "make_result rid now organization site rq version v =
     \<lparr>rl_id = rid, rl_request = rq, rl_organization = organization, rl_site = site, rl_status = ve_status v,
      rl_source = ve_source v, rl_reason = ve_reason v, rl_connector = ve_connector v, rl_policy_version = version,
      rl_candidates = sort (ve_candidates v), rl_evaluated = now\<rparr>"

definition decide :: "route_policy \<Rightarrow> resolution_request \<Rightarrow> registry_entry list \<Rightarrow> verdict" where
  "decide policy rq scoped = (let ids = map re_id scoped in
     first_verdict
       [idempotency_stage rq ids, override_stage rq scoped ids, route_stage rq (po_routes policy) scoped ids,
        primary_stage rq scoped ids, default_stage rq (po_default policy) scoped ids]
       (error_by NoRoute NoEligibleConnector ids))"

definition normalize_request :: "string \<Rightarrow> string \<Rightarrow> string \<Rightarrow> resolution_request \<Rightarrow> resolution_request" where
  "normalize_request request_id actor_id capability rq =
     rq\<lparr>rq_id := request_id, rq_actor := actor_id, rq_capability := capability,
        rq_override := normalize_optional (rq_override rq), rq_idempotency := normalize_optional (rq_idempotency rq),
        rq_correlation := normalize_optional (rq_correlation rq)\<rparr>"

definition resolve_connector ::
  "string \<Rightarrow> string \<Rightarrow> registry_entry list \<Rightarrow> route_policy \<Rightarrow> resolution_request \<Rightarrow> resolution res" where
  "resolve_connector rid now entries policy rq =
     res_bind (require_scope (rq_id rq)) (\<lambda>request_id.
     res_bind (require_scope (rq_actor rq)) (\<lambda>actor_id.
     res_bind (require_scope (rq_capability rq)) (\<lambda>capability.
     res_bind (require_scope (po_organization policy)) (\<lambda>organization.
     res_bind (require_scope (po_site policy)) (\<lambda>site.
     let rq' = normalize_request request_id actor_id capability rq
     in Inr (make_result rid now organization site rq' (po_version policy)
          (decide policy rq' (scoped_entries organization site entries))))))))"

section \<open>Facts\<close>

text \<open>What makes a connector a legitimate target of a request.\<close>

definition legitimate :: "route_policy \<Rightarrow> resolution_request \<Rightarrow> registry_entry \<Rightarrow> bool" where
  "legitimate policy rq e \<longleftrightarrow>
     re_organization e = strip (po_organization policy) \<and> re_site e = strip (po_site policy) \<and> re_enabled e
     \<and> re_health e \<noteq> Unhealthy \<and> strip (rq_capability rq) \<in> strip ` set (re_capabilities e) \<and> rq_action rq \<in> set (re_actions e)"

lemma eligible_iff: "fst (entry_eligible action capability e) \<longleftrightarrow>
    re_enabled e \<and> re_health e \<noteq> Unhealthy \<and> capability \<in> strip ` {c \<in> set (re_capabilities e). strip c \<noteq> []} \<and> action \<in> set (re_actions e)"
  by (auto simp: entry_eligible_def)

definition sound_verdict :: "resolution_request \<Rightarrow> registry_entry list \<Rightarrow> verdict \<Rightarrow> bool" where
  "sound_verdict rq scoped v \<longleftrightarrow> (ve_status v = Resolved \<longrightarrow>
     (\<exists>e \<in> set scoped. ve_connector v = Some (re_id e) \<and> fst (entry_eligible (rq_action rq) (rq_capability rq) e)
        \<and> ve_reason v = Ok))"

lemma find_mem: "find P xs = Some x \<Longrightarrow> x \<in> set xs"
  by (auto simp: find_Some_iff)

lemma try_entry_sound: "try_entry rq src i scoped ids = Some v \<Longrightarrow> sound_verdict rq scoped v"
  by (auto simp: try_entry_def sound_verdict_def resolved_by_def error_by_def split: option.splits prod.splits if_splits dest!: find_mem)

lemma stages_sound:
  "idempotency_stage rq ids = Some v \<Longrightarrow> sound_verdict rq scoped v"
  "override_stage rq scoped ids = Some v \<Longrightarrow> sound_verdict rq scoped v"
  "route_stage rq routes scoped ids = Some v \<Longrightarrow> sound_verdict rq scoped v"
  "primary_stage rq scoped ids = Some v \<Longrightarrow> sound_verdict rq scoped v"
  "default_stage rq dflt scoped ids = Some v \<Longrightarrow> sound_verdict rq scoped v"
proof -
  show "idempotency_stage rq ids = Some v \<Longrightarrow> sound_verdict rq scoped v"
    by (auto simp: idempotency_stage_def sound_verdict_def error_by_def split: if_splits)
  show "override_stage rq scoped ids = Some v \<Longrightarrow> sound_verdict rq scoped v"
    by (auto simp: override_stage_def sound_verdict_def resolved_by_def error_by_def
        split: option.splits prod.splits if_splits dest!: find_mem)
  show "route_stage rq routes scoped ids = Some v \<Longrightarrow> sound_verdict rq scoped v"
    by (auto simp: route_stage_def Let_def sound_verdict_def error_by_def split: list.splits if_splits
        dest: try_entry_sound [unfolded sound_verdict_def])
  show "default_stage rq dflt scoped ids = Some v \<Longrightarrow> sound_verdict rq scoped v"
    by (auto simp: default_stage_def split: option.splits if_splits dest: try_entry_sound)
  show "primary_stage rq scoped ids = Some v \<Longrightarrow> sound_verdict rq scoped v"
  proof -
    assume p: "primary_stage rq scoped ids = Some v"
    let ?es = "filter (\<lambda>e. re_site_primary e \<and> fst (entry_eligible (rq_action rq) (rq_capability rq) e)) scoped"
    show ?thesis
    proof (cases "\<exists>e. ?es = [e]")
      case True
      then obtain e where e: "?es = [e]" by blast
      have "e \<in> set ?es" unfolding e by simp
      then have "e \<in> set scoped" "fst (entry_eligible (rq_action rq) (rq_capability rq) e)" by simp_all
      then show ?thesis using p e by (auto simp: primary_stage_def sound_verdict_def resolved_by_def)
    next
      case False
      then show ?thesis using p
        by (auto simp: primary_stage_def sound_verdict_def error_by_def split: list.splits)
    qed
  qed
qed

lemma first_verdict_cases: "first_verdict vs d = v \<Longrightarrow> Some v \<in> set vs \<or> v = d"
  by (induction vs d rule: first_verdict.induct) auto

text \<open>With distinct ids in scope, the order of the registry does not matter.\<close>

lemma sort_key_mset_cong:
  assumes "mset xs = mset ys" "inj_on f (set xs)"
  shows "sort_key f xs = sort_key f ys"
proof (rule properties_for_sort_key [symmetric])
  show "mset (sort_key f xs) = mset ys" using assms(1) by simp
  show "sorted (map f (sort_key f xs))" by simp
  fix k assume k: "k \<in> set (sort_key f xs)"
  have eq: "filter (\<lambda>x. f k = f x) zs = replicate (count (mset zs) k) k" if "set zs = set xs" for zs
  proof -
    have "filter (\<lambda>x. f k = f x) zs = filter (\<lambda>x. x = k) zs"
      using that assms(2) k by (intro filter_cong) (auto simp: inj_on_def)
    also have "\<dots> = replicate (count (mset zs) k) k"
      by (induction zs) auto
    finally show ?thesis .
  qed
  have "set ys = set xs" using assms(1) by (metis set_mset_mset)
  then show "filter (\<lambda>x. f k = f x) (sort_key f xs) = filter (\<lambda>x. f k = f x) ys"
    using eq [of "sort_key f xs"] eq [of ys] assms(1) by simp
qed

lemma scoped_perm:
  assumes "mset entries = mset entries'"
    and "inj_on re_id {e \<in> set entries. re_organization e = org \<and> re_site e = site}"
  shows "scoped_entries org site entries = scoped_entries org site entries'"
  unfolding scoped_entries_def
  by (rule sort_key_mset_cong) (use assms in \<open>auto simp: mset_filter inj_on_def\<close>)

section \<open>Properties\<close>

text \<open>C25: a resolved request names a legitimate connector: one that the registry lists for the organization
  and site of the policy, that is enabled, not unhealthy, and offers the capability and the action; and a
  mutation is resolved only with an idempotency key.\<close>

theorem resolved_connector_legitimate:
  assumes "resolve_connector rid now entries policy rq = Inr r" "rl_status r = Resolved"
  shows "(\<exists>e \<in> set entries. rl_connector r = Some (re_id e) \<and> legitimate policy rq e)
    \<and> (rq_action rq \<in> set mutation_actions \<longrightarrow> (\<exists>k. rq_idempotency rq = Some k \<and> strip k \<noteq> []))"
proof -
  let ?rq = "normalize_request (strip (rq_id rq)) (strip (rq_actor rq)) (strip (rq_capability rq)) rq"
  let ?scoped = "scoped_entries (strip (po_organization policy)) (strip (po_site policy)) entries"
  let ?v = "decide policy ?rq ?scoped"
  have rq': "rq_capability ?rq = strip (rq_capability rq)" "rq_action ?rq = rq_action rq"
      "rq_idempotency ?rq = normalize_optional (rq_idempotency rq)"
    by (simp_all add: normalize_request_def)
  have r: "rl_status r = ve_status ?v" "rl_connector r = ve_connector ?v"
    using assms(1) unfolding resolve_connector_def Let_def require_scope_def
    by (auto elim!: res_bind_InrE split: if_split_asm simp: make_result_def)
  have "Some ?v \<in> {idempotency_stage ?rq (map re_id ?scoped), override_stage ?rq ?scoped (map re_id ?scoped),
      route_stage ?rq (po_routes policy) ?scoped (map re_id ?scoped), primary_stage ?rq ?scoped (map re_id ?scoped),
      default_stage ?rq (po_default policy) ?scoped (map re_id ?scoped)}
    \<or> ?v = error_by NoRoute NoEligibleConnector (map re_id ?scoped)"
    using first_verdict_cases [OF decide_def [symmetric, unfolded Let_def]] by auto
  then have "sound_verdict ?rq ?scoped ?v"
    using stages_sound [where rq = ?rq and v = ?v and scoped = ?scoped]
    by (auto simp: sound_verdict_def error_by_def eq_commute [of "Some _"])
  with assms(2) r obtain e where e: "e \<in> set ?scoped" "rl_connector r = Some (re_id e)"
      "fst (entry_eligible (rq_action rq) (strip (rq_capability rq)) e)"
    by (auto simp: sound_verdict_def rq')
  have "e \<in> set entries" "legitimate policy rq e"
    using e(1,3) by (auto simp: scoped_entries_def legitimate_def eligible_iff)
  moreover have "rq_idempotency ?rq \<noteq> None" if "rq_action rq \<in> set mutation_actions"
  proof
    assume "rq_idempotency ?rq = None"
    then have "?v = error_by NoRoute MissingIdempotencyKey (map re_id ?scoped)"
      using that by (simp add: decide_def idempotency_stage_def rq'(2))
    with assms(2) r(1) show False by (simp add: error_by_def)
  qed
  then have "rq_action rq \<in> set mutation_actions \<longrightarrow> (\<exists>k. rq_idempotency rq = Some k \<and> strip k \<noteq> [])"
    by (auto simp: rq'(3) normalize_optional_def split: option.splits if_splits)
  ultimately show ?thesis using e(2) by blast
qed

definition sample_connector :: "string \<Rightarrow> registry_entry" where
  "sample_connector i = \<lparr>re_organization = ''o'', re_site = ''s'', re_id = i, re_capabilities = [''calendar''],
     re_actions = [Query, CreateDraft], re_enabled = True, re_health = Healthy, re_site_primary = True\<rparr>"

definition sample_route_policy :: route_policy where
  "sample_route_policy = \<lparr>po_version = 1, po_organization = ''o'', po_site = ''s'', po_routes = [], po_default = None\<rparr>"

definition sample_request :: resolution_request where
  "sample_request = \<lparr>rq_id = ''r1'', rq_actor = ''alice'', rq_action = CreateDraft, rq_capability = ''calendar'',
     rq_override = None, rq_idempotency = Some ''k1'', rq_correlation = None\<rparr>"

definition sample_resolution :: bool where
  "sample_resolution = (case resolve_connector ''x'' ''t'' [sample_connector ''c1''] sample_route_policy sample_request of
     Inl _ \<Rightarrow> False | Inr r \<Rightarrow> rl_status r = Resolved)"

lemma sample_resolution: sample_resolution
  by code_simp

theorem resolved_connector_legitimate_witness:
  "legitimate sample_route_policy sample_request (sample_connector ''c1'')"
proof -
  obtain r where "resolve_connector ''x'' ''t'' [sample_connector ''c1''] sample_route_policy sample_request = Inr r"
      "rl_status r = Resolved"
    using case_sum_False [OF sample_resolution [unfolded sample_resolution_def]] by blast
  from resolved_connector_legitimate [OF this] show ?thesis by simp
qed

text \<open>Resolution is deterministic: with distinct connector ids in the policy's scope, the outcome does not
  depend on the order in which the registry lists its entries.\<close>

theorem resolution_order_independent:
  assumes "mset entries = mset entries'"
    and "inj_on re_id {e \<in> set entries. re_organization e = strip (po_organization policy) \<and> re_site e = strip (po_site policy)}"
  shows "resolve_connector rid now entries policy rq = resolve_connector rid now entries' policy rq"
  using scoped_perm [OF assms] by (simp add: resolve_connector_def require_scope_def Let_def)

theorem resolution_order_independent_witness:
  "resolve_connector ''x'' ''t'' [sample_connector ''c1'', sample_connector ''c2''] sample_route_policy sample_request =
   resolve_connector ''x'' ''t'' [sample_connector ''c2'', sample_connector ''c1''] sample_route_policy sample_request"
  by (rule resolution_order_independent) (auto simp: inj_on_def sample_connector_def)

end
