(* ===== verification/Auth.thy ===== *)
theory Auth
  imports Py_Values
begin

text \<open>
  Tokens and passwords, \<^verbatim>\<open>auth/auth.py\<close>: the three authority tracks with their secrets and issuers, creation and
  verification of plain and scoped tokens, revocation, the choice of a password algorithm and the transcript
  seal. The keyed digest, the text coding of payloads and signatures, the third-party password libraries and the
  random draws are arguments; a byte string is a list of characters.
\<close>

section \<open>Configuration\<close>

record auth_config =
  ac_secret :: string
  ac_admin_secret :: string
  ac_domain_secret :: string
  ac_user_secret :: string
  ac_transcript_secret :: string
  ac_env_transcript :: string
  ac_env_secret :: string
  ac_algorithm :: string
  ac_ttl_minutes :: int

text \<open>The two environment fields are what the transcript seal reads again at the call.

  \<open>ce_encode\<close> is the coded JSON of a payload, \<open>ce_decode\<close> its reader (\<open>None\<close> where it raises), \<open>ce_sig\<close> and
  \<open>ce_unsig\<close> the coding of a signature, \<open>ce_hmac\<close> the keyed digest of a message under a secret.\<close>

record codec =
  ce_header :: string
  ce_encode :: "pydict \<Rightarrow> string"
  ce_decode :: "string \<Rightarrow> pyval option"
  ce_sig :: "string \<Rightarrow> string"
  ce_unsig :: "string \<Rightarrow> string option"
  ce_hmac :: "string \<Rightarrow> string \<Rightarrow> string"

datatype auth_error = AuthError | TokenExpiredError | TokenInvalidError | AuthRaise py_exn

definition admin_roles :: "string list" where "admin_roles = [''root'', ''super_admin'']"
definition domain_admin_roles :: "string list" where "domain_admin_roles = [''admin'']"
definition valid_roles :: "string list" where
  "valid_roles = [''root'', ''super_admin'', ''admin'', ''operator'', ''half_operator'', ''user'', ''guest'']"

definition revoke_token_jti :: "string \<Rightarrow> string list \<Rightarrow> string list" where
  "revoke_token_jti jti revoked = List.insert jti revoked"

definition is_token_revoked :: "pyval \<Rightarrow> string list \<Rightarrow> bool res" where
  "is_token_revoked jti revoked =
     (if hashable jti then Inr (case jti of PStr s \<Rightarrow> s \<in> set revoked | _ \<Rightarrow> False) else Inl TypeError)"

definition first_nonempty :: "string \<Rightarrow> string \<Rightarrow> string" where
  "first_nonempty a b = (if a \<noteq> [] then a else b)"

definition resolve_secret :: "auth_config \<Rightarrow> string \<Rightarrow> string" where
  "resolve_secret c scope =
     (if scope = ''admin'' then first_nonempty (ac_admin_secret c) (ac_secret c)
      else if scope = ''domain'' then first_nonempty (ac_domain_secret c) (ac_secret c)
      else if scope = ''user'' then first_nonempty (ac_user_secret c) (ac_secret c)
      else ac_secret c)"

definition resolve_issuer :: "string \<Rightarrow> string" where
  "resolve_issuer scope =
     (if scope = ''admin'' then ''lumina-admin'' else if scope = ''domain'' then ''lumina-domain''
      else if scope = ''user'' then ''lumina-user'' else ''lumina'')"

text \<open>\<open>_scope_for_role\<close> of a claim: membership in a set of strings, which an unhashable claim fails.\<close>

definition scope_for_role :: "pyval \<Rightarrow> string res" where
  "scope_for_role role =
     (if \<not> hashable role then Inl TypeError
      else Inr (case role of
          PStr r \<Rightarrow> if r \<in> set admin_roles then ''admin'' else if r \<in> set domain_admin_roles then ''domain'' else ''user''
        | _ \<Rightarrow> ''user''))"

section \<open>Creation\<close>

record token_request =
  tq_user :: string
  tq_role :: string
  tq_modules :: "string list"
  tq_domain_roles :: "(string \<times> string) list"
  tq_ttl :: "int option"
  tq_organization :: string
  tq_site :: string
  tq_device :: string
  tq_site_role :: string

text \<open>A missing optional identifier is the empty string, which the code treats alike.\<close>

definition optional_claim :: "string \<Rightarrow> string \<Rightarrow> pydict res" where
  "optional_claim k v = (if v = [] then Inr [] else if strip v = [] then Inl ValueError else Inr [(k, PStr (strip v))])"

definition operating_context_claims :: "token_request \<Rightarrow> pydict res" where
  "operating_context_claims q =
     (if (tq_organization q \<noteq> []) \<noteq> (tq_site q \<noteq> []) then Inl ValueError
      else if tq_organization q = [] then Inr []
      else if strip (tq_organization q) = [] \<or> strip (tq_site q) = [] then Inl ValueError
      else res_bind (optional_claim ''device_id'' (tq_device q)) (\<lambda>d.
           res_bind (optional_claim ''site_role'' (tq_site_role q)) (\<lambda>r.
             Inr ([(''organization_id'', PStr (strip (tq_organization q))), (''site_id'', PStr (strip (tq_site q)))] @ d @ r))))"

definition base_claims :: "auth_config \<Rightarrow> int \<Rightarrow> string \<Rightarrow> string \<Rightarrow> token_request \<Rightarrow> pydict" where
  "base_claims c now jti issuer q =
     [(''sub'', PStr (tq_user q)), (''role'', PStr (tq_role q)), (''governed_modules'', PList (map PStr (tq_modules q))),
      (''iat'', PInt now), (''exp'', PInt (now + (case tq_ttl q of None \<Rightarrow> ac_ttl_minutes c | Some n \<Rightarrow> n) * 60)),
      (''iss'', PStr issuer), (''jti'', PStr jti)]"

definition role_claims :: "token_request \<Rightarrow> pydict" where
  "role_claims q = (if tq_domain_roles q = [] then [] else [(''domain_roles'', PDict (map (\<lambda>(m, r). (m, PStr r)) (tq_domain_roles q)))])"

definition assemble :: "codec \<Rightarrow> string \<Rightarrow> pydict \<Rightarrow> string" where
  "assemble cd secret payload =
     (let message = ce_header cd @ ''.'' @ ce_encode cd payload
      in message @ ''.'' @ ce_sig cd (ce_hmac cd message secret))"

definition create_jwt :: "codec \<Rightarrow> auth_config \<Rightarrow> int \<Rightarrow> string \<Rightarrow> token_request \<Rightarrow> auth_error + string" where
  "create_jwt cd c now jti q =
     (if tq_role q \<notin> set valid_roles then Inl (AuthRaise ValueError)
      else if ac_algorithm c \<noteq> ''HS256'' \<or> ac_secret c = [] then Inl AuthError
      else case operating_context_claims q of
        Inl e \<Rightarrow> Inl (AuthRaise e)
      | Inr ctx \<Rightarrow> Inr (assemble cd (ac_secret c) (base_claims c now jti ''lumina'' q @ role_claims q @ ctx)))"

definition role_scope :: "string \<Rightarrow> string" where
  "role_scope r = (if r \<in> set admin_roles then ''admin'' else if r \<in> set domain_admin_roles then ''domain'' else ''user'')"

definition scoped_claims :: "auth_config \<Rightarrow> int \<Rightarrow> string \<Rightarrow> token_request \<Rightarrow> pydict \<Rightarrow> pydict" where
  "scoped_claims c now jti q ctx =
     base_claims c now jti (resolve_issuer (role_scope (tq_role q))) q @ [(''token_scope'', PStr (role_scope (tq_role q)))]
       @ role_claims q @ ctx"

definition create_scoped_jwt :: "codec \<Rightarrow> auth_config \<Rightarrow> int \<Rightarrow> string \<Rightarrow> token_request \<Rightarrow> auth_error + string" where
  "create_scoped_jwt cd c now jti q =
     (if tq_role q \<notin> set valid_roles then Inl (AuthRaise ValueError)
      else if ac_algorithm c \<noteq> ''HS256'' then Inl AuthError
      else let secret = resolve_secret c (role_scope (tq_role q)) in
        if secret = [] then Inl AuthError
        else case operating_context_claims q of
          Inl e \<Rightarrow> Inl (AuthRaise e)
        | Inr ctx \<Rightarrow> Inr (assemble cd secret (scoped_claims c now jti q ctx)))"

section \<open>Verification\<close>

definition is_ascii :: "string \<Rightarrow> bool" where
  "is_ascii s \<longleftrightarrow> list_all (\<lambda>c. of_char c < (128 :: nat)) s"

text \<open>The signature test both verifiers share. Neither guards the decoding of the signature part.\<close>

definition check_signature :: "codec \<Rightarrow> string \<Rightarrow> string \<Rightarrow> string \<Rightarrow> string \<Rightarrow> auth_error + unit" where
  "check_signature cd h p s secret =
     (let message = h @ ''.'' @ p in
      if \<not> is_ascii message then Inl (AuthRaise ValueError)
      else case ce_unsig cd s of
        None \<Rightarrow> Inl (AuthRaise ValueError)
      | Some actual \<Rightarrow> if ce_hmac cd message secret \<noteq> actual then Inl TokenInvalidError else Inr ())"

definition token_expired :: "rat \<Rightarrow> pydict \<Rightarrow> bool" where
  "token_expired now payload =
     (case dget payload ''exp'' of
        Some v \<Rightarrow> (is_int v \<or> is_float v) \<and> (case num_of v of Some f \<Rightarrow> flt f (Fin now) | None \<Rightarrow> False)
      | None \<Rightarrow> False)"

definition check_revoked :: "pydict \<Rightarrow> string list \<Rightarrow> auth_error + unit" where
  "check_revoked payload revoked =
     (let jti = dget_or payload ''jti'' PNone in
      if \<not> truthy jti then Inr ()
      else case is_token_revoked jti revoked of
        Inl e \<Rightarrow> Inl (AuthRaise e)
      | Inr b \<Rightarrow> if b then Inl TokenInvalidError else Inr ())"

definition decode_payload :: "codec \<Rightarrow> string \<Rightarrow> auth_error + pydict" where
  "decode_payload cd p = (case ce_decode cd p of Some (PDict d) \<Rightarrow> Inr d | _ \<Rightarrow> Inl TokenInvalidError)"

definition verify_jwt :: "codec \<Rightarrow> auth_config \<Rightarrow> rat \<Rightarrow> string list \<Rightarrow> string \<Rightarrow> auth_error + pydict" where
  "verify_jwt cd c now revoked token =
     (if ac_secret c = [] then Inl AuthError
      else case split_on (CHR ''.'') token of
        [h, p, s] \<Rightarrow>
          res_bind (check_signature cd h p s (ac_secret c)) (\<lambda>_.
          res_bind (decode_payload cd p) (\<lambda>payload.
          if token_expired now payload then Inl TokenExpiredError
          else if dget_or payload ''iss'' PNone \<noteq> PStr ''lumina'' then Inl TokenInvalidError
          else res_bind (check_revoked payload revoked) (\<lambda>_. Inr payload)))
      | _ \<Rightarrow> Inl TokenInvalidError)"

text \<open>The track of a token by its issuer claim: the secret to verify with and the scope.\<close>

definition issuer_track :: "auth_config \<Rightarrow> pydict \<Rightarrow> auth_error + string \<times> string" where
  "issuer_track c payload =
     (let iss = dget_or payload ''iss'' (PStr '''') in
      if iss = PStr ''lumina-admin'' then Inr (resolve_secret c ''admin'', ''admin'')
      else if iss = PStr ''lumina-domain'' then Inr (resolve_secret c ''domain'', ''domain'')
      else if iss = PStr ''lumina-user'' then Inr (resolve_secret c ''user'', ''user'')
      else if iss = PStr ''lumina'' then
        (case scope_for_role (dget_or payload ''role'' (PStr '''')) of
           Inl e \<Rightarrow> Inl (AuthRaise e) | Inr scope \<Rightarrow> Inr (ac_secret c, scope))
      else Inl TokenInvalidError)"

definition verify_scoped_jwt ::
  "codec \<Rightarrow> auth_config \<Rightarrow> rat \<Rightarrow> string list \<Rightarrow> string option \<Rightarrow> string \<Rightarrow> auth_error + pydict" where
  "verify_scoped_jwt cd c now revoked required token =
     (case split_on (CHR ''.'') token of
        [h, p, s] \<Rightarrow>
          res_bind (decode_payload cd p) (\<lambda>payload.
          res_bind (issuer_track c payload) (\<lambda>(secret, scope).
          if secret = [] then Inl AuthError
          else res_bind (check_signature cd h p s secret) (\<lambda>_.
            if token_expired now payload then Inl TokenExpiredError
            else res_bind (check_revoked payload revoked) (\<lambda>_.
              if required \<noteq> None \<and> required \<noteq> Some [] \<and> required \<noteq> Some scope then Inl TokenInvalidError
              else Inr (dput ''token_scope'' (PStr scope) payload)))))
      | _ \<Rightarrow> Inl TokenInvalidError)"

section \<open>Passwords\<close>

text \<open>The password libraries: whether they are installed, what they hash to, and what they verify; the
  verifier is \<open>None\<close> where the library raises.\<close>

record password_env =
  pw_algorithm :: string
  pw_has_argon2 :: bool
  pw_has_bcrypt :: bool
  pw_argon2_hash :: "string \<Rightarrow> string"
  pw_argon2_verify :: "string \<Rightarrow> string \<Rightarrow> bool option"
  pw_bcrypt_hash :: "string \<Rightarrow> string"
  pw_bcrypt_verify :: "string \<Rightarrow> string \<Rightarrow> bool option"
  pw_sha256 :: "string \<Rightarrow> string"

definition resolve_algorithm :: "password_env \<Rightarrow> string" where
  "resolve_algorithm e =
     (if pw_algorithm e = ''argon2id'' then
        (if pw_has_argon2 e then ''argon2id'' else if pw_has_bcrypt e then ''bcrypt'' else ''sha256'')
      else if pw_algorithm e = ''bcrypt'' then (if pw_has_bcrypt e then ''bcrypt'' else ''sha256'')
      else ''sha256'')"

definition detect_algorithm :: "string \<Rightarrow> string" where
  "detect_algorithm stored =
     (if starts_with ''$argon2'' stored then ''argon2id''
      else if starts_with ''$2b$'' stored \<or> starts_with ''$2a$'' stored then ''bcrypt''
      else if CHR '':'' \<in> set stored then ''sha256'' else ''unknown'')"

definition hash_sha256 :: "password_env \<Rightarrow> string \<Rightarrow> string \<Rightarrow> string" where
  "hash_sha256 e salt password = salt @ '':'' @ pw_sha256 e (salt @ password)"

definition verify_sha256 :: "password_env \<Rightarrow> string \<Rightarrow> string \<Rightarrow> bool" where
  "verify_sha256 e password stored =
     (let salt = takeWhile (\<lambda>c. c \<noteq> CHR '':'') stored; expected = tl (dropWhile (\<lambda>c. c \<noteq> CHR '':'') stored)
      in pw_sha256 e (salt @ password) = expected)"

definition hash_password :: "password_env \<Rightarrow> string \<Rightarrow> string \<Rightarrow> string" where
  "hash_password e salt password =
     (if resolve_algorithm e = ''argon2id'' then pw_argon2_hash e password
      else if resolve_algorithm e = ''bcrypt'' then pw_bcrypt_hash e password
      else hash_sha256 e salt password)"

definition verify_password :: "password_env \<Rightarrow> string \<Rightarrow> string \<Rightarrow> bool" where
  "verify_password e password stored =
     (if detect_algorithm stored = ''argon2id'' then pw_argon2_verify e password stored = Some True
      else if detect_algorithm stored = ''bcrypt'' then pw_bcrypt_verify e password stored = Some True
      else if detect_algorithm stored = ''sha256'' then verify_sha256 e password stored
      else False)"

section \<open>Transcript seal\<close>

definition transcript_secret :: "auth_config \<Rightarrow> auth_error + string" where
  "transcript_secret c =
     (let s = first_nonempty (ac_transcript_secret c) (first_nonempty (ac_secret c)
                (first_nonempty (ac_env_transcript c) (ac_env_secret c)))
      in if s = [] then Inl AuthError else Inr s)"

text \<open>\<open>hm key message\<close> is the keyed digest as bytes, \<open>hx\<close> its hexadecimal form, \<open>cj\<close> the canonical JSON.\<close>

definition derive_transcript_key :: "(string \<Rightarrow> string \<Rightarrow> string) \<Rightarrow> auth_config \<Rightarrow> string \<Rightarrow> auth_error + string" where
  "derive_transcript_key hm c user = res_bind (transcript_secret c) (\<lambda>secret.
     Inr (hm (hm user secret) (''lumina-transcript-seal'' @ [CHR 0x01])))"

definition sign_transcript ::
  "(string \<Rightarrow> string \<Rightarrow> string) \<Rightarrow> (string \<Rightarrow> string) \<Rightarrow> (pydict \<Rightarrow> string) \<Rightarrow> auth_config \<Rightarrow> string \<Rightarrow> pydict \<Rightarrow> auth_error + string" where
  "sign_transcript hm hx cj c user payload = res_bind (derive_transcript_key hm c user) (\<lambda>key. Inr (hx (hm key (cj payload))))"

definition verify_transcript ::
  "(string \<Rightarrow> string \<Rightarrow> string) \<Rightarrow> (string \<Rightarrow> string) \<Rightarrow> (pydict \<Rightarrow> string) \<Rightarrow> auth_config \<Rightarrow> string \<Rightarrow> pydict \<Rightarrow> string \<Rightarrow> auth_error + bool" where
  "verify_transcript hm hx cj c user payload signature =
     res_bind (sign_transcript hm hx cj c user payload) (\<lambda>expected. Inr (expected = signature))"

section \<open>Facts\<close>

lemma split_on_append: "c \<notin> set w \<Longrightarrow> split_on c (w @ c # s) = w # split_on c s"
  by (induction w) auto

lemma split_token:
  assumes "CHR ''.'' \<notin> set h" "CHR ''.'' \<notin> set p" "CHR ''.'' \<notin> set s"
  shows "split_on (CHR ''.'') ((h @ ''.'' @ p) @ ''.'' @ s) = [h, p, s]"
  using assms by (simp add: split_on_append split_on_id)

text \<open>What the code relies on of the coding, for one payload and secret: the parts have no dot, are plain
  text, and decode to what was encoded.\<close>

definition codec_ok :: "codec \<Rightarrow> string \<Rightarrow> pydict \<Rightarrow> bool" where
  "codec_ok cd secret payload \<longleftrightarrow>
     (let message = ce_header cd @ ''.'' @ ce_encode cd payload; sig = ce_hmac cd message secret in
      is_ascii message \<and> CHR ''.'' \<notin> set (ce_header cd) \<and> CHR ''.'' \<notin> set (ce_encode cd payload) \<and> CHR ''.'' \<notin> set (ce_sig cd sig)
      \<and> ce_decode cd (ce_encode cd payload) = Some (PDict payload) \<and> ce_unsig cd (ce_sig cd sig) = Some sig)"

lemma check_signature_assembled:
  "codec_ok cd secret payload \<Longrightarrow>
     check_signature cd (ce_header cd) (ce_encode cd payload)
       (ce_sig cd (ce_hmac cd (ce_header cd @ ''.'' @ ce_encode cd payload) secret)) secret = Inr ()"
  by (simp add: check_signature_def codec_ok_def Let_def)

lemma role_scope_cases: "role_scope r = ''admin'' \<or> role_scope r = ''domain'' \<or> role_scope r = ''user''"
  by (simp add: role_scope_def)

lemma issuer_track_scoped:
  "issuer_track c (scoped_claims c now jti q ctx) = Inr (resolve_secret c (role_scope (tq_role q)), role_scope (tq_role q))"
  using role_scope_cases [of "tq_role q"]
  by (auto simp: issuer_track_def scoped_claims_def base_claims_def resolve_issuer_def Let_def dget_or_def)

lemma scoped_claims_get:
  "dget (scoped_claims c now jti q ctx) ''exp'' = Some (PInt (now + (case tq_ttl q of None \<Rightarrow> ac_ttl_minutes c | Some n \<Rightarrow> n) * 60))"
  "dget (scoped_claims c now jti q ctx) ''jti'' = Some (PStr jti)"
  "dget (scoped_claims c now jti q ctx) ''token_scope'' = Some (PStr (role_scope (tq_role q)))"
  by (simp_all add: scoped_claims_def base_claims_def)

lemma dput_same: "dget d k = Some v \<Longrightarrow> dput k v d = d"
  by (induction k v d rule: dput.induct) (auto split: if_splits)

section \<open>Properties\<close>

text \<open>C24: a scoped token verifies as what was issued: until it expires and while it is not revoked, the
  verifier returns exactly the claims, with the scope of the role, and accepts it for that scope; it rejects it
  when another scope is required.\<close>

theorem scoped_token_roundtrip:
  assumes "create_scoped_jwt cd c now jti q = Inr token" "operating_context_claims q = Inr ctx"
    and "codec_ok cd (resolve_secret c (role_scope (tq_role q))) (scoped_claims c now jti q ctx)"
    and "t \<le> of_int (now + (case tq_ttl q of None \<Rightarrow> ac_ttl_minutes c | Some n \<Rightarrow> n) * 60)" "jti \<notin> set revoked"
  shows "verify_scoped_jwt cd c t revoked None token = Inr (scoped_claims c now jti q ctx)
    \<and> verify_scoped_jwt cd c t revoked (Some (role_scope (tq_role q))) token = Inr (scoped_claims c now jti q ctx)
    \<and> (\<forall>scope. scope \<noteq> [] \<and> scope \<noteq> role_scope (tq_role q) \<longrightarrow>
         verify_scoped_jwt cd c t revoked (Some scope) token = Inl TokenInvalidError)"
proof -
  let ?payload = "scoped_claims c now jti q ctx" and ?scope = "role_scope (tq_role q)"
  let ?secret = "resolve_secret c ?scope"
  have secret: "?secret \<noteq> []" and token: "token = assemble cd ?secret ?payload"
    using assms(1,2) by (auto simp: create_scoped_jwt_def Let_def split: if_splits)
  let ?sig = "ce_sig cd (ce_hmac cd (ce_header cd @ ''.'' @ ce_encode cd ?payload) ?secret)"
  have split: "split_on (CHR ''.'') token = [ce_header cd, ce_encode cd ?payload, ?sig]"
    using split_token assms(3) by (simp add: token assemble_def Let_def codec_ok_def)
  have dec: "decode_payload cd (ce_encode cd ?payload) = Inr ?payload"
    using assms(3) by (simp add: decode_payload_def codec_ok_def Let_def)
  have fresh: "\<not> token_expired t ?payload" using assms(4) by (simp add: token_expired_def scoped_claims_get)
  have rev: "check_revoked ?payload revoked = Inr ()"
    using assms(5) by (simp add: check_revoked_def dget_or_def scoped_claims_get is_token_revoked_def)
  have scope: "?scope \<noteq> []" using role_scope_cases [of "tq_role q"] by auto
  show ?thesis
    using secret scope
    by (simp add: verify_scoped_jwt_def split dec issuer_track_scoped check_signature_assembled [OF assms(3), simplified] fresh rev
        dput_same scoped_claims_get)
qed

definition sample_auth :: auth_config where
  "sample_auth = \<lparr>ac_secret = ''legacy'', ac_admin_secret = ''adm'', ac_domain_secret = ''dom'', ac_user_secret = ''usr'',
     ac_transcript_secret = '''', ac_env_transcript = '''', ac_env_secret = '''', ac_algorithm = ''HS256'', ac_ttl_minutes = 60\<rparr>"

definition sample_token_request :: token_request where
  "sample_token_request = \<lparr>tq_user = ''alice'', tq_role = ''user'', tq_modules = [], tq_domain_roles = [], tq_ttl = None,
     tq_organization = '''', tq_site = '''', tq_device = '''', tq_site_role = ''''\<rparr>"

definition sample_codec :: "pydict \<Rightarrow> codec" where
  "sample_codec payload = \<lparr>ce_header = ''h'', ce_encode = (\<lambda>_. ''p''), ce_decode = (\<lambda>_. Some (PDict payload)), ce_sig = (\<lambda>s. s),
     ce_unsig = Some, ce_hmac = (\<lambda>m k. k)\<rparr>"

theorem scoped_token_roundtrip_witness:
  "\<exists>token. create_scoped_jwt (sample_codec (scoped_claims sample_auth 0 ''j'' sample_token_request [])) sample_auth 0 ''j''
       sample_token_request = Inr token
     \<and> verify_scoped_jwt (sample_codec (scoped_claims sample_auth 0 ''j'' sample_token_request [])) sample_auth 10 []
         (Some ''admin'') token = Inl TokenInvalidError"
proof -
  let ?cd = "sample_codec (scoped_claims sample_auth 0 ''j'' sample_token_request [])"
  have sc: "role_scope (tq_role sample_token_request) = ''user''" by (simp add: role_scope_def sample_token_request_def admin_roles_def domain_admin_roles_def)
  have ctx: "operating_context_claims sample_token_request = Inr []"
    by (simp add: operating_context_claims_def sample_token_request_def)
  have "tq_role sample_token_request \<in> set valid_roles" by (simp add: sample_token_request_def valid_roles_def)
  then obtain token where tok: "create_scoped_jwt ?cd sample_auth 0 ''j'' sample_token_request = Inr token"
    using ctx sc by (simp add: create_scoped_jwt_def sample_auth_def resolve_secret_def first_nonempty_def Let_def)
  have ok: "codec_ok ?cd (resolve_secret sample_auth (role_scope (tq_role sample_token_request)))
      (scoped_claims sample_auth 0 ''j'' sample_token_request [])"
    by (simp add: codec_ok_def sample_codec_def sc resolve_secret_def sample_auth_def first_nonempty_def is_ascii_def)
  have fresh: "(10 :: rat) \<le> of_int (0 + (case tq_ttl sample_token_request of None \<Rightarrow> ac_ttl_minutes sample_auth | Some n \<Rightarrow> n) * 60)"
    by (simp add: sample_token_request_def sample_auth_def)
  have "''j'' \<notin> set []" "''admin'' \<noteq> [] \<and> ''admin'' \<noteq> role_scope (tq_role sample_token_request)" by (simp_all add: sc)
  with scoped_token_roundtrip [OF tok ctx ok fresh, of "[]"] tok show ?thesis by blast
qed

text \<open>C14: the authority tracks are separated: a token accepted for the system scope carries a signature made
  with the system secret, or is a legacy token whose role is a system role and whose signature was made with the
  legacy secret. No token accepted for any scope is expired, revoked or unsigned.\<close>

theorem scoped_tracks_separated:
  assumes "verify_scoped_jwt cd c now revoked (Some scope) token = Inr payload" "scope \<noteq> []"
  shows "\<exists>h p s claims secret. token = (h @ ''.'' @ p) @ ''.'' @ s \<and> ce_decode cd p = Some (PDict claims)
    \<and> payload = dput ''token_scope'' (PStr scope) claims
    \<and> ce_unsig cd s = Some (ce_hmac cd (h @ ''.'' @ p) secret) \<and> secret \<noteq> []
    \<and> (dget claims ''iss'' = Some (PStr (resolve_issuer scope)) \<and> secret = resolve_secret c scope
       \<or> dget claims ''iss'' = Some (PStr ''lumina'') \<and> secret = ac_secret c
          \<and> scope_for_role (dget_or claims ''role'' (PStr '''')) = Inr scope)
    \<and> \<not> token_expired now claims \<and> check_revoked claims revoked = Inr ()"
proof -
  obtain h p s where split: "split_on (CHR ''.'') token = [h, p, s]"
    using assms(1) by (auto simp: verify_scoped_jwt_def split: list.splits)
  have token: "token = (h @ ''.'' @ p) @ ''.'' @ s"
    using join_split [of "CHR ''.''" token] by (simp add: split)
  obtain claims secret scope' where
    d: "decode_payload cd p = Inr claims" and t: "issuer_track c claims = Inr (secret, scope')" and
    k: "secret \<noteq> []" "check_signature cd h p s secret = Inr ()" "\<not> token_expired now claims"
      "check_revoked claims revoked = Inr ()" "scope' = scope" "payload = dput ''token_scope'' (PStr scope) claims"
    using assms unfolding verify_scoped_jwt_def split
    by (auto elim!: res_bind_InrE split: if_split_asm)
  have "ce_decode cd p = Some (PDict claims)"
    using d by (auto simp: decode_payload_def split: option.splits pyval.splits)
  moreover have "ce_unsig cd s = Some (ce_hmac cd (h @ ''.'' @ p) secret)"
    using k(2) by (auto simp: check_signature_def Let_def split: if_splits option.splits)
  moreover have "dget claims ''iss'' = Some (PStr (resolve_issuer scope)) \<and> secret = resolve_secret c scope
       \<or> dget claims ''iss'' = Some (PStr ''lumina'') \<and> secret = ac_secret c
          \<and> scope_for_role (dget_or claims ''role'' (PStr '''')) = Inr scope"
    using t k(5) by (auto simp: issuer_track_def Let_def dget_or_def resolve_issuer_def split: if_splits option.splits sum.splits)
  ultimately show ?thesis using token k by blast
qed

theorem scoped_tracks_separated_witness:
  "\<exists>token payload. verify_scoped_jwt (sample_codec [(''iss'', PStr ''lumina-admin''), (''role'', PStr ''root'')]) sample_auth 10 []
       (Some ''admin'') token = Inr payload
     \<and> (\<exists>s. ce_unsig (sample_codec [(''iss'', PStr ''lumina-admin''), (''role'', PStr ''root'')]) s = Some ''adm'')"
proof -
  let ?cd = "sample_codec [(''iss'', PStr ''lumina-admin''), (''role'', PStr ''root'')]"
  have run: "verify_scoped_jwt ?cd sample_auth 10 [] (Some ''admin'') ''h.p.adm'' =
      Inr [(''iss'', PStr ''lumina-admin''), (''role'', PStr ''root''), (''token_scope'', PStr ''admin'')]"
    by code_simp
  have "resolve_secret sample_auth ''admin'' = ''adm''" by (simp add: resolve_secret_def sample_auth_def first_nonempty_def)
  then have "\<exists>s. ce_unsig ?cd s = Some ''adm''"
    using scoped_tracks_separated [OF run] by (force simp: sample_codec_def)
  with run show ?thesis by blast
qed

text \<open>A stored password verifies: whichever algorithm the deployment resolves to, checking the password
  against its stored hash succeeds, if the libraries verify what they hash and mark their hashes as documented.\<close>

theorem password_roundtrip:
  assumes "\<And>p. starts_with ''$argon2'' (pw_argon2_hash e p) \<and> pw_argon2_verify e p (pw_argon2_hash e p) = Some True"
    and "\<And>p. starts_with ''$2b$'' (pw_bcrypt_hash e p) \<and> pw_bcrypt_verify e p (pw_bcrypt_hash e p) = Some True"
    and "salt \<noteq> []" "set salt \<subseteq> set ''0123456789abcdef''"
  shows "verify_password e password (hash_password e salt password)"
proof -
  have no: "CHR '':'' \<notin> set salt" "hd salt \<noteq> CHR ''$''" using assms(3,4) by (cases salt; auto)+
  have "takeWhile (\<lambda>c. c \<noteq> CHR '':'') (salt @ CHR '':'' # r) = salt"
    "dropWhile (\<lambda>c. c \<noteq> CHR '':'') (salt @ CHR '':'' # r) = CHR '':'' # r" for r
    using no(1) by (induction salt) auto
  then have v: "verify_sha256 e password (hash_sha256 e salt password)"
    by (simp add: verify_sha256_def hash_sha256_def)
  have d: "detect_algorithm (hash_sha256 e salt password) = ''sha256''"
    using no(2) assms(3) by (cases salt) (auto simp: detect_algorithm_def hash_sha256_def starts_with_def)
  have b: "detect_algorithm (pw_bcrypt_hash e password) = ''bcrypt''"
  proof -
    have "\<not> starts_with ''$argon2'' (pw_bcrypt_hash e password)"
    proof
      assume a: "starts_with ''$argon2'' (pw_bcrypt_hash e password)"
      have "take 2 (pw_bcrypt_hash e password) = ''$a''"
        using arg_cong [OF a [unfolded starts_with_def], of "take 2"] by (simp add: min_def)
      moreover have "take 2 (pw_bcrypt_hash e password) = ''$2''"
        using arg_cong [OF conjunct1 [OF assms(2) [of password], unfolded starts_with_def], of "take 2"] by (simp add: min_def)
      ultimately show False by simp
    qed
    then show ?thesis using assms(2) [of password] by (simp add: detect_algorithm_def)
  qed
  show ?thesis
    using assms(1) [of password] assms(2) [of password] v d b
    by (auto simp: verify_password_def hash_password_def detect_algorithm_def [of "pw_argon2_hash e password"])
qed

theorem password_roundtrip_witness:
  "verify_password \<lparr>pw_algorithm = ''bcrypt'', pw_has_argon2 = False, pw_has_bcrypt = False,
      pw_argon2_hash = (\<lambda>p. ''$argon2'' @ p), pw_argon2_verify = (\<lambda>p s. Some (s = ''$argon2'' @ p)),
      pw_bcrypt_hash = (\<lambda>p. ''$2b$'' @ p), pw_bcrypt_verify = (\<lambda>p s. Some (s = ''$2b$'' @ p)), pw_sha256 = rev\<rparr>
     ''secret'' (''ab:'' @ rev ''absecret'')"
proof -
  let ?e = "\<lparr>pw_algorithm = ''bcrypt'', pw_has_argon2 = False, pw_has_bcrypt = False,
      pw_argon2_hash = (\<lambda>p. ''$argon2'' @ p), pw_argon2_verify = (\<lambda>p s. Some (s = ''$argon2'' @ p)),
      pw_bcrypt_hash = (\<lambda>p. ''$2b$'' @ p), pw_bcrypt_verify = (\<lambda>p s. Some (s = ''$2b$'' @ p)), pw_sha256 = rev\<rparr>"
  have "hash_password ?e ''ab'' ''secret'' = ''ab:'' @ rev ''absecret''"
    by (simp add: hash_password_def resolve_algorithm_def hash_sha256_def)
  moreover have "verify_password ?e ''secret'' (hash_password ?e ''ab'' ''secret'')"
    by (rule password_roundtrip) (simp_all add: starts_with_def)
  ultimately show ?thesis by simp
qed

end
