(* ===== verification/Scoped_Store.thy ===== *)
theory Scoped_Store
  imports Py_Values
begin

text \<open>
  The persistence wrapper handed to domain packs, \<^verbatim>\<open>persistence/scoped.py\<close>. A call on the wrapper is a
  constructor; the wrapped adapter is an argument, a function from the method it is asked to run to a result
  and a new state. A call of the wrapper is the sequence of inner calls the code makes.
\<close>

section \<open>The wrapped adapter\<close>

record inner_op =
  io_name :: string
  io_args :: "pyval list"
  io_kwargs :: pydict

type_synonym 's inner = "inner_op \<Rightarrow> 's \<Rightarrow> (py_exn + pyval) \<times> 's"

datatype scoped_error = PermissionError | InnerRaise py_exn | WrapperRaise py_exn

type_synonym 's action = "'s \<Rightarrow> (scoped_error + pyval) \<times> 's"

definition ret :: "pyval \<Rightarrow> 's action" where
  "ret v s = (Inr v, s)"

definition raise_err :: "scoped_error \<Rightarrow> 's action" where
  "raise_err e s = (Inl e, s)"

definition seq :: "'s action \<Rightarrow> (pyval \<Rightarrow> 's action) \<Rightarrow> 's action" where
  "seq m f s = (case m s of (Inl e, s') \<Rightarrow> (Inl e, s') | (Inr v, s') \<Rightarrow> f v s')"

definition ask :: "'s inner \<Rightarrow> string \<Rightarrow> pyval list \<Rightarrow> pydict \<Rightarrow> 's action" where
  "ask inner name args kwargs s = (case inner \<lparr>io_name = name, io_args = args, io_kwargs = kwargs\<rparr> s of
      (Inl e, s') \<Rightarrow> (Inl (InnerRaise e), s') | (Inr v, s') \<Rightarrow> (Inr v, s'))"

section \<open>The wrapper\<close>

definition blocked_system_methods :: "string list" where
  "blocked_system_methods =
     [''create_user'', ''update_user_role'', ''activate_user'', ''deactivate_user'', ''update_user_password'',
      ''update_user_operating_memberships'', ''set_user_invite_token'', ''clear_user_invite_token'', ''list_users'',
      ''set_user_consent'', ''append_system_log_record'', ''get_system_log_ledger_path'',
      ''has_system_physics_commitment'', ''get_system_ledger_path'']"

text \<open>The methods passed through unchanged.\<close>

definition delegated_methods :: "string list" where
  "delegated_methods =
     [''load_domain_physics'', ''load_subject_profile'', ''save_subject_profile'', ''load_profile'', ''save_profile'',
      ''list_profiles'', ''delete_profile'', ''load_module_state'', ''save_module_state'', ''list_module_states'',
      ''delete_module_state'', ''load_session_state'', ''save_session_state'', ''list_log_session_ids'',
      ''validate_log_chain'', ''has_policy_commitment'', ''list_log_sessions_summary'', ''query_commitments'']"

record scoped_adapter =
  sa_domain :: string
  sa_module :: "string option"

datatype scoped_call =
    AppendLogRecord string pydict "string option"
  | AppendDomainLogRecord string pydict
  | AppendModuleLogRecord string pydict "string option"
  | AppendSystemLogRecord pydict
  | GetDomainLedgerPath "string option"
  | GetModuleLedgerPath "string option" "string option"
  | GetLogLedgerPath string "string option"
  | QueryLogRecords pydict
  | GetUser string
  | GetUserByUsername string
  | GetUserConsent string
  | UpdateUserGovernedModules string "string list option" "string list option"
  | UpdateUserDomainRoles string "(string \<times> string) list"
  | QueryEscalations pydict
  | Delegated string "pyval list"

text \<open>\<open>_strip_password_hash\<close>: only a record has items.\<close>

definition strip_password_hash :: "pyval \<Rightarrow> 's action" where
  "strip_password_hash v = (if v = PNone then ret PNone
     else case py_items v of
       Inl e \<Rightarrow> raise_err (WrapperRaise e)
     | Inr d \<Rightarrow> ret (PDict (filter (\<lambda>(k, w). k \<noteq> ''password_hash'') d)))"

definition is_in_scope :: "scoped_adapter \<Rightarrow> string \<Rightarrow> bool" where
  "is_in_scope a m \<longleftrightarrow> m = sa_domain a \<or> starts_with (sa_domain a @ ''/'') m \<or> CHR ''/'' \<notin> set m"

definition opt_or :: "string option \<Rightarrow> string \<Rightarrow> string" where
  "opt_or x d = (case x of None \<Rightarrow> d | Some s \<Rightarrow> if s = [] then d else s)"

definition opt_val :: "string option \<Rightarrow> pyval" where
  "opt_val x = (case x of None \<Rightarrow> PNone | Some s \<Rightarrow> PStr s)"

definition set_default :: "string \<Rightarrow> pyval \<Rightarrow> pydict \<Rightarrow> pydict" where
  "set_default k v d = (if dhas d k then d else dput k v d)"

definition opt_list :: "string list option \<Rightarrow> string list" where
  "opt_list x = (case x of None \<Rightarrow> [] | Some xs \<Rightarrow> xs)"

definition list_kwarg :: "string \<Rightarrow> string list option \<Rightarrow> pydict" where
  "list_kwarg k x = (case x of None \<Rightarrow> [] | Some xs \<Rightarrow> [(k, PList (map PStr xs))])"

definition append_to :: "'s inner \<Rightarrow> string \<Rightarrow> pydict \<Rightarrow> pyval \<Rightarrow> 's action" where
  "append_to inner session r path =
     seq (ask inner ''append_log_record'' [PStr session, PDict r] [(''ledger_path'', path)]) (\<lambda>_. ret PNone)"

fun scoped_run :: "'s inner \<Rightarrow> scoped_adapter \<Rightarrow> scoped_call \<Rightarrow> 's action" where
  "scoped_run inner a (AppendLogRecord session r path) =
     (case path of
        Some p \<Rightarrow> append_to inner session r (PStr p)
      | None \<Rightarrow> seq (ask inner ''get_domain_ledger_path'' [PStr (sa_domain a)] []) (append_to inner session r))"
| "scoped_run inner a (AppendDomainLogRecord session r) =
     seq (ask inner ''get_domain_ledger_path'' [PStr (sa_domain a)] []) (append_to inner session r)"
| "scoped_run inner a (AppendModuleLogRecord session r m) =
     (let mid = (case m of Some x \<Rightarrow> if x = [] then sa_module a else Some x | None \<Rightarrow> sa_module a)
      in case mid of
        None \<Rightarrow> raise_err (WrapperRaise ValueError)
      | Some x \<Rightarrow> seq (ask inner ''get_module_ledger_path'' [PStr (sa_domain a), PStr x] []) (append_to inner session r))"
| "scoped_run inner a (AppendSystemLogRecord r) = raise_err PermissionError"
| "scoped_run inner a (GetDomainLedgerPath d) = ask inner ''get_domain_ledger_path'' [PStr (opt_or d (sa_domain a))] []"
| "scoped_run inner a (GetModuleLedgerPath d m) =
     ask inner ''get_module_ledger_path'' [PStr (opt_or d (sa_domain a)), PStr (opt_or m (opt_or (sa_module a) ''''))] []"
| "scoped_run inner a (GetLogLedgerPath session d) =
     ask inner ''get_log_ledger_path'' [PStr session] [(''domain_id'', opt_val d)]"
| "scoped_run inner a (QueryLogRecords kw) =
     ask inner ''query_log_records'' [] (set_default ''domain_id'' (PStr (sa_domain a)) kw)"
| "scoped_run inner a (GetUser u) = seq (ask inner ''get_user'' [PStr u] []) strip_password_hash"
| "scoped_run inner a (GetUserByUsername u) = seq (ask inner ''get_user_by_username'' [PStr u] []) strip_password_hash"
| "scoped_run inner a (GetUserConsent u) = ask inner ''get_user_consent'' [PStr u] []"
| "scoped_run inner a (UpdateUserGovernedModules u add rem) =
     (if list_ex (\<lambda>m. \<not> is_in_scope a m) (opt_list add @ opt_list rem) then raise_err PermissionError
      else ask inner ''update_user_governed_modules'' [PStr u] (list_kwarg ''add'' add @ list_kwarg ''remove'' rem))"
| "scoped_run inner a (UpdateUserDomainRoles u roles) =
     (if list_ex (\<lambda>(k, r). \<not> is_in_scope a k) roles then raise_err PermissionError
      else ask inner ''update_user_domain_roles'' [PStr u, PDict (map (\<lambda>(k, r). (k, PStr r)) roles)] [])"
| "scoped_run inner a (QueryEscalations kw) =
     ask inner ''query_escalations'' [] (set_default ''domain_id'' (PStr (sa_domain a)) kw)"
| "scoped_run inner a (Delegated name args) =
     (if name \<in> set delegated_methods then ask inner name args []
      else if name \<in> set blocked_system_methods then raise_err PermissionError
      else raise_err (WrapperRaise AttributeError))"

section \<open>Facts\<close>

text \<open>The wrapped adapter with a record of what it was asked.\<close>

definition traced :: "'s inner \<Rightarrow> ('s \<times> inner_op list) inner" where
  "traced inner op = (\<lambda>(s, tr). let (r, s') = inner op s in (r, (s', tr @ [op])))"

definition asked :: "'s inner \<Rightarrow> scoped_adapter \<Rightarrow> scoped_call \<Rightarrow> 's \<Rightarrow> inner_op list" where
  "asked inner a c s = snd (snd (scoped_run (traced inner) a c (s, [])))"

lemma ask_traced:
  "ask (traced inner) name args kwargs (s, tr) =
     (let (r, s') = ask inner name args kwargs s in (r, (s', tr @ [\<lparr>io_name = name, io_args = args, io_kwargs = kwargs\<rparr>])))"
  by (simp add: ask_def traced_def split: prod.split sum.split)

text \<open>The identifiers a user mutation names.\<close>

definition mutated_ids :: "inner_op \<Rightarrow> pyval set" where
  "mutated_ids op =
     (if io_name op = ''update_user_governed_modules''
      then {v. \<exists>k xs. (k, PList xs) \<in> set (io_kwargs op) \<and> v \<in> set xs}
      else if io_name op = ''update_user_domain_roles''
      then {PStr k | k. \<exists>d. PDict d \<in> set (io_args op) \<and> k \<in> set (dkeys d)}
      else {})"

definition safe_op :: "scoped_adapter \<Rightarrow> inner_op \<Rightarrow> bool" where
  "safe_op a op \<longleftrightarrow> io_name op \<notin> set blocked_system_methods \<and> (\<forall>k. PStr k \<in> mutated_ids op \<longrightarrow> is_in_scope a k)"

lemma safe_plain:
  "name \<notin> set blocked_system_methods \<Longrightarrow> name \<noteq> ''update_user_governed_modules'' \<Longrightarrow> name \<noteq> ''update_user_domain_roles''
     \<Longrightarrow> safe_op a \<lparr>io_name = name, io_args = args, io_kwargs = kw\<rparr>"
  by (simp add: safe_op_def mutated_ids_def)

lemma safe_names [simp]:
  "safe_op a \<lparr>io_name = ''append_log_record'', io_args = args, io_kwargs = kw\<rparr>"
  "safe_op a \<lparr>io_name = ''get_domain_ledger_path'', io_args = args, io_kwargs = kw\<rparr>"
  "safe_op a \<lparr>io_name = ''get_module_ledger_path'', io_args = args, io_kwargs = kw\<rparr>"
  "safe_op a \<lparr>io_name = ''get_log_ledger_path'', io_args = args, io_kwargs = kw\<rparr>"
  "safe_op a \<lparr>io_name = ''query_log_records'', io_args = args, io_kwargs = kw\<rparr>"
  "safe_op a \<lparr>io_name = ''query_escalations'', io_args = args, io_kwargs = kw\<rparr>"
  "safe_op a \<lparr>io_name = ''get_user'', io_args = args, io_kwargs = kw\<rparr>"
  "safe_op a \<lparr>io_name = ''get_user_by_username'', io_args = args, io_kwargs = kw\<rparr>"
  "safe_op a \<lparr>io_name = ''get_user_consent'', io_args = args, io_kwargs = kw\<rparr>"
  by (rule safe_plain; simp add: blocked_system_methods_def)+

lemma safe_delegated: "name \<in> set delegated_methods \<Longrightarrow> safe_op a \<lparr>io_name = name, io_args = args, io_kwargs = kw\<rparr>"
  by (rule safe_plain) (auto simp: delegated_methods_def blocked_system_methods_def)

lemma seq_asked:
  assumes "\<forall>op \<in> set (snd (snd (m st))). P op"
    and "\<And>v s tr. \<forall>op \<in> set tr. P op \<Longrightarrow> \<forall>op \<in> set (snd (snd (f v (s, tr)))). P op"
  shows "\<forall>op \<in> set (snd (snd (seq m f st))). P op"
proof -
  obtain r s' tr where m: "m st = (r, (s', tr))" by (metis surj_pair)
  show ?thesis using assms(1) assms(2) [of tr] by (cases r) (simp_all add: seq_def m)
qed

lemma ask_asked:
  "\<forall>op \<in> set tr. P op \<Longrightarrow> P \<lparr>io_name = name, io_args = args, io_kwargs = kw\<rparr> \<Longrightarrow>
     \<forall>op \<in> set (snd (snd (ask (traced inner) name args kw (s, tr)))). P op"
  by (simp add: ask_traced split: prod.split)

lemma append_asked:
  "\<forall>op \<in> set tr. safe_op a op \<Longrightarrow> \<forall>op \<in> set (snd (snd (append_to (traced inner) session r p (s, tr)))). safe_op a op"
  unfolding append_to_def by (intro seq_asked ask_asked) (simp_all add: ret_def)

lemma strip_asked:
  "\<forall>op \<in> set tr. P op \<Longrightarrow> \<forall>op \<in> set (snd (snd (strip_password_hash v (s, tr)))). P op"
  by (simp add: strip_password_hash_def ret_def raise_err_def split: sum.split)

lemma governed_safe:
  assumes "\<not> list_ex (\<lambda>m. \<not> is_in_scope a m) (opt_list add @ opt_list rem)"
  shows "safe_op a \<lparr>io_name = ''update_user_governed_modules'', io_args = [PStr u],
      io_kwargs = list_kwarg ''add'' add @ list_kwarg ''remove'' rem\<rparr>"
  using assms
  by (auto simp: safe_op_def mutated_ids_def blocked_system_methods_def list_ex_iff list_kwarg_def opt_list_def
      split: option.splits)

lemma roles_safe:
  assumes "\<not> list_ex (\<lambda>(k, r). \<not> is_in_scope a k) roles"
  shows "safe_op a \<lparr>io_name = ''update_user_domain_roles'', io_args = [PStr u, PDict (map (\<lambda>(k, r). (k, PStr r)) roles)],
      io_kwargs = []\<rparr>"
  using assms
  by (auto simp: safe_op_def mutated_ids_def blocked_system_methods_def list_ex_iff dkeys_def)

section \<open>Properties\<close>

text \<open>C18: whatever a domain pack calls, the wrapped adapter is never asked to run a system method, and the
  governed modules and domain roles it is asked to change all belong to the pack's domain or are plain names.\<close>

theorem scoped_calls_isolated:
  "\<forall>op \<in> set (asked inner a c s). io_name op \<notin> set blocked_system_methods
     \<and> (\<forall>k. PStr k \<in> mutated_ids op \<longrightarrow> k = sa_domain a \<or> starts_with (sa_domain a @ ''/'') k \<or> CHR ''/'' \<notin> set k)"
proof -
  have "\<forall>op \<in> set (asked inner a c s). safe_op a op"
    unfolding asked_def
  proof (cases c)
    case (AppendLogRecord x1 x2 x3)
    then show "\<forall>op\<in>set (snd (snd (scoped_run (traced inner) a c (s, [])))). safe_op a op"
      by (cases x3) (simp; intro seq_asked ask_asked append_asked; simp)+
  next
    case (AppendModuleLogRecord x1 x2 x3)
    then show "\<forall>op\<in>set (snd (snd (scoped_run (traced inner) a c (s, [])))). safe_op a op"
      by (simp add: Let_def raise_err_def split: option.split) (intro allI impI conjI seq_asked ask_asked append_asked; simp)
  next
    case (UpdateUserGovernedModules x1 x2 x3)
    then show "\<forall>op\<in>set (snd (snd (scoped_run (traced inner) a c (s, [])))). safe_op a op"
      by (simp add: raise_err_def del: list_ex_append) (intro impI ask_asked governed_safe; simp)
  next
    case (UpdateUserDomainRoles x1 x2)
    then show "\<forall>op\<in>set (snd (snd (scoped_run (traced inner) a c (s, [])))). safe_op a op"
      by (simp add: raise_err_def) (intro impI ask_asked roles_safe; simp)
  next
    case (Delegated x1 x2)
    then show "\<forall>op\<in>set (snd (snd (scoped_run (traced inner) a c (s, [])))). safe_op a op"
      by (simp add: raise_err_def) (intro impI ask_asked safe_delegated; simp)
  qed (simp add: raise_err_def; (intro seq_asked ask_asked append_asked strip_asked)?; simp)+
  then show ?thesis unfolding safe_op_def is_in_scope_def by blast
qed

theorem scoped_calls_isolated_witness:
  "asked (\<lambda>op s. (Inr PNone, s)) \<lparr>sa_domain = ''education'', sa_module = None\<rparr> (Delegated ''create_user'' []) () = []
   \<and> \<not> starts_with ''education/'' ''health/m1''"
proof -
  have "asked (\<lambda>op s. (Inr PNone, s)) \<lparr>sa_domain = ''education'', sa_module = None\<rparr> (Delegated ''create_user'' []) () = []"
    by (simp add: asked_def delegated_methods_def blocked_system_methods_def raise_err_def)
  moreover have "\<forall>op \<in> set (asked (\<lambda>op s. (Inr PNone, s)) \<lparr>sa_domain = ''education'', sa_module = None\<rparr>
      (UpdateUserDomainRoles ''u'' [(''algebra'', ''ta'')]) ()). io_name op \<notin> set blocked_system_methods"
    by (rule ballI, rule conjunct1, rule bspec [OF scoped_calls_isolated])
  ultimately show ?thesis by (simp add: starts_with_def)
qed

text \<open>A pack that reads a user, by id or by name, never sees a password hash, whatever the store returns.\<close>

theorem scoped_user_reads_without_hash:
  assumes "fst (scoped_run inner a c s) = Inr (PDict d)" "c = GetUser u \<or> c = GetUserByUsername u"
  shows "\<not> dhas d ''password_hash''"
  using assms
  by (auto simp: seq_def strip_password_hash_def ret_def raise_err_def dhas_def dkeys_def
      split: prod.splits sum.splits if_splits)

theorem scoped_user_reads_without_hash_witness:
  "fst (scoped_run (\<lambda>op s. (Inr (PDict [(''name'', PStr ''bob''), (''password_hash'', PStr ''x'')]), s))
      \<lparr>sa_domain = ''education'', sa_module = None\<rparr> (GetUser ''u'') ()) = Inr (PDict [(''name'', PStr ''bob'')])
   \<and> \<not> dhas [(''name'', PStr ''bob'')] ''password_hash''"
proof -
  have r: "fst (scoped_run (\<lambda>op s. (Inr (PDict [(''name'', PStr ''bob''), (''password_hash'', PStr ''x'')]), s))
      \<lparr>sa_domain = ''education'', sa_module = None\<rparr> (GetUser ''u'') ()) = Inr (PDict [(''name'', PStr ''bob'')])"
    by (simp add: seq_def ask_def strip_password_hash_def ret_def)
  with scoped_user_reads_without_hash [OF r] show ?thesis by blast
qed

end
