(* ===== verification/Load_Estimator.thy ===== *)
theory Load_Estimator
  imports Py_Values
begin

text \<open>
  The load score of the resource monitor and its telemetry window, \<^verbatim>\<open>daemon/load_estimator.py\<close>. The three probes
  are arguments: what each reads, \<open>None\<close> where it answers nothing or raises. Scores are exact rationals.
\<close>

section \<open>Snapshots and the telemetry window\<close>

record snapshot =
  sn_timestamp :: rat
  sn_latency :: "rat option"
  sn_inflight :: "rat option"
  sn_gpu :: "rat option"
  sn_score :: rat
  sn_idle :: bool

definition ewma_alpha :: rat where "ewma_alpha = 3 / 10"

record window =
  tw_buf :: "snapshot list"
  tw_maxlen :: nat
  tw_ewma :: rat
  tw_primed :: bool

definition new_window :: "int \<Rightarrow> window" where
  "new_window max_depth = \<lparr>tw_buf = [], tw_maxlen = nat (max max_depth 2), tw_ewma = 0, tw_primed = False\<rparr>"

definition window_push :: "snapshot \<Rightarrow> window \<Rightarrow> window" where
  "window_push s w = w\<lparr>tw_buf := last_n (tw_maxlen w) (tw_buf w @ [s]),
     tw_ewma := (if tw_primed w then ewma_alpha * sn_score s + (1 - ewma_alpha) * tw_ewma w else sn_score s),
     tw_primed := True\<rparr>"

definition window_clear :: "window \<Rightarrow> window" where
  "window_clear w = w\<lparr>tw_buf := [], tw_ewma := 0, tw_primed := False\<rparr>"

interpretation telemetry: bounded_buffer tw_buf window_push tw_maxlen
  by unfold_locales (simp_all add: window_push_def)

section \<open>Curve summaries\<close>

definition mean :: "rat list \<Rightarrow> rat" where
  "mean xs = sum_list xs / of_nat (length xs)"

definition classify_trajectory :: "rat list \<Rightarrow> string" where
  "classify_trajectory scores =
     (if length scores < 2 then ''stable''
      else let mid = length scores div 2;
               diff = mean (drop mid scores) - mean (take mid scores);
               new = last scores; prev = scores ! (length scores - 2)
        in if 3 \<le> length scores \<and> new > mean scores + 3 / 10 \<and> new - prev > 1 / 5 then ''spiking''
           else if 3 \<le> length scores \<and> new < mean scores - 3 / 10 \<and> prev - new > 1 / 5 then ''cliff_drop''
           else if \<bar>diff\<bar> < 1 / 20 then ''stable''
           else if diff > 0 then ''rising'' else ''falling'')"

definition compute_delta_pct :: "rat list \<Rightarrow> rat" where
  "compute_delta_pct scores =
     (if length scores < 2 then 0
      else let old = hd scores; new = last scores
        in if old = 0 then (if new = 0 then 0 else 100) else (new - old) / old * 100)"

definition classify_curve :: "rat list \<Rightarrow> string" where
  "classify_curve scores =
     (if length scores < 3 then ''linear''
      else let mid = length scores div 2;
               first_delta = \<bar>scores ! mid - hd scores\<bar>; second_delta = \<bar>last scores - scores ! mid\<bar>
        in if first_delta < 1 / 100 \<and> second_delta < 1 / 100 then ''plateau''
           else if second_delta > first_delta * (3 / 2) then ''exponential''
           else if second_delta < first_delta * (1 / 2) then ''plateau''
           else ''linear'')"

definition trajectory_codes :: "(string, rat) dict" where
  "trajectory_codes = [(''rising'', 1), (''falling'', -1), (''stable'', 0), (''spiking'', 2), (''cliff_drop'', -2)]"

definition window_summary :: "window \<Rightarrow> pydict \<times> rat list" where
  "window_summary w =
     (let scores = map sn_score (tw_buf w) in
      if scores = [] then ([(''load_trajectory'', PStr ''stable''), (''samples'', PInt 0)], [0, 0, 0, 0, 0, 0])
      else let trajectory = classify_trajectory scores; delta = compute_delta_pct scores;
               num = (\<lambda>n q. PFloat (Fin (py_round n q)))
        in ([(''load_trajectory'', PStr trajectory), (''load_delta_pct'', num 1 delta), (''curve'', PStr (classify_curve scores)),
             (''baseline'', num 3 (mean scores)), (''current'', num 3 (last scores)), (''peak'', num 3 (Max (set scores))),
             (''trough'', num 3 (Min (set scores))), (''ewma'', num 3 (tw_ewma w)), (''samples'', PInt (int (length scores)))],
            map (py_round 4) [last scores, delta, mean scores, Max (set scores), Min (set scores)]
              @ [dget_or trajectory_codes trajectory 0]))"

section \<open>The estimator\<close>

record estimator =
  le_weights :: "(string, rat) dict"
  le_idle_threshold :: rat
  le_window :: window

definition default_weights :: "(string, rat) dict" where
  "default_weights = [(''loop_latency'', 1 / 2), (''http_queue'', 3 / 10), (''gpu'', 1 / 5)]"

text \<open>\<open>weights or DEFAULT_WEIGHTS\<close>: an empty mapping is replaced too.\<close>

definition new_estimator :: "(string, rat) dict option \<Rightarrow> rat \<Rightarrow> int \<Rightarrow> estimator" where
  "new_estimator weights threshold depth =
     \<lparr>le_weights = (case weights of Some w \<Rightarrow> if w = [] then default_weights else w | None \<Rightarrow> default_weights),
      le_idle_threshold = threshold, le_window = new_window depth\<rparr>"

type_synonym raw_loads = "(string, rat option) dict"

fun score_sums :: "(string, rat) dict \<Rightarrow> raw_loads \<Rightarrow> rat \<times> rat" where
  "score_sums [] raw = (0, 0)"
| "score_sums ((probe, weight) # ws) raw =
     (let (active, weighted) = score_sums ws raw
      in case dget raw probe of Some (Some v) \<Rightarrow> (weight + active, weight * v + weighted) | _ \<Rightarrow> (active, weighted))"

definition compute_score :: "(string, rat) dict \<Rightarrow> raw_loads \<Rightarrow> rat" where
  "compute_score weights raw =
     (let (active, weighted) = score_sums weights raw in if active \<le> 0 then 0 else weighted / active)"

definition raw_of_probes :: "rat option \<Rightarrow> rat option \<Rightarrow> rat option \<Rightarrow> raw_loads" where
  "raw_of_probes latency inflight gpu =
     [(''loop_latency'', map_option (\<lambda>x. min (x / 50) 1) latency),
      (''http_queue'', map_option (\<lambda>x. min (x / 20) 1) inflight),
      (''gpu'', map_option (\<lambda>x. min (x / 100) 1) gpu)]"

definition sample :: "rat \<Rightarrow> rat option \<Rightarrow> rat option \<Rightarrow> rat option \<Rightarrow> estimator \<Rightarrow> snapshot \<times> estimator" where
  "sample now latency inflight gpu e =
     (let score = compute_score (le_weights e) (raw_of_probes latency inflight gpu);
          s = \<lparr>sn_timestamp = now, sn_latency = latency, sn_inflight = inflight, sn_gpu = gpu,
               sn_score = score, sn_idle = score < le_idle_threshold e\<rparr>
      in (s, e\<lparr>le_window := window_push s (le_window e)\<rparr>))"

text \<open>Reloading the configuration: a depth other than the window's capacity starts a new window.\<close>

definition configure :: "(string, rat) dict option \<Rightarrow> rat option \<Rightarrow> int option \<Rightarrow> estimator \<Rightarrow> estimator" where
  "configure weights threshold depth e =
     (let e1 = (case weights of Some w \<Rightarrow> e\<lparr>le_weights := w\<rparr> | None \<Rightarrow> e);
          e2 = (case threshold of Some t \<Rightarrow> e1\<lparr>le_idle_threshold := t\<rparr> | None \<Rightarrow> e1)
      in case depth of
           Some d \<Rightarrow> if d \<noteq> int (tw_maxlen (le_window e2)) then e2\<lparr>le_window := new_window d\<rparr> else e2
         | None \<Rightarrow> e2)"

section \<open>Facts\<close>

text \<open>The probes that answered, with their weights.\<close>

definition active_probes :: "(string, rat) dict \<Rightarrow> raw_loads \<Rightarrow> (rat \<times> rat) list" where
  "active_probes weights raw =
     concat (map (\<lambda>(p, w). case dget raw p of Some (Some v) \<Rightarrow> [(w, v)] | _ \<Rightarrow> []) weights)"

lemma active_probes_simps [simp]:
  "active_probes [] raw = []"
  "active_probes ((p, w) # ws) raw =
     (case dget raw p of Some (Some v) \<Rightarrow> (w, v) # active_probes ws raw | _ \<Rightarrow> active_probes ws raw)"
  by (auto simp: active_probes_def split: option.splits)

lemma score_sums_active:
  "score_sums weights raw =
     (sum_list (map fst (active_probes weights raw)), sum_list (map (\<lambda>(w, v). w * v) (active_probes weights raw)))"
  by (induction weights raw rule: score_sums.induct) (auto simp: Let_def split: option.splits)

lemma weighted_mean_bounds:
  fixes ps :: "(rat \<times> rat) list"
  assumes "\<And>w v. (w, v) \<in> set ps \<Longrightarrow> 0 \<le> w \<and> lo \<le> v \<and> v \<le> hi"
  shows "lo * sum_list (map fst ps) \<le> sum_list (map (\<lambda>(w, v). w * v) ps)
    \<and> sum_list (map (\<lambda>(w, v). w * v) ps) \<le> hi * sum_list (map fst ps)"
  using assms
proof (induction ps)
  case (Cons p ps)
  obtain w v where p: "p = (w, v)" by (cases p)
  have "0 \<le> w" "lo \<le> v" "v \<le> hi" using Cons.prems [of w v] by (auto simp: p)
  then have "lo * w \<le> w * v" "w * v \<le> hi * w"
    by (metis mult.commute mult_right_mono)+
  with Cons show ?case by (auto simp: p ring_distribs intro: add_mono)
qed simp

lemma compute_score_bounds:
  assumes "\<And>w v. (w, v) \<in> set (active_probes weights raw) \<Longrightarrow> 0 \<le> w \<and> lo \<le> v \<and> v \<le> hi" "lo \<le> 0" "0 \<le> hi"
  shows "lo \<le> compute_score weights raw \<and> compute_score weights raw \<le> hi"
  using weighted_mean_bounds [OF assms(1)] assms(2,3)
  by (auto simp: compute_score_def score_sums_active divide_simps mult.commute)

lemma raw_of_probes_get:
  "dget (raw_of_probes latency inflight gpu) p = Some (Some v) \<Longrightarrow>
     \<exists>x c. 0 < c \<and> v = min (x / c) 1 \<and> x \<in> set_option latency \<union> set_option inflight \<union> set_option gpu"
  unfolding raw_of_probes_def
  apply (simp split: if_split_asm)
    apply (metis option.set_intros UnI1 zero_less_numeral)+
  done

lemma raw_in_unit:
  assumes "(w, v) \<in> set (active_probes weights (raw_of_probes latency inflight gpu))"
    and "\<And>x. x \<in> set_option latency \<union> set_option inflight \<union> set_option gpu \<Longrightarrow> 0 \<le> x"
  shows "0 \<le> v \<and> v \<le> 1"
proof -
  obtain p where "dget (raw_of_probes latency inflight gpu) p = Some (Some v)"
    using assms(1) by (auto simp: active_probes_def split: option.splits)
  from raw_of_probes_get [OF this] obtain x c where "0 < c" "v = min (x / c) 1" "0 \<le> x"
    using assms(2) by blast
  then show ?thesis by simp
qed

text \<open>The smoothed score stays between any bounds of the scores it has seen.\<close>

lemma ewma_step: "lo \<le> a \<Longrightarrow> a \<le> hi \<Longrightarrow> lo \<le> b \<Longrightarrow> b \<le> hi \<Longrightarrow>
    lo \<le> ewma_alpha * a + (1 - ewma_alpha) * b \<and> ewma_alpha * a + (1 - ewma_alpha) * b \<le> hi"
  by (simp add: ewma_alpha_def)

lemma ewma_bounds:
  assumes "\<forall>s \<in> set ss. lo \<le> sn_score s \<and> sn_score s \<le> hi"
    and "tw_primed w \<longrightarrow> lo \<le> tw_ewma w \<and> tw_ewma w \<le> hi" "ss \<noteq> [] \<or> tw_primed w"
  shows "lo \<le> tw_ewma (fold window_push ss w) \<and> tw_ewma (fold window_push ss w) \<le> hi"
  using assms
proof (induction ss arbitrary: w)
  case (Cons s ss)
  have "tw_primed (window_push s w)" by (simp add: window_push_def)
  moreover have "lo \<le> tw_ewma (window_push s w) \<and> tw_ewma (window_push s w) \<le> hi"
    using Cons.prems by (auto simp: window_push_def ewma_step)
  ultimately show ?case using Cons by simp
qed simp

section \<open>Properties\<close>

text \<open>C40: with weights and probe readings that are not negative, every load score lies between zero and one,
  whichever probes fail; a failed probe counts as if it had no weight, so the score is the one of the remaining
  probes alone.\<close>

theorem load_score_bounded:
  assumes "\<forall>(p, w) \<in> set (le_weights e). 0 \<le> w"
    and "\<forall>x \<in> set_option latency \<union> set_option inflight \<union> set_option gpu. 0 \<le> x"
  defines "raw \<equiv> raw_of_probes latency inflight gpu"
  shows "0 \<le> sn_score (fst (sample now latency inflight gpu e)) \<and> sn_score (fst (sample now latency inflight gpu e)) \<le> 1
    \<and> sn_score (fst (sample now latency inflight gpu e)) =
        compute_score (filter (\<lambda>(p, w). \<exists>v. dget raw p = Some (Some v)) (le_weights e)) raw"
proof -
  have "0 \<le> w \<and> 0 \<le> v \<and> v \<le> 1" if "(w, v) \<in> set (active_probes (le_weights e) raw)" for w v
    using that raw_in_unit [OF that [unfolded raw_def]] assms(1,2)
    by (auto simp: active_probes_def raw_def split: option.splits)
  then have b: "0 \<le> compute_score (le_weights e) raw \<and> compute_score (le_weights e) raw \<le> 1"
    by (intro compute_score_bounds) auto
  have "active_probes (filter (\<lambda>(p, w). \<exists>v. dget raw p = Some (Some v)) ws) raw = active_probes ws raw" for ws
    by (induction ws) (auto split: option.splits)
  then show ?thesis using b by (simp add: sample_def Let_def compute_score_def score_sums_active raw_def)
qed

theorem load_score_bounded_witness:
  "0 \<le> sn_score (fst (sample 0 (Some 100) None (Some 30) (new_estimator None (1 / 5) 20)))
   \<and> sn_score (fst (sample 0 (Some 100) None (Some 30) (new_estimator None (1 / 5) 20))) \<le> 1"
  using load_score_bounded [of "new_estimator None (1 / 5) 20" "Some 100" None "Some 30" 0]
  by (simp add: new_estimator_def default_weights_def)

text \<open>The telemetry window is bounded: after any samples it holds the most recent ones, at most its depth and
  never fewer than the two the curve needs, and the smoothed load stays between the extremes of the scores ever
  pushed, however many have left the window.\<close>

theorem telemetry_window_bounded:
  fixes depth :: int
  assumes "ss \<noteq> []"
  defines "w \<equiv> fold window_push ss (new_window depth)"
  shows "tw_buf w = last_n (nat (max depth 2)) ss \<and> length (tw_buf w) \<le> nat (max depth 2)
    \<and> min 2 (length ss) \<le> length (tw_buf w)
    \<and> Min (sn_score ` set ss) \<le> tw_ewma w \<and> tw_ewma w \<le> Max (sn_score ` set ss)"
proof -
  have cap: "tw_maxlen (new_window depth) = nat (max depth 2)" "tw_buf (new_window depth) = []" by (simp_all add: new_window_def)
  have b: "tw_buf w = last_n (nat (max depth 2)) ss"
    using telemetry.items_push_all [of "new_window depth" ss] by (simp add: w_def cap)
  have "Min (sn_score ` set ss) \<le> tw_ewma w \<and> tw_ewma w \<le> Max (sn_score ` set ss)"
    unfolding w_def by (rule ewma_bounds) (use assms in \<open>auto simp: new_window_def\<close>)
  then show ?thesis by (auto simp: b)
qed

theorem telemetry_window_bounded_witness:
  "length (tw_buf (fold window_push
     [\<lparr>sn_timestamp = 0, sn_latency = None, sn_inflight = None, sn_gpu = None, sn_score = 1 / 2, sn_idle = False\<rparr>] (new_window 0))) \<le> 2"
  using telemetry_window_bounded
    [of "[\<lparr>sn_timestamp = 0, sn_latency = None, sn_inflight = None, sn_gpu = None, sn_score = 1 / 2, sn_idle = False\<rparr>]" 0]
  by simp

end
