(* ===== verification/Daemon_Monitor.thy ===== *)
theory Daemon_Monitor
  imports Load_Estimator
begin

text \<open>
  The resource monitor daemon: preemption tokens (\<^verbatim>\<open>daemon/preemption.py\<close>), the task adapter
  (\<^verbatim>\<open>daemon/task_adapter.py\<close>) and the monitor (\<^verbatim>\<open>daemon/resource_monitor.py\<close>). Coroutines are interleaved at their
  await points: a step is one poll, one iteration of the running task's loop, a call from outside, or a part of \<open>stop\<close>
  between its awaits. The batch tasks and the domain loader are arguments; each reading of the clock is an argument of
  the step.
\<close>

section \<open>Preemption tokens\<close>

record token = tk_yield :: bool

datatype task_preempted = TaskPreempted

definition new_token :: token where "new_token = \<lparr>tk_yield = False\<rparr>"

definition request_yield :: "token \<Rightarrow> token" where "request_yield t = t\<lparr>tk_yield := True\<rparr>"

definition reset_token :: "token \<Rightarrow> token" where "reset_token t = t\<lparr>tk_yield := False\<rparr>"

definition is_yield_requested :: "token \<Rightarrow> bool" where "is_yield_requested t = tk_yield t"

definition checkpoint :: "token \<Rightarrow> task_preempted + unit" where
  "checkpoint t = (if tk_yield t then Inl TaskPreempted else Inr ())"

section \<open>The task adapter\<close>

text \<open>What a batch task does on a domain: it returns a task result or something else, raises the preemption
  exception, or raises another one with a message.\<close>

datatype task_outcome = GotTaskResult pydict | GotOther | GotPreempted | GotError string

type_synonym task_fn = "pyval \<Rightarrow> pyval \<Rightarrow> task_outcome"

record task_report =
  tr_task :: string
  tr_results :: "pydict list"
  tr_preempted :: bool
  tr_completed :: nat
  tr_total :: nat
  tr_error :: "string option"

definition default_domains :: "pydict list" where
  "default_domains = [[(''domain_id'', PStr ''default''), (''physics'', PDict [])]]"

definition load_domains :: "pydict list res option \<Rightarrow> pydict list res" where
  "load_domains loader = (case loader of None \<Rightarrow> Inr default_domains
     | Some r \<Rightarrow> res_bind r (\<lambda>ds. Inr (if ds = [] then default_domains else ds)))"

text \<open>One domain: \<open>None\<close> where the task raises the preemption exception.\<close>

definition run_domain :: "string \<Rightarrow> task_fn \<Rightarrow> pydict \<Rightarrow> pydict option" where
  "run_domain name fn d =
     (let i = dget_or d ''domain_id'' (PStr ''unknown'') in
      case fn i (dget_or d ''physics'' (PDict [])) of
        GotTaskResult r \<Rightarrow> Some r
      | GotOther \<Rightarrow> Some [(''task'', PStr name), (''domain_id'', i), (''success'', PBool True)]
      | GotPreempted \<Rightarrow> None
      | GotError e \<Rightarrow> Some [(''task'', PStr name), (''domain_id'', i), (''success'', PBool False), (''error'', PStr e)])"

text \<open>The loop over the domains; \<open>tk i\<close> is the token as the \<open>i\<close>th checkpoint finds it.\<close>

fun domain_loop :: "string \<Rightarrow> task_fn \<Rightarrow> (nat \<Rightarrow> token) \<Rightarrow> nat \<Rightarrow> pydict list \<Rightarrow> pydict list \<Rightarrow> pydict list \<times> bool" where
  "domain_loop name fn tk i [] results = (results, False)"
| "domain_loop name fn tk i (d # ds) results =
     (case checkpoint (tk i) of
        Inl _ \<Rightarrow> (results, True)
      | Inr _ \<Rightarrow> (case run_domain name fn d of
          None \<Rightarrow> (results, True)
        | Some r \<Rightarrow> domain_loop name fn tk (Suc i) ds (results @ [r])))"

definition unknown_task :: "string \<Rightarrow> task_report" where
  "unknown_task name = \<lparr>tr_task = name, tr_results = [], tr_preempted = False, tr_completed = 0, tr_total = 0,
     tr_error = Some (''Unknown task: '' @ name)\<rparr>"

definition task_done :: "string \<Rightarrow> nat \<Rightarrow> pydict list \<times> bool \<Rightarrow> task_report" where
  "task_done name n r = \<lparr>tr_task = name, tr_results = fst r, tr_preempted = snd r, tr_completed = length (fst r),
     tr_total = n, tr_error = None\<rparr>"

definition run_task_preemptible ::
  "(string \<Rightarrow> task_fn option) \<Rightarrow> pydict list res option \<Rightarrow> string \<Rightarrow> (nat \<Rightarrow> token) \<Rightarrow> task_report res" where
  "run_task_preemptible lookup loader name tk = (case lookup name of
      None \<Rightarrow> Inr (unknown_task name)
    | Some fn \<Rightarrow> res_bind (load_domains loader) (\<lambda>ds.
        Inr (task_done name (length ds) (domain_loop name fn tk 0 ds []))))"

text \<open>A cross-domain task gets all domains at once; there is one checkpoint, before it starts.\<close>

datatype cross_outcome = CrossTaskResult pydict | CrossOther pyval | CrossPreempted | CrossError string

definition cross_report :: "string \<Rightarrow> pyval list \<Rightarrow> bool \<Rightarrow> string option \<Rightarrow> pydict" where
  "cross_report name results preempted err =
     [(''task'', PStr name), (''results'', PList results), (''preempted'', PBool preempted)]
       @ (case err of None \<Rightarrow> [] | Some e \<Rightarrow> [(''error'', PStr e)])"

definition run_cross_domain_task ::
  "(string \<Rightarrow> (pydict list \<Rightarrow> cross_outcome) option) \<Rightarrow> pydict list res option \<Rightarrow> string \<Rightarrow> token \<Rightarrow> pydict res" where
  "run_cross_domain_task lookup loader name t = (case lookup name of
      None \<Rightarrow> Inr (cross_report name [] False (Some (''Unknown cross-domain task: '' @ name)))
    | Some fn \<Rightarrow> (case checkpoint t of
        Inl _ \<Rightarrow> Inr (cross_report name [] True None)
      | Inr _ \<Rightarrow> res_bind (load_domains loader) (\<lambda>ds. Inr (case fn ds of
            CrossTaskResult r \<Rightarrow> cross_report name [PDict r] False None
          | CrossOther v \<Rightarrow> cross_report name [v] False None
          | CrossPreempted \<Rightarrow> cross_report name [] True None
          | CrossError e \<Rightarrow> cross_report name [] False (Some e)))))"

section \<open>The monitor\<close>

datatype daemon_state = STOPPED | STARTING | MONITORING | IDLE_DETECTED | DISPATCHING | PREEMPTING

record daemon_config =
  dc_priority :: "string list"
  dc_poll_interval :: rat
  dc_idle_threshold :: rat
  dc_sustain :: rat
  dc_busy :: rat
  dc_grace :: rat
  dc_enabled :: bool
  dc_has_runner :: bool

text \<open>A dispatched task: the domains it has still to do, \<open>None\<close> before it has loaded them, and its results.\<close>

record job =
  jb_name :: string
  jb_todo :: "pydict list option"
  jb_results :: "pydict list"

text \<open>Where a call of \<open>stop\<close> waits: for the cancelled monitor loop, then for the cancelled task.\<close>

datatype stop_point = AwaitLoop | AwaitJob

text \<open>\<open>dm_running\<close>: there is a monitor loop; \<open>dm_entered\<close>: it has made its first step. Calls of \<open>stop\<close> do not overlap.\<close>

record daemon =
  dm_state :: daemon_state
  dm_running :: bool
  dm_entered :: bool
  dm_stop :: "stop_point option"
  dm_job :: "job option"
  dm_last :: "snapshot option"
  dm_idle_since :: "rat option"
  dm_token :: "token option"
  dm_task_name :: "string option"
  dm_started :: rat
  dm_index :: nat

definition new_daemon :: daemon where
  "new_daemon = \<lparr>dm_state = STOPPED, dm_running = False, dm_entered = False, dm_stop = None, dm_job = None, dm_last = None, dm_idle_since = None,
     dm_token = None, dm_task_name = None, dm_started = 0, dm_index = 0\<rparr>"

definition start :: "daemon_config \<Rightarrow> rat \<Rightarrow> daemon \<Rightarrow> daemon" where
  "start c now d =
     (if dm_running d then d else if \<not> dc_enabled c then d
      else d\<lparr>dm_state := STARTING, dm_started := now, dm_running := True, dm_entered := False\<rparr>)"

text \<open>The first step of the monitor loop.\<close>

definition enter_loop :: "daemon \<Rightarrow> daemon" where
  "enter_loop d = d\<lparr>dm_state := MONITORING, dm_entered := True\<rparr>"

text \<open>The \<open>finally\<close> block of a dispatched task, however it ends.\<close>

definition clean_up :: "daemon \<Rightarrow> daemon" where
  "clean_up d = d\<lparr>dm_token := None, dm_task_name := None, dm_job := None, dm_idle_since := None, dm_state := MONITORING\<rparr>"

text \<open>\<open>stop\<close> up to its first await, from there (the loop has ended) to its second, and from there (the task has ended).\<close>

definition begin_stop :: "daemon \<Rightarrow> daemon" where
  "begin_stop d = (if dm_running d then d\<lparr>dm_stop := Some AwaitLoop\<rparr> else d)"

definition end_stop :: "daemon \<Rightarrow> daemon" where
  "end_stop d = d\<lparr>dm_job := None, dm_state := STOPPED, dm_stop := None\<rparr>"

definition loop_ended :: "daemon \<Rightarrow> daemon" where
  "loop_ended d = (let d1 = d\<lparr>dm_running := False, dm_entered := False\<rparr>
     in if dm_job d1 \<noteq> None then d1\<lparr>dm_stop := Some AwaitJob\<rparr> else end_stop d1)"

definition dispatch_next_task :: "daemon_config \<Rightarrow> daemon \<Rightarrow> daemon" where
  "dispatch_next_task c d =
     (if dc_priority c = [] \<or> \<not> dc_has_runner c then d\<lparr>dm_state := MONITORING\<rparr>
      else let n = length (dc_priority c); name = dc_priority c ! (dm_index d mod n)
        in d\<lparr>dm_index := (dm_index d + 1) mod n, dm_token := Some new_token, dm_task_name := Some name,
             dm_state := DISPATCHING, dm_job := Some \<lparr>jb_name = name, jb_todo = None, jb_results = []\<rparr>\<rparr>)"

text \<open>A poll, after the sample: \<open>t1\<close>, \<open>t2\<close> and \<open>t3\<close> are the clock at the grace test, at the start of an idle
  period and at the measure of its length.\<close>

definition poll_once :: "daemon_config \<Rightarrow> snapshot \<Rightarrow> rat \<Rightarrow> rat \<Rightarrow> rat \<Rightarrow> daemon \<Rightarrow> daemon" where
  "poll_once c s t1 t2 t3 d0 =
     (let d = d0\<lparr>dm_last := Some s\<rparr> in
      if t1 - dm_started d < dc_grace c then d
      else if dm_state d = DISPATCHING \<and> dm_token d \<noteq> None then
        (if sn_score s \<ge> dc_busy c
         then d\<lparr>dm_state := PREEMPTING, dm_token := map_option request_yield (dm_token d)\<rparr> else d)
      else if dm_state d = PREEMPTING then d
      else if sn_idle s then
        (let since = (case dm_idle_since d of None \<Rightarrow> t2 | Some t \<Rightarrow> t); d1 = d\<lparr>dm_idle_since := Some since\<rparr>
         in if t3 - since \<ge> dc_sustain c then dispatch_next_task c (d1\<lparr>dm_state := IDLE_DETECTED\<rparr>) else d1)
      else (let d1 = d\<lparr>dm_idle_since := None\<rparr>
            in if dm_state d1 \<noteq> DISPATCHING \<and> dm_state d1 \<noteq> PREEMPTING then d1\<lparr>dm_state := MONITORING\<rparr> else d1))"

text \<open>What the dispatched tasks run: the registered batch tasks and the loader of the domains.\<close>

record task_env =
  te_lookup :: "string \<Rightarrow> task_fn option"
  te_loader :: "pydict list res option"

text \<open>One step of a dispatched task under the adapter: first it loads the domains, then each step is a
  checkpoint and one domain. \<open>None\<close> when it ends.\<close>

definition job_step :: "task_env \<Rightarrow> token \<Rightarrow> job \<Rightarrow> job option" where
  "job_step v t j = (case te_lookup v (jb_name j) of
      None \<Rightarrow> None
    | Some fn \<Rightarrow> (case jb_todo j of
        None \<Rightarrow> (case load_domains (te_loader v) of Inl _ \<Rightarrow> None | Inr ds \<Rightarrow> Some (j\<lparr>jb_todo := Some ds\<rparr>))
      | Some [] \<Rightarrow> None
      | Some (d # ds) \<Rightarrow> (case checkpoint t of
          Inl _ \<Rightarrow> None
        | Inr _ \<Rightarrow> (case run_domain (jb_name j) fn d of
            None \<Rightarrow> None
          | Some r \<Rightarrow> Some (j\<lparr>jb_todo := Some ds, jb_results := jb_results j @ [r]\<rparr>)))))"

text \<open>The token a job sees is the one it was given at its dispatch, which is the current one. A job that \<open>stop\<close> has
  cancelled makes one more step, its clean-up.\<close>

definition task_step :: "task_env \<Rightarrow> job \<Rightarrow> daemon \<Rightarrow> daemon" where
  "task_step v j d = (if dm_stop d = Some AwaitJob then clean_up d else case dm_token d of
      None \<Rightarrow> d
    | Some t \<Rightarrow> (case job_step v t j of None \<Rightarrow> clean_up d | Some j' \<Rightarrow> d\<lparr>dm_job := Some j'\<rparr>))"

definition is_running :: "daemon option \<Rightarrow> bool" where
  "is_running m = (case m of None \<Rightarrow> False | Some d \<Rightarrow> dm_state d \<noteq> STOPPED)"

section \<open>Steps and runs\<close>

datatype event = EvStart rat | EvLoop | EvPoll snapshot rat rat rat | EvTask | EvStop | EvLoopEnded | EvJobEnded

text \<open>A cancelled loop neither enters nor polls. The loop of a \<open>start\<close> that runs while \<open>stop\<close> waits for the task sleeps a
  poll interval before its first poll, and \<open>stop\<close> goes on in the next rounds of the event loop; so there are no polls
  while a \<open>stop\<close> is under way. A job that was cancelled before its first step never enters its \<open>try\<close> block: it has no
  step, and \<open>stop\<close> goes on without its clean-up.\<close>

definition begun :: "job \<Rightarrow> bool" where
  "begun j \<longleftrightarrow> jb_todo j \<noteq> None"

inductive mon_step :: "daemon_config \<Rightarrow> task_env \<Rightarrow> event \<Rightarrow> daemon \<Rightarrow> daemon \<Rightarrow> bool"
  for c :: daemon_config and v :: task_env where
  started: "mon_step c v (EvStart now) d (start c now d)"
| looped: "dm_running d \<Longrightarrow> \<not> dm_entered d \<Longrightarrow> dm_stop d \<noteq> Some AwaitLoop \<Longrightarrow> mon_step c v EvLoop d (enter_loop d)"
| polled: "dm_running d \<Longrightarrow> dm_entered d \<Longrightarrow> dm_stop d = None \<Longrightarrow> mon_step c v (EvPoll s t1 t2 t3) d (poll_once c s t1 t2 t3 d)"
| tasked: "dm_job d = Some j \<Longrightarrow> dm_stop d = Some AwaitJob \<longrightarrow> begun j \<Longrightarrow> mon_step c v EvTask d (task_step v j d)"
| stopping: "dm_stop d = None \<Longrightarrow> mon_step c v EvStop d (begin_stop d)"
| loop_over: "dm_stop d = Some AwaitLoop \<Longrightarrow> mon_step c v EvLoopEnded d (loop_ended d)"
| job_over: "dm_stop d = Some AwaitJob \<Longrightarrow> (\<forall>j. dm_job d = Some j \<longrightarrow> \<not> begun j) \<Longrightarrow> mon_step c v EvJobEnded d (end_stop d)"

inductive_simps mon_step_poll: "mon_step c v (EvPoll s t1 t2 t3) d d'"
inductive_simps mon_step_task: "mon_step c v EvTask d d'"

text \<open>A run from the new daemon, with the events and the state each left.\<close>

inductive mon_run :: "daemon_config \<Rightarrow> task_env \<Rightarrow> (event \<times> daemon) list \<Rightarrow> daemon \<Rightarrow> bool"
  for c :: daemon_config and v :: task_env where
  init: "mon_run c v [] new_daemon"
| step: "mon_run c v tr d \<Longrightarrow> mon_step c v e d d' \<Longrightarrow> mon_run c v (tr @ [(e, d')]) d'"

section \<open>Facts\<close>

text \<open>The state of the daemon and its dispatched task agree: a task has a token and its name; outside the second half of a
  \<open>stop\<close> it exists exactly while dispatching or preempting, and the token asks to yield exactly while preempting.\<close>

definition mon_inv :: "daemon_config \<Rightarrow> daemon \<Rightarrow> bool" where
  "mon_inv c d \<longleftrightarrow>
     (dm_state d \<in> {DISPATCHING, PREEMPTING} \<longrightarrow> dm_job d \<noteq> None)
     \<and> (\<forall>j. dm_job d = Some j \<longrightarrow> dm_task_name d = Some (jb_name j) \<and> jb_name j \<in> set (dc_priority c) \<and> dm_token d \<noteq> None
          \<and> (dm_stop d \<noteq> Some AwaitJob \<longrightarrow> dm_running d \<and> dm_entered d \<and> dm_state d \<in> {DISPATCHING, PREEMPTING}
              \<and> dm_token d = Some \<lparr>tk_yield = (dm_state d = PREEMPTING)\<rparr>))
     \<and> (dm_stop d = Some AwaitLoop \<longrightarrow> dm_running d) \<and> (dm_entered d \<longrightarrow> dm_running d)
     \<and> (dm_running d \<or> dm_stop d = Some AwaitJob \<or> dm_state d = STOPPED)
     \<and> dm_state d \<noteq> IDLE_DETECTED \<and> dm_index d \<le> length (dc_priority c)"

lemma mon_inv_new: "mon_inv c new_daemon"
  by (simp add: mon_inv_def new_daemon_def)

lemma job_step_name: "job_step v t j = Some j' \<Longrightarrow> jb_name j' = jb_name j"
  by (auto simp: job_step_def split: option.splits sum.splits list.splits)

lemma mon_inv_clean_up: "mon_inv c d \<Longrightarrow> dm_job d \<noteq> None \<Longrightarrow> mon_inv c (clean_up d)"
  by (auto simp: mon_inv_def clean_up_def)

lemma mon_inv_dispatch:
  assumes "mon_inv c d" "dm_job d = None" "dm_running d" "dm_entered d"
  shows "mon_inv c (dispatch_next_task c (d\<lparr>dm_idle_since := t, dm_state := IDLE_DETECTED\<rparr>))"
proof (cases "dc_priority c = [] \<or> \<not> dc_has_runner c")
  case True
  then show ?thesis using assms by (auto simp: dispatch_next_task_def mon_inv_def)
next
  case False
  then have "(dm_index d + 1) mod length (dc_priority c) \<le> length (dc_priority c)"
    "dc_priority c ! (dm_index d mod length (dc_priority c)) \<in> set (dc_priority c)"
    by (simp_all add: less_imp_le)
  then show ?thesis using assms False by (simp add: dispatch_next_task_def mon_inv_def new_token_def Let_def)
qed

lemma mon_inv_poll:
  assumes "mon_inv c d" "dm_running d" "dm_entered d" "dm_stop d = None"
  shows "mon_inv c (poll_once c s t1 t2 t3 d)"
proof -
  have i: "mon_inv c (d\<lparr>dm_last := Some s\<rparr>)" using assms(1) by (auto simp: mon_inv_def)
  show ?thesis
  proof (cases "dm_job d = None")
    case True
    with assms(1) have "dm_state d \<notin> {DISPATCHING, PREEMPTING}" by (auto simp: mon_inv_def)
    then show ?thesis
      using mon_inv_dispatch [OF i, where t = "Some (case dm_idle_since d of None \<Rightarrow> t2 | Some t \<Rightarrow> t)"] i True assms
      by (simp add: poll_once_def Let_def) (auto simp: mon_inv_def)
  next
    case False
    with assms(1,4) show ?thesis
      by (auto simp: poll_once_def Let_def mon_inv_def request_yield_def)
  qed
qed

lemma mon_inv_task:
  assumes "mon_inv c d" "dm_job d = Some j" shows "mon_inv c (task_step v j d)"
proof -
  have "dm_job d \<noteq> None" using assms(2) by simp
  note clean = mon_inv_clean_up [OF assms(1) this]
  show ?thesis
  proof (cases "dm_stop d = Some AwaitJob")
    case False
    then obtain t where t: "dm_token d = Some t" using assms by (auto simp: mon_inv_def)
    show ?thesis
    proof (cases "job_step v t j")
      case (Some j')
      then have "task_step v j d = d\<lparr>dm_job := Some j'\<rparr>" using False t by (simp add: task_step_def)
      then show ?thesis using assms job_step_name [OF Some] by (simp add: mon_inv_def)
    qed (simp add: task_step_def False t clean)
  qed (simp add: task_step_def clean)
qed

lemma mon_inv_step: "mon_step c v e d d' \<Longrightarrow> mon_inv c d \<Longrightarrow> mon_inv c d'"
proof (induction rule: mon_step.induct)
  case (polled d s t1 t2 t3)
  then show ?case by (intro mon_inv_poll)
next
  case (tasked d j)
  then show ?case by (intro mon_inv_task)
qed (auto simp: start_def enter_loop_def begin_stop_def loop_ended_def end_stop_def mon_inv_def Let_def)

lemma mon_inv_run: "mon_run c v tr d \<Longrightarrow> mon_inv c d"
  by (induction rule: mon_run.induct) (auto intro: mon_inv_new mon_inv_step)






text \<open>The state a trace ends in, and the tasks dispatched along it.\<close>

definition end_state :: "daemon \<Rightarrow> (event \<times> daemon) list \<Rightarrow> daemon" where
  "end_state d tr = (if tr = [] then d else snd (last tr))"

definition new_dispatch :: "daemon \<Rightarrow> daemon \<Rightarrow> string list" where
  "new_dispatch d d' = (case (dm_job d, dm_job d') of (None, Some j) \<Rightarrow> [jb_name j] | _ \<Rightarrow> [])"

fun dispatched :: "daemon \<Rightarrow> (event \<times> daemon) list \<Rightarrow> string list" where
  "dispatched d [] = []"
| "dispatched d ((e, d') # tr) = new_dispatch d d' @ dispatched d' tr"

lemma dispatched_snoc: "dispatched d (tr @ [(e, d')]) = dispatched d tr @ new_dispatch (end_state d tr) d'"
  by (induction d tr rule: dispatched.induct) (auto simp: end_state_def)

lemma mon_run_end: "mon_run c v tr d \<Longrightarrow> end_state new_daemon tr = d"
  by (induction rule: mon_run.induct) (auto simp: end_state_def)



text \<open>What a step does to the round-robin index: a dispatch takes the task at the index and moves it on.\<close>

lemma poll_dispatch:
  fixes s :: snapshot and t1 t2 t3 :: rat
  assumes "mon_inv c d" "dm_stop d = None"
  defines "d' \<equiv> poll_once c s t1 t2 t3 d"
  shows "(dm_index d' = dm_index d \<and> dm_job d' = dm_job d) \<or>
    (dm_job d = None \<and> dc_priority c \<noteq> [] \<and> sn_idle s \<and> \<not> t1 - dm_started d < dc_grace c
     \<and> t3 - (case dm_idle_since d of None \<Rightarrow> t2 | Some t \<Rightarrow> t) \<ge> dc_sustain c
     \<and> (\<exists>j. dm_job d' = Some j \<and> jb_name j = dc_priority c ! (dm_index d mod length (dc_priority c)))
     \<and> dm_index d' = (dm_index d + 1) mod length (dc_priority c))"
proof (cases "dm_job d = None")
  case True
  then have "dm_state d \<noteq> DISPATCHING" "dm_state d \<noteq> PREEMPTING" using assms(1) by (auto simp: mon_inv_def)
  then show ?thesis using True by (auto simp: d'_def poll_once_def Let_def dispatch_next_task_def)
next
  case False
  then show ?thesis using assms(1,2) by (auto simp: d'_def poll_once_def Let_def mon_inv_def)
qed

lemma step_dispatch:
  assumes "mon_step c v e d d'" "mon_inv c d"
  shows "(dm_index d' = dm_index d \<and> new_dispatch d d' = []) \<or>
    (dc_priority c \<noteq> [] \<and> new_dispatch d d' = [dc_priority c ! (dm_index d mod length (dc_priority c))]
     \<and> dm_index d' = (dm_index d + 1) mod length (dc_priority c))"
  using assms
proof (induction rule: mon_step.induct)
  case (polled d s t1 t2 t3)
  then show ?case using poll_dispatch [of c d s t1 t2 t3] by (auto simp: new_dispatch_def split: option.split)
qed (auto simp: new_dispatch_def start_def enter_loop_def task_step_def clean_up_def begin_stop_def loop_ended_def end_stop_def Let_def split: option.split)

lemma run_dispatched:
  "mon_run c v tr d \<Longrightarrow>
     dispatched new_daemon tr = map (\<lambda>k. dc_priority c ! (k mod length (dc_priority c))) [0 ..< length (dispatched new_daemon tr)]
     \<and> dm_index d mod length (dc_priority c) = length (dispatched new_daemon tr) mod length (dc_priority c)"
proof (induction rule: mon_run.induct)
  case init
  then show ?case by (simp add: new_daemon_def)
next
  case (step tr d e d')
  show ?case
    using step_dispatch [OF step.hyps(2) mon_inv_run [OF step.hyps(1)]] step.IH
    by (auto simp: dispatched_snoc mon_run_end [OF step.hyps(1)] mod_Suc_eq)
      (metis mod_Suc_eq)+
qed

text \<open>The beginning of the idle period, as a trace shows it: the poll that started the clock was idle, and so was
  every later poll outside the grace period.\<close>

definition idle_from :: "daemon_config \<Rightarrow> rat \<Rightarrow> rat \<Rightarrow> (event \<times> daemon) list \<Rightarrow> bool" where
  "idle_from c started t tr \<longleftrightarrow> (\<exists>pre s0 a b d0 post. tr = pre @ (EvPoll s0 a t b, d0) # post \<and> sn_idle s0
     \<and> (\<forall>s1 t1 t2 t3 d1. (EvPoll s1 t1 t2 t3, d1) \<in> set post \<longrightarrow> sn_idle s1 \<or> t1 - started < dc_grace c))"

lemma idle_from_snoc:
  "idle_from c started t tr \<Longrightarrow> (\<And>s1 t1 t2 t3. e = EvPoll s1 t1 t2 t3 \<Longrightarrow> sn_idle s1 \<or> t1 - started < dc_grace c) \<Longrightarrow>
     idle_from c started t (tr @ [(e, d)])"
proof -
  assume "idle_from c started t tr" and e: "\<And>s1 t1 t2 t3. e = EvPoll s1 t1 t2 t3 \<Longrightarrow> sn_idle s1 \<or> t1 - started < dc_grace c"
  then obtain pre s0 a b d0 post where tr: "tr = pre @ (EvPoll s0 a t b, d0) # post" "sn_idle s0"
      "\<forall>s1 t1 t2 t3 d1. (EvPoll s1 t1 t2 t3, d1) \<in> set post \<longrightarrow> sn_idle s1 \<or> t1 - started < dc_grace c"
    unfolding idle_from_def by blast
  then have "\<forall>s1 t1 t2 t3 d1. (EvPoll s1 t1 t2 t3, d1) \<in> set (post @ [(e, d)]) \<longrightarrow> sn_idle s1 \<or> t1 - started < dc_grace c"
    using e by fastforce
  moreover have "tr @ [(e, d)] = pre @ (EvPoll s0 a t b, d0) # (post @ [(e, d)])" using tr(1) by simp
  ultimately show ?thesis unfolding idle_from_def using tr(2) by blast
qed

lemma idle_from_new: "sn_idle s \<Longrightarrow> idle_from c started t (tr @ [(EvPoll s t1 t t3, d)])"
  unfolding idle_from_def by (intro exI [of _ tr] exI [of _ s] exI [of _ t1] exI [of _ t3] exI [of _ d] exI [of _ "[]"]) simp

text \<open>The events of a trace that never stops the daemon.\<close>

abbreviation never_stopped :: "(event \<times> daemon) list \<Rightarrow> bool" where
  "never_stopped tr \<equiv> EvStop \<notin> fst ` set tr"

lemma poll_idle_since:
  assumes "dm_idle_since (poll_once c s t1 t2 t3 d) = Some t" "dm_job (poll_once c s t1 t2 t3 d) = None" "mon_inv c d" "dm_stop d = None"
  shows "(dm_idle_since d = Some t \<and> dm_job d = None \<and> (sn_idle s \<or> t1 - dm_started d < dc_grace c)) \<or> (sn_idle s \<and> t = t2)"
proof (cases "dm_job d = None")
  case True
  then have "dm_state d \<noteq> DISPATCHING" "dm_state d \<noteq> PREEMPTING" using assms(3) by (auto simp: mon_inv_def)
  then show ?thesis using assms(1) True
    by (auto simp: poll_once_def Let_def dispatch_next_task_def split: if_splits option.splits)
next
  case False
  then show ?thesis using assms(2-4) by (auto simp: poll_once_def Let_def mon_inv_def split: if_splits)
qed

lemma poll_frame: "dm_started (poll_once c s t1 t2 t3 d) = dm_started d" "dm_running (poll_once c s t1 t2 t3 d) = dm_running d"
  "dm_stop (poll_once c s t1 t2 t3 d) = dm_stop d"
  by (simp_all add: poll_once_def dispatch_next_task_def Let_def)

lemma idle_clock:
  "mon_run c v tr d \<Longrightarrow> never_stopped tr \<Longrightarrow>
     dm_stop d = None \<and> (\<not> dm_running d \<longrightarrow> dm_idle_since d = None)
     \<and> (\<forall>t. dm_idle_since d = Some t \<and> dm_job d = None \<longrightarrow> idle_from c (dm_started d) t tr)"
proof (induction rule: mon_run.induct)
  case init
  then show ?case by (simp add: new_daemon_def)
next
  case (step tr d e d')
  have i: "mon_inv c d" by (rule mon_inv_run [OF step.hyps(1)])
  have IH: "dm_stop d = None" "\<not> dm_running d \<longrightarrow> dm_idle_since d = None"
    "\<And>t. dm_idle_since d = Some t \<Longrightarrow> dm_job d = None \<Longrightarrow> idle_from c (dm_started d) t tr"
    using step.IH step.prems by auto
  from step.hyps(2) show ?case
  proof cases
    case (started now)
    then show ?thesis using IH by (auto simp: start_def intro: idle_from_snoc)
  next
    case looped
    then show ?thesis using IH by (auto simp: enter_loop_def intro: idle_from_snoc)
  next
    case (polled s t1 t2 t3)
    then show ?thesis using IH
      by (auto simp: poll_frame intro: idle_from_snoc idle_from_new dest!: poll_idle_since [OF _ _ i IH(1)])
  next
    case (tasked j)
    then show ?thesis using IH i by (auto simp: task_step_def clean_up_def mon_inv_def split: option.splits)
  qed (use step.prems IH(1) in simp_all)
qed

text \<open>A preempted job: how many of its own steps it can still make.\<close>

definition job_pot :: "job \<Rightarrow> nat" where
  "job_pot j = (if jb_todo j = None then 2 else 1)"

lemma job_pot_simps [simp]: "job_pot (j\<lparr>jb_todo := Some ds\<rparr>) = 1" "jb_todo j = None \<Longrightarrow> job_pot j = 2"
  by (simp_all add: job_pot_def)

text \<open>A step of a daemon whose job is asked to yield: the job goes on being asked, or ends, and the daemon monitors again
  unless it was stopped.\<close>

lemma preempted_step:
  assumes "mon_step c v e d d'" "mon_inv c d" "dm_token d = Some \<lparr>tk_yield = True\<rparr>" "dm_job d = Some j"
  shows "(dm_job d' = None \<and> dm_state d' = (if e = EvJobEnded then STOPPED else MONITORING))
     \<or> (dm_token d' = Some \<lparr>tk_yield = True\<rparr> \<and> (\<exists>j'. dm_job d' = Some j' \<and> jb_results j' = jb_results j
     \<and> job_pot j' + (if e = EvTask then 1 else 0) \<le> job_pot j))"
  using assms(1)
proof cases
  case (tasked j1)
  then show ?thesis using assms(3,4)
    by (auto simp: task_step_def job_step_def clean_up_def checkpoint_def split: option.splits list.splits sum.splits)
next
  case (polled s t1 t2 t3)
  then have "dm_state d = PREEMPTING" using assms(2-4) by (auto simp: mon_inv_def)
  then show ?thesis using assms(3,4) polled by (auto simp: poll_once_def Let_def)
qed (use assms(3,4) in \<open>auto simp: start_def enter_loop_def begin_stop_def loop_ended_def end_stop_def Let_def\<close>)

lemma mon_run_prefix: "mon_run c v (tr @ tr') d' \<Longrightarrow> mon_run c v tr (end_state new_daemon tr)"
proof (induction tr' arbitrary: d' rule: rev_induct)
  case Nil
  then show ?case using mon_run_end by fastforce
next
  case (snoc ed tr')
  from snoc.prems obtain d0 where "mon_run c v (tr @ tr') d0" by (cases rule: mon_run.cases) auto
  then show ?case by (rule snoc.IH)
qed

lemma preempted_run:
  assumes "mon_run c v (tr @ tr') d'" "end_state new_daemon tr = d" "dm_token d = Some \<lparr>tk_yield = True\<rparr>" "dm_job d = Some j"
  shows "(\<exists>pre e d1 post. tr' = pre @ (e, d1) # post \<and> dm_job d1 = None \<and> dm_state d1 = (if e = EvJobEnded then STOPPED else MONITORING)
        \<and> (\<forall>(e2, d2) \<in> set pre. \<exists>j2. dm_job d2 = Some j2 \<and> jb_results j2 = jb_results j))
    \<or> (dm_token d' = Some \<lparr>tk_yield = True\<rparr> \<and> (\<exists>j'. dm_job d' = Some j' \<and> jb_results j' = jb_results j
        \<and> job_pot j' + length (filter (\<lambda>(e, _). e = EvTask) tr') \<le> job_pot j)
        \<and> (\<forall>(e2, d2) \<in> set tr'. \<exists>j2. dm_job d2 = Some j2 \<and> jb_results j2 = jb_results j))"
  using assms(1)
proof (induction tr' arbitrary: d' rule: rev_induct)
  case Nil
  then have "d' = d" using mon_run_end assms(2) by fastforce
  then show ?case using assms(3,4) by simp
next
  case (snoc ed tr')
  from snoc.prems obtain e d0 where ed: "ed = (e, d')" and r: "mon_run c v (tr @ tr') d0" and s: "mon_step c v e d0 d'"
    by (cases rule: mon_run.cases) auto
  from snoc.IH [OF r] show ?case
  proof (elim disjE exE conjE)
    fix pre e1 d1 post
    assume "tr' = pre @ (e1, d1) # post" "dm_job d1 = None" "dm_state d1 = (if e1 = EvJobEnded then STOPPED else MONITORING)"
      "\<forall>(e2, d2) \<in> set pre. \<exists>j2. dm_job d2 = Some j2 \<and> jb_results j2 = jb_results j"
    then show ?thesis by (intro disjI1 exI [of _ pre] exI [of _ e1] exI [of _ d1] exI [of _ "post @ [ed]"]) simp
  next
    fix j' assume p: "dm_token d0 = Some \<lparr>tk_yield = True\<rparr>" "dm_job d0 = Some j'" "jb_results j' = jb_results j"
      "job_pot j' + length (filter (\<lambda>(e, _). e = EvTask) tr') \<le> job_pot j"
      "\<forall>(e2, d2) \<in> set tr'. \<exists>j2. dm_job d2 = Some j2 \<and> jb_results j2 = jb_results j"
    from preempted_step [OF s mon_inv_run [OF r] p(1,2)] show ?thesis
    proof (elim disjE exE conjE)
      assume "dm_job d' = None" "dm_state d' = (if e = EvJobEnded then STOPPED else MONITORING)"
      then show ?thesis using p(5)
        by (intro disjI1 exI [of _ tr'] exI [of _ e] exI [of _ d'] exI [of _ "[]"]) (simp add: ed)
    next
      fix j1 assume "dm_token d' = Some \<lparr>tk_yield = True\<rparr>" "dm_job d' = Some j1" "jb_results j1 = jb_results j'"
        "job_pot j1 + (if e = EvTask then 1 else 0) \<le> job_pot j'"
      then show ?thesis using p by (intro disjI2) (auto simp: ed split: if_splits)
    qed
  qed
qed

text \<open>Steps and traces by evaluation.\<close>

fun mon_next :: "daemon_config \<Rightarrow> task_env \<Rightarrow> event \<Rightarrow> daemon \<Rightarrow> daemon option" where
  "mon_next c v (EvStart now) d = Some (start c now d)"
| "mon_next c v EvLoop d = (if dm_running d \<and> \<not> dm_entered d \<and> dm_stop d \<noteq> Some AwaitLoop then Some (enter_loop d) else None)"
| "mon_next c v (EvPoll s t1 t2 t3) d =
     (if dm_running d \<and> dm_entered d \<and> dm_stop d = None then Some (poll_once c s t1 t2 t3 d) else None)"
| "mon_next c v EvTask d = (case dm_job d of None \<Rightarrow> None
     | Some j \<Rightarrow> if dm_stop d = Some AwaitJob \<and> \<not> begun j then None else Some (task_step v j d))"
| "mon_next c v EvStop d = (if dm_stop d = None then Some (begin_stop d) else None)"
| "mon_next c v EvLoopEnded d = (if dm_stop d = Some AwaitLoop then Some (loop_ended d) else None)"
| "mon_next c v EvJobEnded d = (if dm_stop d = Some AwaitJob \<and> (case dm_job d of None \<Rightarrow> True | Some j \<Rightarrow> \<not> begun j) then Some (end_stop d) else None)"

lemma mon_step_iff: "mon_step c v e d d' \<longleftrightarrow> mon_next c v e d = Some d'"
  by (cases e; subst mon_step.simps) (auto split: option.splits)

fun run_trace :: "daemon_config \<Rightarrow> task_env \<Rightarrow> event list \<Rightarrow> daemon \<Rightarrow> (event \<times> daemon) list option" where
  "run_trace c v [] d = Some []"
| "run_trace c v (e # es) d = (case mon_next c v e d of None \<Rightarrow> None
     | Some d' \<Rightarrow> map_option (\<lambda>tr. (e, d') # tr) (run_trace c v es d'))"

lemma run_trace_mon_run:
  "mon_run c v tr0 d \<Longrightarrow> run_trace c v es d = Some tr \<Longrightarrow> mon_run c v (tr0 @ tr) (end_state d tr)"
proof (induction c v es d arbitrary: tr0 tr rule: run_trace.induct)
  case (1 c v d)
  then show ?case by (simp add: end_state_def)
next
  case (2 c v e es d)
  then obtain d' tr' where n: "mon_next c v e d = Some d'" "run_trace c v es d' = Some tr'" "tr = (e, d') # tr'"
    by (auto split: option.splits)
  have "mon_run c v (tr0 @ [(e, d')]) d'"
    by (rule mon_run.step [OF "2.prems"(1)]) (simp add: mon_step_iff n)
  from "2.IH" [OF n(1) this n(2)] show ?case by (cases tr') (simp_all add: n(3) end_state_def)
qed

lemmas run_trace_new = run_trace_mon_run [OF mon_run.init, simplified]

section \<open>Properties\<close>


definition sample_daemon_config :: daemon_config where
  "sample_daemon_config = \<lparr>dc_priority = [''glossary'', ''consistency''], dc_poll_interval = 15, dc_idle_threshold = 1 / 5,
     dc_sustain = 60, dc_busy = 2 / 5, dc_grace = 30, dc_enabled = True, dc_has_runner = True\<rparr>"

definition sample_task_env :: task_env where
  "sample_task_env = \<lparr>te_lookup = (\<lambda>_. Some (\<lambda>_ _. GotOther)), te_loader = None\<rparr>"

definition sample_load :: "rat \<Rightarrow> snapshot" where
  "sample_load q = \<lparr>sn_timestamp = 0, sn_latency = None, sn_inflight = None, sn_gpu = None, sn_score = q, sn_idle = q < 1 / 5\<rparr>"

definition sample_events :: "event list" where
  "sample_events = [EvStart 0, EvLoop, EvPoll (sample_load 0) 40 40 40, EvPoll (sample_load 0) 100 100 100]"

definition sample_trace :: "(event \<times> daemon) list" where
  "sample_trace = the (run_trace sample_daemon_config sample_task_env sample_events new_daemon)"

lemma sample_trace_run: "run_trace sample_daemon_config sample_task_env sample_events new_daemon = Some sample_trace"
proof -
  have "case run_trace sample_daemon_config sample_task_env sample_events new_daemon of None \<Rightarrow> False | Some _ \<Rightarrow> True"
    by code_simp
  from case_option_False [OF this] show ?thesis unfolding sample_trace_def by (metis option.sel)
qed


text \<open>Both conditions are needed. A start between the parts of a stop leaves a loop that runs while the daemon reports to be
  stopped; a task cancelled before its first step leaves its name in the status of the stopped daemon.\<close>

definition restart_events :: "event list" where
  "restart_events = sample_events @ [EvTask, EvStop, EvLoopEnded, EvStart 200, EvTask, EvLoop, EvJobEnded]"

definition early_stop_events :: "event list" where
  "early_stop_events = sample_events @ [EvStop, EvLoopEnded, EvJobEnded]"

lemma restart_during_stop:
  "\<exists>tr d. mon_run sample_daemon_config sample_task_env tr d \<and> dm_running d \<and> dm_entered d \<and> dm_stop d = None \<and> \<not> is_running (Some d)"
  "\<exists>tr d. mon_run sample_daemon_config sample_task_env tr d \<and> \<not> is_running (Some d) \<and> dm_job d = None \<and> dm_task_name d = Some ''glossary''"
proof -
  have "case run_trace sample_daemon_config sample_task_env restart_events new_daemon of None \<Rightarrow> False
      | Some tr \<Rightarrow> (let d = end_state new_daemon tr in dm_running d \<and> dm_entered d \<and> dm_stop d = None \<and> \<not> is_running (Some d))" by code_simp
  from case_option_False [OF this] show "\<exists>tr d. mon_run sample_daemon_config sample_task_env tr d \<and> dm_running d \<and> dm_entered d
      \<and> dm_stop d = None \<and> \<not> is_running (Some d)"
    using run_trace_new by (metis (no_types, lifting))
  have "case run_trace sample_daemon_config sample_task_env early_stop_events new_daemon of None \<Rightarrow> False
      | Some tr \<Rightarrow> (let d = end_state new_daemon tr in \<not> is_running (Some d) \<and> dm_job d = None \<and> dm_task_name d = Some ''glossary'')" by code_simp
  from case_option_False [OF this] show "\<exists>tr d. mon_run sample_daemon_config sample_task_env tr d \<and> \<not> is_running (Some d)
      \<and> dm_job d = None \<and> dm_task_name d = Some ''glossary''"
    using run_trace_new by (metis (no_types, lifting))
qed

text \<open>C38: the dispatches of every run are the configured tasks in round-robin order, from the first: so of any
  consecutive dispatches as many as there are tasks, each task is one, and no task starves.\<close>

theorem dispatch_round_robin:
  assumes "mon_run c v tr d"
  defines "names \<equiv> dispatched new_daemon tr" and "n \<equiv> length (dc_priority c)"
  shows "(\<forall>i < length names. names ! i = dc_priority c ! (i mod n))
    \<and> (\<forall>k. k + n \<le> length names \<longrightarrow> set (take n (drop k names)) = set (dc_priority c))"
proof -
  have names: "names = map (\<lambda>k. dc_priority c ! (k mod n)) [0 ..< length names]"
    using run_dispatched [OF assms(1)] by (simp add: names_def n_def)
  then have nth: "\<forall>i < length names. names ! i = dc_priority c ! (i mod n)"
    by (metis (no_types, lifting) add.left_neutral length_map length_upt nth_map nth_upt diff_zero)
  moreover have "set (take n (drop k names)) = set (dc_priority c)" if k: "k + n \<le> length names" for k
  proof -
    have len: "length (take n (drop k names)) = n" using k by simp
    have el: "take n (drop k names) ! i = dc_priority c ! ((k + i) mod n)" if "i < n" for i
      using that k nth by simp
    have cover: "\<exists>i < n. (k + i) mod n = j" if "j < n" for j
    proof -
      have "(k + (n - k mod n + j) mod n) mod n = (k + (n - k mod n + j)) mod n" by (simp add: mod_add_right_eq)
      also have "\<dots> = (k mod n + (n - k mod n + j)) mod n" by (metis mod_add_left_eq)
      also have "k mod n + (n - k mod n + j) = n + j" using mod_less_divisor [of n k] that by linarith
      also have "(n + j) mod n = j" using that by simp
      finally show ?thesis using that by (intro exI [of _ "(n - k mod n + j) mod n"]) simp
    qed
    show ?thesis
    proof (intro equalityI subsetI)
      fix x assume "x \<in> set (take n (drop k names))"
      then obtain i where "i < n" "x = dc_priority c ! ((k + i) mod n)" using len el by (metis in_set_conv_nth)
      moreover from \<open>i < n\<close> have "(k + i) mod n < length (dc_priority c)" by (cases "n = 0") (simp_all add: n_def)
      ultimately show "x \<in> set (dc_priority c)" by simp
    next
      fix x assume "x \<in> set (dc_priority c)"
      then obtain j where "j < n" "x = dc_priority c ! j" by (auto simp: in_set_conv_nth n_def)
      then show "x \<in> set (take n (drop k names))" using cover [of j] el len by (metis nth_mem)
    qed
  qed
  ultimately show ?thesis by blast
qed

theorem dispatch_round_robin_witness:
  "dispatched new_daemon sample_trace ! 0 = dc_priority sample_daemon_config ! 0"
proof -
  have "0 < length (dispatched new_daemon sample_trace)" by code_simp
  then show ?thesis using dispatch_round_robin [OF run_trace_new [OF sample_trace_run]] by auto
qed

text \<open>As long as the daemon is not stopped and restarted, it dispatches a task only after the grace period and
  after a sustained idle time: the poll that dispatches is idle, and either it has itself waited long enough or an
  earlier idle poll lies at least the sustain time back and no poll since then, outside the grace period, has seen
  load.\<close>

theorem dispatch_after_sustained_idle:
  assumes "mon_run c v tr d" "never_stopped tr" "mon_step c v (EvPoll s t1 t2 t3) d d'" "dm_job d = None" "dm_job d' \<noteq> None"
  shows "sn_idle s \<and> dc_grace c \<le> t1 - dm_started d
    \<and> (dc_sustain c \<le> t3 - t2 \<or> (\<exists>t. dc_sustain c \<le> t3 - t \<and> idle_from c (dm_started d) t tr))"
proof -
  have d': "d' = poll_once c s t1 t2 t3 d" using assms(3) by (simp add: mon_step_poll)
  show ?thesis
    using poll_dispatch [OF mon_inv_run [OF assms(1)], of s t1 t2 t3] assms(4,5) idle_clock [OF assms(1,2)]
    unfolding d' by (auto split: option.splits)
qed

theorem dispatch_after_sustained_idle_witness:
  "\<exists>t. dc_sustain sample_daemon_config \<le> 100 - t \<and> idle_from sample_daemon_config 0 t
     [(EvStart 0, start sample_daemon_config 0 new_daemon), (EvLoop, enter_loop (start sample_daemon_config 0 new_daemon)),
      (EvPoll (sample_load 0) 40 40 40, poll_once sample_daemon_config (sample_load 0) 40 40 40
         (enter_loop (start sample_daemon_config 0 new_daemon)))]"
proof -
  let ?c = sample_daemon_config and ?v = sample_task_env
  let ?d = "poll_once ?c (sample_load 0) 40 40 40 (enter_loop (start ?c 0 new_daemon))"
  have run: "run_trace ?c ?v [EvStart 0, EvLoop, EvPoll (sample_load 0) 40 40 40] new_daemon =
      Some [(EvStart 0, start ?c 0 new_daemon), (EvLoop, enter_loop (start ?c 0 new_daemon)), (EvPoll (sample_load 0) 40 40 40, ?d)]"
    by (simp add: start_def enter_loop_def new_daemon_def sample_daemon_config_def)
  have started: "dm_started ?d = 0" by (simp add: poll_frame start_def enter_loop_def new_daemon_def sample_daemon_config_def)
  have step: "mon_step ?c ?v (EvPoll (sample_load 0) 100 100 100) ?d (poll_once ?c (sample_load 0) 100 100 100 ?d)"
    by (simp add: mon_step_poll)
      (simp add: poll_once_def start_def enter_loop_def new_daemon_def sample_daemon_config_def sample_load_def)
  have jobs: "dm_job ?d = None" "dm_job (poll_once ?c (sample_load 0) 100 100 100 ?d) \<noteq> None"
    by (simp_all add: poll_once_def start_def enter_loop_def new_daemon_def sample_daemon_config_def sample_load_def dispatch_next_task_def Let_def)
  have "dc_sustain ?c > 0" by (simp add: sample_daemon_config_def)
  have r: "mon_run ?c ?v [(EvStart 0, start ?c 0 new_daemon), (EvLoop, enter_loop (start ?c 0 new_daemon)),
      (EvPoll (sample_load 0) 40 40 40, ?d)] ?d"
    using run_trace_new [OF run] by (simp add: end_state_def)
  show ?thesis
    using dispatch_after_sustained_idle [OF r _ step jobs] started \<open>dc_sustain ?c > 0\<close> by simp
qed

text \<open>A load spike frees the machine: once a poll outside the grace period sees the busy load during a
  dispatch, the task is asked to yield, and in every continuation that gives it two more steps it is over by then,
  without having worked on another domain, whatever polls and calls come in between; when it is over the daemon is monitoring
  again, or stopped if a stop did not wait for its clean-up.\<close>

theorem load_spike_frees_daemon:
  assumes "mon_run c v (tr @ (EvPoll s t1 t2 t3, d1) # tr') d'"
    and "dm_state (end_state new_daemon tr) = DISPATCHING" "dc_busy c \<le> sn_score s"
    and "dc_grace c \<le> t1 - dm_started (end_state new_daemon tr)"
    and "2 \<le> length (filter (\<lambda>(e, _). e = EvTask) tr')"
  shows "dm_state d1 = PREEMPTING \<and> (\<exists>j pre e d2 post. dm_job d1 = Some j \<and> tr' = pre @ (e, d2) # post \<and> dm_job d2 = None
    \<and> dm_state d2 = (if e = EvJobEnded then STOPPED else MONITORING)
    \<and> (\<forall>(e3, d3) \<in> set pre. \<exists>j3. dm_job d3 = Some j3 \<and> jb_results j3 = jb_results j))"
proof -
  let ?d = "end_state new_daemon tr" and ?tr1 = "tr @ [(EvPoll s t1 t2 t3, d1)]"
  have r: "mon_run c v (?tr1 @ tr') d'" using assms(1) by simp
  have r1: "mon_run c v ?tr1 d1" using mon_run_prefix [OF r] by (simp add: end_state_def)
  have i: "mon_inv c ?d" by (rule mon_inv_run [OF mon_run_prefix [OF assms(1)]])
  have "mon_step c v (EvPoll s t1 t2 t3) ?d d1"
    using r1 by (cases rule: mon_run.cases) (auto dest: mon_run_end)
  then have d1: "d1 = poll_once c s t1 t2 t3 ?d" and st: "dm_stop ?d = None" by (simp_all add: mon_step_poll)
  obtain j where j: "dm_job ?d = Some j" "dm_token ?d = Some \<lparr>tk_yield = False\<rparr>" using i st assms(2) by (auto simp: mon_inv_def)
  have p: "dm_state d1 = PREEMPTING" "dm_job d1 = Some j" "dm_token d1 = Some \<lparr>tk_yield = True\<rparr>"
    using assms(2-4) j by (simp_all add: d1 poll_once_def Let_def request_yield_def)
  have e: "end_state new_daemon ?tr1 = d1" by (simp add: end_state_def)
  from preempted_run [OF r e p(3,2)] show ?thesis
  proof (elim disjE exE conjE)
    fix j' assume "job_pot j' + length (filter (\<lambda>(e, _). e = EvTask) tr') \<le> job_pot j"
    moreover have "1 \<le> job_pot j'" "job_pot j \<le> 2" by (simp_all add: job_pot_def)
    ultimately show ?thesis using assms(5) by linarith
  qed (use p in blast)
qed

definition spike_events :: "event list" where
  "spike_events = [EvTask, EvPoll (sample_load 0) 120 120 120, EvTask]"

definition spike_state :: daemon where
  "spike_state = poll_once sample_daemon_config (sample_load 1) 110 110 110 (end_state new_daemon sample_trace)"

definition spike_trace :: "(event \<times> daemon) list" where
  "spike_trace = the (run_trace sample_daemon_config sample_task_env spike_events spike_state)"

theorem load_spike_frees_daemon_witness:
  "\<exists>(e, d) \<in> set spike_trace. dm_job d = None"
proof -
  let ?c = sample_daemon_config and ?v = sample_task_env and ?e = "EvPoll (sample_load 1) 110 110 110"
  have "dm_state (end_state new_daemon sample_trace) = DISPATCHING \<and> dm_running (end_state new_daemon sample_trace)
      \<and> dm_entered (end_state new_daemon sample_trace) \<and> dm_stop (end_state new_daemon sample_trace) = None
      \<and> dm_started (end_state new_daemon sample_trace) = 0"
    by code_simp
  then have st: "dm_state (end_state new_daemon sample_trace) = DISPATCHING" "dm_running (end_state new_daemon sample_trace)"
    "dm_started (end_state new_daemon sample_trace) = 0" "dm_entered (end_state new_daemon sample_trace)"
    "dm_stop (end_state new_daemon sample_trace) = None" by blast+
  have "case run_trace ?c ?v spike_events spike_state of None \<Rightarrow> False | Some tr \<Rightarrow> map fst tr = spike_events" by code_simp
  from case_option_False [OF this] have tr: "run_trace ?c ?v spike_events spike_state = Some spike_trace"
    "map fst spike_trace = spike_events"
    unfolding spike_trace_def by (metis option.sel)+
  have "mon_step ?c ?v ?e (end_state new_daemon sample_trace) spike_state"
    using st by (simp add: mon_step_poll spike_state_def)
  then have "mon_run ?c ?v (sample_trace @ [(?e, spike_state)]) spike_state"
    by (rule mon_run.step [OF run_trace_new [OF sample_trace_run]])
  from run_trace_mon_run [OF this tr(1)]
  have run: "mon_run ?c ?v (sample_trace @ (?e, spike_state) # spike_trace) (end_state spike_state spike_trace)" by simp
  have "length (filter (\<lambda>(e, _). e = EvTask) spike_trace) = length (filter (\<lambda>e. e = EvTask) (map fst spike_trace))"
    by (simp add: filter_map comp_def split_def)
  then have two: "2 \<le> length (filter (\<lambda>(e, _). e = EvTask) spike_trace)" by (simp add: tr(2) spike_events_def)
  have "dc_busy ?c \<le> sn_score (sample_load 1)" "dc_grace ?c \<le> 110 - dm_started (end_state new_daemon sample_trace)"
    using st(3) by (simp_all add: sample_daemon_config_def sample_load_def)
  from load_spike_frees_daemon [OF run st(1) this two] obtain pre e d2 post
    where "spike_trace = pre @ (e, d2) # post" "dm_job d2 = None" by blast
  then have "(e, d2) \<in> set spike_trace" "dm_job d2 = None" by (metis in_set_conv_decomp, blast)
  then show ?thesis by blast
qed

definition undisturbed :: "string \<Rightarrow> task_fn \<Rightarrow> (nat \<Rightarrow> token) \<Rightarrow> nat \<Rightarrow> pydict list \<Rightarrow> nat" where
  "undisturbed name fn tk i ds =
     length (takeWhile (\<lambda>(k, d). \<not> is_yield_requested (tk k) \<and> run_domain name fn d \<noteq> None) (enumerate i ds))"

fun job_results :: "task_env \<Rightarrow> (nat \<Rightarrow> token) \<Rightarrow> nat \<Rightarrow> nat \<Rightarrow> job \<Rightarrow> pydict list" where
  "job_results v tk i 0 j = jb_results j"
| "job_results v tk i (Suc n) j = (case job_step v (tk i) j of None \<Rightarrow> jb_results j | Some j' \<Rightarrow> job_results v tk (Suc i) n j')"

lemma domain_loop_prefix:
  "domain_loop name fn tk i ds acc =
     (acc @ map (the \<circ> run_domain name fn) (take (undisturbed name fn tk i ds) ds), undisturbed name fn tk i ds < length ds)"
  by (induction name fn tk i ds acc rule: domain_loop.induct)
    (auto simp: undisturbed_def checkpoint_def is_yield_requested_def split: option.splits)

lemma job_results_loop:
  "te_lookup v (jb_name j) = Some fn \<Longrightarrow> jb_todo j = Some ds \<Longrightarrow> length ds < n \<Longrightarrow>
     job_results v tk i n j = fst (domain_loop (jb_name j) fn tk i ds (jb_results j))"
proof (induction ds arbitrary: i j n)
  case Nil
  then show ?case by (cases n) (auto simp: job_step_def)
next
  case (Cons d ds)
  then obtain m where n: "n = Suc m" "length ds < m" by (cases n) auto
  show ?case
  proof (cases "checkpoint (tk i)")
    case (Inr u)
    show ?thesis
    proof (cases "run_domain (jb_name j) fn d")
      case (Some r)
      then show ?thesis
        using Cons.IH [of "j\<lparr>jb_todo := Some ds, jb_results := jb_results j @ [r]\<rparr>" m "Suc i"] Cons.prems n Inr
        by (simp add: job_step_def)
    qed (use Cons.prems n Inr in \<open>simp add: job_step_def\<close>)
  qed (use Cons.prems n in \<open>simp add: job_step_def\<close>)
qed

text \<open>C39: the adapter does exactly the domains before the first one at which it finds a yield request or the task
  preempts itself, in order, and reports preemption exactly if it left domains out; and the interleaved steps of a
  dispatched task, as many as there are domains, build the same results as the whole loop.\<close>

theorem adapter_runs_undisturbed_prefix:
  fixes tk :: "nat \<Rightarrow> token"
  assumes "lookup name = Some fn" "load_domains loader = Inr ds"
  defines "k \<equiv> undisturbed name fn tk 0 ds"
  shows "run_task_preemptible lookup loader name tk = Inr \<lparr>tr_task = name,
      tr_results = map (the \<circ> run_domain name fn) (take k ds), tr_preempted = (k < length ds), tr_completed = k,
      tr_total = length ds, tr_error = None\<rparr>
    \<and> job_results \<lparr>te_lookup = lookup, te_loader = loader\<rparr> tk 0 (Suc (length ds)) \<lparr>jb_name = name, jb_todo = Some ds, jb_results = []\<rparr>
        = map (the \<circ> run_domain name fn) (take k ds)"
proof -
  have "k \<le> length ds" using length_takeWhile_le by (metis k_def undisturbed_def length_enumerate)
  moreover have "job_results \<lparr>te_lookup = lookup, te_loader = loader\<rparr> tk 0 (Suc (length ds)) \<lparr>jb_name = name, jb_todo = Some ds, jb_results = []\<rparr>
      = fst (domain_loop name fn tk 0 ds [])"
    using job_results_loop [of "\<lparr>te_lookup = lookup, te_loader = loader\<rparr>" "\<lparr>jb_name = name, jb_todo = Some ds, jb_results = []\<rparr>"
        fn ds "Suc (length ds)" tk 0] assms(1) by (simp del: job_results.simps)
  ultimately show ?thesis
    using assms(1,2) by (simp add: run_task_preemptible_def task_done_def domain_loop_prefix k_def del: job_results.simps)
qed

theorem adapter_runs_undisturbed_prefix_witness:
  "run_task_preemptible (\<lambda>_. Some (\<lambda>_ _. GotTaskResult [])) (Some (Inr [[], [], []])) ''glossary''
     (\<lambda>i. \<lparr>tk_yield = (i = 2)\<rparr>) =
   Inr \<lparr>tr_task = ''glossary'', tr_results = [[], []], tr_preempted = True, tr_completed = 2, tr_total = 3, tr_error = None\<rparr>"
proof -
  have "undisturbed ''glossary'' (\<lambda>_ _. GotTaskResult []) (\<lambda>i. \<lparr>tk_yield = (i = 2)\<rparr>) 0 [[], [], []] = 2"
    by (simp add: undisturbed_def is_yield_requested_def run_domain_def numeral_2_eq_2)
  then show ?thesis
    using adapter_runs_undisturbed_prefix
      [of "\<lambda>_. Some (\<lambda>_ _. GotTaskResult [])" "''glossary''" "\<lambda>_ _. GotTaskResult []" "Some (Inr [[], [], []])" "[[], [], []]"
        "\<lambda>i. \<lparr>tk_yield = (i = 2)\<rparr>"]
    by (simp add: load_domains_def run_domain_def Let_def numeral_2_eq_2)
qed

end
