(* ===== verification/Daemon_Batch.thy ===== *)
theory Daemon_Batch
  imports Py_Values
begin

text \<open>
  Batch runs of the daemon: proposals with their approvals and run reports (\<^verbatim>\<open>daemon/report.py\<close>) and the scheduler
  (\<^verbatim>\<open>daemon/scheduler.py\<close>). The registered tasks, the domain loader, identifiers and the readings of the clocks are
  arguments; the \<open>k\<close>th reading of the monotonic clock in a run is \<open>clock k\<close>.
\<close>

section \<open>Proposals and reports\<close>

record proposal =
  pr_id :: string
  pr_task :: string
  pr_domain :: string
  pr_type :: string
  pr_summary :: string
  pr_detail :: pydict
  pr_status :: string
  pr_required :: "string list"
  pr_approvals :: "(string, string) dict"

definition resolve_approval :: "string \<Rightarrow> string \<Rightarrow> proposal \<Rightarrow> proposal res" where
  "resolve_approval domain decision p =
     (if decision \<notin> {''approved'', ''rejected''} then Inl ValueError
      else let p1 = p\<lparr>pr_approvals := dput domain decision (pr_approvals p)\<rparr> in
        if decision = ''rejected'' then Inr (p1\<lparr>pr_status := ''rejected''\<rparr>)
        else if pr_required p1 \<noteq> [] then
          Inr (p1\<lparr>pr_status := (if list_all (\<lambda>d. dget (pr_approvals p1) d = Some ''approved'') (pr_required p1)
                               then ''approved'' else ''pending'')\<rparr>)
        else Inr (p1\<lparr>pr_status := decision\<rparr>))"

definition proposal_to_dict :: "proposal \<Rightarrow> pydict" where
  "proposal_to_dict p =
     [(''proposal_id'', PStr (pr_id p)), (''task'', PStr (pr_task p)), (''domain_id'', PStr (pr_domain p)),
      (''proposal_type'', PStr (pr_type p)), (''summary'', PStr (pr_summary p)), (''detail'', PDict (pr_detail p)),
      (''status'', PStr (pr_status p))]
     @ (if pr_required p = [] then []
        else [(''required_approvers'', PList (map PStr (pr_required p))),
              (''approvals'', PDict (map (\<lambda>(d, s). (d, PStr s)) (pr_approvals p)))])"

record task_result =
  ts_task :: string
  ts_domain :: pyval
  ts_success :: bool
  ts_duration :: rat
  ts_error :: "string option"
  ts_proposals :: "proposal list"
  ts_metadata :: pydict

definition failed_result :: "string \<Rightarrow> pyval \<Rightarrow> string \<Rightarrow> task_result" where
  "failed_result task domain err = \<lparr>ts_task = task, ts_domain = domain, ts_success = False, ts_duration = 0,
     ts_error = Some err, ts_proposals = [], ts_metadata = []\<rparr>"

record report =
  rp_id :: string
  rp_started :: string
  rp_finished :: "string option"
  rp_triggered_by :: string
  rp_status :: string
  rp_results :: "task_result list"
  rp_total :: nat

definition new_report :: "string \<Rightarrow> string \<Rightarrow> string \<Rightarrow> report" where
  "new_report i now by = \<lparr>rp_id = i, rp_started = now, rp_finished = None, rp_triggered_by = by, rp_status = ''running'',
     rp_results = [], rp_total = 0\<rparr>"

definition finish :: "string \<Rightarrow> report \<Rightarrow> report" where
  "finish now r = r\<lparr>rp_finished := Some now,
     rp_status := (if list_all ts_success (rp_results r) then ''completed'' else ''failed''),
     rp_total := sum_list (map (\<lambda>t. length (ts_proposals t)) (rp_results r))\<rparr>"

section \<open>The scheduler\<close>

datatype batch_outcome = BatchResult task_result | BatchError string

record batch_env =
  be_task :: "string \<Rightarrow> (pyval \<Rightarrow> pyval \<Rightarrow> batch_outcome) option"
  be_cross_names :: "string list"
  be_cross :: "string \<Rightarrow> (pydict list \<Rightarrow> batch_outcome) option"
  be_loader :: "pydict list res option"

record scheduler =
  sc_max_duration :: int
  sc_runs :: "report list"
  sc_current :: "report option"

definition max_history :: nat where "max_history = 50"

definition load_batch_domains :: "pydict list res option \<Rightarrow> string list option \<Rightarrow> pydict list res" where
  "load_batch_domains loader ids =
     (let fallback = [[(''domain_id'', PStr ''default''), (''physics'', PDict [])]] in
      case loader of
        None \<Rightarrow> Inr fallback
      | Some r \<Rightarrow> res_bind r (\<lambda>ds.
          let kept = (case ids of Some (i # is) \<Rightarrow> filter (\<lambda>d. dget_or d ''domain_id'' PNone \<in> PStr ` set (i # is)) ds | _ \<Rightarrow> ds)
          in Inr (if kept = [] then fallback else kept)))"

definition batch_domain :: "string \<Rightarrow> (pyval \<Rightarrow> pyval \<Rightarrow> batch_outcome) \<Rightarrow> pydict \<Rightarrow> task_result" where
  "batch_domain name fn d =
     (let i = dget_or d ''domain_id'' (PStr ''unknown'') in
      case fn i (dget_or d ''physics'' (PDict [])) of BatchResult r \<Rightarrow> r | BatchError e \<Rightarrow> failed_result name i e)"

text \<open>The loop over the tasks, with the clock reading before each; unknown tasks are skipped.\<close>

fun task_loop :: "batch_env \<Rightarrow> (nat \<Rightarrow> rat) \<Rightarrow> rat \<Rightarrow> pydict list \<Rightarrow> string list \<Rightarrow> nat \<Rightarrow> task_result list \<Rightarrow> nat \<times> task_result list" where
  "task_loop v clock deadline ds [] k rs = (k, rs)"
| "task_loop v clock deadline ds (name # names) k rs =
     (if clock k > deadline then (Suc k, rs)
      else task_loop v clock deadline ds names (Suc k)
        (case be_task v name of None \<Rightarrow> rs | Some fn \<Rightarrow> rs @ map (batch_domain name fn) ds))"

fun cross_loop :: "batch_env \<Rightarrow> (nat \<Rightarrow> rat) \<Rightarrow> rat \<Rightarrow> pydict list \<Rightarrow> string list \<Rightarrow> nat \<Rightarrow> task_result list \<Rightarrow> task_result list" where
  "cross_loop v clock deadline ds [] k rs = rs"
| "cross_loop v clock deadline ds (name # names) k rs =
     (if clock k > deadline then rs
      else cross_loop v clock deadline ds names (Suc k)
        (case be_cross v name of
           None \<Rightarrow> rs
         | Some fn \<Rightarrow> rs @ [case fn ds of BatchResult r \<Rightarrow> r | BatchError e \<Rightarrow> failed_result name (PStr ''cross_domain'') e]))"

definition run_batch :: "batch_env \<Rightarrow> (nat \<Rightarrow> rat) \<Rightarrow> int \<Rightarrow> string list \<Rightarrow> string list option \<Rightarrow> pydict list \<Rightarrow> task_result list" where
  "run_batch v clock minutes names ids ds =
     (let deadline = clock 0 + of_int minutes * 60; (k, rs) = task_loop v clock deadline ds names 1 [] in
      if be_cross_names v \<noteq> [] \<and> ids = None \<and> clock k \<le> deadline
      then cross_loop v clock deadline ds (be_cross_names v) (Suc k) rs else rs)"

text \<open>The two critical sections of a run; between them other threads may read, resolve or try to start.\<close>

definition begin_run :: "string \<Rightarrow> report \<Rightarrow> scheduler \<Rightarrow> (report option) \<times> scheduler" where
  "begin_run now r s = (case sc_current s of
      Some _ \<Rightarrow> (Some ((finish now (r\<lparr>rp_status := ''failed''\<rparr>))), s)
    | None \<Rightarrow> (None, s\<lparr>sc_current := Some r\<rparr>))"

definition end_run :: "report \<Rightarrow> scheduler \<Rightarrow> scheduler" where
  "end_run r s = s\<lparr>sc_current := None, sc_runs := take max_history (r # sc_runs s)\<rparr>"

definition execute ::
  "batch_env \<Rightarrow> (nat \<Rightarrow> rat) \<Rightarrow> string \<Rightarrow> report \<Rightarrow> string list \<Rightarrow> string list option \<Rightarrow> scheduler \<Rightarrow> report res \<times> scheduler" where
  "execute v clock now r names ids s = (case begin_run now r s of
      (Some rejected, s1) \<Rightarrow> (Inr rejected, s1)
    | (None, s1) \<Rightarrow> (case load_batch_domains (be_loader v) ids of
        Inl e \<Rightarrow> (Inl e, end_run r s1)
      | Inr ds \<Rightarrow> let r1 = finish now (r\<lparr>rp_results := run_batch v clock (sc_max_duration s) names ids ds\<rparr>)
                 in (Inr r1, end_run r1 s1)))"

text \<open>The reports a caller sees, and the proposals awaiting a decision.\<close>

definition get_report :: "string \<Rightarrow> scheduler \<Rightarrow> report option" where
  "get_report i s = (case sc_current s of
      Some r \<Rightarrow> if rp_id r = i then Some r else find (\<lambda>q. rp_id q = i) (sc_runs s)
    | None \<Rightarrow> find (\<lambda>q. rp_id q = i) (sc_runs s))"

definition all_proposals :: "report list \<Rightarrow> proposal list" where
  "all_proposals runs = concat (map (\<lambda>r. concat (map ts_proposals (rp_results r))) runs)"

definition get_pending_proposals :: "string option \<Rightarrow> scheduler \<Rightarrow> proposal list" where
  "get_pending_proposals domain s =
     filter (\<lambda>p. pr_status p = ''pending'' \<and> (domain = None \<or> domain = Some [] \<or> domain = Some (pr_domain p))) (all_proposals (sc_runs s))"

text \<open>\<open>update_first\<close> changes the first element that \<open>f\<close> accepts.\<close>

fun update_first :: "('a \<Rightarrow> 'a option) \<Rightarrow> 'a list \<Rightarrow> 'a list option" where
  "update_first f [] = None"
| "update_first f (x # xs) = (case f x of Some y \<Rightarrow> Some (y # xs) | None \<Rightarrow> map_option (\<lambda>ys. x # ys) (update_first f xs))"

definition decide_proposal :: "string \<Rightarrow> string option \<Rightarrow> proposal \<Rightarrow> proposal" where
  "decide_proposal action domain p =
     (case domain of
        Some d \<Rightarrow> if pr_required p \<noteq> [] \<and> d \<noteq> []
          then (case resolve_approval d action p of Inr p' \<Rightarrow> p' | Inl _ \<Rightarrow> p) else p\<lparr>pr_status := action\<rparr>
      | None \<Rightarrow> p\<lparr>pr_status := action\<rparr>)"

definition resolve_proposal :: "string \<Rightarrow> string \<Rightarrow> string option \<Rightarrow> scheduler \<Rightarrow> bool \<times> scheduler" where
  "resolve_proposal i action domain s =
     (if action \<notin> {''approved'', ''rejected''} then (False, s)
      else case update_first (\<lambda>r. map_option (\<lambda>ts. r\<lparr>rp_results := ts\<rparr>)
              (update_first (\<lambda>t. map_option (\<lambda>ps. t\<lparr>ts_proposals := ps\<rparr>)
                (update_first (\<lambda>p. if pr_id p = i then Some (decide_proposal action domain p) else None) (ts_proposals t)))
              (rp_results r))) (sc_runs s) of
        None \<Rightarrow> (False, s)
      | Some runs \<Rightarrow> (True, s\<lparr>sc_runs := runs\<rparr>))"

definition new_scheduler :: "int \<Rightarrow> scheduler" where
  "new_scheduler minutes = \<lparr>sc_max_duration = minutes, sc_runs = [], sc_current = None\<rparr>"

section \<open>Facts\<close>

text \<open>A sequence of decisions by domain authorities.\<close>

fun decisions :: "(string \<times> string) list \<Rightarrow> proposal \<Rightarrow> proposal res" where
  "decisions [] p = Inr p"
| "decisions ((d, a) # ds) p = res_bind (resolve_approval d a p) (decisions ds)"

definition valid_decisions :: "(string \<times> string) list \<Rightarrow> bool" where
  "valid_decisions ds \<longleftrightarrow> snd ` set ds \<subseteq> {''approved'', ''rejected''}"

lemma resolve_approval_frame:
  assumes "resolve_approval d a p = Inr p'"
  shows "pr_required p' = pr_required p" "pr_approvals p' = dput d a (pr_approvals p)" "pr_id p' = pr_id p"
  using assms by (auto simp: resolve_approval_def Let_def split: if_splits)

lemma decisions_snoc: "decisions (ds @ [(d, a)]) p = res_bind (decisions ds p) (resolve_approval d a)"
proof (induction ds arbitrary: p)
  case (Cons x ds)
  then show ?case by (cases x; cases "resolve_approval (fst x) (snd x) p") auto
next
  case Nil
  show ?case by (cases "resolve_approval d a p") simp_all
qed

lemma decisions_frame:
  "decisions ds p = Inr p' \<Longrightarrow> pr_required p' = pr_required p
     \<and> (\<forall>d. dget (pr_approvals p') d = (case map_of (rev ds) d of Some a \<Rightarrow> Some a | None \<Rightarrow> dget (pr_approvals p) d))"
proof (induction ds arbitrary: p' rule: rev_induct)
  case (snoc x ds)
  obtain d a where x: "x = (d, a)" by (cases x)
  obtain q where "decisions ds p = Inr q" "resolve_approval d a q = Inr p'"
    using snoc.prems by (auto simp: x decisions_snoc elim!: res_bind_InrE)
  then show ?case using snoc.IH [of q] resolve_approval_frame [of d a q p'] by (auto simp: x)
qed simp

lemma decisions_total: "valid_decisions ds \<Longrightarrow> \<exists>p'. decisions ds p = Inr p'"
proof (induction ds arbitrary: p)
  case (Cons x ds)
  obtain d a where x: "x = (d, a)" by (cases x)
  have a: "a = ''approved'' \<or> a = ''rejected''" using Cons.prems by (auto simp: x valid_decisions_def)
  then have "\<exists>q. resolve_approval d a p = Inr q" by (auto simp: resolve_approval_def Let_def)
  then obtain q where "resolve_approval d a p = Inr q" by blast
  then show ?case using Cons by (simp add: x valid_decisions_def)
qed simp

lemma finish_frame [simp]: "rp_id (finish now r) = rp_id r" "rp_results (finish now r) = rp_results r"
  by (simp_all add: finish_def)

text \<open>The history keeps the most recent runs, newest first.\<close>

lemma end_runs_history:
  "length (sc_runs s) \<le> max_history \<Longrightarrow> sc_runs (fold end_run rs s) = take max_history (rev rs @ sc_runs s)"
proof (induction rs arbitrary: s)
  case (Cons r rs)
  have "sc_runs (fold end_run rs (end_run r s)) = take max_history (rev rs @ take max_history (r # sc_runs s))"
    by (subst Cons.IH) (simp_all add: end_run_def)
  then show ?case by (cases "length rs \<le> max_history") (simp_all add: min_def)
qed simp

section \<open>Properties\<close>

text \<open>The status of a proposal that needs several approvers, after any sequence of decisions: rejected exactly if
  the last decision is a rejection, else approved exactly if the latest decision of every required approver is an
  approval, and otherwise pending; so a rejection is undone by the next approval of anyone.\<close>

theorem approvals_decided_by_latest:
  assumes "valid_decisions (ds @ [(d, a)])" "pr_required p \<noteq> []" "pr_approvals p = []"
  shows "\<exists>p'. decisions (ds @ [(d, a)]) p = Inr p' \<and> pr_status p' =
    (if a = ''rejected'' then ''rejected''
     else if \<forall>r \<in> set (pr_required p). map_of (rev (ds @ [(d, a)])) r = Some ''approved'' then ''approved'' else ''pending'')"
proof -
  have v: "valid_decisions ds" "a = ''approved'' \<or> a = ''rejected''" using assms(1) by (auto simp: valid_decisions_def)
  obtain q where q: "decisions ds p = Inr q" using decisions_total [OF v(1)] by blast
  from decisions_frame [OF q] have f: "pr_required q = pr_required p"
    "\<And>r. dget (pr_approvals q) r = map_of (rev ds) r" using assms(3) by (auto split: option.splits)
  have "\<exists>p'. resolve_approval d a q = Inr p' \<and> pr_status p' =
      (if a = ''rejected'' then ''rejected''
       else if \<forall>r \<in> set (pr_required p). map_of (rev (ds @ [(d, a)])) r = Some ''approved'' then ''approved'' else ''pending'')"
    using v(2)
  proof
    assume "a = ''approved''"
    then show ?thesis using assms(2) by (simp add: resolve_approval_def Let_def f list_all_iff)
  qed (simp add: resolve_approval_def)
  then show ?thesis by (simp add: decisions_snoc q)
qed

definition sample_proposal :: proposal where
  "sample_proposal = \<lparr>pr_id = ''p1'', pr_task = ''cross_domain_synthesis'', pr_domain = ''a'', pr_type = ''similarity'', pr_summary = '''',
     pr_detail = [], pr_status = ''pending'', pr_required = [''a'', ''b''], pr_approvals = []\<rparr>"

theorem approvals_decided_by_latest_witness:
  "\<exists>p'. decisions [(''a'', ''rejected''), (''b'', ''approved''), (''a'', ''approved'')] sample_proposal = Inr p'
     \<and> pr_status p' = ''approved''"
  using approvals_decided_by_latest [of "[(''a'', ''rejected''), (''b'', ''approved'')]" "''a''" "''approved''" sample_proposal]
  by (simp add: valid_decisions_def sample_proposal_def)

text \<open>A run asked for while another is in progress does no work and leaves the scheduler as it is, but its report
  says that it is completed, since finishing a report without results overwrites the failure; and the caller who
  keeps its id never finds it.\<close>

theorem overlapping_run_reported_completed:
  assumes "sc_current s = Some r0" "rp_id r \<noteq> rp_id r0" "\<forall>q \<in> set (sc_runs s). rp_id q \<noteq> rp_id r" "rp_results r = []"
  shows "\<exists>r1. execute v clock now r names ids s = (Inr r1, s) \<and> rp_status r1 = ''completed'' \<and> rp_results r1 = []
    \<and> get_report (rp_id r1) s = None"
  using assms by (auto simp: execute_def begin_run_def get_report_def finish_def find_None_iff)

definition busy_scheduler :: scheduler where
  "busy_scheduler = snd (begin_run ''t'' (new_report ''r1'' ''t'' ''scheduler'') (new_scheduler 240))"

definition empty_batch_env :: batch_env where
  "empty_batch_env = \<lparr>be_task = (\<lambda>_. None), be_cross_names = [], be_cross = (\<lambda>_. None), be_loader = None\<rparr>"

theorem overlapping_run_reported_completed_witness:
  "\<exists>r1. execute empty_batch_env (\<lambda>_. 0) ''t'' (new_report ''r2'' ''t'' ''alice'') [] None busy_scheduler = (Inr r1, busy_scheduler)
     \<and> rp_status r1 = ''completed''"
  using overlapping_run_reported_completed [of busy_scheduler "new_report ''r1'' ''t'' ''scheduler''"
      "new_report ''r2'' ''t'' ''alice''" empty_batch_env "\<lambda>_. 0" "''t''" "[]" None]
  by (auto simp: busy_scheduler_def begin_run_def new_scheduler_def new_report_def)

end
