(* ===== verification/Cross_Domain.thy ===== *)
theory Cross_Domain
  imports Py_Values "HOL-Library.Char_ord" "HOL-Library.List_Lexorder" "HOL-Library.Multiset"
begin

text \<open>
  Cross-domain synthesis, \<^verbatim>\<open>daemon/cross_domain.py\<close>: mutual opt-in, the overlap of two glossaries and the greedy
  matching of invariant signatures, over the untyped documents of the domains. A set is a list without
  repetitions; scores are exact, with the displayed score rounded by \<open>rnd\<close>.
\<close>

section \<open>Opt-in\<close>

definition get_opt_in_config :: "pydict \<Rightarrow> pydict option res" where
  "get_opt_in_config physics = (case dget_or physics ''cross_domain_synthesis'' PNone of
      PNone \<Rightarrow> Inr None
    | PDict cfg \<Rightarrow> Inr (if truthy (dget_or cfg ''enabled'' (PBool False)) then Some cfg else None)
    | _ \<Rightarrow> Inl AttributeError)"

definition peers_of :: "pydict \<Rightarrow> pyval" where
  "peers_of cfg = py_or (dget_or cfg ''peer_domains'' PNone) (PList [])"

definition is_mutual_peer :: "pyval \<Rightarrow> pydict \<Rightarrow> pyval \<Rightarrow> pydict \<Rightarrow> bool res" where
  "is_mutual_peer a_id a_physics b_id b_physics =
     res_bind (get_opt_in_config a_physics) (\<lambda>ca.
     res_bind (get_opt_in_config b_physics) (\<lambda>cb.
       case (ca, cb) of
         (Some cfg_a, Some cfg_b) \<Rightarrow>
           res_bind (py_in b_id (peers_of cfg_a)) (\<lambda>x. if x then py_in a_id (peers_of cfg_b) else Inr False)
       | _ \<Rightarrow> Inr False))"

text \<open>A domain, read from its dictionary by subscripts.\<close>

definition domain_of :: "pydict \<Rightarrow> (pyval \<times> pydict) res" where
  "domain_of d = res_bind (py_item (PDict d) ''domain_id'') (\<lambda>i.
     res_bind (py_item (PDict d) ''physics'') (\<lambda>p. case p of PDict e \<Rightarrow> Inr (i, e) | _ \<Rightarrow> Inl AttributeError))"

fun pairs_of :: "'a list \<Rightarrow> ('a \<times> 'a) list" where
  "pairs_of [] = []"
| "pairs_of (x # xs) = map (\<lambda>y. (x, y)) xs @ pairs_of xs"

definition mutual_pair :: "pydict \<times> pydict \<Rightarrow> bool res" where
  "mutual_pair = (\<lambda>(a, b). res_bind (domain_of a) (\<lambda>(i, p). res_bind (domain_of b) (\<lambda>(j, q). is_mutual_peer i p j q)))"

definition filter_mutual_pairs :: "pydict list \<Rightarrow> (pydict \<times> pydict) list res" where
  "filter_mutual_pairs ds = fold_res (\<lambda>p acc. res_bind (mutual_pair p) (\<lambda>b. Inr (if b then acc @ [p] else acc))) (pairs_of ds) []"

section \<open>Glossaries\<close>

definition normalise_term :: "pyval \<Rightarrow> string res" where
  "normalise_term v = (case v of
      PStr s \<Rightarrow> Inr (join_with '' '' (split_ws (length s) (to_lower (strip s)))) | _ \<Rightarrow> Inl AttributeError)"

definition add_term :: "pyval \<Rightarrow> string list \<Rightarrow> string list res" where
  "add_term v acc = res_bind (normalise_term v) (\<lambda>t. Inr (if t = [] then acc else List.insert t acc))"

definition entry_list :: "pyval \<Rightarrow> string \<Rightarrow> pyval list res" where
  "entry_list entry k = res_bind (py_get entry k PNone) (\<lambda>v. py_iter (py_or v (PList [])))"

definition extract_term_set :: "pyval list \<Rightarrow> string list res" where
  "extract_term_set glossary = fold_res (\<lambda>entry acc.
     res_bind (py_get entry ''term'' (PStr '''')) (\<lambda>t.
     res_bind (add_term t acc) (\<lambda>acc1.
     res_bind (entry_list entry ''aliases'') (\<lambda>as. fold_res add_term as acc1)))) glossary []"

definition extract_related_terms :: "pyval list \<Rightarrow> string list res" where
  "extract_related_terms glossary = fold_res (\<lambda>entry acc.
     res_bind (entry_list entry ''related_terms'') (\<lambda>rs. fold_res add_term rs acc)) glossary []"

record glossary_result =
  gr_shared :: "string list"
  gr_related :: "string list"
  gr_count_a :: nat
  gr_count_b :: nat
  gr_score :: rat
  gr_passes :: bool

definition ratio :: "nat \<Rightarrow> nat \<Rightarrow> nat \<Rightarrow> rat" where
  "ratio shared a b = (if a \<noteq> 0 \<and> b \<noteq> 0 then of_nat shared / of_nat (min a b) else 0)"

definition common :: "string list \<Rightarrow> string list \<Rightarrow> string list" where
  "common xs ys = sort (filter (\<lambda>x. x \<in> set ys) xs)"

definition compare_glossaries :: "(rat \<Rightarrow> rat) \<Rightarrow> rat \<Rightarrow> pyval list \<Rightarrow> pyval list \<Rightarrow> glossary_result res" where
  "compare_glossaries rnd min_overlap ga gb =
     res_bind (extract_term_set ga) (\<lambda>ta.
     res_bind (extract_term_set gb) (\<lambda>tb.
     res_bind (extract_related_terms ga) (\<lambda>ra.
     res_bind (extract_related_terms gb) (\<lambda>rb.
       let score = ratio (length (common ta tb)) (length ta) (length tb) in
       Inr \<lparr>gr_shared = common ta tb, gr_related = common ra rb, gr_count_a = length ta, gr_count_b = length tb,
            gr_score = rnd score, gr_passes = (score \<ge> min_overlap)\<rparr>))))"

section \<open>Invariant signatures\<close>

record signature =
  sg_severity :: pyval
  sg_check :: bool
  sg_handled :: bool
  sg_order :: bool
  sg_signal :: bool

definition invariant_signature :: "pydict \<Rightarrow> signature" where
  "invariant_signature i =
     \<lparr>sg_severity = dget_or i ''severity'' (PStr ''''), sg_check = truthy (dget_or i ''check'' PNone),
      sg_handled = truthy (dget_or i ''handled_by'' PNone), sg_order = truthy (dget_or i ''standing_order_on_violation'' PNone),
      sg_signal = truthy (dget_or i ''signal_type'' PNone)\<rparr>"

definition sig_eq :: "signature \<Rightarrow> signature \<Rightarrow> bool" where
  "sig_eq s t \<longleftrightarrow> peq (sg_severity s) (sg_severity t) \<and> sg_check s = sg_check t \<and> sg_handled s = sg_handled t
     \<and> sg_order s = sg_order t \<and> sg_signal s = sg_signal t"

definition signatures :: "string \<Rightarrow> pydict list \<Rightarrow> (pyval \<times> signature) list" where
  "signatures prefix invs =
     map (\<lambda>(n, i). (dget_or i ''id'' (PStr (prefix @ nat_digits n)), invariant_signature i)) (enumerate 0 invs)"

text \<open>The first unused signature that equals; testing an unhashable id for membership raises.\<close>

fun find_unused :: "pyval list \<Rightarrow> signature \<Rightarrow> (pyval \<times> signature) list \<Rightarrow> pyval option res" where
  "find_unused used s [] = Inr None"
| "find_unused used s ((b, t) # bs) =
     (if \<not> hashable b then Inl TypeError
      else if list_ex (peq b) used then find_unused used s bs
      else if sig_eq s t then Inr (Some b) else find_unused used s bs)"

fun match_loop :: "(pyval \<times> signature) list \<Rightarrow> (pyval \<times> signature) list \<Rightarrow> pyval list \<Rightarrow> (pyval \<times> pyval \<times> signature) list res" where
  "match_loop [] bs used = Inr []"
| "match_loop ((a, s) # as) bs used =
     res_bind (find_unused used s bs) (\<lambda>m. case m of
         None \<Rightarrow> match_loop as bs used
       | Some b \<Rightarrow> res_bind (match_loop as bs (b # used)) (\<lambda>ms. Inr ((a, b, s) # ms)))"

record invariant_result =
  ir_pairs :: "(pyval \<times> pyval \<times> signature) list"
  ir_count_a :: nat
  ir_count_b :: nat
  ir_score :: rat

definition compare_invariant_structures :: "(rat \<Rightarrow> rat) \<Rightarrow> pydict list \<Rightarrow> pydict list \<Rightarrow> invariant_result res" where
  "compare_invariant_structures rnd ia ib =
     res_bind (match_loop (signatures ''inv_a_'' ia) (signatures ''inv_b_'' ib) []) (\<lambda>ms.
       Inr \<lparr>ir_pairs = ms, ir_count_a = length ia, ir_count_b = length ib, ir_score = rnd (ratio (length ms) (length ia) (length ib))\<rparr>)"

section \<open>The two passes\<close>

definition dict_list :: "pyval \<Rightarrow> pydict list res" where
  "dict_list v = res_bind (py_iter v) (map_res (\<lambda>x. case x of PDict d \<Rightarrow> Inr d | _ \<Rightarrow> Inl AttributeError))"

record candidate =
  cd_a :: pyval
  cd_b :: pyval
  cd_glossary :: "glossary_result option"
  cd_invariants :: "invariant_result option"
  cd_is_candidate :: bool

definition shares :: "string \<Rightarrow> pydict \<Rightarrow> pydict \<Rightarrow> bool" where
  "shares k ca cb \<longleftrightarrow> truthy (dget_or ca k (PBool True)) \<and> truthy (dget_or cb k (PBool True))"

definition glossary_pass :: "(rat \<Rightarrow> rat) \<Rightarrow> rat \<Rightarrow> pydict \<Rightarrow> pydict \<Rightarrow> pydict \<Rightarrow> pydict \<Rightarrow> glossary_result option res" where
  "glossary_pass rnd min_overlap ca cb pa pb =
     (let ga = py_or (dget_or pa ''glossary'' PNone) (PList []); gb = py_or (dget_or pb ''glossary'' PNone) (PList []) in
      if shares ''share_glossary'' ca cb \<and> truthy ga \<and> truthy gb
      then res_bind (py_iter ga) (\<lambda>as. res_bind (py_iter gb) (\<lambda>bs. res_bind (compare_glossaries rnd min_overlap as bs) (\<lambda>r. Inr (Some r))))
      else Inr None)"

definition invariant_pass :: "(rat \<Rightarrow> rat) \<Rightarrow> pydict \<Rightarrow> pydict \<Rightarrow> pydict \<Rightarrow> pydict \<Rightarrow> invariant_result option res" where
  "invariant_pass rnd ca cb pa pb =
     (let ia = py_or (dget_or pa ''invariants'' PNone) (PList []); ib = py_or (dget_or pb ''invariants'' PNone) (PList []) in
      if shares ''share_invariant_structure'' ca cb \<and> truthy ia \<and> truthy ib
      then res_bind (dict_list ia) (\<lambda>as. res_bind (dict_list ib) (\<lambda>bs. res_bind (compare_invariant_structures rnd as bs) (\<lambda>r. Inr (Some r))))
      else Inr None)"

definition pair_candidate :: "(rat \<Rightarrow> rat) \<Rightarrow> rat \<Rightarrow> pydict \<times> pydict \<Rightarrow> candidate res" where
  "pair_candidate rnd min_overlap = (\<lambda>(a, b).
     res_bind (domain_of a) (\<lambda>(a_id, pa). res_bind (domain_of b) (\<lambda>(b_id, pb).
     res_bind (get_opt_in_config pa) (\<lambda>oa. res_bind (get_opt_in_config pb) (\<lambda>ob.
     let ca = (case oa of Some c \<Rightarrow> c | None \<Rightarrow> []); cb = (case ob of Some c \<Rightarrow> c | None \<Rightarrow> []) in
     res_bind (glossary_pass rnd min_overlap ca cb pa pb) (\<lambda>g.
     res_bind (if g = None \<or> (\<exists>r. g = Some r \<and> gr_passes r) then invariant_pass rnd ca cb pa pb else Inr None) (\<lambda>i.
       Inr \<lparr>cd_a = a_id, cd_b = b_id, cd_glossary = g, cd_invariants = i,
            cd_is_candidate = ((case g of Some r \<Rightarrow> gr_passes r | None \<Rightarrow> False) \<or> (case i of Some r \<Rightarrow> ir_score r > 0 | None \<Rightarrow> False))\<rparr>)))))))"

definition find_synthesis_candidates :: "(rat \<Rightarrow> rat) \<Rightarrow> rat \<Rightarrow> pydict list \<Rightarrow> candidate list res" where
  "find_synthesis_candidates rnd min_overlap ds =
     res_bind (filter_mutual_pairs ds) (map_res (pair_candidate rnd min_overlap))"

section \<open>Facts\<close>

text \<open>The ids and severities of a well-formed document are strings, and no id occurs twice.\<close>

definition plain_sigs :: "(pyval \<times> signature) list \<Rightarrow> bool" where
  "plain_sigs bs \<longleftrightarrow> distinct (map fst bs) \<and> (\<forall>(b, t) \<in> set bs. is_str b \<and> is_str (sg_severity t))"

lemma is_str_iff: "is_str v \<longleftrightarrow> (\<exists>s. v = PStr s)"
  by (cases v) auto

lemma sig_eq_plain: "is_str (sg_severity s) \<Longrightarrow> sig_eq s t \<longleftrightarrow> s = t"
  by (cases s; cases t) (auto simp: sig_eq_def is_str_iff)

lemma plain_sigs_Cons:
  "plain_sigs ((b, t) # bs) \<longleftrightarrow> (\<exists>i. b = PStr i) \<and> (\<exists>v. sg_severity t = PStr v) \<and> b \<notin> fst ` set bs \<and> plain_sigs bs"
  by (auto simp: plain_sigs_def is_str_iff)

text \<open>What is left to match when some ids are used.\<close>

definition unused :: "pyval list \<Rightarrow> (pyval \<times> signature) list \<Rightarrow> (pyval \<times> signature) list" where
  "unused used bs = filter (\<lambda>(b, t). b \<notin> set used) bs"

lemma find_unused_plain:
  assumes "plain_sigs bs" "is_str (sg_severity s)"
  shows "(s \<notin> snd ` set (unused used bs) \<and> find_unused used s bs = Inr None) \<or>
    (\<exists>b. find_unused used s bs = Inr (Some b) \<and> (b, s) \<in> set (unused used bs)
      \<and> mset (map snd (unused used bs)) = add_mset s (mset (map snd (unused (b # used) bs))))"
  using assms(1)
proof (induction bs)
  case Nil
  then show ?case by (simp add: unused_def)
next
  case (Cons p bs)
  obtain b t where p: "p = (b, t)" by (cases p)
  obtain i where b: "b = PStr i" "b \<notin> fst ` set bs" and ok: "plain_sigs bs" using Cons.prems by (auto simp: p plain_sigs_Cons)
  have used: "list_ex (peq b) used \<longleftrightarrow> b \<in> set used" by (auto simp: b list_ex_iff)
  have fresh: "unused (b # used) bs = unused used bs"
    using b(2) by (force simp: unused_def intro: filter_cong)
  from Cons.IH [OF ok] show ?case
  proof (cases "b \<notin> set used \<and> s = t")
    case True
    then show ?thesis using assms(2) used fresh by (simp add: p sig_eq_plain b(1)) (simp add: unused_def)
  next
    case False
    from Cons.IH [OF ok] show ?thesis
    proof (elim disjE exE conjE)
      assume "s \<notin> snd ` set (unused used bs)" "find_unused used s bs = Inr None"
      then show ?thesis using False assms(2) used by (auto simp: p sig_eq_plain b(1) unused_def)
    next
      fix b' assume f: "find_unused used s bs = Inr (Some b')" "(b', s) \<in> set (unused used bs)"
        "mset (map snd (unused used bs)) = add_mset s (mset (map snd (unused (b' # used) bs)))"
      from f(2) b(2) have "b' \<noteq> b" by (force simp: unused_def)
      then show ?thesis using False assms(2) used f by (auto simp: p sig_eq_plain b(1) unused_def)
    qed
  qed
qed

lemma match_loop_size:
  assumes "plain_sigs bs" "\<forall>(a, s) \<in> set as. is_str (sg_severity s)"
  shows "\<exists>ms. match_loop as bs used = Inr ms \<and> length ms = size (mset (map snd as) \<inter># mset (map snd (unused used bs)))"
  using assms(2)
proof (induction as arbitrary: used)
  case (Cons p as)
  obtain a s where p: "p = (a, s)" by (cases p)
  have s: "is_str (sg_severity s)" and as: "\<forall>(a, s) \<in> set as. is_str (sg_severity s)" using Cons.prems by (auto simp: p)
  from find_unused_plain [OF assms(1) s, of used] show ?case
  proof (elim disjE exE conjE)
    assume "s \<notin> snd ` set (unused used bs)" "find_unused used s bs = Inr None"
    then show ?thesis using Cons.IH [OF as, of used] by (auto simp: p inter_add_left1 image_iff)
  next
    fix b assume "find_unused used s bs = Inr (Some b)"
      "mset (map snd (unused used bs)) = add_mset s (mset (map snd (unused (b # used) bs)))"
    then show ?thesis using Cons.IH [OF as, of "b # used"] by (auto simp: p)
  qed
qed simp

definition plain_invariants :: "pydict list \<Rightarrow> bool" where
  "plain_invariants invs \<longleftrightarrow> distinct (map (\<lambda>i. dget i ''id'') invs)
     \<and> (\<forall>i \<in> set invs. (\<exists>s. dget i ''id'' = Some (PStr s)) \<and> is_str (dget_or i ''severity'' (PStr '''')))"

lemma plain_signatures: "plain_invariants invs \<Longrightarrow> plain_sigs (signatures prefix invs)"
proof -
  assume p: "plain_invariants invs"
  have ids: "map fst (signatures prefix invs) = map (\<lambda>i. the (dget i ''id'')) invs"
  proof (intro nth_equalityI)
    fix n assume "n < length (map fst (signatures prefix invs))"
    then have n: "n < length invs" by (simp add: signatures_def)
    then obtain s where "dget (invs ! n) ''id'' = Some (PStr s)" using p by (auto simp: plain_invariants_def dest: nth_mem)
    then show "map fst (signatures prefix invs) ! n = map (\<lambda>i. the (dget i ''id'')) invs ! n"
      using n by (simp add: signatures_def nth_enumerate_eq dget_or_def)
  qed (simp add: signatures_def)
  have "distinct (map (\<lambda>i. the (dget i ''id'')) invs)"
    using p unfolding plain_invariants_def distinct_map inj_on_def by (metis option.sel)
  moreover have "is_str b \<and> is_str (sg_severity t)" if bt: "(b, t) \<in> set (signatures prefix invs)" for b t
  proof -
    from bt obtain n i where "(n, i) \<in> set (enumerate 0 invs)" "b = dget_or i ''id'' (PStr (prefix @ nat_digits n))" "t = invariant_signature i"
      by (auto simp: signatures_def)
    moreover then have "i \<in> set invs" by (auto simp: enumerate_eq_zip dest: set_zip_rightD)
    ultimately show ?thesis using p by (auto simp: plain_invariants_def invariant_signature_def dget_or_def)
  qed
  ultimately show ?thesis unfolding plain_sigs_def ids by blast
qed

lemma signatures_snd: "map snd (signatures prefix invs) = map invariant_signature invs"
  by (auto simp: signatures_def nth_enumerate_eq intro!: nth_equalityI)

section \<open>Properties\<close>

text \<open>On well-formed invariants the greedy matching is optimal: it never raises, and the number of matched pairs
  is the size of the multiset intersection of the two lists of signatures; so the score does not depend on the
  order of the invariants, nor on which domain comes first.\<close>

theorem greedy_match_is_intersection:
  assumes "plain_invariants ia" "plain_invariants ib"
  shows "\<exists>r r'. compare_invariant_structures rnd ia ib = Inr r \<and> compare_invariant_structures rnd ib ia = Inr r'
    \<and> length (ir_pairs r) = size (mset (map invariant_signature ia) \<inter># mset (map invariant_signature ib))
    \<and> ir_score r = rnd (ratio (length (ir_pairs r)) (length ia) (length ib)) \<and> ir_score r' = ir_score r"
proof -
  have "\<exists>ms. match_loop (signatures pa xs) (signatures pb ys) [] = Inr ms
      \<and> length ms = size (mset (map invariant_signature xs) \<inter># mset (map invariant_signature ys))"
    if "plain_invariants xs" "plain_invariants ys" for pa pb xs ys
    using match_loop_size [OF plain_signatures [OF that(2), of pb], of "signatures pa xs" "[]"] plain_signatures [OF that(1), of pa]
    by (auto simp: plain_sigs_def unused_def signatures_snd)
  note match = this
  obtain ms where m: "match_loop (signatures ''inv_a_'' ia) (signatures ''inv_b_'' ib) [] = Inr ms"
      "length ms = size (mset (map invariant_signature ia) \<inter># mset (map invariant_signature ib))"
    using match [OF assms] by blast
  obtain ms' where m': "match_loop (signatures ''inv_a_'' ib) (signatures ''inv_b_'' ia) [] = Inr ms'"
      "length ms' = size (mset (map invariant_signature ib) \<inter># mset (map invariant_signature ia))"
    using match [OF assms(2,1)] by blast
  have eq: "length ms' = length ms" unfolding m(2) m'(2) by (subst subset_mset.inf_commute) (rule refl)
  have "ratio (length ms) (length ib) (length ia) = ratio (length ms) (length ia) (length ib)"
    by (simp add: ratio_def min.commute)
  then show ?thesis by (simp add: compare_invariant_structures_def m(1) m'(1) eq) (simp add: m(2))
qed

theorem greedy_match_is_intersection_witness:
  "\<exists>r. compare_invariant_structures (\<lambda>q. q)
      [[(''id'', PStr ''x''), (''severity'', PStr ''critical'')], [(''id'', PStr ''y''), (''severity'', PStr ''warning'')]]
      [[(''id'', PStr ''z''), (''severity'', PStr ''warning'')]] = Inr r \<and> length (ir_pairs r) = 1"
proof -
  have "size (mset (map invariant_signature [[(''id'', PStr ''x''), (''severity'', PStr ''critical'')], [(''id'', PStr ''y''), (''severity'', PStr ''warning'')]])
      \<inter># mset (map invariant_signature [[(''id'', PStr ''z''), (''severity'', PStr ''warning'')]])) = 1"
    by (simp add: invariant_signature_def dget_or_def inter_add_left1 inter_add_left2)
  then show ?thesis
    using greedy_match_is_intersection
      [of "[[(''id'', PStr ''x''), (''severity'', PStr ''critical'')], [(''id'', PStr ''y''), (''severity'', PStr ''warning'')]]"
        "[[(''id'', PStr ''z''), (''severity'', PStr ''warning'')]]" "\<lambda>q. q"]
    by (auto simp: plain_invariants_def dget_or_def)
qed

end
