(* ===== verification/Command_Schema.thy ===== *)
theory Command_Schema
  imports Py_Values "HOL-Library.Char_ord" "HOL-Library.List_Lexorder"
begin

text \<open>
  Default-deny validation of administrative commands, \<^verbatim>\<open>middleware/command_schema_registry.py\<close>: the registry and its
  loading, and the validator over the untyped schemas read from JSON. The files of the schema directory are an
  argument, sorted, each with its stem and what it parses to, \<open>None\<close> where reading or parsing fails. Violations are
  kept as data; the code renders them as text. The set of required keys is its list without repetitions.
\<close>

section \<open>The registry\<close>

record registry =
  rg_schemas :: "(string, pydict) dict"
  rg_loaded :: bool

definition new_registry :: registry where "new_registry = \<lparr>rg_schemas = [], rg_loaded = False\<rparr>"

definition stem_operation :: "string \<Rightarrow> string" where
  "stem_operation stem = map (\<lambda>c. if c = CHR ''-'' then CHR ''_'' else c) stem"

text \<open>The operation name is the title, or the stem; a title that is no string is kept as a key no operation
  name equals, which the model drops.\<close>

definition load_file :: "string \<times> pyval option \<Rightarrow> (string, pydict) dict \<Rightarrow> (string, pydict) dict res" where
  "load_file f schemas = (case snd f of
      None \<Rightarrow> Inr schemas
    | Some (PDict d) \<Rightarrow> (let title = dget_or d ''title'' PNone in
        if \<not> truthy title then Inr (dput (stem_operation (fst f)) d schemas)
        else case title of
          PStr t \<Rightarrow> Inr (dput t d schemas)
        | _ \<Rightarrow> if hashable title then Inr schemas else Inl TypeError)
    | Some _ \<Rightarrow> Inl AttributeError)"

definition reload :: "(string \<times> pyval option) list option \<Rightarrow> registry \<Rightarrow> registry res" where
  "reload dir r = (case dir of
      None \<Rightarrow> Inr \<lparr>rg_schemas = [], rg_loaded = True\<rparr>
    | Some files \<Rightarrow> res_bind (fold_res load_file files []) (\<lambda>s. Inr \<lparr>rg_schemas = s, rg_loaded = True\<rparr>))"

definition ensure_loaded :: "(string \<times> pyval option) list option \<Rightarrow> registry \<Rightarrow> registry res" where
  "ensure_loaded dir r = (if rg_loaded r then Inr r else reload dir r)"

definition list_operations :: "(string \<times> pyval option) list option \<Rightarrow> registry \<Rightarrow> string list res" where
  "list_operations dir r = res_bind (ensure_loaded dir r) (\<lambda>r1. Inr (dkeys (rg_schemas r1)))"

definition get_schema :: "(string \<times> pyval option) list option \<Rightarrow> registry \<Rightarrow> string \<Rightarrow> pydict option res" where
  "get_schema dir r operation = res_bind (ensure_loaded dir r) (\<lambda>r1. Inr (dget (rg_schemas r1) operation))"

section \<open>The validator\<close>

datatype violation =
    UnknownOperation | ExpectedObject string | RequiredMissing string pyval | UnexpectedField string
  | WrongType string | ConstMismatch string | EnumMismatch string | TooShort string | TooLong string

definition type_matches :: "pyval \<Rightarrow> pyval \<Rightarrow> bool res" where
  "type_matches v expected =
     (if \<not> hashable expected then Inl TypeError
      else Inr (case expected of
          PStr t \<Rightarrow>
            (if t = ''string'' then is_str v
             else if t = ''integer'' then is_int v \<and> \<not> is_bool v
             else if t = ''number'' then (is_int v \<or> is_float v) \<and> \<not> is_bool v
             else if t = ''boolean'' then is_bool v
             else if t = ''array'' then is_list v
             else if t = ''object'' then is_dict v else True)
        | _ \<Rightarrow> True))"

text \<open>One bound on the length of a string: a limit that is no number raises in the comparison.\<close>

definition length_check :: "cmpop \<Rightarrow> pydict \<Rightarrow> string \<Rightarrow> string \<Rightarrow> violation \<Rightarrow> violation list res" where
  "length_check op schema k s viol = (case dget schema k of
      None \<Rightarrow> Inr []
    | Some bound \<Rightarrow> res_bind (py_ord op (PInt (int (length s))) bound) (\<lambda>b. Inr (if b then [viol] else [])))"

definition scalar_checks :: "pyval \<Rightarrow> pydict \<Rightarrow> string \<Rightarrow> violation list res" where
  "scalar_checks v schema path =
     res_bind (case dget schema ''const'' of None \<Rightarrow> Inr [] | Some c \<Rightarrow> Inr (if peq v c then [] else [ConstMismatch path])) (\<lambda>vc.
     res_bind (case dget schema ''enum'' of
         None \<Rightarrow> Inr []
       | Some e \<Rightarrow> res_bind (py_in v e) (\<lambda>b. Inr (if b then [] else [EnumMismatch path]))) (\<lambda>ve.
     res_bind (case v of PStr s \<Rightarrow> length_check OpLt schema ''minLength'' s (TooShort path) | _ \<Rightarrow> Inr []) (\<lambda>vmin.
     res_bind (case v of PStr s \<Rightarrow> length_check OpGt schema ''maxLength'' s (TooLong path) | _ \<Rightarrow> Inr []) (\<lambda>vmax.
       Inr (vc @ ve @ vmin @ vmax)))))"

definition required_keys :: "pydict \<Rightarrow> pyval list res" where
  "required_keys schema = res_bind (py_iter (dget_or schema ''required'' (PList []))) (\<lambda>vs.
     if list_all hashable vs then Inr (remdups vs) else Inl TypeError)"

definition missing_keys :: "pyval list \<Rightarrow> pydict \<Rightarrow> string \<Rightarrow> violation list" where
  "missing_keys required d path =
     map (RequiredMissing path) (filter (\<lambda>v. case v of PStr k \<Rightarrow> \<not> dhas d k | _ \<Rightarrow> True) required)"

definition extra_keys :: "pydict \<Rightarrow> pydict \<Rightarrow> string \<Rightarrow> violation list res" where
  "extra_keys sd d path =
     (if dget sd ''additionalProperties'' \<noteq> Some (PBool False) then Inr []
      else res_bind (py_iter (dget_or sd ''properties'' (PDict []))) (\<lambda>ps.
        if \<not> list_all hashable ps then Inl TypeError
        else Inr (map (\<lambda>k. UnexpectedField (path @ ''.'' @ k)) (sort (filter (\<lambda>k. PStr k \<notin> set ps) (dkeys d))))))"

lemma size_dget: "dget d k = Some v \<Longrightarrow> size v < size (PDict d)"
  by (induction d) (auto split: if_splits)

lemmas size_dget' = size_dget [simplified]

lemma size_dict_pos: "dget d k = Some v \<Longrightarrow> 0 < size_list (size_prod (\<lambda>_. 0) size) d"
  by (cases d) auto

function validate_value :: "pyval \<Rightarrow> pyval \<Rightarrow> string \<Rightarrow> violation list res"
  and validate_object :: "pyval \<Rightarrow> pydict \<Rightarrow> string \<Rightarrow> violation list res"
  and validate_props :: "pydict \<Rightarrow> pyval list \<Rightarrow> pydict \<Rightarrow> string \<Rightarrow> violation list res"
  and validate_items :: "pyval list \<Rightarrow> pyval \<Rightarrow> string \<Rightarrow> nat \<Rightarrow> violation list res" where
  "validate_value v schema path = (case schema of
      PDict sd \<Rightarrow>
        let expected = dget_or sd ''type'' PNone in
        res_bind (if expected = PNone then Inr True else type_matches v expected) (\<lambda>ok.
        if \<not> ok then Inr [WrongType path]
        else res_bind (scalar_checks v sd path) (\<lambda>vs.
          res_bind (if expected = PStr ''object'' \<and> is_dict v then validate_object v sd path else Inr []) (\<lambda>vo.
          res_bind (case v of
              PList xs \<Rightarrow> if expected = PStr ''array'' then validate_items xs (dget_or sd ''items'' (PDict [])) path 0 else Inr []
            | _ \<Rightarrow> Inr []) (\<lambda>va. Inr (vs @ vo @ va)))))
    | _ \<Rightarrow> Inl AttributeError)"
| "validate_object v sd path = (case v of
      PDict d \<Rightarrow>
        res_bind (required_keys sd) (\<lambda>required.
        res_bind (extra_keys sd d path) (\<lambda>extra.
        case dget_or sd ''properties'' (PDict []) of
          PDict ps \<Rightarrow> res_bind (validate_props d required ps path) (\<lambda>vs. Inr (missing_keys required d path @ extra @ vs))
        | _ \<Rightarrow> Inl AttributeError))
    | _ \<Rightarrow> Inr (if dget sd ''type'' = Some (PStr ''object'') then [ExpectedObject path] else []))"
| "validate_props d required [] path = Inr []"
| "validate_props d required ((k, ps) # props) path =
     res_bind (case dget d k of
         None \<Rightarrow> Inr []
       | Some v \<Rightarrow> if v = PNone \<and> PStr k \<notin> set required then Inr [] else validate_value v ps (path @ ''.'' @ k)) (\<lambda>vs.
     res_bind (validate_props d required props path) (\<lambda>ws. Inr (vs @ ws)))"
| "validate_items [] schema path i = Inr []"
| "validate_items (x # xs) schema path i =
     res_bind (validate_value x schema (path @ ''['' @ nat_digits i @ '']'')) (\<lambda>vs.
     res_bind (validate_items xs schema path (Suc i)) (\<lambda>ws. Inr (vs @ ws)))"
  by pat_completeness auto

termination
proof (relation "measures [\<lambda>x. case x of
      Inl (Inl (v, s, p)) \<Rightarrow> size s | Inl (Inr (v, sd, p)) \<Rightarrow> size (PDict sd)
    | Inr (Inl (d, r, ps, p)) \<Rightarrow> size (PDict ps) | Inr (Inr (xs, s, p, i)) \<Rightarrow> size s,
    \<lambda>x. case x of Inl (Inl _) \<Rightarrow> 2 | Inl (Inr _) \<Rightarrow> 1 | Inr (Inl _) \<Rightarrow> 0 | Inr (Inr _) \<Rightarrow> 3,
    \<lambda>x. case x of Inr (Inr (xs, s, p, i)) \<Rightarrow> length xs | _ \<Rightarrow> 0]", goal_cases)
  case 3
  then show ?case by (auto simp: dget_or_def size_dget' intro: size_dict_pos split: option.splits)
next
  case 4
  then show ?case by (auto simp: dget_or_def dest: size_dget' split: option.splits)
qed (auto simp: less_Suc_eq_le)

declare validate_value.simps [simp del] validate_object.simps [simp del]

definition validate_command ::
  "(string \<times> pyval option) list option \<Rightarrow> registry \<Rightarrow> string \<Rightarrow> pyval \<Rightarrow> (bool \<times> violation list) res" where
  "validate_command dir r operation params =
     res_bind (ensure_loaded dir r) (\<lambda>r1.
       case dget (rg_schemas r1) operation of
         None \<Rightarrow> Inr (False, [UnknownOperation])
       | Some schema \<Rightarrow>
           res_bind (py_get (py_or (dget_or schema ''properties'' PNone) (PDict [])) ''params'' (PDict [])) (\<lambda>ps. case ps of
             PDict sd \<Rightarrow> res_bind (validate_object (if params = PNone then PDict [] else params) sd ''params'') (\<lambda>vs. Inr (vs = [], vs))
           | _ \<Rightarrow> Inl AttributeError))"

section \<open>A reference reading of the schemas\<close>

text \<open>A schema as the supported subset of the standard has it, its JSON form, and what it asks of a value.\<close>

datatype jschema = JSchema
  (js_type: "string option") (js_const: "pyval option") (js_enum: "pyval list option") (js_min: "int option")
  (js_max: "int option") (js_required: "string list option") (js_closed: bool)
  (js_props: "(string \<times> jschema) list option") (js_items: "jschema option")

definition entry :: "string \<Rightarrow> pyval option \<Rightarrow> pydict" where
  "entry k v = (case v of None \<Rightarrow> [] | Some w \<Rightarrow> [(k, w)])"

primrec encode :: "jschema \<Rightarrow> pyval" where
  "encode (JSchema t c e lo hi req cl ps items) = PDict
     (entry ''type'' (map_option PStr t) @ entry ''const'' c @ entry ''enum'' (map_option PList e)
      @ entry ''minLength'' (map_option PInt lo) @ entry ''maxLength'' (map_option PInt hi)
      @ entry ''required'' (map_option (\<lambda>ks. PList (map PStr ks)) req)
      @ entry ''additionalProperties'' (if cl then Some (PBool False) else None)
      @ entry ''properties'' (map_option PDict (map_option (map (map_prod id encode)) ps))
      @ entry ''items'' (map_option encode items))"

definition has_type :: "string option \<Rightarrow> pyval \<Rightarrow> bool" where
  "has_type t v \<longleftrightarrow> (t = Some ''string'' \<longrightarrow> is_str v) \<and> (t = Some ''integer'' \<longrightarrow> is_int v \<and> \<not> is_bool v)
     \<and> (t = Some ''number'' \<longrightarrow> (is_int v \<or> is_float v) \<and> \<not> is_bool v) \<and> (t = Some ''boolean'' \<longrightarrow> is_bool v)
     \<and> (t = Some ''array'' \<longrightarrow> is_list v) \<and> (t = Some ''object'' \<longrightarrow> is_dict v)"

text \<open>The keys of an object: the required ones are there and, if the schema is closed, no other than the
  properties.\<close>

definition keys_conform :: "string list \<Rightarrow> bool \<Rightarrow> string set \<Rightarrow> pyval \<Rightarrow> bool" where
  "keys_conform req cl allowed v \<longleftrightarrow>
     (\<forall>d. v = PDict d \<longrightarrow> (\<forall>k \<in> set req. dhas d k) \<and> (cl \<longrightarrow> set (dkeys d) \<subseteq> allowed))"

definition scalar_conform :: "jschema \<Rightarrow> pyval \<Rightarrow> bool" where
  "scalar_conform s v \<longleftrightarrow> has_type (js_type s) v
     \<and> (\<forall>c. js_const s = Some c \<longrightarrow> peq v c) \<and> (\<forall>e. js_enum s = Some e \<longrightarrow> (\<exists>w \<in> set e. peq v w))
     \<and> (\<forall>t lo. v = PStr t \<and> js_min s = Some lo \<longrightarrow> lo \<le> int (length t))
     \<and> (\<forall>t hi. v = PStr t \<and> js_max s = Some hi \<longrightarrow> int (length t) \<le> hi)"

definition opt_elems :: "'a list option \<Rightarrow> 'a list" where
  "opt_elems xs = (case xs of None \<Rightarrow> [] | Some ys \<Rightarrow> ys)"

text \<open>The properties present in an object conform; an optional one may be null.\<close>

primrec conforms :: "jschema \<Rightarrow> pyval \<Rightarrow> bool" where
  "conforms (JSchema t c e lo hi req cl ps items) v \<longleftrightarrow>
     scalar_conform (JSchema t c e lo hi req cl ps items) v
     \<and> (t = Some ''object'' \<longrightarrow> keys_conform (opt_elems req) cl (fst ` set (opt_elems ps)) v
          \<and> (\<forall>(k, test) \<in> set (opt_elems (map_option (map (map_prod id conforms)) ps)). \<forall>d w. v = PDict d \<and> dget d k = Some w \<longrightarrow>
               (w = PNone \<and> k \<notin> set (opt_elems req)) \<or> test w))
     \<and> (t = Some ''array'' \<longrightarrow> (\<forall>xs test. v = PList xs \<and> map_option conforms items = Some test \<longrightarrow> (\<forall>x \<in> set xs. test x)))"

section \<open>Facts\<close>

definition enc_dict :: "jschema \<Rightarrow> pydict" where
  "enc_dict s = entry ''type'' (map_option PStr (js_type s)) @ entry ''const'' (js_const s)
     @ entry ''enum'' (map_option PList (js_enum s))
     @ entry ''minLength'' (map_option PInt (js_min s)) @ entry ''maxLength'' (map_option PInt (js_max s))
     @ entry ''required'' (map_option (\<lambda>ks. PList (map PStr ks)) (js_required s))
     @ entry ''additionalProperties'' (if js_closed s then Some (PBool False) else None)
     @ entry ''properties'' (map_option PDict (map_option (map (map_prod (\<lambda>x. x) encode)) (js_props s)))
     @ entry ''items'' (map_option encode (js_items s))"

lemma encode_enc_dict: "encode s = PDict (enc_dict s)"
  by (cases s) (simp only: encode.simps enc_dict_def jschema.sel id_def)

lemma dget_entry [simp]:
  "j \<noteq> k \<Longrightarrow> dget (entry k v @ d) j = dget d j" "j \<noteq> k \<Longrightarrow> dget (entry k v) j = None" "dget (entry k v) k = v"
  "dget d k = None \<Longrightarrow> dget (entry k v @ d) k = v"
  by (auto simp: entry_def split: option.split)

lemma enc_get [simp]:
  "dget (enc_dict s) ''type'' = map_option PStr (js_type s)"
  "dget (enc_dict s) ''const'' = js_const s"
  "dget (enc_dict s) ''enum'' = map_option PList (js_enum s)"
  "dget (enc_dict s) ''minLength'' = map_option PInt (js_min s)"
  "dget (enc_dict s) ''maxLength'' = map_option PInt (js_max s)"
  "dget (enc_dict s) ''required'' = map_option (\<lambda>ks. PList (map PStr ks)) (js_required s)"
  "dget (enc_dict s) ''additionalProperties'' = (if js_closed s then Some (PBool False) else None)"
  "dget (enc_dict s) ''properties'' = map_option PDict (map_option (map (map_prod (\<lambda>x. x) encode)) (js_props s))"
  "dget (enc_dict s) ''items'' = map_option encode (js_items s)"
  by (simp_all only: enc_dict_def dget_entry list.inject char.inject simp_thms list.distinct not_False_eq_True)

lemma type_matches_has: "js_type s = Some t \<Longrightarrow> type_matches v (PStr t) = Inr (has_type (js_type s) v)"
  by (auto simp: type_matches_def has_type_def)

lemma scalar_checks_enc:
  "\<exists>vs. scalar_checks v (enc_dict s) path = Inr vs \<and> (has_type (js_type s) v \<longrightarrow> (vs = [] \<longleftrightarrow> scalar_conform s v))"
proof -
  have const: "\<exists>vs. (case dget (enc_dict s) ''const'' of None \<Rightarrow> Inr [] | Some c \<Rightarrow> Inr (if peq v c then [] else [ConstMismatch path])) = (Inr vs :: violation list res)
      \<and> (vs = [] \<longleftrightarrow> (\<forall>c. js_const s = Some c \<longrightarrow> peq v c))"
    by (cases "js_const s") auto
  have enum: "\<exists>vs. (case dget (enc_dict s) ''enum'' of None \<Rightarrow> Inr []
        | Some e \<Rightarrow> res_bind (py_in v e) (\<lambda>b. Inr (if b then [] else [EnumMismatch path]))) = (Inr vs :: violation list res)
      \<and> (vs = [] \<longleftrightarrow> (\<forall>e. js_enum s = Some e \<longrightarrow> (\<exists>w \<in> set e. peq v w)))"
    by (cases "js_enum s") (auto simp: list_ex_iff)
  have lo: "\<exists>vs. (case v of PStr t \<Rightarrow> length_check OpLt (enc_dict s) ''minLength'' t (TooShort path) | _ \<Rightarrow> Inr []) = Inr vs
      \<and> (vs = [] \<longleftrightarrow> (\<forall>t lo. v = PStr t \<and> js_min s = Some lo \<longrightarrow> lo \<le> int (length t)))"
    by (cases v; cases "js_min s") (auto simp: length_check_def fcmp_def not_less)
  have hi: "\<exists>vs. (case v of PStr t \<Rightarrow> length_check OpGt (enc_dict s) ''maxLength'' t (TooLong path) | _ \<Rightarrow> Inr []) = Inr vs
      \<and> (vs = [] \<longleftrightarrow> (\<forall>t hi. v = PStr t \<and> js_max s = Some hi \<longrightarrow> int (length t) \<le> hi))"
    by (cases v; cases "js_max s") (auto simp: length_check_def fcmp_def not_less)
  obtain v1 v2 v3 v4 where
    "(case dget (enc_dict s) ''const'' of None \<Rightarrow> Inr [] | Some c \<Rightarrow> Inr (if peq v c then [] else [ConstMismatch path])) = (Inr v1 :: violation list res)"
    "(case dget (enc_dict s) ''enum'' of None \<Rightarrow> Inr []
        | Some e \<Rightarrow> res_bind (py_in v e) (\<lambda>b. Inr (if b then [] else [EnumMismatch path]))) = (Inr v2 :: violation list res)"
    "(case v of PStr t \<Rightarrow> length_check OpLt (enc_dict s) ''minLength'' t (TooShort path) | _ \<Rightarrow> Inr []) = Inr v3"
    "(case v of PStr t \<Rightarrow> length_check OpGt (enc_dict s) ''maxLength'' t (TooLong path) | _ \<Rightarrow> Inr []) = Inr v4"
    and nil: "v1 = [] \<longleftrightarrow> (\<forall>c. js_const s = Some c \<longrightarrow> peq v c)" "v2 = [] \<longleftrightarrow> (\<forall>e. js_enum s = Some e \<longrightarrow> (\<exists>w \<in> set e. peq v w))"
    "v3 = [] \<longleftrightarrow> (\<forall>t lo. v = PStr t \<and> js_min s = Some lo \<longrightarrow> lo \<le> int (length t))"
    "v4 = [] \<longleftrightarrow> (\<forall>t hi. v = PStr t \<and> js_max s = Some hi \<longrightarrow> int (length t) \<le> hi)"
    using const enum lo hi by blast
  then have "scalar_checks v (enc_dict s) path = Inr (v1 @ v2 @ v3 @ v4)"
    unfolding scalar_checks_def by (simp only: res_bind.simps)
  then show ?thesis by (simp add: scalar_conform_def nil)
qed

text \<open>The loops over the properties and over the items, given the validity of the schemas in them.\<close>

abbreviation exact_for :: "jschema \<Rightarrow> bool" where
  "exact_for s \<equiv> (\<forall>v path. \<exists>vs. validate_value v (encode s) path = Inr vs \<and> (vs = [] \<longleftrightarrow> conforms s v))"

lemma validate_props_exact:
  assumes "\<forall>(k, s) \<in> set ps. exact_for s"
  shows "\<exists>vs. validate_props d required (map (map_prod (\<lambda>x. x) encode) ps) path = Inr vs
    \<and> (vs = [] \<longleftrightarrow> (\<forall>(k, s) \<in> set ps. \<forall>w. dget d k = Some w \<longrightarrow> (w = PNone \<and> PStr k \<notin> set required) \<or> conforms s w))"
  using assms
proof (induction ps)
  case (Cons p ps)
  obtain k s where p: "p = (k, s)" by (cases p)
  have "\<forall>(k, s) \<in> set ps. exact_for s" using Cons.prems by simp
  from Cons.IH [OF this] obtain ws where ws: "validate_props d required (map (map_prod (\<lambda>x. x) encode) ps) path = Inr ws"
    "ws = [] \<longleftrightarrow> (\<forall>(k, s) \<in> set ps. \<forall>w. dget d k = Some w \<longrightarrow> (w = PNone \<and> PStr k \<notin> set required) \<or> conforms s w)"
    by blast
  show ?case
  proof (cases "dget d k")
    case (Some w)
    have "exact_for s" using Cons.prems by (simp add: p)
    then obtain vs where "validate_value w (encode s) (path @ ''.'' @ k) = Inr vs" "vs = [] \<longleftrightarrow> conforms s w" by blast
    then show ?thesis using Some ws by (auto simp: p)
  qed (use ws in \<open>simp add: p\<close>)
qed simp

lemma validate_items_exact:
  assumes "exact_for s"
  shows "\<exists>vs. validate_items xs (encode s) path i = Inr vs \<and> (vs = [] \<longleftrightarrow> (\<forall>x \<in> set xs. conforms s x))"
proof (induction xs arbitrary: i)
  case (Cons x xs)
  obtain vs where "validate_value x (encode s) (path @ ''['' @ nat_digits i @ '']'') = Inr vs" "vs = [] \<longleftrightarrow> conforms s x"
    using assms by blast
  moreover obtain ws where "validate_items xs (encode s) path (Suc i) = Inr ws" "ws = [] \<longleftrightarrow> (\<forall>x \<in> set xs. conforms s x)"
    using Cons.IH by blast
  ultimately show ?case by auto
qed simp

lemma validate_value_trivial: "validate_value v (PDict []) path = Inr []"
  by (subst validate_value.simps) (cases v; simp add: scalar_checks_def length_check_def dget_or_def)

lemma validate_items_trivial: "validate_items xs (PDict []) path i = Inr []"
  by (induction xs arbitrary: i) (simp_all add: validate_value_trivial)

definition props_conform :: "jschema \<Rightarrow> pyval \<Rightarrow> bool" where
  "props_conform s v \<longleftrightarrow> (\<forall>(k, p) \<in> set (opt_elems (js_props s)). \<forall>d w. v = PDict d \<and> dget d k = Some w \<longrightarrow>
     (w = PNone \<and> k \<notin> set (opt_elems (js_required s))) \<or> conforms p w)"

abbreviation keys_ok :: "jschema \<Rightarrow> pyval \<Rightarrow> bool" where
  "keys_ok s \<equiv> keys_conform (opt_elems (js_required s)) (js_closed s) (fst ` set (opt_elems (js_props s)))"

lemma conforms_iff:
  "conforms s v \<longleftrightarrow> scalar_conform s v \<and> (js_type s = Some ''object'' \<longrightarrow> keys_ok s v \<and> props_conform s v)
     \<and> (js_type s = Some ''array'' \<longrightarrow> (\<forall>xs p. v = PList xs \<and> js_items s = Some p \<longrightarrow> (\<forall>x \<in> set xs. conforms p x)))"
proof (cases s)
  case (JSchema t c e lo hi req cl ps items)
  have "(\<forall>(k, test) \<in> set (opt_elems (map_option (map (map_prod id conforms)) ps)). P k test) \<longleftrightarrow>
      (\<forall>(k, p) \<in> set (opt_elems ps). P k (conforms p))" for P
    by (cases ps) (auto simp: opt_elems_def)
  then show ?thesis by (simp only: JSchema conforms.simps jschema.sel props_conform_def) auto
qed

lemma required_keys_enc: "required_keys (enc_dict s) = Inr (remdups (map PStr (opt_elems (js_required s))))"
  by (cases "js_required s") (simp_all add: required_keys_def dget_or_def opt_elems_def list_all_iff)

lemma extra_keys_enc:
  "\<exists>vs. extra_keys (enc_dict s) d path = Inr vs \<and>
     (vs = [] \<longleftrightarrow> (js_closed s \<longrightarrow> set (dkeys d) \<subseteq> fst ` set (opt_elems (js_props s))))"
  by (cases "js_props s")
    (auto simp: extra_keys_def dget_or_def opt_elems_def list_all_iff filter_empty_conv dkeys_def image_iff sort_key_simps
      simp flip: set_empty)

lemma missing_keys_nil: "missing_keys (remdups (map PStr ks)) d path = [] \<longleftrightarrow> (\<forall>k \<in> set ks. dhas d k)"
  by (auto simp: missing_keys_def filter_empty_conv)

lemma validate_object_exact:
  assumes "\<forall>(k, p) \<in> set (opt_elems (js_props s)). exact_for p"
  shows "\<exists>vs. validate_object v (enc_dict s) path = Inr vs
    \<and> (vs = [] \<longleftrightarrow> (js_type s = Some ''object'' \<longrightarrow> is_dict v) \<and> keys_ok s v \<and> props_conform s v)"
proof (cases "is_dict v")
  case True
  then obtain d where v: "v = PDict d" by (cases v) auto
  let ?req = "remdups (map PStr (opt_elems (js_required s)))"
  obtain ex where ex: "extra_keys (enc_dict s) d path = Inr ex"
    "ex = [] \<longleftrightarrow> (js_closed s \<longrightarrow> set (dkeys d) \<subseteq> fst ` set (opt_elems (js_props s)))"
    using extra_keys_enc [of s d path] by (elim exE conjE) (rule that)
  obtain vs where vs: "validate_props d ?req (map (map_prod (\<lambda>x. x) encode) (opt_elems (js_props s))) path = Inr vs"
    "vs = [] \<longleftrightarrow> (\<forall>(k, p) \<in> set (opt_elems (js_props s)). \<forall>w. dget d k = Some w \<longrightarrow> (w = PNone \<and> PStr k \<notin> set ?req) \<or> conforms p w)"
    using validate_props_exact [OF assms, of d ?req path] by (elim exE conjE) (rule that)
  have props: "dget_or (enc_dict s) ''properties'' (PDict []) = PDict (map (map_prod (\<lambda>x. x) encode) (opt_elems (js_props s)))"
    by (cases "js_props s") (simp_all add: dget_or_def opt_elems_def)
  have run: "validate_object v (enc_dict s) path = Inr (missing_keys ?req d path @ ex @ vs)"
    by (simp add: v validate_object.simps required_keys_enc ex(1) props vs(1))
  have "vs = [] \<longleftrightarrow> props_conform s v"
    unfolding vs(2) props_conform_def v by (simp add: image_iff)
  moreover have "keys_ok s v \<longleftrightarrow> (\<forall>k \<in> set (opt_elems (js_required s)). dhas d k)
      \<and> (js_closed s \<longrightarrow> set (dkeys d) \<subseteq> fst ` set (opt_elems (js_props s)))"
    unfolding keys_conform_def v by blast
  ultimately have "missing_keys ?req d path @ ex @ vs = [] \<longleftrightarrow> keys_ok s v \<and> props_conform s v"
    unfolding append_is_Nil_conv missing_keys_nil ex(2) by blast
  with run True show ?thesis by blast
next
  case False
  then have "validate_object v (enc_dict s) path =
      Inr (if dget (enc_dict s) ''type'' = Some (PStr ''object'') then [ExpectedObject path] else [])"
    by (cases v) (simp_all add: validate_object.simps)
  moreover have "keys_ok s v" "props_conform s v" using False by (auto simp: keys_conform_def props_conform_def)
  ultimately show ?thesis using False by auto
qed

lemma validate_exact: "exact_for s"
proof (induction s)
  case (JSchema t c e lo hi req cl ps items)
  let ?s = "JSchema t c e lo hi req cl ps items"
  have props: "\<forall>(k, p) \<in> set (opt_elems (js_props ?s)). exact_for p"
    using JSchema.IH(1) by (cases ps) (fastforce simp: opt_elems_def)+
  have items: "\<And>p. js_items ?s = Some p \<Longrightarrow> exact_for p" using JSchema.IH(2) by simp
  show ?case
  proof (intro allI)
    fix v path
    let ?expected = "dget_or (enc_dict ?s) ''type'' PNone"
    have ty: "(if ?expected = PNone then Inr True else type_matches v ?expected) = Inr (has_type (js_type ?s) v)"
      by (cases "js_type ?s") (auto simp: dget_or_def type_matches_has [of ?s] has_type_def)
    obtain vs where vs: "scalar_checks v (enc_dict ?s) path = Inr vs" "has_type (js_type ?s) v \<longrightarrow> (vs = [] \<longleftrightarrow> scalar_conform ?s v)"
      using scalar_checks_enc by blast
    have "\<exists>vo. (if ?expected = PStr ''object'' \<and> is_dict v then validate_object v (enc_dict ?s) path else Inr []) = Inr vo
        \<and> (has_type (js_type ?s) v \<longrightarrow> (vo = [] \<longleftrightarrow> (js_type ?s = Some ''object'' \<longrightarrow> keys_ok ?s v \<and> props_conform ?s v)))"
    proof (cases "js_type ?s = Some ''object'' \<and> is_dict v")
      case True
      then show ?thesis using validate_object_exact [OF props, of v path] by (auto simp: dget_or_def has_type_def)
    next
      case False
      then show ?thesis by (auto simp: dget_or_def has_type_def split: option.splits)
    qed
    then obtain vo where vo: "(if ?expected = PStr ''object'' \<and> is_dict v then validate_object v (enc_dict ?s) path else Inr []) = Inr vo"
      "has_type (js_type ?s) v \<longrightarrow> (vo = [] \<longleftrightarrow> (js_type ?s = Some ''object'' \<longrightarrow> keys_ok ?s v \<and> props_conform ?s v))" by blast
    have "\<exists>va. (case v of PList xs \<Rightarrow> if ?expected = PStr ''array'' then validate_items xs (dget_or (enc_dict ?s) ''items'' (PDict [])) path 0 else Inr []
          | _ \<Rightarrow> Inr []) = Inr va
        \<and> (va = [] \<longleftrightarrow> (js_type ?s = Some ''array'' \<longrightarrow> (\<forall>xs p. v = PList xs \<and> js_items ?s = Some p \<longrightarrow> (\<forall>x \<in> set xs. conforms p x))))"
    proof (cases "\<exists>xs. v = PList xs \<and> js_type ?s = Some ''array''")
      case True
      then obtain xs where x: "v = PList xs" "js_type ?s = Some ''array''" by blast
      show ?thesis
      proof (cases "js_items ?s")
        case None
        then show ?thesis using x by (simp add: dget_or_def validate_items_trivial)
      next
        case (Some p)
        then show ?thesis using x validate_items_exact [OF items [OF Some], of xs path 0] by (auto simp: dget_or_def)
      qed
    next
      case False
      then show ?thesis by (cases v) (auto simp: dget_or_def split: option.splits)
    qed
    then obtain va where va: "(case v of PList xs \<Rightarrow> if ?expected = PStr ''array'' then validate_items xs (dget_or (enc_dict ?s) ''items'' (PDict [])) path 0 else Inr []
          | _ \<Rightarrow> Inr []) = Inr va"
      "va = [] \<longleftrightarrow> (js_type ?s = Some ''array'' \<longrightarrow> (\<forall>xs p. v = PList xs \<and> js_items ?s = Some p \<longrightarrow> (\<forall>x \<in> set xs. conforms p x)))"
      by blast
    have run: "validate_value v (encode ?s) path = Inr (if \<not> has_type (js_type ?s) v then [WrongType path] else vs @ vo @ va)"
      unfolding encode_enc_dict validate_value.simps pyval.case Let_def ty res_bind.simps
      by (cases "has_type (js_type ?s) v") (simp_all only: vs(1) vo(1) va(1) res_bind.simps if_False if_True simp_thms)
    have "(if \<not> has_type (js_type ?s) v then [WrongType path] else vs @ vo @ va) = [] \<longleftrightarrow> conforms ?s v"
      using vs(2) vo(2) va(2) conforms_iff [of ?s v] by (cases "has_type (js_type ?s) v") (simp_all add: scalar_conform_def)
    then show "\<exists>vs. validate_value v (encode ?s) path = Inr vs \<and> (vs = [] \<longleftrightarrow> conforms ?s v)" using run by blast
  qed
qed

lemma ball_case_prod_exact:
  "(\<forall>(k, p) \<in> A. P p) \<longleftrightarrow> (\<forall>x \<in> A. P (snd x))"
  by auto

section \<open>Properties\<close>

text \<open>C31: the hand-written validator decides exactly what the schema asks: with a loaded registry, a command is
  approved if its operation is registered and its parameters (an empty object when there are none) conform to the
  schema of its parameters, read as types, lengths, constants, enumerations, required keys, closed objects and
  array items; it is denied, without raising, in every other case, and by default when the operation is unknown.\<close>

theorem validate_command_exact:
  assumes "rg_loaded r"
    and "\<And>schema. dget (rg_schemas r) operation = Some schema \<Longrightarrow> \<exists>qs. dget schema ''properties'' = Some (PDict qs)
      \<and> dget qs ''params'' = Some (encode s)"
    and "js_type s = Some ''object''" "js_const s = None" "js_enum s = None"
  shows "\<exists>vs. validate_command dir r operation params = Inr
      (dhas (rg_schemas r) operation \<and> conforms s (if params = PNone then PDict [] else params), vs)
    \<and> (vs = [] \<longleftrightarrow> dhas (rg_schemas r) operation \<and> conforms s (if params = PNone then PDict [] else params))"
proof (cases "dget (rg_schemas r) operation")
  case None
  then show ?thesis using assms(1) by (simp add: validate_command_def ensure_loaded_def dhas_iff)
next
  case (Some schema)
  let ?v = "if params = PNone then PDict [] else params"
  obtain qs where qs: "dget schema ''properties'' = Some (PDict qs)" "dget qs ''params'' = Some (encode s)"
    using assms(2) [OF Some] by blast
  have ps: "py_get (py_or (dget_or schema ''properties'' PNone) (PDict [])) ''params'' (PDict []) = Inr (PDict (enc_dict s))"
    using qs by (cases qs) (simp_all add: py_or_def encode_enc_dict)
  have all_exact: "\<forall>(k, p) \<in> set (opt_elems (js_props s)). exact_for p"
    unfolding ball_case_prod_exact by (intro ballI validate_exact)
  obtain vs where vs: "validate_object ?v (enc_dict s) ''params'' = Inr vs"
    "vs = [] \<longleftrightarrow> (js_type s = Some ''object'' \<longrightarrow> is_dict ?v) \<and> keys_ok s ?v \<and> props_conform s ?v"
    using validate_object_exact [of s ?v "''params''", OF all_exact] by (elim exE conjE) (rule that)
  have "is_dict ?v \<and> keys_ok s ?v \<and> props_conform s ?v \<longleftrightarrow> conforms s ?v"
    unfolding conforms_iff [of s] using assms(3-5) by (auto simp: scalar_conform_def has_type_def)
  then have "vs = [] \<longleftrightarrow> conforms s ?v" using vs(2) assms(3) by blast
  then show ?thesis
    using assms(1) Some vs(1) by (simp add: validate_command_def ensure_loaded_def ps dhas_iff del: enc_get)
qed

definition sample_jschema :: jschema where
  "sample_jschema = JSchema (Some ''object'') None None None None (Some [''user_id'', ''new_role'']) True
     (Some [(''user_id'', JSchema (Some ''string'') None None (Some 1) None None False None None),
            (''new_role'', JSchema (Some ''string'') None (Some [PStr ''root'', PStr ''admin'', PStr ''user'']) None None None False None None)]) None"

definition sample_registry :: registry where
  "sample_registry = \<lparr>rg_schemas = [(''update_user_role'', [(''properties'', PDict [(''params'', encode sample_jschema)])])], rg_loaded = True\<rparr>"

theorem validate_command_exact_witness:
  "\<exists>vs. validate_command None sample_registry ''update_user_role'' (PDict [(''user_id'', PStr ''u1''), (''new_role'', PStr ''king'')])
     = Inr (False, vs) \<and> vs \<noteq> []"
proof -
  have "\<not> conforms sample_jschema (PDict [(''user_id'', PStr ''u1''), (''new_role'', PStr ''king'')])"
    by (simp add: sample_jschema_def scalar_conform_def opt_elems_def has_type_def)
  moreover have "\<exists>qs. dget schema ''properties'' = Some (PDict qs) \<and> dget qs ''params'' = Some (encode sample_jschema)"
    if "dget (rg_schemas sample_registry) ''update_user_role'' = Some schema" for schema
    using that [symmetric] by (simp add: sample_registry_def)
  moreover have "rg_loaded sample_registry" "dhas (rg_schemas sample_registry) ''update_user_role''"
    by (simp_all add: sample_registry_def dhas_iff)
  moreover have "js_type sample_jschema = Some ''object''" "js_const sample_jschema = None" "js_enum sample_jschema = None"
    by (simp_all add: sample_jschema_def)
  ultimately show ?thesis
    using validate_command_exact [of sample_registry "''update_user_role''" sample_jschema None
        "PDict [(''user_id'', PStr ''u1''), (''new_role'', PStr ''king'')]"]
    by (simp only: pyval.distinct if_False simp_thms)
qed

end
