(* ===== verification/Operating_Context.thy ===== *)
theory Operating_Context
  imports Py_Values
begin

text \<open>
  Organization and site memberships and the active operating context of a token,
  \<^verbatim>\<open>auth/operating_context.py\<close>. A normalized membership is a record, \<open>membership_val\<close> the dictionary it is in the
  code; a context is a record whose device is absent where the dictionary has no such key.
\<close>

section \<open>Memberships\<close>

record membership =
  mb_org :: string
  mb_sites :: "string list"
  mb_roles :: "(string, string) dict"

definition membership_val :: "membership \<Rightarrow> pyval" where
  "membership_val m = PDict [(''organization_id'', PStr (mb_org m)), (''site_ids'', PList (map PStr (mb_sites m))),
     (''site_roles'', PDict (map (map_prod (\<lambda>k. k) PStr) (mb_roles m)))]"

text \<open>A string with something else than whitespace in it.\<close>

fun full_text :: "pyval \<Rightarrow> bool" where
  "full_text (PStr s) = (strip s \<noteq> [])"
| "full_text _ = False"

fun text_of :: "pyval \<Rightarrow> string" where
  "text_of (PStr s) = s"
| "text_of _ = []"

fun clean_sites :: "pyval list \<Rightarrow> string list \<Rightarrow> string list res" where
  "clean_sites [] acc = Inr acc"
| "clean_sites (v # vs) acc =
     (if \<not> full_text v then Inl ValueError
      else if strip (text_of v) \<in> set acc then Inl ValueError
      else clean_sites vs (acc @ [strip (text_of v)]))"

definition clean_roles :: "string list \<Rightarrow> pyval \<Rightarrow> (string, string) dict res" where
  "clean_roles sites v = (case v of
      PDict rs \<Rightarrow> if list_ex (\<lambda>(k, r). k \<notin> set sites \<or> \<not> full_text r) rs then Inl ValueError
        else Inr (map (\<lambda>(k, r). (k, strip (text_of r))) rs)
    | _ \<Rightarrow> Inl ValueError)"

text \<open>One membership, with the organization ids seen before it: the id is compared as it is written and kept
  stripped.\<close>

definition normalize_membership :: "string list \<Rightarrow> pyval \<Rightarrow> membership res" where
  "normalize_membership seen v = (case v of
      PDict d \<Rightarrow>
        (let org = dget_or d ''organization_id'' PNone; sites = dget_or d ''site_ids'' PNone;
             roles = dget_or d ''site_roles'' (PDict []) in
         if \<not> set (dkeys d) \<subseteq> {''organization_id'', ''site_ids'', ''site_roles''} then Inl ValueError
         else if \<not> full_text org then Inl ValueError
         else if text_of org \<in> set seen then Inl ValueError
         else (case sites of
             PList (x # xs) \<Rightarrow>
               res_bind (clean_sites (x # xs) []) (\<lambda>clean.
               res_bind (clean_roles clean roles) (\<lambda>rs.
                 Inr \<lparr>mb_org = strip (text_of org), mb_sites = clean, mb_roles = rs\<rparr>))
           | _ \<Rightarrow> Inl ValueError))
    | _ \<Rightarrow> Inl ValueError)"

fun normalize_all :: "string list \<Rightarrow> pyval list \<Rightarrow> membership list res" where
  "normalize_all seen [] = Inr []"
| "normalize_all seen (v # vs) =
     res_bind (normalize_membership seen v) (\<lambda>m.
     res_bind (normalize_all (mb_org m # seen) vs) (\<lambda>ms. Inr (m # ms)))"

definition normalize_operating_memberships :: "pyval \<Rightarrow> membership list res" where
  "normalize_operating_memberships v = (case v of
      PNone \<Rightarrow> Inr [] | PList vs \<Rightarrow> normalize_all [] vs | _ \<Rightarrow> Inl ValueError)"

section \<open>Contexts\<close>

record op_context =
  oc_org :: string
  oc_site :: string
  oc_role :: "string option"
  oc_device :: "string option"

definition assigned :: "string \<Rightarrow> string \<Rightarrow> membership \<Rightarrow> bool" where
  "assigned org site m \<longleftrightarrow> mb_org m = org \<and> site \<in> set (mb_sites m)"

definition resolve_operating_context :: "pyval \<Rightarrow> pyval \<Rightarrow> pyval \<Rightarrow> op_context res" where
  "resolve_operating_context memberships org site =
     (if \<not> full_text org then Inl ValueError
      else if \<not> full_text site then Inl ValueError
      else let o1 = strip (text_of org); s1 = strip (text_of site) in
        res_bind (normalize_operating_memberships memberships) (\<lambda>ms.
          case find (assigned o1 s1) ms of
            None \<Rightarrow> Inl ValueError
          | Some m \<Rightarrow> Inr \<lparr>oc_org = o1, oc_site = s1, oc_role = dget (mb_roles m) s1, oc_device = None\<rparr>))"

definition default_operating_context :: "pyval \<Rightarrow> op_context option res" where
  "default_operating_context memberships =
     res_bind (normalize_operating_memberships memberships) (\<lambda>ms. case ms of
         [] \<Rightarrow> Inr None
       | m # _ \<Rightarrow> res_bind (resolve_operating_context (PList (map membership_val ms)) (PStr (mb_org m)) (PStr (hd (mb_sites m))))
           (\<lambda>c. Inr (Some c)))"

definition operating_context_from_claims :: "pydict \<Rightarrow> op_context option res" where
  "operating_context_from_claims claims =
     (let org = dget_or claims ''organization_id'' PNone; site = dget_or claims ''site_id'' PNone;
          device = dget_or claims ''device_id'' PNone in
      if org = PNone \<and> site = PNone then Inr None
      else if \<not> full_text org then Inl ValueError
      else if \<not> full_text site then Inl ValueError
      else if device \<noteq> PNone \<and> \<not> full_text device then Inl ValueError
      else Inr (Some \<lparr>oc_org = strip (text_of org), oc_site = strip (text_of site), oc_role = None,
        oc_device = (if device = PNone then None else Some (strip (text_of device)))\<rparr>))"

text \<open>\<open>left or {}\<close>: an absent mapping has no claims.\<close>

definition contexts_match :: "pydict option \<Rightarrow> pydict option \<Rightarrow> bool res" where
  "contexts_match left right =
     res_bind (operating_context_from_claims (case left of None \<Rightarrow> [] | Some d \<Rightarrow> d)) (\<lambda>a.
     res_bind (operating_context_from_claims (case right of None \<Rightarrow> [] | Some d \<Rightarrow> d)) (\<lambda>b. Inr (a = b)))"

section \<open>Facts\<close>

text \<open>A stripped text with something in it, and a normalized membership.\<close>

definition neat :: "string \<Rightarrow> bool" where
  "neat s \<longleftrightarrow> s \<noteq> [] \<and> strip s = s"

definition wf_membership :: "membership \<Rightarrow> bool" where
  "wf_membership m \<longleftrightarrow> neat (mb_org m) \<and> mb_sites m \<noteq> [] \<and> distinct (mb_sites m) \<and> (\<forall>s \<in> set (mb_sites m). neat s)
     \<and> (\<forall>(k, r) \<in> set (mb_roles m). k \<in> set (mb_sites m) \<and> neat r)"

lemma full_textE: assumes "full_text v" obtains s where "v = PStr s" "strip s \<noteq> []"
  using assms by (cases v) auto

lemma full_text_neat: "full_text v \<Longrightarrow> neat (strip (text_of v))"
  by (erule full_textE) (simp add: neat_def)

lemma neat_full_text [simp]: "neat s \<Longrightarrow> full_text (PStr s)"
  by (simp add: neat_def)

lemma clean_sites_wf:
  "clean_sites vs acc = Inr out \<Longrightarrow> distinct acc \<Longrightarrow> \<forall>s \<in> set acc. neat s \<Longrightarrow>
     distinct out \<and> (\<forall>s \<in> set out. neat s) \<and> length out = length acc + length vs"
  by (induction vs acc rule: clean_sites.induct) (auto simp: full_text_neat split: if_split_asm)

lemma clean_sites_neat:
  "distinct (acc @ ss) \<Longrightarrow> \<forall>s \<in> set ss. neat s \<Longrightarrow> clean_sites (map PStr ss) acc = Inr (acc @ ss)"
  by (induction ss arbitrary: acc) (auto simp: neat_def)

lemma clean_roles_wf:
  "clean_roles sites v = Inr rs \<Longrightarrow> (k, r) \<in> set rs \<Longrightarrow> k \<in> set sites \<and> neat r"
  by (auto simp: clean_roles_def list_ex_iff split: pyval.splits if_split_asm intro!: full_text_neat)

lemma clean_roles_neat:
  "\<forall>(k, r) \<in> set rs. k \<in> set sites \<and> neat r \<Longrightarrow> clean_roles sites (PDict (map (map_prod (\<lambda>k. k) PStr) rs)) = Inr rs"
  by (induction rs) (auto simp: clean_roles_def neat_def split: if_split_asm)

lemma normalize_membership_wf:
  assumes "normalize_membership seen v = Inr m" shows "wf_membership m"
proof -
  from assms obtain d where v: "v = PDict d" by (auto simp: normalize_membership_def split: pyval.splits)
  from assms obtain x xs clean rs where
    "full_text (dget_or d ''organization_id'' PNone)" "clean_sites (x # xs) [] = Inr clean"
    "clean_roles clean (dget_or d ''site_roles'' (PDict [])) = Inr rs"
    "m = \<lparr>mb_org = strip (text_of (dget_or d ''organization_id'' PNone)), mb_sites = clean, mb_roles = rs\<rparr>"
    by (auto simp: v normalize_membership_def Let_def simp del: clean_sites.simps
          split: if_split_asm pyval.splits list.splits elim!: res_bind_InrE)
  then show ?thesis
    using clean_sites_wf [of "x # xs" "[]" clean] clean_roles_wf [of clean _ rs]
    by (auto simp: wf_membership_def full_text_neat)
qed

text \<open>A normalized membership is read back as itself, unless its organization was seen.\<close>

lemma normalize_membership_val:
  assumes "wf_membership m"
  shows "normalize_membership seen (membership_val m) = (if mb_org m \<in> set seen then Inl ValueError else Inr m)"
proof -
  obtain x xs where x: "mb_sites m = x # xs" using assms by (cases "mb_sites m") (auto simp: wf_membership_def)
  have "clean_sites (map PStr (mb_sites m)) [] = Inr (mb_sites m)"
    using assms by (simp add: clean_sites_neat wf_membership_def)
  moreover have "clean_roles (mb_sites m) (PDict (map (map_prod (\<lambda>k. k) PStr) (mb_roles m))) = Inr (mb_roles m)"
    using assms by (intro clean_roles_neat) (simp add: wf_membership_def)
  moreover have "neat (mb_org m)" using assms by (simp add: wf_membership_def)
  ultimately show ?thesis
    by (simp add: normalize_membership_def membership_val_def dget_or_def x neat_def del: clean_sites.simps)
qed

lemma normalize_all_wf: "normalize_all seen vs = Inr ms \<Longrightarrow> \<forall>m \<in> set ms. wf_membership m"
  by (induction seen vs arbitrary: ms rule: normalize_all.induct) (auto elim!: res_bind_InrE dest: normalize_membership_wf)

lemma normalize_all_vals:
  "\<forall>m \<in> set ms. wf_membership m \<Longrightarrow> normalize_all seen (map membership_val ms) =
     (if distinct (map mb_org ms) \<and> set seen \<inter> mb_org ` set ms = {} then Inr ms else Inl ValueError)"
  by (induction ms arbitrary: seen) (auto simp: normalize_membership_val)

lemma normalize_wf: "normalize_operating_memberships v = Inr ms \<Longrightarrow> \<forall>m \<in> set ms. wf_membership m"
  by (auto simp: normalize_operating_memberships_def dest: normalize_all_wf split: pyval.splits)

section \<open>Properties\<close>

text \<open>C32: whatever is persisted, the normalized memberships are well formed (stripped, non-empty ids, distinct sites,
  roles for assigned sites only), and normalizing them again gives them back exactly if no organization occurs
  twice, and raises otherwise.\<close>

theorem normalized_memberships_typed:
  assumes "normalize_operating_memberships v = Inr ms"
  shows "(\<forall>m \<in> set ms. wf_membership m)
    \<and> normalize_operating_memberships (PList (map membership_val ms)) =
        (if distinct (map mb_org ms) then Inr ms else Inl ValueError)"
  using normalize_wf [OF assms] normalize_all_vals [of ms "[]"] by (simp add: normalize_operating_memberships_def)

definition sample_memberships :: pyval where
  "sample_memberships = PList
     [PDict [(''organization_id'', PStr ''acme''), (''site_ids'', PList [PStr '' north '', PStr ''south''])],
      PDict [(''organization_id'', PStr '' acme''), (''site_ids'', PList [PStr ''east''])]]"

definition sample_normalized :: "membership list" where
  "sample_normalized = [\<lparr>mb_org = ''acme'', mb_sites = [''north'', ''south''], mb_roles = []\<rparr>,
     \<lparr>mb_org = ''acme'', mb_sites = [''east''], mb_roles = []\<rparr>]"

lemma sample_memberships_normalize: "normalize_operating_memberships sample_memberships = Inr sample_normalized"
  by code_simp

theorem normalized_memberships_typed_witness:
  "normalize_operating_memberships (PList (map membership_val sample_normalized)) = Inl ValueError"
  using normalized_memberships_typed [OF sample_memberships_normalize] by (simp add: sample_normalized_def)

text \<open>A context is resolved exactly for a site that a normalized membership of that organization assigns; and
  the context of a login is the first site of the first membership, except
  that the login fails when two memberships differ in the whitespace of their organization only.\<close>

theorem operating_context_exact:
  assumes "normalize_operating_memberships v = Inr ms" "neat org" "neat site"
  shows "((\<exists>c. resolve_operating_context v (PStr org) (PStr site) = Inr c) \<longleftrightarrow> (\<exists>m \<in> set ms. assigned org site m))
    \<and> default_operating_context v =
      (case ms of [] \<Rightarrow> Inr None
       | m # _ \<Rightarrow> if distinct (map mb_org ms)
           then Inr (Some \<lparr>oc_org = mb_org m, oc_site = hd (mb_sites m), oc_role = dget (mb_roles m) (hd (mb_sites m)), oc_device = None\<rparr>)
           else Inl ValueError)"
proof
  show "(\<exists>c. resolve_operating_context v (PStr org) (PStr site) = Inr c) \<longleftrightarrow> (\<exists>m \<in> set ms. assigned org site m)"
    using assms by (auto simp: resolve_operating_context_def neat_def find_None_iff find_Some_iff split: option.splits)
next
  show "default_operating_context v =
      (case ms of [] \<Rightarrow> Inr None
       | m # _ \<Rightarrow> if distinct (map mb_org ms)
           then Inr (Some \<lparr>oc_org = mb_org m, oc_site = hd (mb_sites m), oc_role = dget (mb_roles m) (hd (mb_sites m)), oc_device = None\<rparr>)
           else Inl ValueError)"
  proof (cases ms)
    case Nil
    then show ?thesis using assms(1) by (simp add: default_operating_context_def)
  next
    case (Cons m rest)
    have "wf_membership m" using normalize_wf [OF assms(1)] by (simp add: Cons)
    then have "neat (mb_org m)" "neat (hd (mb_sites m))" "assigned (mb_org m) (hd (mb_sites m)) m"
      by (auto simp: wf_membership_def assigned_def)
    moreover have "normalize_operating_memberships (PList (map membership_val ms)) =
        (if distinct (map mb_org ms) then Inr ms else Inl ValueError)"
      using normalize_wf [OF assms(1)] normalize_all_vals [of ms "[]"] by (simp add: normalize_operating_memberships_def)
    ultimately show ?thesis
      using assms(1) by (simp add: Cons default_operating_context_def resolve_operating_context_def neat_def Let_def)
  qed
qed

lemma sample_neat: "neat ''acme''" "neat ''east''"
  by code_simp+

theorem operating_context_exact_witness: "default_operating_context sample_memberships = Inl ValueError"
  using operating_context_exact [OF sample_memberships_normalize, of "''acme''" "''east''"]
  by (simp add: sample_normalized_def sample_neat)

end
