(* ===== verification/Yaml_Loader.thy ===== *)
theory Yaml_Loader
  imports Py_Values
begin

text \<open>
  The hand-written YAML reader, \<^verbatim>\<open>core/yaml_loader.py\<close>: comment stripping, scalars, and the recursive block parser.
  The shared position of the parser is the list of the lines not yet read; \<open>None\<close> stands for running out of fuel,
  which two steps per line and two more rule out. The text of a file is an argument.
\<close>

section \<open>Lines and comments\<close>

text \<open>\<open>d\<close> and \<open>s\<close>: inside double or single quotes; \<open>sp\<close>: at the start or after a blank.\<close>

fun cut_comment :: "bool \<Rightarrow> bool \<Rightarrow> bool \<Rightarrow> string \<Rightarrow> string" where
  "cut_comment d s sp [] = []"
| "cut_comment d s sp (c # cs) =
     (if c = CHR 0x22 \<and> \<not> s then c # cut_comment (\<not> d) s False cs
      else if c = CHR 0x27 \<and> \<not> d then c # cut_comment d (\<not> s) False cs
      else if c = CHR ''#'' \<and> \<not> d \<and> \<not> s \<and> sp then []
      else c # cut_comment d s (c = CHR '' '' \<or> c = CHR 0x09) cs)"

definition strip_inline_comment :: "string \<Rightarrow> string" where
  "strip_inline_comment line = rstrip (cut_comment False False True line)"

text \<open>\<open>str.splitlines\<close> on code points below 256, and the lines of a file read with universal newlines.\<close>

definition is_break :: "char \<Rightarrow> bool" where
  "is_break c = (let n = of_char c :: nat in (10 \<le> n \<and> n \<le> 13) \<or> (28 \<le> n \<and> n \<le> 30) \<or> n = 133)"

fun take_line :: "(char \<Rightarrow> bool) \<Rightarrow> string \<Rightarrow> string \<times> string" where
  "take_line brk [] = ([], [])"
| "take_line brk (c # cs) =
     (if c = CHR 0x0D \<and> brk c \<and> cs \<noteq> [] \<and> hd cs = CHR 0x0A then ([], tl cs)
      else if brk c then ([], cs)
      else let (l, r) = take_line brk cs in (c # l, r))"

lemma take_line_shorter: "s \<noteq> [] \<Longrightarrow> length (snd (take_line brk s)) < length s"
proof (induction brk s rule: take_line.induct)
  case (2 brk c cs)
  then show ?case by (cases cs) (auto split: prod.split)
qed simp

function lines_by :: "(char \<Rightarrow> bool) \<Rightarrow> string \<Rightarrow> string list" where
  "lines_by brk s = (if s = [] then [] else fst (take_line brk s) # lines_by brk (snd (take_line brk s)))"
  by pat_completeness auto

termination by (relation "measure (\<lambda>(brk, s). length s)") (auto intro: take_line_shorter)

declare lines_by.simps [simp del]

definition splitlines :: "string \<Rightarrow> string list" where
  "splitlines s = lines_by is_break s"

definition file_lines :: "string \<Rightarrow> string list" where
  "file_lines s = lines_by (\<lambda>c. c = CHR 0x0A \<or> c = CHR 0x0D) s"

definition clean_line :: "string \<Rightarrow> string" where
  "clean_line raw = (let stripped = strip_inline_comment raw in if starts_with ''#'' (lstrip stripped) then [] else stripped)"

section \<open>Scalars\<close>

text \<open>\<open>s[1:-1]\<close>.\<close>

definition inner :: "string \<Rightarrow> string" where
  "inner s = butlast (tl s)"

definition wrapped :: "char \<Rightarrow> char \<Rightarrow> string \<Rightarrow> bool" where
  "wrapped a b s \<longleftrightarrow> starts_with [a] s \<and> ends_with [b] s"

text \<open>The parts of a flow sequence and the pairs of a flow mapping.\<close>

definition seq_parts :: "string \<Rightarrow> string list" where
  "seq_parts s = filter (\<lambda>p. p \<noteq> []) (map strip (split_on (CHR '','') s))"

definition before :: "char \<Rightarrow> string \<Rightarrow> string" where
  "before c s = takeWhile (\<lambda>x. x \<noteq> c) s"

definition after :: "char \<Rightarrow> string \<Rightarrow> string" where
  "after c s = tl (dropWhile (\<lambda>x. x \<noteq> c) s)"

definition map_parts :: "string \<Rightarrow> (string \<times> string) list" where
  "map_parts s = map (\<lambda>p. (strip (before (CHR '':'') p), strip (after (CHR '':'') p)))
     (filter (\<lambda>p. CHR '':'' \<in> set p) (map strip (split_on (CHR '','') s)))"

lemma length_strip: "length (strip s) \<le> length s"
  by (simp add: strip_def rstrip_def lstrip_def) (metis length_dropWhile_le length_rev order_trans)

lemma split_on_length: "w \<in> set (split_on c s) \<Longrightarrow> length w \<le> length s"
  by (induction s arbitrary: w) (fastforce split: if_splits list.splits)+

lemma seq_parts_length: "p \<in> set (seq_parts s) \<Longrightarrow> length p \<le> length s"
  by (auto simp: seq_parts_def dest!: split_on_length intro: order_trans [OF length_strip])

lemma map_parts_length: "(k, v) \<in> set (map_parts s) \<Longrightarrow> length v \<le> length s"
proof -
  assume "(k, v) \<in> set (map_parts s)"
  then obtain w where w: "w \<in> set (split_on (CHR '','') s)" "v = strip (after (CHR '':'') (strip w))"
    by (auto simp: map_parts_def)
  have "length v \<le> length (after (CHR '':'') (strip w))" by (simp add: w(2) length_strip)
  also have "\<dots> \<le> length (strip w)" by (simp add: after_def) (metis diff_le_self length_dropWhile_le order_trans)
  finally show ?thesis using length_strip [of w] split_on_length [OF w(1)] by linarith
qed

lemma length_inner: "wrapped a b (strip t) \<Longrightarrow> length (strip (inner (strip t))) < length t"
  using length_strip [of "inner (strip t)"] length_strip [of t]
  by (cases "strip t") (auto simp: inner_def wrapped_def starts_with_def)

function parse_scalar :: "string \<Rightarrow> pyval" where
  "parse_scalar t = (let s = strip t in
     if wrapped (CHR 0x22) (CHR 0x22) s \<or> wrapped (CHR 0x27) (CHR 0x27) s then PStr (inner s)
     else if to_lower s = ''true'' then PBool True
     else if to_lower s = ''false'' then PBool False
     else if to_lower s \<in> {''null'', ''~'', ''''} then PNone
     else if wrapped (CHR ''['') (CHR '']'') s then PList (map parse_scalar (seq_parts (strip (inner s))))
     else if wrapped (CHR ''{'') (CHR ''}'') s
       then PDict (dupdate [] (map (\<lambda>(k, v). (k, parse_scalar v)) (map_parts (strip (inner s)))))
     else (case parse_int s of
         Some n \<Rightarrow> PInt n
       | None \<Rightarrow> (case parse_float s of Some f \<Rightarrow> PFloat f | None \<Rightarrow> PStr s)))"
  by pat_completeness auto

termination
proof (relation "measure length", goal_cases)
  case (2 t s p)
  then show ?case using seq_parts_length [of p] length_inner [of _ _ t] by fastforce
next
  case (3 t s x k v)
  then show ?case using map_parts_length [of k v] length_inner [of _ _ t] by fastforce
qed simp

declare parse_scalar.simps [simp del]

section \<open>Blocks\<close>

definition blank :: "string \<Rightarrow> bool" where "blank line \<longleftrightarrow> strip line = []"

definition skip_blank :: "string list \<Rightarrow> string list" where "skip_blank ls = dropWhile blank ls"

definition indent :: "string \<Rightarrow> nat" where "indent line = length line - length (lstrip line)"

definition is_item :: "string \<Rightarrow> bool" where
  "is_item stripped \<longleftrightarrow> starts_with ''- '' stripped \<or> stripped = ''-''"

text \<open>An item \<open>key: value\<close> whose next line is deeper and no item itself starts a mapping: its first key and
  value.\<close>

definition item_mapping :: "nat \<Rightarrow> string \<Rightarrow> string list \<Rightarrow> (string \<times> pyval) option" where
  "item_mapping base item ls =
     (let key = before (CHR '':'') item; val_str = strip (after (CHR '':'') item) in
      if CHR '':'' \<in> set item \<and> key \<noteq> [] \<and> hd item \<notin> {CHR 0x22, CHR 0x27, CHR ''[''}
      then (case skip_blank ls of
          [] \<Rightarrow> None
        | l # _ \<Rightarrow> if indent l > base \<and> \<not> starts_with ''- '' (lstrip l)
            then Some (strip key, if val_str = [] then PNone else parse_scalar val_str) else None)
      else None)"

fun parse_block :: "nat \<Rightarrow> string list \<Rightarrow> (pyval \<times> string list) option"
  and list_loop :: "nat \<Rightarrow> nat \<Rightarrow> string list \<Rightarrow> pyval list \<Rightarrow> (pyval \<times> string list) option"
  and map_loop :: "nat \<Rightarrow> nat \<Rightarrow> string list \<Rightarrow> pydict \<Rightarrow> (pyval \<times> string list) option" where
  "parse_block 0 ls = None"
| "list_loop 0 base ls result = None"
| "map_loop 0 base ls result = None"
| "parse_block (Suc n) ls = (case skip_blank ls of
      [] \<Rightarrow> Some (PNone, [])
    | l # ls1 \<Rightarrow> if is_item (lstrip l) then list_loop n (indent l) (l # ls1) [] else map_loop n (indent l) (l # ls1) [])"
| "list_loop (Suc n) base ls result = (case skip_blank ls of
      [] \<Rightarrow> Some (PList result, [])
    | l # ls1 \<Rightarrow>
        if indent l \<noteq> base \<or> \<not> is_item (lstrip l) then Some (PList result, l # ls1)
        else let item = strip (drop 2 (lstrip l)) in
          if item = [] then
            (if skip_blank ls1 = [] then Some (PList result, [])
             else case parse_block n (skip_blank ls1) of
                 None \<Rightarrow> None
               | Some (v, ls2) \<Rightarrow> list_loop n base ls2 (result @ [v]))
          else (case item_mapping base item ls1 of
              None \<Rightarrow> list_loop n base ls1 (result @ [parse_scalar item])
            | Some (k, v) \<Rightarrow> (case parse_block n ls1 of
                None \<Rightarrow> None
              | Some (sub, ls2) \<Rightarrow>
                  list_loop n base ls2 (result @ [case sub of PDict d \<Rightarrow> PDict (dput k v d) | _ \<Rightarrow> parse_scalar item]))))"
| "map_loop (Suc n) base ls result = (case skip_blank ls of
      [] \<Rightarrow> Some (PDict result, [])
    | l # ls1 \<Rightarrow>
        let stripped = lstrip l in
        if stripped = [] \<or> indent l \<noteq> base \<or> starts_with ''- '' stripped then Some (PDict result, l # ls1)
        else if CHR '':'' \<notin> set stripped then map_loop n base ls1 result
        else let key = strip (before (CHR '':'') stripped); val_str = strip (after (CHR '':'') stripped) in
          if val_str \<noteq> [] then map_loop n base ls1 (dput key (parse_scalar val_str) result)
          else (case skip_blank ls1 of
              [] \<Rightarrow> map_loop n base [] (dput key PNone result)
            | next_l # ls2 \<Rightarrow>
                if indent next_l > base
                then (case parse_block n (next_l # ls2) of
                    None \<Rightarrow> None
                  | Some (v, ls3) \<Rightarrow> map_loop n base ls3 (dput key v result))
                else map_loop n base (next_l # ls2) (dput key PNone result)))"

text \<open>Two steps per line and two more are fuel enough.\<close>

definition load_lines :: "string list \<Rightarrow> pydict option" where
  "load_lines raw_lines = (let ls = map clean_line raw_lines in
     map_option (\<lambda>(v, _). case v of PDict d \<Rightarrow> d | _ \<Rightarrow> []) (parse_block (2 * length ls + 2) ls))"

definition load_yaml_string :: "string \<Rightarrow> pydict option" where
  "load_yaml_string s = load_lines (splitlines s)"

definition load_yaml :: "string \<Rightarrow> pydict option" where
  "load_yaml contents = load_lines (file_lines contents)"

section \<open>Termination\<close>

lemma skip_blank_length: "length (skip_blank ls) \<le> length ls"
  by (simp add: skip_blank_def length_dropWhile_le)

lemma skip_blank_Cons_length: "skip_blank ls = l # ls1 \<Longrightarrow> length ls1 < length ls"
  using skip_blank_length [of ls] by simp

declare parse_block.simps [simp del] list_loop.simps [simp del] map_loop.simps [simp del]

text \<open>With enough fuel the parser returns, and it never gives lines back.\<close>

lemma parser_total:
  "2 * length ls + 2 \<le> n \<Longrightarrow> \<exists>v r. parse_block n ls = Some (v, r) \<and> length r \<le> length ls"
  "2 * length ls + 1 \<le> n \<Longrightarrow> \<exists>v r. list_loop n base ls xs = Some (v, r) \<and> length r \<le> length ls"
  "2 * length ls + 1 \<le> n \<Longrightarrow> \<exists>v r. map_loop n base ls d = Some (v, r) \<and> length r \<le> length ls"
proof (induction n arbitrary: ls base xs d)
  case (Suc n)
  have block: "\<exists>v r. parse_block n m = Some (v, r) \<and> length r \<le> length ls1"
    if "2 * length ls + 1 \<le> Suc n" "length ls1 < length ls" "length m \<le> length ls1" for ls ls1 m :: "string list"
  proof -
    have "2 * length m + 2 \<le> n" using that by linarith
    from Suc.IH(1) [OF this] that(3) show ?thesis using le_trans by blast
  qed
  have loop: "\<exists>v r. list_loop n b m ys = Some (v, r) \<and> length r \<le> length ls"
    "\<exists>v r. map_loop n b m e = Some (v, r) \<and> length r \<le> length ls"
    if "2 * length ls + 1 \<le> Suc n" "length ls1 < length ls" "length m \<le> length ls1" for ls ls1 m :: "string list" and b ys e
  proof -
    have *: "2 * length m + 1 \<le> n" "length m \<le> length ls" using that by linarith+
    show "\<exists>v r. list_loop n b m ys = Some (v, r) \<and> length r \<le> length ls"
      using Suc.IH(2) [OF *(1), of b ys] *(2) le_trans by blast
    show "\<exists>v r. map_loop n b m e = Some (v, r) \<and> length r \<le> length ls"
      using Suc.IH(3) [OF *(1), of b e] *(2) le_trans by blast
  qed
  {
    case 1
    show ?case
    proof (cases "skip_blank ls")
      case (Cons l ls1)
      have len: "length (l # ls1) \<le> length ls" using skip_blank_length [of ls] by (simp add: Cons)
      then have "2 * length (l # ls1) + 1 \<le> n" using 1 by linarith
      from Suc.IH(2,3) [OF this] len show ?thesis
        unfolding parse_block.simps Cons list.case by (cases "is_item (lstrip l)") (simp_all, (meson le_trans)+)
    qed (simp add: parse_block.simps)
  next
    case 2
    show ?case
    proof (cases "skip_blank ls")
      case Nil
      then show ?thesis by (simp add: list_loop.simps)
    next
      case (Cons l ls1)
      note len = skip_blank_Cons_length [OF Cons]
      note b = block [OF 2 len] and lo = loop(1) [OF 2 len]
      obtain v r where p1: "parse_block n ls1 = Some (v, r)" "length r \<le> length ls1" using b [of ls1] by auto
      obtain v' r' where p2: "parse_block n (skip_blank ls1) = Some (v', r')" "length r' \<le> length ls1"
        using b [OF skip_blank_length] by auto
      show ?thesis unfolding list_loop.simps Cons list.case Let_def p1(1) p2(1) option.case prod.case
        using lo [OF order_refl] lo [OF p1(2)] lo [OF p2(2)] len by (simp split: option.split)
    qed
  next
    case 3
    show ?case
    proof (cases "skip_blank ls")
      case Nil
      then show ?thesis by (simp add: map_loop.simps)
    next
      case (Cons l ls1)
      note len = skip_blank_Cons_length [OF Cons]
      note b = block [OF 3 len] and lo = loop(2) [OF 3 len]
      have sk: "length (skip_blank ls1) \<le> length ls1" by (rule skip_blank_length)
      obtain v r where p: "parse_block n (skip_blank ls1) = Some (v, r)" "length r \<le> length ls1"
        using b [OF sk] by auto
      show ?thesis unfolding map_loop.simps Cons list.case Let_def
        using lo [OF order_refl] lo [OF p(2)] lo [OF sk] lo [of "[]"] p(1) len
        by (cases "skip_blank ls1") simp_all
    qed
  }
qed simp_all

text \<open>More fuel changes nothing.\<close>

lemma parser_Suc:
  "parse_block n ls = Some x \<Longrightarrow> parse_block (Suc n) ls = Some x"
  "list_loop n base ls xs = Some x \<Longrightarrow> list_loop (Suc n) base ls xs = Some x"
  "map_loop n base ls d = Some x \<Longrightarrow> map_loop (Suc n) base ls d = Some x"
proof (induction n arbitrary: ls base xs d x)
  case (Suc n)
  {
    case 1
    from 1 [unfolded parse_block.simps(2)] show ?case
      by (subst parse_block.simps(2)) (auto simp: Suc.IH split: list.splits if_split_asm)
  next
    case 2
    note run = 2 [unfolded list_loop.simps(2) Let_def]
    show ?case
    proof (cases "skip_blank ls")
      case Nil
      with run show ?thesis by (simp add: list_loop.simps(2) [of "Suc n"])
    next
      case (Cons l ls1)
      let ?item = "strip (drop 2 (lstrip l))"
      note run = run [unfolded Cons list.case]
      show ?thesis
        apply (subst list_loop.simps(2), unfold Cons list.case Let_def)
        apply (cases "indent l \<noteq> base \<or> \<not> is_item (lstrip l)")
        subgoal using run by simp
        subgoal
          apply (cases "?item = []"; cases "skip_blank ls1 = []"; cases "item_mapping base ?item ls1";
              cases "parse_block n (skip_blank ls1)"; cases "parse_block n ls1")
          using run by (simp_all add: Suc.IH split_beta)
        done
    qed
  next
    case 3
    note run = 3 [unfolded map_loop.simps(2) Let_def]
    show ?case
    proof (cases "skip_blank ls")
      case Nil
      with run show ?thesis by (simp add: map_loop.simps(2) [of "Suc n"])
    next
      case (Cons l ls1)
      note run = run [unfolded Cons list.case]
      show ?thesis
        apply (subst map_loop.simps(2), unfold Cons list.case Let_def)
        apply (cases "lstrip l = [] \<or> indent l \<noteq> base \<or> starts_with ''- '' (lstrip l)")
        subgoal using run by simp
        subgoal
          apply (cases "CHR '':'' \<in> set (lstrip l)"; cases "strip (after (CHR '':'') (lstrip l)) = []"; cases "skip_blank ls1";
              cases "base < indent (hd (skip_blank ls1))"; cases "parse_block n (skip_blank ls1)")
          using run by (simp_all add: Suc.IH split_beta)
        done
    qed
  }
qed (simp_all add: parse_block.simps list_loop.simps map_loop.simps)

lemma parse_block_mono: "parse_block n ls = Some x \<Longrightarrow> n \<le> m \<Longrightarrow> parse_block m ls = Some x"
  by (induction m) (auto simp: le_Suc_eq parser_Suc(1))

lemma list_loop_mono: "list_loop n base ls xs = Some x \<Longrightarrow> n \<le> m \<Longrightarrow> list_loop m base ls xs = Some x"
  by (induction m) (auto simp: le_Suc_eq parser_Suc(2))

lemma map_loop_mono: "map_loop n base ls d = Some x \<Longrightarrow> n \<le> m \<Longrightarrow> map_loop m base ls d = Some x"
  by (induction m) (auto simp: le_Suc_eq parser_Suc(3))

section \<open>Properties\<close>

text \<open>C33: the YAML reader always returns a dictionary, from a text or from the contents of a file: the parser never runs
  out of its fuel of two steps per line and two more, and any more fuel gives the same.\<close>

theorem yaml_reader_total:
  "(\<exists>d. load_yaml_string s = Some d) \<and> (\<exists>d. load_yaml s = Some d)
   \<and> parse_block (2 * length ls + 2 + extra) ls = parse_block (2 * length ls + 2) ls"
proof -
  have lines: "\<exists>d. load_lines raw = Some d" for raw
    using parser_total(1) [of "map clean_line raw" "2 * length (map clean_line raw) + 2"] by (auto simp: load_lines_def Let_def)
  obtain x where x: "parse_block (2 * length ls + 2) ls = Some x" using parser_total(1) [of ls "2 * length ls + 2"] by blast
  have "parse_block (2 * length ls + 2 + extra) ls = Some x" by (rule parse_block_mono [OF x]) simp
  then show ?thesis using lines x by (simp add: load_yaml_string_def load_yaml_def)
qed

end
