(* ===== verification/Yaml_Print.thy ===== *)
theory Yaml_Print
  imports Yaml_Loader
begin

text \<open>
  Printing documents of nested mappings and block sequences of scalars, for any text of scalars that the reader of
  \<^verbatim>\<open>core/yaml_loader.py\<close> takes back: the locale \<open>printer\<close> states what a text of scalars has to promise and shows that the
  reader inverts the printer. Its first interpretation is a reference printer, with every string in quotes; the
  program's own writer is another one (\<open>Profile_Store\<close>).
\<close>

section \<open>Printing\<close>

definition pad :: "nat \<Rightarrow> string" where "pad n = replicate n (CHR '' '')"

fun scalar_text :: "pyval \<Rightarrow> string" where
  "scalar_text (PBool b) = (if b then ''true'' else ''false'')"
| "scalar_text (PInt n) = int_str n"
| "scalar_text (PStr s) = CHR 0x22 # s @ [CHR 0x22]"
| "scalar_text (PList xs) = ''[]''"
| "scalar_text (PDict d) = ''{}''"
| "scalar_text v = ''null''"

fun emit :: "(pyval \<Rightarrow> string) \<Rightarrow> nat \<Rightarrow> pydict \<Rightarrow> string list" where
  "emit tx n [] = []"
| "emit tx n ((k, v) # d) = (case v of
      PDict (p # e) \<Rightarrow> (pad n @ k @ '':'') # emit tx (n + 2) (p # e)
    | PList (x # xs) \<Rightarrow> (pad n @ k @ '':'') # map (\<lambda>y. pad (n + 2) @ ''- '' @ tx y) (x # xs)
    | _ \<Rightarrow> [pad n @ k @ '': '' @ tx v]) @ emit tx n d"

definition unlines :: "string list \<Rightarrow> string" where
  "unlines ls = concat (map (\<lambda>l. l @ [CHR 0x0A]) ls)"

section \<open>The documents\<close>

definition plain_text :: "string \<Rightarrow> bool" where
  "plain_text s \<longleftrightarrow> (\<forall>c \<in> set s. c \<noteq> CHR 0x22 \<and> \<not> is_break c)"

definition plain_key :: "string \<Rightarrow> bool" where
  "plain_key k \<longleftrightarrow> k \<noteq> [] \<and> strip k = k \<and> \<not> starts_with ''- '' k
     \<and> (\<forall>c \<in> set k. c \<notin> {CHR '':'', CHR ''#'', CHR 0x22, CHR 0x27} \<and> \<not> is_break c)"

fun plain_scalar :: "pyval \<Rightarrow> bool" where
  "plain_scalar (PStr s) = plain_text s"
| "plain_scalar (PFloat f) = False"
| "plain_scalar (PList xs) = (xs = [])"
| "plain_scalar (PDict d) = (d = [])"
| "plain_scalar v = True"

text \<open>Documents with the given scalars, and the given items of sequences.\<close>

fun plain_doc :: "(pyval \<Rightarrow> bool) \<Rightarrow> (pyval \<Rightarrow> bool) \<Rightarrow> pydict \<Rightarrow> bool" where
  "plain_doc ok itm [] = True"
| "plain_doc ok itm ((k, v) # d) \<longleftrightarrow> plain_key k \<and> k \<notin> set (dkeys d) \<and> plain_doc ok itm d
     \<and> (case v of PDict e \<Rightarrow> plain_doc ok itm e | PList xs \<Rightarrow> list_all itm xs | _ \<Rightarrow> ok v)"

text \<open>The document that is read back.\<close>

fun read_doc :: "(pyval \<Rightarrow> string) \<Rightarrow> pydict \<Rightarrow> pydict" where
  "read_doc tx [] = []"
| "read_doc tx ((k, v) # d) = (k, case v of
      PDict (p # e) \<Rightarrow> PDict (read_doc tx (p # e))
    | PList (x # xs) \<Rightarrow> PList (map (\<lambda>y. parse_scalar (tx y)) (x # xs))
    | _ \<Rightarrow> parse_scalar (tx v)) # read_doc tx d"

abbreviation read_val :: "(pyval \<Rightarrow> string) \<Rightarrow> pyval \<Rightarrow> pyval" where
  "read_val tx v \<equiv> snd (hd (read_doc tx [([], v)]))"

lemma read_doc_keys [simp]: "dkeys (read_doc tx d) = dkeys d"
  by (induction tx d rule: read_doc.induct) simp_all

section \<open>Numerals\<close>

lemma digit_of_char [simp]: "d < 10 \<Longrightarrow> digit_of (char_of (48 + d)) = Some d"
  by (simp add: digit_of_def)

lemma digit_of_Some_iff: "digit_of c = Some d \<longleftrightarrow> d < 10 \<and> c = char_of (48 + d)"
  by (auto simp: digit_of_def Let_def split: if_splits)

definition all_digits :: "string \<Rightarrow> bool" where
  "all_digits s \<longleftrightarrow> s \<noteq> [] \<and> (\<forall>c \<in> set s. digit_of c \<noteq> None)"

lemma nat_digits_all: "all_digits (nat_digits n)"
proof (induction n rule: nat_digits.induct)
  case (1 n)
  then show ?case by (subst nat_digits.simps) (auto simp: all_digits_def)
qed

lemma underscore_no_digit: "digit_of (CHR ''_'') = None"
  by (simp add: digit_of_def)

lemma digits_snoc:
  "(\<forall>c \<in> set s. digit_of c \<noteq> None) \<Longrightarrow> digit_of c = Some d \<Longrightarrow>
     digits_acc acc p (s @ [c]) = Some (10 * (case digits_acc acc True s of Some a \<Rightarrow> a | None \<Rightarrow> 0) + d)"
proof (induction s arbitrary: acc p)
  case Nil
  then show ?case using underscore_no_digit by auto
next
  case (Cons x s)
  then show ?case using underscore_no_digit by auto
qed

lemma parse_nat_digits: "parse_digits (nat_digits n) = Some n"
proof (induction n rule: nat_digits.induct)
  case (1 n)
  have u: "char_of (48 + n) \<noteq> CHR ''_''" if "n < 10" for n :: nat
    using digit_of_char [OF that] underscore_no_digit by (metis option.distinct(1))
  show ?case
  proof (cases "n < 10")
    case True
    then show ?thesis using u [OF True] by (subst nat_digits.simps) (simp add: parse_digits_def)
  next
    case False
    have "digits_acc 0 True (nat_digits (n div 10)) = digits_acc 0 False (nat_digits (n div 10))"
      using nat_digits_all [of "n div 10"] by (cases "nat_digits (n div 10)") (auto simp: all_digits_def underscore_no_digit)
    then have "digits_acc 0 False (nat_digits (n div 10) @ [char_of (48 + n mod 10)]) = Some (10 * (n div 10) + n mod 10)"
      using digits_snoc [of "nat_digits (n div 10)" "char_of (48 + n mod 10)" "n mod 10" 0 False]
        nat_digits_all [of "n div 10"] 1 [OF False]
      by (simp add: parse_digits_def all_digits_def)
    then show ?thesis using False by (subst nat_digits.simps) (simp add: parse_digits_def)
  qed
qed

section \<open>Scalars are read back\<close>

text \<open>A text that starts and ends with something else than whitespace is its own strip.\<close>

lemma strip_tight: "s \<noteq> [] \<Longrightarrow> \<not> is_ws (hd s) \<Longrightarrow> \<not> is_ws (last s) \<Longrightarrow> strip s = s"
  by (simp add: strip_def lstrip_eq_self rstrip_eq_self)

lemma digit_plain:
  assumes "digit_of c \<noteq> None"
  shows "\<not> is_ws c" "c \<notin> {CHR 0x22, CHR 0x27, CHR ''['', CHR ''{'', CHR '']'', CHR ''}'', CHR ''-'', CHR ''+'', CHR '':'', CHR ''#''}"
    "lower_char c = c" "\<not> is_break c" "c \<notin> {CHR ''t'', CHR ''f'', CHR ''n'', CHR ''~''}"
  using assms by (auto simp: is_ws_def lower_char_def is_break_def digit_of_def Let_def split: if_splits)

lemma int_str_cases:
  obtains (nonneg) d where "all_digits d" "int_str n = d" "0 \<le> n" "d = nat_digits (nat n)"
  | (neg) d where "all_digits d" "int_str n = CHR ''-'' # d" "n < 0" "d = nat_digits (nat (- n))"
  using nat_digits_all by (cases "n < 0") (auto simp: int_str_def)

lemma int_str_chars:
  "int_str n \<noteq> []" "c \<in> set (int_str n) \<Longrightarrow> c = CHR ''-'' \<or> digit_of c \<noteq> None" "digit_of (last (int_str n)) \<noteq> None"
  by (cases n rule: int_str_cases; auto simp: all_digits_def)+

lemma minus_plain: "\<not> is_ws (CHR ''-'')" "\<not> is_break (CHR ''-'')" "lower_char (CHR ''-'') = CHR ''-''"
  by (simp_all add: is_ws_def is_break_def lower_char_def)

lemma strip_int_str [simp]: "strip (int_str n) = int_str n"
  using int_str_chars(1,3) [of n] int_str_chars(2) [of "hd (int_str n)" n] digit_plain(1) minus_plain
  by (intro strip_tight) auto

lemma parse_int_str: "parse_int (int_str n) = Some n"
proof (cases n rule: int_str_cases)
  case (nonneg d)
  then have "hd d \<notin> {CHR ''-'', CHR ''+''}" "d \<noteq> []" using digit_plain(2) [of "hd d"] by (auto simp: all_digits_def)
  then have "sign_split d = (False, d)" by (cases d) (auto simp: sign_split_def)
  then show ?thesis using nonneg strip_int_str [of n] parse_nat_digits [of "nat n"] by (simp add: parse_int_def)
next
  case (neg d)
  then show ?thesis using strip_int_str [of n] parse_nat_digits [of "nat (- n)"] by (simp add: parse_int_def sign_split_def)
qed

lemma to_lower_int_str: "to_lower (int_str n) = int_str n"
  unfolding to_lower_def by (rule map_idI) (metis int_str_chars(2) digit_plain(3) minus_plain(3))

lemma int_str_no_word: "digit_of (last w) = None \<Longrightarrow> int_str n \<noteq> w" "int_str n \<noteq> []"
  using int_str_chars(1,3) [of n] by auto

lemma parse_scalar_text: assumes "plain_scalar v" shows "parse_scalar (scalar_text v) = v"
proof (cases v)
  case (PInt n)
  have "\<not> wrapped a b (int_str n)" if "b \<in> {CHR 0x22, CHR 0x27, CHR '']'', CHR ''}''}" for a b
    using digit_plain(2) [OF int_str_chars(3) [of n]] that int_str_chars(1) [of n]
    by (cases "int_str n" rule: rev_cases) (auto simp: wrapped_def ends_with_def starts_with_def)
  moreover have "int_str n \<noteq> ''true''" "int_str n \<noteq> ''false''" "int_str n \<noteq> ''null''" "int_str n \<noteq> ''~''" "int_str n \<noteq> []"
    by (rule int_str_no_word; simp add: digit_of_def)+
  ultimately show ?thesis
    by (subst parse_scalar.simps) (simp add: PInt parse_int_str to_lower_int_str Let_def)
next
  case (PStr s)
  have "strip (CHR 0x22 # s @ [CHR 0x22]) = CHR 0x22 # s @ [CHR 0x22]" by (rule strip_tight) (simp_all add: is_ws_def)
  then show ?thesis using assms by (subst parse_scalar.simps) (simp add: PStr wrapped_def starts_with_def ends_with_def inner_def)
next
  case (PList xs)
  have "parse_scalar ''[]'' = PList []" by code_simp
  then show ?thesis using assms by (simp add: PList)
next
  case (PDict d)
  have "parse_scalar ''{}'' = PDict []" by code_simp
  then show ?thesis using assms by (simp add: PDict)
next
  case PNone
  have "parse_scalar ''null'' = PNone" by code_simp
  then show ?thesis by (simp add: PNone)
next
  case (PBool b)
  have "parse_scalar ''true'' = PBool True" "parse_scalar ''false'' = PBool False" by code_simp+
  then show ?thesis by (simp add: PBool)
qed (use assms in simp)

text \<open>What the block parser and the comment stripper see of a scalar.\<close>

lemma scalar_text_tight:
  assumes "plain_scalar v"
  shows "scalar_text v \<noteq> []" "\<not> is_ws (hd (scalar_text v))" "\<not> is_ws (last (scalar_text v))"
    "\<forall>c \<in> set (scalar_text v). \<not> is_break c"
    "(\<forall>c \<in> set (scalar_text v). c \<notin> {CHR '':'', CHR ''#'', CHR 0x22, CHR 0x27}) \<or> (\<exists>s. v = PStr s)"
proof -
  have i: "\<not> is_ws c" "\<not> is_break c" "c \<notin> {CHR '':'', CHR ''#'', CHR 0x22, CHR 0x27}" if "c \<in> set (int_str n)" for c n
  proof -
    from int_str_chars(2) [OF that] show "\<not> is_ws c" "\<not> is_break c"
      using digit_plain(1,4) [of c] minus_plain(1,2) by metis+
    from int_str_chars(2) [OF that] show "c \<notin> {CHR '':'', CHR ''#'', CHR 0x22, CHR 0x27}"
    proof
      assume "digit_of c \<noteq> None"
      from digit_plain(2) [OF this] show ?thesis by blast
    qed simp
  qed
  have "scalar_text v \<noteq> [] \<and> \<not> is_ws (hd (scalar_text v)) \<and> \<not> is_ws (last (scalar_text v))
    \<and> (\<forall>c \<in> set (scalar_text v). \<not> is_break c)
    \<and> ((\<forall>c \<in> set (scalar_text v). c \<notin> {CHR '':'', CHR ''#'', CHR 0x22, CHR 0x27}) \<or> (\<exists>s. v = PStr s))"
  proof (cases v)
    case (PInt n)
    have "hd (int_str n) \<in> set (int_str n)" "last (int_str n) \<in> set (int_str n)" using int_str_chars(1) [of n] by simp_all
    then show ?thesis using i(1) i(2,3) [of _ n] int_str_chars(1) [of n] unfolding PInt scalar_text.simps by blast
  next
    case (PStr s)
    have "\<not> is_ws (CHR 0x22)" "\<not> is_break (CHR 0x22)" by (simp_all add: is_ws_def is_break_def)
    then show ?thesis using assms by (auto simp: PStr plain_text_def)
  qed (use assms in \<open>simp_all add: is_ws_def is_break_def\<close>)
  then show "scalar_text v \<noteq> []" "\<not> is_ws (hd (scalar_text v))" "\<not> is_ws (last (scalar_text v))"
    "\<forall>c \<in> set (scalar_text v). \<not> is_break c"
    "(\<forall>c \<in> set (scalar_text v). c \<notin> {CHR '':'', CHR ''#'', CHR 0x22, CHR 0x27}) \<or> (\<exists>s. v = PStr s)" by blast+
qed

section \<open>Lines\<close>

lemma is_ws_blank [simp]: "is_ws (CHR '' '')" "\<not> is_ws (CHR '':'')" "\<not> is_ws (CHR ''-'')"
  by (simp_all add: is_ws_def)

definition tight :: "string \<Rightarrow> bool" where
  "tight s \<longleftrightarrow> s \<noteq> [] \<and> \<not> is_ws (hd s) \<and> \<not> is_ws (last s)"

lemma tight_strip: "tight s \<Longrightarrow> strip s = s"
  by (simp add: tight_def strip_tight)

lemma tight_key: "plain_key k \<Longrightarrow> tight k"
  using strip_hd [of k] strip_last [of k] by (simp add: tight_def plain_key_def)

lemma lstrip_blank [simp]: "lstrip (CHR '' '' # s) = lstrip s"
  by (simp add: lstrip_def)

lemma lstrip_pad: "tight s \<Longrightarrow> lstrip (pad n @ s) = s"
  by (induction n) (auto simp: pad_def tight_def intro!: lstrip_eq_self)

lemma indent_pad: "tight s \<Longrightarrow> indent (pad n @ s) = n"
  by (simp add: indent_def lstrip_pad) (simp add: pad_def)

lemma blank_pad: "tight s \<Longrightarrow> \<not> blank (pad n @ s)"
  using tight_strip [of s] by (simp add: blank_def strip_def lstrip_pad tight_def lstrip_eq_self)

text \<open>Comment stripping leaves the printed lines alone.\<close>

lemma cut_plain:
  "\<forall>c \<in> set xs. c \<notin> {CHR ''#'', CHR 0x22, CHR 0x27} \<Longrightarrow>
     \<exists>sp'. \<forall>ys. cut_comment False False sp (xs @ ys) = xs @ cut_comment False False sp' ys"
proof (induction xs arbitrary: sp)
  case (Cons c xs)
  then obtain sp' where "\<forall>ys. cut_comment False False (c = CHR '' '' \<or> c = CHR 0x09) (xs @ ys) = xs @ cut_comment False False sp' ys"
    by fastforce
  then show ?case using Cons.prems by auto
qed auto

lemma cut_quoted: "CHR 0x22 \<notin> set s \<Longrightarrow> cut_comment True False sp (s @ [CHR 0x22]) = s @ [CHR 0x22]"
  by (induction s arbitrary: sp) auto

lemma clean_pad:
  assumes "tight s" "hd s \<noteq> CHR ''#''" "cut_comment False False True (pad n @ s) = pad n @ s"
  shows "clean_line (pad n @ s) = pad n @ s"
proof -
  have "rstrip (pad n @ s) = pad n @ s" using assms(1) by (intro rstrip_eq_self) (simp add: tight_def)
  then show ?thesis using assms lstrip_pad [OF assms(1), of n]
    by (cases s) (simp_all add: clean_line_def strip_inline_comment_def starts_with_def)
qed

lemma pad_chars: "c \<in> set (pad n) \<Longrightarrow> c = CHR '' ''"
  by (simp add: pad_def)

text \<open>The three kinds of printed lines.\<close>

definition good_line :: "string \<Rightarrow> bool" where
  "good_line l \<longleftrightarrow> clean_line l = l \<and> (\<forall>c \<in> set l. \<not> is_break c)"

lemma good_pad:
  assumes "tight (w @ t)" "w \<noteq> []" "\<forall>c \<in> set w. c \<notin> {CHR ''#'', CHR 0x22, CHR 0x27} \<and> \<not> is_break c"
    and "\<forall>sp. cut_comment False False sp t = t" "\<forall>c \<in> set t. \<not> is_break c"
  shows "good_line (pad n @ w @ t)"
proof -
  have "\<forall>c \<in> set (pad n @ w). c \<notin> {CHR ''#'', CHR 0x22, CHR 0x27}" using assms(3) by (auto dest: pad_chars)
  from cut_plain [OF this, of True] obtain sp' where "\<And>ys. cut_comment False False True ((pad n @ w) @ ys) = (pad n @ w) @ cut_comment False False sp' ys"
    by blast
  from this [of t] have "cut_comment False False True (pad n @ w @ t) = pad n @ w @ t" using assms(4) by simp
  moreover have "hd (w @ t) \<noteq> CHR ''#''" using assms(2,3) by (cases w) auto
  moreover have "\<not> is_break (CHR '' '')" by (simp add: is_break_def)
  ultimately show ?thesis using clean_pad [OF assms(1), of n] assms(3,5) by (auto simp: good_line_def dest: pad_chars)
qed

section \<open>Blocks\<close>

text \<open>What may follow a block at indentation \<open>n\<close>: nothing, or a line less indented.\<close>

definition closes :: "nat \<Rightarrow> string list \<Rightarrow> bool" where
  "closes n r \<longleftrightarrow> (case r of [] \<Rightarrow> True | l # _ \<Rightarrow> \<not> blank l \<and> indent l < n)"

lemma skip_nonblank [simp]: "\<not> blank l \<Longrightarrow> skip_blank (l # ls) = l # ls"
  by (simp add: skip_blank_def)

lemma skip_closes: "closes n r \<Longrightarrow> skip_blank r = r"
  by (cases r) (simp_all add: closes_def skip_blank_def)

lemma closes_mono: "closes n r \<Longrightarrow> n \<le> m \<Longrightarrow> closes m r"
  by (cases r) (simp_all add: closes_def)

lemma map_loop_closes: "closes n r \<Longrightarrow> map_loop (Suc f) n r d = Some (PDict d, r)"
  by (cases r) (simp_all add: map_loop.simps skip_closes closes_def Let_def)

lemma list_loop_closes: "closes n r \<Longrightarrow> list_loop (Suc f) n r xs = Some (PList xs, r)"
  by (cases r) (simp_all add: list_loop.simps skip_closes closes_def)

text \<open>The head of a printed line.\<close>

lemma before_after: "c \<notin> set k \<Longrightarrow> before c (k @ c # t) = k" "c \<notin> set k \<Longrightarrow> after c (k @ c # t) = t"
  by (induction k) (auto simp: before_def after_def)

lemma key_line:
  assumes "plain_key k" and t: "t = [] \<or> \<not> is_ws (last t)"
  shows "tight (k @ '':'' @ t)" "\<not> starts_with ''- '' (k @ '':'' @ t)" "before (CHR '':'') (k @ '':'' @ t) = k"
    "after (CHR '':'') (k @ '':'' @ t) = t" "k @ '':'' @ t \<noteq> ''-''"
proof -
  have k: "k \<noteq> []" "\<not> starts_with ''- '' k" "CHR '':'' \<notin> set k" using assms by (auto simp: plain_key_def)
  show "tight (k @ '':'' @ t)" using tight_key [OF assms(1)] t by (auto simp: tight_def)
  show "\<not> starts_with ''- '' (k @ '':'' @ t)" using k by (cases k; cases "tl k") (auto simp: starts_with_def)
  show "before (CHR '':'') (k @ '':'' @ t) = k" "after (CHR '':'') (k @ '':'' @ t) = t"
    using k(3) by (simp_all add: before_after)
  show "k @ '':'' @ t \<noteq> ''-''" using k(1) by (cases k) auto
qed

lemma plain_case:
  obtains (map) p e where "v = PDict (p # e)" | (seq) x xs where "v = PList (x # xs)"
  | (scalar) "\<And>d. v = PDict d \<Longrightarrow> d = []" "\<And>xs. v = PList xs \<Longrightarrow> xs = []"
  by (metis neq_Nil_conv)

text \<open>A printed text has the printed lines.\<close>

lemma take_line_unlines: "\<forall>c \<in> set l. \<not> is_break c \<Longrightarrow> take_line is_break (l @ CHR 0x0A # r) = (l, r)"
  by (induction l) (auto simp: is_break_def)

lemma splitlines_unlines: "\<forall>l \<in> set ls. \<forall>c \<in> set l. \<not> is_break c \<Longrightarrow> splitlines (unlines ls) = ls"
proof (induction ls)
  case Nil
  show ?case by (subst splitlines_def, subst lines_by.simps) (simp add: unlines_def)
next
  case (Cons l ls)
  then show ?case
    using take_line_unlines [of l "unlines ls"] unfolding splitlines_def by (subst lines_by.simps) (simp add: unlines_def)
qed

lemma map_loop_block:
  assumes "plain_key k" "\<not> blank l" "n < indent l" "parse_block f (l # ls) = Some (v, r)"
  shows "map_loop (Suc f) n ((pad n @ k @ '':'') # l # ls) d = map_loop f n r (dput k v d)"
proof -
  note h = key_line [OF assms(1) disjI1 [OF refl], simplified]
  have "strip k = k" using assms(1) by (simp add: plain_key_def)
  then show ?thesis using h blank_pad [OF h(1)] lstrip_pad [OF h(1)] indent_pad [OF h(1)] assms(2-4)
    by (simp add: map_loop.simps(2) tight_def Let_def)
qed

lemma dput_new: "k \<notin> set (dkeys d) \<Longrightarrow> dput k v d = d @ [(k, v)]"
  by (induction k v d rule: dput.induct) auto

text \<open>An item whose next line is not deeper is a scalar.\<close>

lemma no_item_mapping: "closes (Suc n) ls \<Longrightarrow> item_mapping n t ls = None"
  by (cases ls) (simp_all add: item_mapping_def Let_def skip_closes closes_def)

lemma emit_induct [case_names Nil Cons]:
  fixes P :: "nat \<Rightarrow> pydict \<Rightarrow> bool"
  assumes "\<And>n. P n []" "\<And>n k v d. (\<And>p e. v = PDict (p # e) \<Longrightarrow> P (n + 2) (p # e)) \<Longrightarrow> P n d \<Longrightarrow> P n ((k, v) # d)"
  shows "P n d"
proof (induction "\<lambda>_ :: pyval. [] :: string" n d rule: emit.induct)
  case (2 n k v d)
  then show ?case using assms(2) by blast
qed (rule assms(1))

section \<open>Printers\<close>

locale printer =
  fixes tx :: "pyval \<Rightarrow> string" and ok :: "pyval \<Rightarrow> bool" and itm :: "pyval \<Rightarrow> bool"
  assumes text_tight: "ok v \<Longrightarrow> tight (tx v)"
    and text_unbroken: "ok v \<Longrightarrow> c \<in> set (tx v) \<Longrightarrow> \<not> is_break c"
    and text_uncut: "ok v \<Longrightarrow> cut_comment False False sp (tx v) = tx v"
    and itm_ok: "itm v \<Longrightarrow> ok v"
    and empty_ok: "ok (PList [])" "ok (PDict [])"
begin

lemma good_lines:
  assumes "plain_key k"
  shows "good_line (pad n @ k @ '':'')" and "ok v \<Longrightarrow> good_line (pad n @ k @ '': '' @ tx v)"
proof -
  have k: "k \<noteq> []" "\<forall>c \<in> set k. c \<notin> {CHR ''#'', CHR 0x22, CHR 0x27} \<and> \<not> is_break c" "\<not> is_ws (hd k)"
    using assms tight_key [OF assms] by (auto simp: plain_key_def tight_def)
  have b: "\<not> is_break (CHR '':'')" "\<not> is_break (CHR '' '')" by (simp_all add: is_break_def)
  show "good_line (pad n @ k @ '':'')"
    using good_pad [of "k @ '':''" "[]" n] k b by (auto simp: tight_def)
  assume v: "ok v"
  show "good_line (pad n @ k @ '': '' @ tx v)"
    using good_pad [of "k @ '': ''" "tx v" n] k b text_tight [OF v] text_unbroken [OF v] text_uncut [OF v] by (auto simp: tight_def)
qed

lemma good_item: "ok v \<Longrightarrow> good_line (pad n @ ''- '' @ tx v)"
  using good_pad [of "''- ''" "tx v" n] text_tight [of v] text_unbroken [of v] text_uncut [of v]
  by (auto simp: tight_def is_break_def)

lemma emit_good: "plain_doc ok itm d \<Longrightarrow> l \<in> set (emit tx n d) \<Longrightarrow> good_line l"
proof (induction n d rule: emit_induct)
  case (Cons n k v d)
  have k: "plain_key k" using Cons.prems(1) by simp
  show ?case
  proof (cases v rule: plain_case)
    case (map p e)
    then show ?thesis using Cons good_lines(1) [OF k] by auto
  next
    case (seq x xs)
    then show ?thesis using Cons good_lines(1) [OF k, of n] good_item [OF itm_ok, of _ "n + 2"] by (auto simp: list_all_iff)
  next
    case scalar
    then have "ok v" "emit tx n ((k, v) # d) = (pad n @ k @ '': '' @ tx v) # emit tx n d"
      using Cons.prems(1) by (auto simp: empty_ok split: pyval.splits list.splits)
    then show ?thesis using Cons good_lines(2) [OF k] by auto
  qed
qed simp

text \<open>One step of the mapping loop on each kind of entry.\<close>

lemma map_loop_scalar:
  assumes "plain_key k" "ok v"
  shows "map_loop (Suc f) n ((pad n @ k @ '': '' @ tx v) # ls) d = map_loop f n ls (dput k (parse_scalar (tx v)) d)"
proof -
  have t: "tight (tx v)" by (rule text_tight [OF assms(2)])
  have l: "\<not> is_ws (last (CHR '' '' # tx v))" using t by (simp add: tight_def)
  note h = key_line [OF assms(1) disjI2 [OF l], simplified]
  have "strip (CHR '' '' # tx v) = tx v" using tight_strip [OF t] by (simp add: strip_def)
  moreover have "strip k = k" using assms(1) by (simp add: plain_key_def)
  ultimately show ?thesis using h t blank_pad [OF h(1)] lstrip_pad [OF h(1)] indent_pad [OF h(1)]
    by (simp add: map_loop.simps(2) tight_def Let_def)
qed

lemma item_line:
  assumes "ok v"
  shows "tight (''- '' @ tx v)" "is_item (''- '' @ tx v)"
  using text_tight [OF assms] by (auto simp: tight_def is_item_def starts_with_def)

lemma list_loop_items:
  "\<forall>x \<in> set xs. ok x \<Longrightarrow> closes n r \<Longrightarrow>
     list_loop (Suc (length xs)) n (map (\<lambda>y. pad n @ ''- '' @ tx y) xs @ r) acc = Some (PList (acc @ map (\<lambda>y. parse_scalar (tx y)) xs), r)"
proof (induction xs arbitrary: acc)
  case Nil
  then show ?case by (simp add: list_loop_closes)
next
  case (Cons x xs)
  have x: "ok x" using Cons.prems by simp
  note h = item_line [OF x] and t = text_tight [OF x]
  have "closes (Suc n) (map (\<lambda>y. pad n @ ''- '' @ tx y) xs @ r)"
  proof (cases xs)
    case (Cons y ys)
    have "ok y" using Cons.prems(1) Cons by simp
    from item_line(1) [OF this] show ?thesis by (simp add: Cons closes_def blank_pad indent_pad)
  qed (use Cons.prems(2) in \<open>auto intro: closes_mono\<close>)
  from no_item_mapping [OF this] have "list_loop (Suc (length (x # xs))) n (map (\<lambda>y. pad n @ ''- '' @ tx y) (x # xs) @ r) acc
      = list_loop (Suc (length xs)) n (map (\<lambda>y. pad n @ ''- '' @ tx y) xs @ r) (acc @ [parse_scalar (tx x)])"
    using blank_pad [OF h(1), of n] lstrip_pad [OF h(1), of n] indent_pad [OF h(1), of n] h(2) t tight_strip [OF t]
    by (simp add: list_loop.simps(2) [of "Suc (length xs)"] Let_def tight_def)
  then show ?case using Cons by simp
qed

text \<open>A block of entries is read back as their insertion, up to the line that closes it.\<close>

lemma head_emit: assumes "plain_doc ok itm ((k, v) # d)"
  shows "\<exists>l ls. emit tx n ((k, v) # d) = l # ls \<and> \<not> blank l \<and> indent l = n \<and> \<not> is_item (lstrip l)"
proof -
  have k: "plain_key k" using assms by simp
  note a = key_line [OF k disjI1 [OF refl], simplified]
  have head: ?thesis if e: "emit tx n ((k, v) # d) = (pad n @ s) # ls" "tight s" "\<not> starts_with ''- '' s" "s \<noteq> ''-''" for s ls
    using e blank_pad [OF e(2)] lstrip_pad [OF e(2)] indent_pad [OF e(2)] by (simp add: is_item_def)
  show ?thesis
  proof (cases v rule: plain_case)
    case (map p e)
    then show ?thesis using a by (intro head [of "k @ '':''"]) simp_all
  next
    case (seq x xs)
    then show ?thesis using a by (intro head [of "k @ '':''"]) simp_all
  next
    case scalar
    then have v: "ok v" "emit tx n ((k, v) # d) = (pad n @ k @ '': '' @ tx v) # emit tx n d"
      using assms by (auto simp: empty_ok split: pyval.splits list.splits)
    have "\<not> is_ws (last (CHR '' '' # tx v))" using text_tight [OF v(1)] by (simp add: tight_def)
    from key_line [OF k disjI2 [OF this]] show ?thesis using v(2) by (intro head [of "k @ '': '' @ tx v"]) simp_all
  qed
qed

lemma closes_emit: "plain_doc ok itm d \<Longrightarrow> closes n r \<Longrightarrow> closes (Suc n) (emit tx n d @ r)"
proof (cases d)
  case (Cons p e)
  assume "plain_doc ok itm d"
  then show ?thesis using head_emit [of "fst p" "snd p" e n] by (auto simp: Cons closes_def)
qed (simp add: closes_mono)

lemma dupdate_fresh: "plain_doc ok itm d \<Longrightarrow> set (dkeys d) \<inter> set (dkeys acc) = {} \<Longrightarrow> dupdate acc (read_doc tx d) = acc @ read_doc tx d"
  by (induction d arbitrary: acc) (auto simp: dput_new dkeys_def read_doc_keys)

lemma dupdate_plain: "plain_doc ok itm d \<Longrightarrow> dupdate [] (read_doc tx d) = read_doc tx d"
  by (simp add: dupdate_fresh)

lemma map_loop_emit:
  "plain_doc ok itm d \<Longrightarrow> closes n r \<Longrightarrow> \<exists>f. map_loop f n (emit tx n d @ r) acc = Some (PDict (dupdate acc (read_doc tx d)), r)"
proof (induction n d arbitrary: acc r rule: emit_induct)
  case (Nil n)
  then show ?case using map_loop_closes [of n r 0 acc] by auto
next
  case (Cons n k v d)
  have k: "plain_key k" and d: "plain_doc ok itm d" using Cons.prems(1) by simp_all
  have rest: "closes (n + 2) (emit tx n d @ r)" using closes_emit [OF d Cons.prems(2)] by (rule closes_mono) simp
  obtain f where f: "map_loop f n (emit tx n d @ r) (dput k (read_val tx v) acc) = Some (PDict (dupdate (dput k (read_val tx v) acc) (read_doc tx d)), r)"
    using Cons.IH(2) [OF d Cons.prems(2)] by blast
  have block: ?case
    if e: "emit tx n ((k, v) # d) = (pad n @ k @ '':'') # l # ls @ emit tx n d" and l: "\<not> blank l" "n < indent l"
      and b: "parse_block g (l # ls @ emit tx n d @ r) = Some (read_val tx v, emit tx n d @ r)" for l ls g
  proof -
    have "parse_block (max f g) (l # ls @ emit tx n d @ r) = Some (read_val tx v, emit tx n d @ r)"
      using parse_block_mono [OF b] by simp
    from map_loop_block [OF k l this] have "map_loop (Suc (max f g)) n (emit tx n ((k, v) # d) @ r) acc
        = map_loop (max f g) n (emit tx n d @ r) (dput k (read_val tx v) acc)" by (simp only: e append_Cons append_assoc)
    also have "\<dots> = Some (PDict (dupdate acc (read_doc tx ((k, v) # d))), r)" using map_loop_mono [OF f] by simp
    finally show ?case by blast
  qed
  show ?case
  proof (cases v rule: plain_case)
    case (map p e)
    have pe: "plain_doc ok itm (p # e)" using Cons.prems(1) by (simp add: map)
    obtain l ls where l: "emit tx (n + 2) (p # e) = l # ls" "\<not> blank l" "indent l = n + 2" "\<not> is_item (lstrip l)"
      using head_emit [of "fst p" "snd p" e "n + 2"] pe by auto
    obtain g where "map_loop g (n + 2) (emit tx (n + 2) (p # e) @ emit tx n d @ r) [] = Some (PDict (dupdate [] (read_doc tx (p # e))), emit tx n d @ r)"
      using Cons.IH(1) [OF map pe rest] by blast
    moreover have "dupdate [] (read_doc tx (p # e)) = read_doc tx (p # e)" by (rule dupdate_plain [OF pe])
    ultimately have "parse_block (Suc g) (l # ls @ emit tx n d @ r) = Some (read_val tx v, emit tx n d @ r)"
      using l by (simp add: parse_block.simps map)
    then show ?thesis using l by (intro block [of l ls]) (simp_all add: map)
  next
    case (seq x xs)
    have "\<forall>y \<in> set (x # xs). ok y" using Cons.prems(1) itm_ok by (auto simp: seq list_all_iff)
    note run = list_loop_items [OF this rest, of "[]"]
    have x: "ok x" using Cons.prems(1) itm_ok by (simp add: seq)
    let ?l = "pad (n + 2) @ ''- '' @ tx x"
    note h = item_line [OF x]
    have l: "\<not> blank ?l" "indent ?l = n + 2" "is_item (lstrip ?l)"
      using blank_pad [OF h(1)] indent_pad [OF h(1)] lstrip_pad [OF h(1)] h(2) by simp_all
    have "parse_block (Suc (Suc (length (x # xs)))) (?l # map (\<lambda>y. pad (n + 2) @ ''- '' @ tx y) xs @ emit tx n d @ r)
        = Some (read_val tx v, emit tx n d @ r)"
      using run l by (simp add: parse_block.simps seq del: append_assoc)
    then show ?thesis using l by (intro block [of ?l "map (\<lambda>y. pad (n + 2) @ ''- '' @ tx y) xs"]) (simp_all add: seq)
  next
    case scalar
    then have v: "ok v" "emit tx n ((k, v) # d) = (pad n @ k @ '': '' @ tx v) # emit tx n d" "read_val tx v = parse_scalar (tx v)"
      using Cons.prems(1) by (auto simp: empty_ok split: pyval.splits list.splits)
    show ?thesis using map_loop_scalar [OF k v(1), of f n "emit tx n d @ r" acc] f [unfolded v(3)] v(2,3) by (intro exI [of _ "Suc f"]) simp
  qed
qed

lemma load_printed:
  assumes "plain_doc ok itm d"
  shows "load_lines (emit tx 0 d) = Some (read_doc tx d)" "\<forall>l \<in> set (emit tx 0 d). \<forall>c \<in> set l. \<not> is_break c"
proof -
  have good: "\<forall>l \<in> set (emit tx 0 d). good_line l" using emit_good [OF assms] by blast
  then show "\<forall>l \<in> set (emit tx 0 d). \<forall>c \<in> set l. \<not> is_break c" by (simp add: good_line_def)
  have "map clean_line (emit tx 0 d) = emit tx 0 d" using good by (intro map_idI) (simp add: good_line_def)
  then have load: "load_lines (emit tx 0 d) =
      map_option (\<lambda>(v, _). case v of PDict d \<Rightarrow> d | _ \<Rightarrow> []) (parse_block (2 * length (emit tx 0 d) + 2) (emit tx 0 d))"
    by (simp add: load_lines_def Let_def)
  show "load_lines (emit tx 0 d) = Some (read_doc tx d)"
  proof (cases d)
    case Nil
    then show ?thesis using load by (simp add: parse_block.simps skip_blank_def numeral_2_eq_2)
  next
    case (Cons p e)
    obtain l ls where l: "emit tx 0 d = l # ls" "\<not> blank l" "indent l = 0" "\<not> is_item (lstrip l)"
      using head_emit [of "fst p" "snd p" e 0] assms by (auto simp: Cons)
    obtain f where "map_loop f 0 (emit tx 0 d @ []) [] = Some (PDict (dupdate [] (read_doc tx d)), [])"
      using map_loop_emit [OF assms, of 0 "[]" "[]"] by (auto simp: closes_def)
    then have run: "parse_block (Suc f) (emit tx 0 d) = Some (PDict (read_doc tx d), [])"
      using l by (simp add: parse_block.simps dupdate_plain [OF assms])
    obtain x where x: "parse_block (2 * length (emit tx 0 d) + 2) (emit tx 0 d) = Some x" using parser_total(1) by blast
    have "x = (PDict (read_doc tx d), [])"
      using parse_block_mono [OF run, of "max (Suc f) (2 * length (emit tx 0 d) + 2)"]
        parse_block_mono [OF x, of "max (Suc f) (2 * length (emit tx 0 d) + 2)"] by simp
    then show ?thesis using load x by simp
  qed
qed

end

section \<open>The reference printer\<close>

lemma tight_scalar: "plain_scalar v \<Longrightarrow> tight (scalar_text v)"
  using scalar_text_tight [of v] by (simp add: tight_def)

lemma cut_scalar: assumes "plain_scalar v" shows "cut_comment False False sp (scalar_text v) = scalar_text v"
proof (cases "\<exists>s. v = PStr s")
  case True
  then show ?thesis using assms by (auto simp: plain_text_def intro!: cut_quoted)
next
  case False
  then have "\<forall>c \<in> set (scalar_text v). c \<notin> {CHR ''#'', CHR 0x22, CHR 0x27}" using scalar_text_tight(5) [OF assms] by blast
  from cut_plain [OF this, of sp] obtain sp' where "cut_comment False False sp (scalar_text v @ []) = scalar_text v @ cut_comment False False sp' []"
    by blast
  then show ?thesis by simp
qed

interpretation reference: printer scalar_text plain_scalar plain_scalar
proof
  show "tight (scalar_text v)" if "plain_scalar v" for v using that by (rule tight_scalar)
  show "\<not> is_break c" if "plain_scalar v" "c \<in> set (scalar_text v)" for v c using scalar_text_tight(4) [OF that(1)] that(2) by blast
  show "cut_comment False False sp (scalar_text v) = scalar_text v" if "plain_scalar v" for v sp using that by (rule cut_scalar)
qed simp_all

lemma read_same:
  fixes n :: nat
  assumes "\<And>v. ok v \<Longrightarrow> parse_scalar (tx v) = v" "\<And>v. itm v \<Longrightarrow> ok v" "ok (PList [])" "ok (PDict [])"
  shows "plain_doc ok itm d \<Longrightarrow> read_doc tx d = d"
proof (induction n d rule: emit_induct)
  case (Cons n k v d)
  have d: "read_doc tx d = d" using Cons by simp
  show ?case
  proof (cases v rule: plain_case)
    case (map p e)
    then show ?thesis using Cons d by simp
  next
    case (seq x xs)
    have "map (\<lambda>y. parse_scalar (tx y)) (x # xs) = x # xs" using Cons.prems assms(1,2) by (intro map_idI) (auto simp: seq list_all_iff)
    then show ?thesis using d by (simp add: seq)
  next
    case scalar
    then have "ok v" "read_doc tx ((k, v) # d) = (k, parse_scalar (tx v)) # read_doc tx d"
      using Cons.prems assms(3,4) by (auto split: pyval.splits list.splits)
    then show ?thesis using d assms(1) by simp
  qed
qed simp

section \<open>Properties\<close>

text \<open>C35: printing a document and reading it back gives the document: nested mappings, block sequences of scalars,
  strings with any text in quotes (also with comment signs, colons or commas in it), integers, booleans and null.\<close>

theorem yaml_roundtrip:
  assumes "plain_doc plain_scalar plain_scalar d" shows "load_yaml_string (unlines (emit scalar_text 0 d)) = Some d"
  using reference.load_printed [OF assms] read_same [OF parse_scalar_text _ _ _ assms]
  by (simp add: load_yaml_string_def splitlines_unlines)

definition sample_doc :: pydict where
  "sample_doc = [(''title'', PStr ''a: b # c, [d]''), (''limits'', PDict [(''max turns'', PInt (- 12)), (''strict'', PBool True)]),
     (''tags'', PList [PStr ''x'', PInt 3, PNone]), (''empty'', PDict [])]"

theorem yaml_roundtrip_witness: "load_yaml_string (unlines (emit scalar_text 0 sample_doc)) = Some sample_doc"
proof -
  have "plain_doc plain_scalar plain_scalar sample_doc" by code_simp
  then show ?thesis by (rule yaml_roundtrip)
qed

end
