(* ===== verification/Admin_Operations.thy ===== *)
theory Admin_Operations
  imports Permissions
begin

text \<open>
  Shared operations of administration, \<^verbatim>\<open>system_log/admin_operations.py\<close>: the builders of log records and the test
  whether an administrator governs a domain. Record ids and the clock are arguments; a domain registry is what the
  test asks of it, the module entries of a domain or an exception.
\<close>

section \<open>Log records\<close>

definition opt_entry :: "string \<Rightarrow> pyval option \<Rightarrow> pydict" where
  "opt_entry k v = (case v of None \<Rightarrow> [] | Some w \<Rightarrow> [(k, w)])"

definition build_trace_event ::
  "string \<Rightarrow> string \<Rightarrow> string \<Rightarrow> string \<Rightarrow> string \<Rightarrow> string \<Rightarrow> pydict option \<Rightarrow> string \<Rightarrow> pydict" where
  "build_trace_event record_id now session_id actor_id event_type decision evidence_summary prev_record_hash =
     [(''record_type'', PStr ''TraceEvent''), (''record_id'', PStr record_id), (''prev_record_hash'', PStr prev_record_hash),
      (''timestamp_utc'', PStr now), (''session_id'', PStr session_id), (''actor_id'', PStr actor_id),
      (''event_type'', PStr event_type), (''decision'', PStr decision)]
     @ opt_entry ''evidence_summary'' (map_option PDict evidence_summary)"

text \<open>The optional keyword arguments of a commitment record.\<close>

record commitment_opts =
  co_domain_id :: "string option"
  co_subject_version :: "string option"
  co_subject_hash :: "string option"
  co_close_type :: "string option"
  co_close_reason :: "string option"
  co_references :: "string list"
  co_metadata :: pydict
  co_prev :: string

definition no_opts :: commitment_opts where
  "no_opts = \<lparr>co_domain_id = None, co_subject_version = None, co_subject_hash = None, co_close_type = None,
     co_close_reason = None, co_references = [], co_metadata = [], co_prev = ''genesis''\<rparr>"

definition build_commitment_record ::
  "string \<Rightarrow> string \<Rightarrow> string \<Rightarrow> string \<Rightarrow> string \<Rightarrow> string \<Rightarrow> string \<Rightarrow> commitment_opts \<Rightarrow> pydict" where
  "build_commitment_record record_id now actor_id actor_role commitment_type subject_id summary_text opts =
     [(''record_type'', PStr ''CommitmentRecord''), (''record_id'', PStr record_id), (''prev_record_hash'', PStr (co_prev opts)),
      (''timestamp_utc'', PStr now), (''actor_id'', PStr actor_id), (''actor_role'', PStr actor_role),
      (''commitment_type'', PStr commitment_type), (''subject_id'', PStr subject_id), (''summary'', PStr summary_text)]
     @ opt_entry ''domain_id'' (map_option PStr (co_domain_id opts))
     @ opt_entry ''subject_version'' (map_option PStr (co_subject_version opts))
     @ opt_entry ''subject_hash'' (map_option PStr (co_subject_hash opts))
     @ opt_entry ''close_type'' (map_option PStr (co_close_type opts))
     @ opt_entry ''close_reason'' (map_option PStr (co_close_reason opts))
     @ (if co_references opts = [] then [] else [(''references'', PList (map PStr (co_references opts)))])
     @ (if co_metadata opts = [] then [] else [(''metadata'', PDict (co_metadata opts))])"

definition actor_roles :: "(string, string) dict" where
  "actor_roles = [(''root'', ''administration''), (''admin'', ''domain_authority''), (''super_admin'', ''administration''),
     (''operator'', ''administration''), (''half_operator'', ''administration''), (''user'', ''system'')]"

definition map_role_to_actor_role :: "string \<Rightarrow> string" where
  "map_role_to_actor_role role = dget_or actor_roles role ''system''"

definition build_domain_role_assignment ::
  "string \<Rightarrow> string \<Rightarrow> string \<Rightarrow> string \<Rightarrow> string \<Rightarrow> string \<Rightarrow> string \<Rightarrow> string \<Rightarrow> pydict" where
  "build_domain_role_assignment record_id now actor_id actor_role target_user_id module_id domain_role prev =
     build_commitment_record record_id now actor_id actor_role ''domain_role_assignment'' target_user_id
       (''Assigned domain role '' @ CHR 0x27 # domain_role @ CHR 0x27 # '' in '' @ module_id)
       (no_opts\<lparr>co_metadata := [(''target_user_id'', PStr target_user_id), (''module_id'', PStr module_id),
          (''domain_role'', PStr domain_role)], co_prev := prev\<rparr>)"

definition build_domain_role_revocation ::
  "string \<Rightarrow> string \<Rightarrow> string \<Rightarrow> string \<Rightarrow> string \<Rightarrow> string \<Rightarrow> string \<Rightarrow> string \<Rightarrow> pydict" where
  "build_domain_role_revocation record_id now actor_id actor_role target_user_id module_id prev_role prev =
     build_commitment_record record_id now actor_id actor_role ''domain_role_revocation'' target_user_id
       (''Revoked domain role '' @ CHR 0x27 # prev_role @ CHR 0x27 # '' in '' @ module_id)
       (no_opts\<lparr>co_metadata := [(''target_user_id'', PStr target_user_id), (''module_id'', PStr module_id),
          (''prev_role'', PStr prev_role)], co_prev := prev\<rparr>)"

section \<open>Governance\<close>

type_synonym module_lookup = "string \<Rightarrow> pyval list res"

definition overlap :: "pyval list \<Rightarrow> pyval list \<Rightarrow> bool" where
  "overlap xs ys = list_ex (\<lambda>x. list_ex (peq x) ys) xs"

definition hashed :: "pyval list \<Rightarrow> pyval list res" where
  "hashed vs = (if list_all hashable vs then Inr vs else Inl TypeError)"

text \<open>The check assisted by the registry, inside its \<open>try\<close>.\<close>

definition registry_check :: "module_lookup \<Rightarrow> string \<Rightarrow> pyval \<Rightarrow> pyval \<Rightarrow> bool res" where
  "registry_check modules domain_id governed domain_roles =
     res_bind (modules domain_id) (\<lambda>ms.
     res_bind (map_res (\<lambda>m. py_item m ''module_id'') ms) (\<lambda>ids.
     res_bind (hashed ids) (\<lambda>ids.
     res_bind (py_iter governed) (\<lambda>gs.
     res_bind (hashed gs) (\<lambda>gs.
       if overlap ids gs then Inr True
       else res_bind (py_items domain_roles) (\<lambda>rs. Inr (overlap ids (map (\<lambda>(k, _). PStr k) rs))))))))"

definition can_govern_domain :: "pydict \<Rightarrow> string \<Rightarrow> module_lookup option \<Rightarrow> bool res" where
  "can_govern_domain user domain_id registry =
     (let role = dget_or user ''role'' (PStr '''') in
      if role = PStr ''root'' then Inr True
      else if role \<noteq> PStr ''admin'' then Inr False
      else let governed = py_or (dget_or user ''governed_modules'' PNone) (PList []);
               domain_roles = py_or (dget_or user ''domain_roles'' PNone) (PDict []) in
        if \<not> truthy governed \<and> \<not> truthy domain_roles then Inr True
        else res_bind (py_in (PStr domain_id) governed) (\<lambda>b. if b then Inr True
          else res_bind (py_in (PStr domain_id) domain_roles) (\<lambda>b. if b then Inr True
            else case registry of
              None \<Rightarrow> Inr False
            | Some modules \<Rightarrow> (case registry_check modules domain_id governed domain_roles of Inr b \<Rightarrow> Inr b | Inl _ \<Rightarrow> Inr False))))"

section \<open>Facts\<close>

text \<open>A user as the store has it: a role, governed modules and domain roles.\<close>

definition user_record :: "string \<Rightarrow> string list \<Rightarrow> (string, pyval) dict \<Rightarrow> pydict" where
  "user_record role governed roles =
     [(''role'', PStr role), (''governed_modules'', PList (map PStr governed)), (''domain_roles'', PDict roles)]"

definition module_entries :: "string list \<Rightarrow> pyval list" where
  "module_entries ids = map (\<lambda>i. PDict [(''module_id'', PStr i)]) ids"

lemma map_res_entries [simp]: "map_res (\<lambda>m. py_item m ''module_id'') (module_entries ids) = Inr (map PStr ids)"
  by (induction ids) (simp_all add: module_entries_def)

lemma hashed_strs [simp]: "hashed (map PStr xs) = Inr (map PStr xs)"
  by (simp add: hashed_def list_all_iff)

lemma overlap_strs: "overlap (map PStr xs) (map PStr ys) \<longleftrightarrow> set xs \<inter> set ys \<noteq> {}"
  by (auto simp: overlap_def list_ex_iff)

lemma keys_strs: "map (\<lambda>(k, _). PStr k) rs = map PStr (dkeys rs)"
  by (induction rs) auto

text \<open>A registry that knows the modules of some domains and raises for the others.\<close>

definition typed_registry :: "(string \<Rightarrow> string list option) \<Rightarrow> module_lookup" where
  "typed_registry f = (\<lambda>d. case f d of None \<Rightarrow> Inl RuntimeError | Some ids \<Rightarrow> Inr (module_entries ids))"

lemma registry_check_typed:
  "registry_check (typed_registry f) d (PList (map PStr gs)) (PDict rs) =
     (case f d of None \<Rightarrow> Inl RuntimeError | Some ids \<Rightarrow> Inr (set ids \<inter> (set gs \<union> set (dkeys rs)) \<noteq> {}))"
  by (auto simp: registry_check_def typed_registry_def overlap_strs keys_strs split: option.split)

text \<open>The modules and domains a user's record names.\<close>

definition scope :: "string list \<Rightarrow> (string, pyval) dict \<Rightarrow> string set" where
  "scope gs rs = set gs \<union> set (dkeys rs)"

lemma dkeys_empty: "dkeys rs = [] \<longleftrightarrow> rs = []"
  by (cases rs) auto

section \<open>Properties\<close>

text \<open>Who governs a domain, for users as the store has them: root everything; an administrator with neither modules
  nor domain roles everything; another administrator a domain or module named in either, or a domain one of whose
  registered modules is; and nobody else anything. A registry that raises adds nothing.\<close>

theorem can_govern_domain_exact:
  "can_govern_domain (user_record role governed roles) domain_id (map_option typed_registry registry) = Inr
     (role = ''root'' \<or> (role = ''admin'' \<and>
       (scope governed roles = {} \<or> domain_id \<in> scope governed roles
        \<or> (\<exists>f ids. registry = Some f \<and> f domain_id = Some ids \<and> set ids \<inter> scope governed roles \<noteq> {}))))"
proof -
  have or_id: "py_or (PList (map PStr gs)) (PList []) = PList (map PStr gs)" "py_or (PDict rs) (PDict []) = PDict rs" for gs rs
    by (simp_all add: py_or_def)
  have empty: "scope governed roles = {} \<longleftrightarrow> governed = [] \<and> roles = []" by (cases roles) (auto simp: scope_def)
  show ?thesis
    by (auto simp: can_govern_domain_def user_record_def dget_or_def Let_def or_id empty registry_check_typed dhas_def scope_def dkeys_empty
        split: option.split)
qed

end
