(* ===== verification/Staging.thy ===== *)
theory Staging
  imports Transactions Admin_Operations "HOL-Library.Char_ord" "HOL-Library.List_Lexorder"
begin

text \<open>
  Staged files, \<^verbatim>\<open>staging/\<close>: the template registry, the file writer with its deep merge, and the service that stages,
  approves and rejects envelopes on top of the transaction kernel. The staging directory maps an id to what its file
  parses to (\<open>None\<close>: unreadable), the other written files are kept as their format and document; an id is a plain file
  name, as the uuids of the service are. Both are one file system in the code: whether a path that an approval writes
  is the file of an envelope is an argument, and such a write replaces that envelope. An operation gives its result
  and the files it leaves, for the last write of an envelope may fail after the target was written. Fresh ids, the
  clock, the resolution of paths, the rendering of values and how a write ends are arguments. The arrow in the summary
  of an approval is left out.
\<close>

section \<open>Templates\<close>

record tmpl =
  tp_id :: string
  tp_required :: "string list"
  tp_default :: pydict
  tp_target :: string
  tp_format :: string

definition templates :: "(string, tmpl) dict" where
  "templates = map (\<lambda>t. (tp_id t, t))
     [\<lparr>tp_id = ''domain-physics'',
       tp_required = [''id'', ''version'', ''admin'', ''invariants'', ''standing_orders'', ''escalation_triggers'', ''artifacts''],
       tp_default = [(''meta_authority_id'', PStr ''''), (''description'', PStr ''''), (''lumina_core_version'', PStr ''1.0''),
         (''subsystem_configs'', PDict []), (''glossary'', PList [])],
       tp_target = ''model-packs/{domain_short}/cfg/domain-physics.json'', tp_format = ''json''\<rparr>,
      \<lparr>tp_id = ''evidence-schema'', tp_required = [''schema_id'', ''version'', ''domain_id'', ''fields''],
       tp_default = [(''description'', PStr '''')],
       tp_target = ''model-packs/{domain_short}/cfg/evidence-schema.json'', tp_format = ''json''\<rparr>,
      \<lparr>tp_id = ''tool-adapter'',
       tp_required = [''id'', ''version'', ''tool_name'', ''description'', ''domain_id'', ''input_schema'', ''output_schema''],
       tp_default = [(''call_types'', PList []),
         (''authorization'', PDict [(''who_may_call'', PList [PStr ''orchestrator'']), (''requires_entity_consent'', PBool False),
            (''max_calls_per_session'', PNone), (''logged_in_system_log'', PBool True)]),
         (''error_handling'', PDict [(''on_failure'', PStr ''escalate''), (''fallback_standing_order_id'', PNone)])],
       tp_target = ''model-packs/{domain_short}/modules/{module}/tool-adapters/{adapter_name}-adapter-v{major}.yaml'',
       tp_format = ''yaml''\<rparr>,
      \<lparr>tp_id = ''student-profile'', tp_required = [''profile_id'', ''entity_name'', ''domain_id''],
       tp_default = [(''mastery'', PDict []), (''history'', PList []), (''preferences'', PDict [])],
       tp_target = ''model-packs/{domain_short}/profiles/{profile_id}.yaml'', tp_format = ''yaml''\<rparr>,
      \<lparr>tp_id = ''context-hint'', tp_required = [''hint_id'', ''domain_id'', ''content''],
       tp_default = [(''source_task'', PStr ''context_crawler''), (''confidence'', PFloat (Fin 0)), (''tags'', PList [])],
       tp_target = ''model-packs/{domain_short}/context-hints/{hint_id}.json'', tp_format = ''json''\<rparr>]"

text \<open>What the service may raise.\<close>

datatype stage_error = Raised py_exn | Illegal tx_state tx_state | WriteFailed | PersistFailed

type_synonym 'a stage = "stage_error + 'a"

definition lift :: "'a res \<Rightarrow> 'a stage" where
  "lift r = (case r of Inl e \<Rightarrow> Inl (Raised e) | Inr x \<Rightarrow> Inr x)"

definition lift_tx :: "tx_error + 'a \<Rightarrow> 'a stage" where
  "lift_tx r = (case r of Inl (IllegalTransition s t) \<Rightarrow> Inl (Illegal s t) | Inl (TxRaise e) \<Rightarrow> Inl (Raised e) | Inr x \<Rightarrow> Inr x)"

definition require_template :: "pyval \<Rightarrow> tmpl res" where
  "require_template v = (if \<not> hashable v then Inl TypeError
     else case v of
       PStr t \<Rightarrow> (case dget templates t of Some tp \<Rightarrow> Inr tp | None \<Rightarrow> Inl ValueError)
     | _ \<Rightarrow> Inl ValueError)"

section \<open>The file writer\<close>

function deep_merge :: "pydict \<Rightarrow> pydict \<Rightarrow> pydict" where
  "deep_merge base [] = base"
| "deep_merge base ((k, v) # overlay) =
     deep_merge (dput k (case (dget base k, v) of (Some (PDict b), PDict d) \<Rightarrow> PDict (deep_merge b d) | _ \<Rightarrow> v) base) overlay"
  by pat_completeness auto

termination by (relation "measure (\<lambda>(b, ov). size_list (size_prod (\<lambda>_. 0) size) ov)") auto

type_synonym files = "(string, string \<times> pydict) dict"

text \<open>\<open>write_ok\<close>: whether the temporary file can be written and renamed; otherwise nothing changes.\<close>

definition missing_fields :: "tmpl \<Rightarrow> pydict \<Rightarrow> string list" where
  "missing_fields tp payload = filter (\<lambda>f. \<not> dhas payload f) (tp_required tp)"

definition write_from_template :: "(string \<Rightarrow> string) \<Rightarrow> bool \<Rightarrow> pyval \<Rightarrow> pydict \<Rightarrow> string \<Rightarrow> files \<Rightarrow> (string \<times> files) stage" where
  "write_from_template resolve write_ok template_id payload target fs =
     res_bind (lift (require_template template_id)) (\<lambda>tp.
       if missing_fields tp payload \<noteq> [] then Inl (Raised ValueError)
       else if \<not> write_ok then Inl WriteFailed
       else Inr (resolve target, dput (resolve target) (tp_format tp, deep_merge (tp_default tp) payload) fs))"

section \<open>Envelopes\<close>

record envelope =
  en_id :: pyval
  en_template :: pyval
  en_actor :: pyval
  en_role :: pyval
  en_payload :: pyval
  en_staged_at :: pyval
  en_status :: pyval
  en_approver :: pyval
  en_resolved_at :: pyval
  en_final_path :: pyval
  en_log_id :: pyval
  en_tx :: "transaction option"

definition envelope_dict :: "envelope \<Rightarrow> pydict" where
  "envelope_dict e =
     [(''staged_id'', en_id e), (''template_id'', en_template e), (''actor_id'', en_actor e), (''actor_role'', en_role e),
      (''payload'', en_payload e), (''staged_at'', en_staged_at e), (''approval_status'', en_status e),
      (''approver_id'', en_approver e), (''resolved_at'', en_resolved_at e), (''final_path'', en_final_path e),
      (''log_record_id'', en_log_id e)]
     @ (case en_tx e of None \<Rightarrow> [] | Some t \<Rightarrow> [(''transaction'', PDict (to_dict t))])"

text \<open>The dataclass call raises for a missing field without default.\<close>

definition envelope_of_dict :: "pydict \<Rightarrow> envelope res" where
  "envelope_of_dict d =
     (if \<not> {''staged_id'', ''template_id'', ''actor_id'', ''actor_role'', ''payload'', ''staged_at''} \<subseteq> set (dkeys d) then Inl TypeError
      else let f = (\<lambda>k v. dget_or d k v);
               e = \<lparr>en_id = f ''staged_id'' PNone, en_template = f ''template_id'' PNone, en_actor = f ''actor_id'' PNone,
                 en_role = f ''actor_role'' PNone, en_payload = f ''payload'' PNone, en_staged_at = f ''staged_at'' PNone,
                 en_status = f ''approval_status'' (PStr ''pending''), en_approver = f ''approver_id'' PNone,
                 en_resolved_at = f ''resolved_at'' PNone, en_final_path = f ''final_path'' PNone,
                 en_log_id = f ''log_record_id'' PNone, en_tx = None\<rparr>
        in case f ''transaction'' PNone of
             PDict t \<Rightarrow> if dhas t ''transaction_id'' then res_bind (from_dict t) (\<lambda>tx. Inr (e\<lparr>en_tx := Some tx\<rparr>)) else Inr e
           | _ \<Rightarrow> Inr e)"

definition load_envelope :: "pyval \<Rightarrow> envelope res" where
  "load_envelope v = (case v of PDict d \<Rightarrow> envelope_of_dict d | _ \<Rightarrow> Inl AttributeError)"

section \<open>The service\<close>

record staging =
  st_dir :: "(string, pyval option) dict"
  st_files :: files

text \<open>An envelope is written in place, so a write that raises leaves the old file, or a text cut short, which still parses
  only if nothing but the final newline is missing. \<open>x\<close> is what the operation returns when the write ends well.\<close>

datatype persist_end = Persisted | Not_opened | Cut_short bool

definition persist_envelope :: "(pyval \<Rightarrow> string) \<Rightarrow> persist_end \<Rightarrow> 'a \<Rightarrow> envelope \<Rightarrow> staging \<Rightarrow> 'a stage \<times> staging" where
  "persist_envelope render p x e s =
     (let file = (\<lambda>f. s\<lparr>st_dir := dput (py_str render (en_id e)) f (st_dir s)\<rparr>); doc = Some (PDict (envelope_dict e))
      in case p of
           Persisted \<Rightarrow> (Inr x, file doc)
         | Not_opened \<Rightarrow> (Inl PersistFailed, s)
         | Cut_short parses \<Rightarrow> (Inl PersistFailed, file (if parses then doc else None)))"

definition record_id_of :: "pydict \<Rightarrow> pyval" where
  "record_id_of r = dget_or r ''record_id'' PNone"

text \<open>The envelope to stage; \<open>stage_file\<close> adds the write.\<close>

definition new_envelope :: "string \<Rightarrow> string \<Rightarrow> string \<Rightarrow> pydict \<Rightarrow> string \<Rightarrow> string \<Rightarrow> string \<Rightarrow> envelope stage" where
  "new_envelope staged_id log_id now payload template_id actor_id actor_role =
     res_bind (lift (require_template (PStr template_id))) (\<lambda>tp.
       if missing_fields tp payload \<noteq> [] then Inl (Raised ValueError)
       else let tx0 = \<lparr>tx_id = PStr staged_id, tx_operation = PStr (''stage_file:'' @ template_id), tx_state = PROPOSED,
                  tx_actor = PStr actor_id, tx_created = PStr now, tx_updated = PStr now,
                  tx_metadata = PDict [(''template_id'', PStr template_id)], tx_history = []\<rparr>
         in res_bind (lift_tx (advance (PStr now) VALIDATED (Some (PStr actor_id)) None tx0)) (\<lambda>tx.
           let rec = build_commitment_record log_id now actor_id (map_role_to_actor_role actor_role) ''hitl_command_staged'' staged_id
                 (''File staged: template='' @ template_id) (no_opts\<lparr>co_metadata := [(''template_id'', PStr template_id)]\<rparr>)
           in Inr \<lparr>en_id = PStr staged_id, en_template = PStr template_id, en_actor = PStr actor_id, en_role = PStr actor_role,
                 en_payload = PDict payload, en_staged_at = PStr now, en_status = PStr ''pending'', en_approver = PNone,
                 en_resolved_at = PNone, en_final_path = PNone, en_log_id = record_id_of rec, en_tx = Some tx\<rparr>))"

definition stage_file ::
  "persist_end \<Rightarrow> string \<Rightarrow> string \<Rightarrow> string \<Rightarrow> pydict \<Rightarrow> string \<Rightarrow> string \<Rightarrow> string \<Rightarrow> staging \<Rightarrow> envelope stage \<times> staging" where
  "stage_file p staged_id log_id now payload template_id actor_id actor_role s =
     (case new_envelope staged_id log_id now payload template_id actor_id actor_role of
        Inl x \<Rightarrow> (Inl x, s)
      | Inr e \<Rightarrow> persist_envelope (\<lambda>_. []) p e e s)"

definition get_staged :: "string \<Rightarrow> staging \<Rightarrow> envelope option res" where
  "get_staged i s = (case dget (st_dir s) i of
      Some (Some v) \<Rightarrow> res_bind (load_envelope v) (\<lambda>e. Inr (Some e))
    | _ \<Rightarrow> Inr None)"

text \<open>Unreadable files and documents without an id are skipped; the directory is read in the order of its names.\<close>

definition listed :: "string option \<Rightarrow> pyval \<Rightarrow> bool res" where
  "listed actor v = res_bind (py_in (PStr ''staged_id'') v) (\<lambda>b.
     if \<not> b then Inr False
     else case actor of
       Some (c # cs) \<Rightarrow> res_bind (py_get v ''actor_id'' PNone) (\<lambda>a. Inr (a = PStr (c # cs)))
     | _ \<Rightarrow> Inr True)"

definition list_staged :: "string option \<Rightarrow> staging \<Rightarrow> envelope list res" where
  "list_staged actor s = fold_res (\<lambda>(i, f) acc. case f of
       None \<Rightarrow> Inr acc
     | Some v \<Rightarrow> res_bind (listed actor v) (\<lambda>b. if b then res_bind (load_envelope v) (\<lambda>e. Inr (acc @ [e])) else Inr acc))
     (sort_key (\<lambda>(i, f). i @ ''.json'') (st_dir s)) []"

definition load_and_check :: "string \<Rightarrow> staging \<Rightarrow> envelope stage" where
  "load_and_check i s = res_bind (lift (get_staged i s)) (\<lambda>found. case found of
       None \<Rightarrow> Inl (Raised ValueError)
     | Some e \<Rightarrow> if \<not> peq (en_status e) (PStr ''pending'') then Inl (Raised ValueError) else Inr e)"

definition extract_domain_short :: "pydict \<Rightarrow> string" where
  "extract_domain_short payload =
     (let short = (\<lambda>v. case split_on (CHR ''/'') v of _ # p # _ \<Rightarrow> p | _ \<Rightarrow> v)
      in case dget_or payload ''domain_id'' (PStr '''') of
           PStr (c # cs) \<Rightarrow> short (c # cs)
         | _ \<Rightarrow> (case dget_or payload ''domain_short'' (PStr '''') of PStr (c # cs) \<Rightarrow> short (c # cs) | _ \<Rightarrow> ''unknown''))"

text \<open>\<open>format_map\<close> on the built-in patterns, which have plain named fields only; a name without value stays.\<close>

fun format_fields :: "(string \<Rightarrow> string option) \<Rightarrow> string \<Rightarrow> string \<Rightarrow> bool \<Rightarrow> string" where
  "format_fields sub [] name inside = (if inside then CHR ''{'' # name else [])"
| "format_fields sub (c # cs) name inside =
     (if inside then
        (if c = CHR ''}'' then (case sub name of Some v \<Rightarrow> v | None \<Rightarrow> CHR ''{'' # name @ ''}'') @ format_fields sub cs [] False
         else format_fields sub cs (name @ [c]) True)
      else if c = CHR ''{'' then format_fields sub cs [] True
      else c # format_fields sub cs [] False)"

definition setdefault :: "string \<Rightarrow> pyval \<Rightarrow> pydict \<Rightarrow> pydict" where
  "setdefault k v d = (if dhas d k then d else dput k v d)"

definition target_of :: "(pyval \<Rightarrow> string) \<Rightarrow> tmpl \<Rightarrow> string \<Rightarrow> pydict \<Rightarrow> (string, string) dict \<Rightarrow> string" where
  "target_of render tp staged_id payload overrides =
     (let subs0 = map (\<lambda>(k, v). (k, PStr v)) overrides;
          subs1 = setdefault ''domain_short'' (PStr (extract_domain_short payload)) subs0;
          subs = setdefault ''name'' (dget_or payload ''profile_id'' (dget_or payload ''id'' (PStr staged_id))) subs1
      in format_fields (\<lambda>n. map_option (py_str render) (dget subs n)) (tp_target tp) [] False)"

definition tx_advance :: "string \<Rightarrow> tx_state \<Rightarrow> string \<Rightarrow> envelope \<Rightarrow> envelope stage" where
  "tx_advance now target actor e = (case en_tx e of
      None \<Rightarrow> Inr e
    | Some t \<Rightarrow> res_bind (lift_tx (advance (PStr now) target (Some (PStr actor)) None t)) (\<lambda>t'. Inr (e\<lparr>en_tx := Some t'\<rparr>)))"

text \<open>The world an approval acts in: the rendering of values, path resolution, the envelope whose file a path is, if any,
  whether the write of the target succeeds, how that of the envelope ends, the clock and the id of the log record.\<close>

record approve_env =
  ae_render :: "pyval \<Rightarrow> string"
  ae_resolve :: "string \<Rightarrow> string"
  ae_envelope_at :: "string \<Rightarrow> string option"
  ae_write_ok :: bool
  ae_persist :: persist_end
  ae_now :: string
  ae_log_id :: string

text \<open>The decided envelopes, before their transaction advances.\<close>

definition mark_approved :: "approve_env \<Rightarrow> string \<Rightarrow> string \<Rightarrow> string \<Rightarrow> string \<Rightarrow> string \<Rightarrow> envelope \<Rightarrow> envelope" where
  "mark_approved v staged_id approver role rel final e =
     e\<lparr>en_status := PStr ''approved'', en_approver := PStr approver, en_resolved_at := PStr (ae_now v),
       en_final_path := PStr final,
       en_log_id := record_id_of (build_commitment_record (ae_log_id v) (ae_now v) approver (map_role_to_actor_role role)
         ''hitl_command_accepted'' staged_id (''Approved staged file '' @ rel)
         (no_opts\<lparr>co_metadata := [(''template_id'', en_template e), (''final_path'', PStr final)]\<rparr>))\<rparr>"

definition mark_rejected :: "approve_env \<Rightarrow> string \<Rightarrow> string \<Rightarrow> string \<Rightarrow> string \<Rightarrow> envelope \<Rightarrow> envelope" where
  "mark_rejected v staged_id approver role reason e =
     e\<lparr>en_status := PStr ''rejected'', en_approver := PStr approver, en_resolved_at := PStr (ae_now v),
       en_log_id := record_id_of (build_commitment_record (ae_log_id v) (ae_now v) approver (map_role_to_actor_role role)
         ''hitl_command_rejected'' staged_id
         (''Rejected staged file: '' @ (if reason = [] then ''no reason given'' else reason))
         (no_opts\<lparr>co_metadata := [(''template_id'', en_template e), (''reason'', PStr reason)]\<rparr>))\<rparr>"

text \<open>The target after its write: the file of an envelope in the staging directory is replaced like any other. Only the
  JSON templates have targets with the extension of an envelope.\<close>

definition target_written :: "approve_env \<Rightarrow> string \<Rightarrow> files \<Rightarrow> staging \<Rightarrow> staging" where
  "target_written v final fs s = (case ae_envelope_at v final of
      None \<Rightarrow> s\<lparr>st_files := fs\<rparr>
    | Some j \<Rightarrow> s\<lparr>st_dir := dput j (map_option (\<lambda>(fmt, doc). PDict doc) (dget fs final)) (st_dir s)\<rparr>)"

text \<open>What follows the check of the loaded envelope: up to the write of the target, and from there to the end.\<close>

definition approve_begin :: "approve_env \<Rightarrow> string \<Rightarrow> envelope \<Rightarrow> (envelope \<times> tmpl \<times> pydict) stage" where
  "approve_begin v approver e =
     res_bind (tx_advance (ae_now v) COMMITTED approver e) (\<lambda>e1.
     res_bind (lift (require_template (en_template e1))) (\<lambda>tp.
     res_bind (lift (case en_payload e1 of PDict payload \<Rightarrow> Inr payload | _ \<Rightarrow> Inl AttributeError)) (\<lambda>payload.
       Inr (e1, tp, payload))))"

definition approve_loaded ::
  "approve_env \<Rightarrow> string \<Rightarrow> string \<Rightarrow> string \<Rightarrow> (string, string) dict \<Rightarrow> envelope \<Rightarrow> staging \<Rightarrow> string stage \<times> staging" where
  "approve_loaded v staged_id approver role overrides e s =
     (case approve_begin v approver e of
        Inl x \<Rightarrow> (Inl x, s)
      | Inr (e1, tp, payload) \<Rightarrow>
          let rel = target_of (ae_render v) tp staged_id payload overrides in
          (case write_from_template (ae_resolve v) (ae_write_ok v) (en_template e1) payload rel (st_files s) of
             Inl x \<Rightarrow> (Inl x, s)
           | Inr (final, fs) \<Rightarrow>
               let s1 = target_written v final fs s in
               (case tx_advance (ae_now v) FINALIZED approver (mark_approved v staged_id approver role rel final e1) of
                  Inl x \<Rightarrow> (Inl x, s1)
                | Inr e2 \<Rightarrow> persist_envelope (ae_render v) (ae_persist v) final e2 s1)))"

definition reject_loaded :: "approve_env \<Rightarrow> string \<Rightarrow> string \<Rightarrow> string \<Rightarrow> string \<Rightarrow> envelope \<Rightarrow> staging \<Rightarrow> unit stage \<times> staging" where
  "reject_loaded v staged_id approver role reason e s =
     (case tx_advance (ae_now v) ROLLED_BACK approver (mark_rejected v staged_id approver role reason e) of
        Inl x \<Rightarrow> (Inl x, s)
      | Inr e1 \<Rightarrow> persist_envelope (ae_render v) (ae_persist v) () e1 s)"

definition approve_staged :: "approve_env \<Rightarrow> string \<Rightarrow> string \<Rightarrow> string \<Rightarrow> (string, string) dict \<Rightarrow> staging \<Rightarrow> string stage \<times> staging" where
  "approve_staged v staged_id approver role overrides s =
     (case load_and_check staged_id s of Inl x \<Rightarrow> (Inl x, s) | Inr e \<Rightarrow> approve_loaded v staged_id approver role overrides e s)"

definition reject_staged :: "approve_env \<Rightarrow> string \<Rightarrow> string \<Rightarrow> string \<Rightarrow> string \<Rightarrow> staging \<Rightarrow> unit stage \<times> staging" where
  "reject_staged v staged_id approver role reason s =
     (case load_and_check staged_id s of Inl x \<Rightarrow> (Inl x, s) | Inr e \<Rightarrow> reject_loaded v staged_id approver role reason e s)"

section \<open>Runs\<close>

text \<open>The target of an approval is not the file of an envelope.\<close>

definition target_apart :: "approve_env \<Rightarrow> string \<Rightarrow> (string, string) dict \<Rightarrow> staging \<Rightarrow> bool" where
  "target_apart v i overrides s = (case get_staged i s of
      Inr (Some e) \<Rightarrow> (case (require_template (en_template e), en_payload e) of
          (Inr tp, PDict payload) \<Rightarrow> ae_envelope_at v (ae_resolve v (target_of (ae_render v) tp i payload overrides)) = None
        | _ \<Rightarrow> True)
    | _ \<Rightarrow> True)"

text \<open>Staging takes a fresh id, and approvals write outside the staging directory. The run is clean when every write of an
  envelope ends well. An operation is a step whether it returns or raises.\<close>

inductive st_step :: "bool \<Rightarrow> staging \<Rightarrow> staging \<Rightarrow> bool" for clean where
  staged: "\<not> dhas (st_dir s) i \<Longrightarrow> clean \<longrightarrow> p = Persisted \<Longrightarrow> stage_file p i log_id now payload template actor role s = (r, s')
     \<Longrightarrow> st_step clean s s'"
| approved: "target_apart v i overrides s \<Longrightarrow> clean \<longrightarrow> ae_persist v = Persisted \<Longrightarrow> approve_staged v i approver role overrides s = (r, s')
     \<Longrightarrow> st_step clean s s'"
| rejected: "clean \<longrightarrow> ae_persist v = Persisted \<Longrightarrow> reject_staged v i approver role reason s = (u, s') \<Longrightarrow> st_step clean s s'"

definition no_staging :: staging where "no_staging = \<lparr>st_dir = [], st_files = []\<rparr>"

section \<open>Facts\<close>

lemma deep_merge_get:
  "dict_ok ov \<Longrightarrow> dget (deep_merge b ov) k = (case dget ov k of
      None \<Rightarrow> dget b k
    | Some v \<Rightarrow> Some (case (dget b k, v) of (Some (PDict x), PDict y) \<Rightarrow> PDict (deep_merge x y) | _ \<Rightarrow> v))"
proof (induction ov arbitrary: b k)
  case (Cons q ov)
  obtain j v where q: "q = (j, v)" by (cases q)
  have ok: "dict_ok ov" "dget ov j = None" using Cons.prems by (simp_all add: q dict_ok_def dget_None_iff)
  note IH = Cons.IH [OF ok(1)]
  show ?case using ok(2) by (cases "k = j"; cases "dget ov k"; hypsubst?; simp add: q IH)
qed simp

text \<open>An envelope is read back from its dictionary.\<close>

lemma envelope_read: "load_envelope (PDict (envelope_dict e)) = Inr e"
proof -
  have t: "dhas (to_dict t) ''transaction_id''" for t by (simp add: to_dict_def dhas_def)
  show ?thesis
    by (cases e; cases "en_tx e")
      (simp_all add: load_envelope_def envelope_of_dict_def envelope_dict_def dget_or_def Let_def t from_dict_to_dict)
qed

text \<open>The three shapes of an envelope.\<close>

definition tx_states :: "transaction \<Rightarrow> pyval list" where
  "tx_states t = map fst (tx_history t)"

definition shape :: "envelope \<Rightarrow> transaction \<Rightarrow> string \<Rightarrow> tx_state list \<Rightarrow> bool" where
  "shape e t status path \<longleftrightarrow> en_status e = PStr status \<and> tx_state t = last path
     \<and> tx_states t = map (\<lambda>s. PStr (state_value s)) path"

definition wf_envelope :: "files \<Rightarrow> string \<Rightarrow> envelope \<Rightarrow> bool" where
  "wf_envelope fs i e \<longleftrightarrow> en_id e = PStr i \<and> (\<exists>t. en_tx e = Some t \<and> is_dict (tx_metadata t) \<and>
     (shape e t ''pending'' [VALIDATED] \<and> en_final_path e = PNone
      \<or> shape e t ''approved'' [VALIDATED, COMMITTED, FINALIZED] \<and> (\<exists>p. en_final_path e = PStr p \<and> dhas fs p)
      \<or> shape e t ''rejected'' [VALIDATED, ROLLED_BACK] \<and> en_final_path e = PNone))"

definition staging_inv :: "bool \<Rightarrow> staging \<Rightarrow> bool" where
  "staging_inv clean s \<longleftrightarrow> (\<forall>i f. dget (st_dir s) i = Some f \<longrightarrow>
     (f = None \<and> \<not> clean) \<or> (\<exists>e. f = Some (PDict (envelope_dict e)) \<and> wf_envelope (st_files s) i e))"

lemma lift_Inr [simp]: "lift r = Inr x \<longleftrightarrow> r = Inr x"
  by (auto simp: lift_def split: sum.splits)

lemma lift_tx_Inr [simp]: "lift_tx r = Inr x \<longleftrightarrow> r = Inr x"
  by (auto simp: lift_tx_def split: sum.splits tx_error.splits)

lemma tx_advance_Inr:
  assumes "tx_advance now target actor e = Inr e'" "en_tx e = Some t"
  shows "\<exists>t'. e' = e\<lparr>en_tx := Some t'\<rparr> \<and> target \<in> set (legal_transitions (tx_state t)) \<and> tx_state t' = target
    \<and> tx_states t' = tx_states t @ [PStr (state_value target)] \<and> is_dict (tx_metadata t')"
proof -
  from assms obtain t' where t': "advance (PStr now) target (Some (PStr actor)) None t = Inr t'" "e' = e\<lparr>en_tx := Some t'\<rparr>"
    by (auto simp: tx_advance_def elim!: res_bind_InrE)
  have "is_dict (tx_metadata t')" using t'(1) by (auto simp: advance_def Let_def split: if_split_asm pyval.splits)
  then show ?thesis using advance_Inr(1-3) [OF t'(1)] t'(2) by (auto simp: tx_states_def)
qed

lemma envelope_dict_inj [simp]: "envelope_dict a = envelope_dict b \<longleftrightarrow> a = b"
  by (metis envelope_read sum.inject(2))

lemma tx_advance_legal:
  assumes "en_tx e = Some t" "target \<in> set (legal_transitions (tx_state t))" "is_dict (tx_metadata t)"
  shows "\<exists>e'. tx_advance now target actor e = Inr e'"
  using assms by (cases "tx_metadata t") (simp_all add: tx_advance_def advance_def can_advance_def lift_tx_def Let_def)

lemma staging_get:
  "staging_inv clean s \<Longrightarrow> get_staged i s = Inr (Some e) \<longleftrightarrow> dget (st_dir s) i = Some (Some (PDict (envelope_dict e)))"
proof -
  assume s: "staging_inv clean s"
  show ?thesis
  proof (cases "dget (st_dir s) i")
    case (Some f)
    with s have "f = None \<or> (\<exists>e'. f = Some (PDict (envelope_dict e')))" by (auto simp: staging_inv_def)
    then show ?thesis using Some by (auto simp: get_staged_def envelope_read)
  qed (simp add: get_staged_def)
qed

lemma staging_wf: "staging_inv clean s \<Longrightarrow> dget (st_dir s) i = Some (Some (PDict (envelope_dict e))) \<Longrightarrow> wf_envelope (st_files s) i e"
  unfolding staging_inv_def by fastforce

lemma load_and_check_get:
  "load_and_check i s = Inr e \<Longrightarrow> get_staged i s = Inr (Some e) \<and> en_status e = PStr ''pending''"
  by (auto simp: load_and_check_def split: option.splits if_split_asm elim!: res_bind_InrE)

lemma load_and_check_Inr:
  assumes "staging_inv clean s" "load_and_check i s = Inr e"
  shows "dget (st_dir s) i = Some (Some (PDict (envelope_dict e)))" "en_status e = PStr ''pending''"
    "\<exists>t. en_tx e = Some t \<and> tx_state t = VALIDATED \<and> tx_states t = [PStr (state_value VALIDATED)] \<and> is_dict (tx_metadata t)"
    "en_id e = PStr i" "en_final_path e = PNone"
proof -
  note g = load_and_check_get [OF assms(2)]
  then show d: "dget (st_dir s) i = Some (Some (PDict (envelope_dict e)))" "en_status e = PStr ''pending''"
    using staging_get [OF assms(1)] by auto
  from staging_wf [OF assms(1) d(1)] d(2)
  show "\<exists>t. en_tx e = Some t \<and> tx_state t = VALIDATED \<and> tx_states t = [PStr (state_value VALIDATED)] \<and> is_dict (tx_metadata t)"
    "en_id e = PStr i" "en_final_path e = PNone"
    by (auto simp: wf_envelope_def shape_def)
qed

lemma wf_envelope_mono: "wf_envelope fs i e \<Longrightarrow> (\<And>p. dhas fs p \<Longrightarrow> dhas gs p) \<Longrightarrow> wf_envelope gs i e"
  unfolding wf_envelope_def by blast

text \<open>What a step does: nothing, or a well-formed envelope is written, well or not, over a fresh or a pending one.\<close>

definition enveloped :: "persist_end \<Rightarrow> envelope \<Rightarrow> staging \<Rightarrow> staging" where
  "enveloped p e s = snd (persist_envelope (\<lambda>_. []) p () e s)"

lemma persist_enveloped: "en_id e = PStr i \<Longrightarrow> snd (persist_envelope render p x e s) = enveloped p e s"
  by (simp add: enveloped_def persist_envelope_def Let_def split: persist_end.split)

definition effect :: "bool \<Rightarrow> staging \<Rightarrow> staging \<Rightarrow> bool" where
  "effect clean s s' \<longleftrightarrow> s' = s \<or> (\<exists>j e fs p.
     (dget (st_dir s) j = None \<or> (\<exists>e0. dget (st_dir s) j = Some (Some (PDict (envelope_dict e0))) \<and> en_status e0 = PStr ''pending''))
     \<and> (\<forall>q. dhas (st_files s) q \<longrightarrow> dhas fs q) \<and> wf_envelope fs j e \<and> (clean \<longrightarrow> p = Persisted)
     \<and> s' = enveloped p e (s\<lparr>st_files := fs\<rparr>))"

lemma effectI:
  assumes "dget (st_dir s) j = None \<or> (\<exists>e0. dget (st_dir s) j = Some (Some (PDict (envelope_dict e0))) \<and> en_status e0 = PStr ''pending'')"
    "\<And>q. dhas (st_files s) q \<Longrightarrow> dhas fs q" "wf_envelope fs j e" "clean \<longrightarrow> p = Persisted"
    "s' = snd (persist_envelope render p x e (s\<lparr>st_files := fs\<rparr>))"
  shows "effect clean s s'"
proof -
  have "en_id e = PStr j" using assms(3) by (simp add: wf_envelope_def)
  from persist_enveloped [OF this, of render p x] assms show ?thesis unfolding effect_def by metis
qed

lemma effect_inv:
  assumes "effect clean s s'" "staging_inv clean s"
  shows "staging_inv clean s'"
proof (cases "s' = s")
  case False
  with assms(1) obtain j e fs p where f: "\<forall>q. dhas (st_files s) q \<longrightarrow> dhas fs q" "wf_envelope fs j e" "clean \<longrightarrow> p = Persisted"
    "s' = enveloped p e (s\<lparr>st_files := fs\<rparr>)" unfolding effect_def by blast
  have old: "(g = None \<and> \<not> clean) \<or> (\<exists>e. g = Some (PDict (envelope_dict e)) \<and> wf_envelope fs i e)" if "dget (st_dir s) i = Some g" for i g
    using assms(2) that f(1) wf_envelope_mono unfolding staging_inv_def by blast
  have "en_id e = PStr j" using f(2) by (simp add: wf_envelope_def)
  then have "st_files s' = fs" "\<And>i g. dget (st_dir s') i = Some g \<Longrightarrow> dget (st_dir s) i = Some g
      \<or> i = j \<and> (g = None \<and> \<not> clean \<or> g = Some (PDict (envelope_dict e)))"
    using f(3) by (auto simp: f(4) enveloped_def persist_envelope_def Let_def split: persist_end.splits if_split_asm)
  then show ?thesis using old f(2) unfolding staging_inv_def by blast
qed (use assms in simp)

lemma effect_other:
  assumes "effect clean s s'" "dget (st_dir s) i = Some f"
    "f = None \<or> (\<exists>e. f = Some (PDict (envelope_dict e)) \<and> en_status e \<noteq> PStr ''pending'')"
  shows "dget (st_dir s') i = Some f"
proof (cases "s' = s")
  case False
  with assms(1) obtain j e fs p where f: "dget (st_dir s) j = None
      \<or> (\<exists>e0. dget (st_dir s) j = Some (Some (PDict (envelope_dict e0))) \<and> en_status e0 = PStr ''pending'')" "wf_envelope fs j e"
    "s' = enveloped p e (s\<lparr>st_files := fs\<rparr>)" unfolding effect_def by blast
  have "en_id e = PStr j" using f(2) by (simp add: wf_envelope_def)
  moreover have "i \<noteq> j" using f(1) assms(2,3) by auto
  ultimately show ?thesis using assms(2)
    by (simp add: f(3) enveloped_def persist_envelope_def Let_def split: persist_end.split)
qed (use assms in simp)

text \<open>The three operations have such effects.\<close>

lemma approve_begin_Inr:
  assumes "approve_begin v approver e = Inr (e1, tp, payload)"
  shows "tx_advance (ae_now v) COMMITTED approver e = Inr e1" "require_template (en_template e) = Inr tp" "en_payload e = PDict payload"
    "en_template e1 = en_template e" "en_id e1 = en_id e"
proof -
  from assms obtain e1' where t: "tx_advance (ae_now v) COMMITTED approver e = Inr e1'" "e1' = e1" "require_template (en_template e1) = Inr tp"
    "en_payload e1 = PDict payload"
    by (auto simp: approve_begin_def split: pyval.splits elim!: res_bind_InrE)
  moreover obtain u where "e1 = e\<lparr>en_tx := u\<rparr>" using t(1,2) by (auto simp: tx_advance_def split: option.splits elim!: res_bind_InrE) (metis envelope.surjective envelope.update_convs(12))+
  ultimately show "tx_advance (ae_now v) COMMITTED approver e = Inr e1" "require_template (en_template e) = Inr tp" "en_payload e = PDict payload"
    "en_template e1 = en_template e" "en_id e1 = en_id e" by simp_all
qed

lemma write_from_template_Inr:
  assumes "write_from_template resolve ok template payload rel fs = Inr (final, fs')" "require_template template = Inr tp"
  shows "missing_fields tp payload = []" "final = resolve rel" "fs' = dput final (tp_format tp, deep_merge (tp_default tp) payload) fs"
  using assms by (auto simp: write_from_template_def lift_def split: if_split_asm)

lemma approve_effect:
  assumes "staging_inv clean s" "target_apart v i overrides s" "clean \<longrightarrow> ae_persist v = Persisted"
    "approve_staged v i approver role overrides s = (r, s')"
  shows "effect clean s s'"
proof (cases "\<exists>e e1 tp payload final fs. load_and_check i s = Inr e \<and> approve_begin v approver e = Inr (e1, tp, payload)
    \<and> write_from_template (ae_resolve v) (ae_write_ok v) (en_template e1) payload (target_of (ae_render v) tp i payload overrides) (st_files s) = Inr (final, fs)")
  case False
  then have "s' = s" using assms(4) by (auto simp: approve_staged_def approve_loaded_def Let_def split: sum.splits)
  then show ?thesis by (simp add: effect_def)
next
  case True
  then obtain e e1 tp payload final fs where l: "load_and_check i s = Inr e" and b: "approve_begin v approver e = Inr (e1, tp, payload)"
    and w: "write_from_template (ae_resolve v) (ae_write_ok v) (en_template e1) payload (target_of (ae_render v) tp i payload overrides) (st_files s) = Inr (final, fs)"
    by blast
  note e = load_and_check_Inr [OF assms(1) l] and b' = approve_begin_Inr [OF b]
  note fs = write_from_template_Inr [OF w, unfolded b'(4), OF b'(2)]
  have at: "ae_envelope_at v final = None"
    using assms(2) load_and_check_get [OF l] b'(2,3) fs(2) by (simp add: target_apart_def)
  let ?rel = "target_of (ae_render v) tp i payload overrides"
  from e(3) obtain t where t: "en_tx e = Some t" "tx_states t = [PStr (state_value VALIDATED)]" by blast
  from tx_advance_Inr [OF b'(1) t(1)] obtain t1 where t1: "e1 = e\<lparr>en_tx := Some t1\<rparr>" "tx_state t1 = COMMITTED"
    "tx_states t1 = tx_states t @ [PStr (state_value COMMITTED)]" "is_dict (tx_metadata t1)" by blast
  let ?m = "mark_approved v i approver role ?rel final e1"
  have tm: "en_tx ?m = Some t1" by (simp add: mark_approved_def t1(1))
  from tx_advance_legal [OF tm, of FINALIZED] t1(2,4) obtain e2 where e2: "tx_advance (ae_now v) FINALIZED approver ?m = Inr e2" by auto
  from tx_advance_Inr [OF e2 tm] obtain t2 where t2: "e2 = ?m\<lparr>en_tx := Some t2\<rparr>" "tx_state t2 = FINALIZED"
    "tx_states t2 = tx_states t1 @ [PStr (state_value FINALIZED)]" "is_dict (tx_metadata t2)" by blast
  have s': "s' = snd (persist_envelope (ae_render v) (ae_persist v) final e2 (s\<lparr>st_files := fs\<rparr>))"
    using assms(4) by (simp add: approve_staged_def l approve_loaded_def b w Let_def e2 target_written_def at)
  have wf: "wf_envelope fs i e2"
    using e(4) t t1 t2 fs(3) by (simp add: wf_envelope_def shape_def mark_approved_def dhas_def)
  have kept: "dhas fs q" if "dhas (st_files s) q" for q using that fs(3) by (simp add: dhas_def)
  show ?thesis by (rule effectI [OF _ kept wf assms(3) s']) (use e(1,2) in simp_all)
qed

lemma reject_effect:
  assumes "staging_inv clean s" "clean \<longrightarrow> ae_persist v = Persisted" "reject_staged v i approver role reason s = (r, s')"
  shows "effect clean s s'"
proof (cases "load_and_check i s")
  case (Inl x)
  then show ?thesis using assms(3) by (simp add: reject_staged_def effect_def)
next
  case (Inr e)
  note e = load_and_check_Inr [OF assms(1) Inr]
  from e(3) obtain t where t: "en_tx e = Some t" "tx_state t = VALIDATED" "tx_states t = [PStr (state_value VALIDATED)]" "is_dict (tx_metadata t)"
    by blast
  let ?m = "mark_rejected v i approver role reason e"
  have tm: "en_tx ?m = Some t" by (simp add: mark_rejected_def t(1))
  from tx_advance_legal [OF tm, of ROLLED_BACK] t(2,4) obtain e1 where e1: "tx_advance (ae_now v) ROLLED_BACK approver ?m = Inr e1" by auto
  from tx_advance_Inr [OF e1 tm] obtain t1 where t1: "e1 = ?m\<lparr>en_tx := Some t1\<rparr>" "tx_state t1 = ROLLED_BACK"
    "tx_states t1 = tx_states t @ [PStr (state_value ROLLED_BACK)]" "is_dict (tx_metadata t1)" by blast
  have s': "s' = snd (persist_envelope (ae_render v) (ae_persist v) () e1 (s\<lparr>st_files := st_files s\<rparr>))"
    using assms(3) by (simp add: reject_staged_def Inr reject_loaded_def e1)
  have wf: "wf_envelope (st_files s) i e1" using e(4,5) t t1 by (simp add: wf_envelope_def shape_def mark_rejected_def)
  show ?thesis by (rule effectI [OF _ _ wf assms(2) s']) (use e(1,2) in simp_all)
qed

lemma stage_effect:
  assumes "\<not> dhas (st_dir s) i" "clean \<longrightarrow> p = Persisted" "stage_file p i log_id now payload template actor role s = (r, s')"
  shows "effect clean s s'"
proof (cases "new_envelope i log_id now payload template actor role")
  case (Inl x)
  then show ?thesis using assms(3) by (simp add: stage_file_def effect_def)
next
  case (Inr e)
  then have wf: "wf_envelope (st_files s) i e"
    by (auto simp: new_envelope_def Let_def wf_envelope_def shape_def tx_states_def advance_def can_advance_def lift_tx_def
        split: if_split_asm elim!: res_bind_InrE)
  have s': "s' = snd (persist_envelope (\<lambda>_. []) p e e (s\<lparr>st_files := st_files s\<rparr>))" using assms(3) by (simp add: stage_file_def Inr)
  show ?thesis by (rule effectI [OF _ _ wf assms(2) s']) (use assms(1) in \<open>simp_all add: dhas_iff\<close>)
qed

lemma st_step_effect: "st_step clean s s' \<Longrightarrow> staging_inv clean s \<Longrightarrow> effect clean s s'"
  by (induction rule: st_step.induct) (blast intro: stage_effect approve_effect reject_effect)+

lemma staging_inv_reachable: "(st_step clean)\<^sup>*\<^sup>* no_staging s \<Longrightarrow> staging_inv clean s"
proof (induction rule: rtranclp_induct)
  case base
  show ?case by (simp add: staging_inv_def no_staging_def)
next
  case (step u w)
  show ?case by (rule effect_inv [OF st_step_effect [OF step.hyps(2) step.IH] step.IH])
qed

lemma st_steps_other:
  "(st_step clean)\<^sup>*\<^sup>* s s' \<Longrightarrow> staging_inv clean s \<Longrightarrow> dget (st_dir s) i = Some f \<Longrightarrow>
     f = None \<or> (\<exists>e. f = Some (PDict (envelope_dict e)) \<and> en_status e \<noteq> PStr ''pending'') \<Longrightarrow>
     staging_inv clean s' \<and> dget (st_dir s') i = Some f"
proof (induction rule: rtranclp_induct)
  case (step u w)
  then have u: "staging_inv clean u" "dget (st_dir u) i = Some f" by blast+
  note eff = st_step_effect [OF step.hyps(2) u(1)]
  show ?case using effect_inv [OF eff u(1)] effect_other [OF eff u(2) step.prems(3)] by blast
qed simp

section \<open>Properties\<close>

text \<open>C11: the life cycle of staged files, over every sequence of staging, approval and rejection, failed ones included,
  in which approvals write outside the staging directory: every envelope on disk is unreadable, after a write of it was
  cut short, or it is pending with a validated transaction, approved with a finalized one whose history is validated,
  committed, finalized and whose file is written, or rejected with a rolled-back one. Once it is decided no later
  operation changes it, and approving or rejecting it again raises and changes nothing; the same holds of an
  unreadable one.\<close>

theorem staging_lifecycle:
  assumes "(st_step clean)\<^sup>*\<^sup>* no_staging s" "(st_step clean)\<^sup>*\<^sup>* s s'" "dhas (st_dir s) i"
  shows "\<exists>found. get_staged i s = Inr found
    \<and> (case found of None \<Rightarrow> \<not> clean | Some e \<Rightarrow> wf_envelope (st_files s) i e)
    \<and> ((case found of None \<Rightarrow> True | Some e \<Rightarrow> en_status e \<noteq> PStr ''pending'') \<longrightarrow>
         get_staged i s' = Inr found
         \<and> approve_staged v i approver role overrides s' = (Inl (Raised ValueError), s')
         \<and> reject_staged v i approver role reason s' = (Inl (Raised ValueError), s'))"
proof -
  have inv: "staging_inv clean s" by (rule staging_inv_reachable [OF assms(1)])
  from assms(3) obtain f where f: "dget (st_dir s) i = Some f" by (auto simp: dhas_iff)
  with inv consider (bad) "f = None" "\<not> clean" | (good) e where "f = Some (PDict (envelope_dict e))" "wf_envelope (st_files s) i e"
    unfolding staging_inv_def by blast
  then show ?thesis
  proof cases
    case bad
    from st_steps_other [OF assms(2) inv f] bad(1) have "dget (st_dir s') i = Some None" by blast
    then show ?thesis using f bad
      by (intro exI [of _ None]) (simp add: get_staged_def approve_staged_def reject_staged_def load_and_check_def lift_def)
  next
    case good
    then have get: "get_staged i s = Inr (Some e)" using staging_get [OF inv] f by blast
    have "get_staged i s' = Inr (Some e)" if "en_status e \<noteq> PStr ''pending''"
      using st_steps_other [OF assms(2) inv f] good(1) that staging_get [of clean s' i e] by blast
    then show ?thesis using get good(2)
      by (intro exI [of _ "Some e"]) (simp add: approve_staged_def reject_staged_def load_and_check_def lift_def)
  qed
qed

definition sample_payload :: "string \<Rightarrow> pydict" where
  "sample_payload profile = [(''profile_id'', PStr profile), (''entity_name'', PStr ''Ann''), (''domain_id'', PStr ''domain/edu/algebra/v1''),
     (''preferences'', PDict [(''pace'', PStr ''slow'')])]"

definition sample_approve_env :: approve_env where
  "sample_approve_env = \<lparr>ae_render = (\<lambda>_. []), ae_resolve = (\<lambda>p. ''/repo/'' @ p), ae_envelope_at = (\<lambda>_. None), ae_write_ok = True,
     ae_persist = Persisted, ae_now = ''t1'', ae_log_id = ''l1''\<rparr>"

definition stage_sample :: "string \<Rightarrow> staging \<Rightarrow> staging" where
  "stage_sample i s = snd (stage_file Persisted i ''l0'' ''t0'' (sample_payload i) ''student-profile'' ''ann'' ''user'' s)"

definition approve_sample :: "string \<Rightarrow> staging \<Rightarrow> staging" where
  "approve_sample i s = snd (approve_staged sample_approve_env i ''bob'' ''admin'' [] s)"

lemma stage_sample_step: "\<not> dhas (st_dir s) i \<Longrightarrow> (st_step True)\<^sup>*\<^sup>* s (stage_sample i s)"
  unfolding stage_sample_def by (rule r_into_rtranclp, rule st_step.staged [OF _ _ prod.collapse [symmetric]]) simp_all

lemma approve_sample_step: "(st_step True)\<^sup>*\<^sup>* s (approve_sample i s)"
  unfolding approve_sample_def
  by (rule r_into_rtranclp, rule st_step.approved [OF _ _ prod.collapse [symmetric]])
    (simp_all add: target_apart_def sample_approve_env_def split: sum.split option.split pyval.split)

theorem staging_lifecycle_witness:
  "reject_staged sample_approve_env ''p1'' ''carl'' ''admin'' ''late'' (approve_sample ''p1'' (stage_sample ''p1'' no_staging))
     = (Inl (Raised ValueError), approve_sample ''p1'' (stage_sample ''p1'' no_staging))"
proof -
  let ?s = "approve_sample ''p1'' (stage_sample ''p1'' no_staging)"
  have "\<not> dhas (st_dir no_staging) ''p1''" by (simp add: no_staging_def dhas_def)
  from stage_sample_step [OF this] have run: "(st_step True)\<^sup>*\<^sup>* no_staging ?s" using approve_sample_step by (rule rtranclp_trans)
  have "dhas (st_dir ?s) ''p1''" by code_simp
  from staging_lifecycle [OF run rtranclp.rtrancl_refl this, of sample_approve_env] obtain found where e: "get_staged ''p1'' ?s = Inr found"
    "(case found of None \<Rightarrow> True | Some e \<Rightarrow> en_status e \<noteq> PStr ''pending'') \<longrightarrow>
       reject_staged sample_approve_env ''p1'' ''carl'' ''admin'' ''late'' ?s = (Inl (Raised ValueError), ?s)"
    by blast
  have "case get_staged ''p1'' ?s of Inr (Some e) \<Rightarrow> en_status e \<noteq> PStr ''pending'' | _ \<Rightarrow> False" by code_simp
  with e show ?thesis by (simp split: option.splits)
qed

text \<open>An approval whose last write fails has already replaced the target, and the envelope still counts as pending.\<close>

lemma failed_approval_leaves_target:
  "case approve_staged (sample_approve_env\<lparr>ae_persist := Not_opened\<rparr>) ''p1'' ''bob'' ''admin'' [] (stage_sample ''p1'' no_staging) of
     (r, s) \<Rightarrow> (case r of Inl x \<Rightarrow> x = PersistFailed | Inr _ \<Rightarrow> False) \<and> dhas (st_files s) ''/repo/model-packs/edu/profiles/{profile_id}.yaml''
       \<and> (case get_staged ''p1'' s of Inr (Some e) \<Rightarrow> en_status e = PStr ''pending'' | _ \<Rightarrow> False)"
  by code_simp

text \<open>A context hint whose id leads into the staging directory replaces a decided envelope.\<close>

definition hint_payload :: pydict where
  "hint_payload = [(''hint_id'', PStr ''h''), (''domain_id'', PStr ''domain/edu/algebra/v1''), (''content'', PStr ''x'')]"

definition hint_env :: approve_env where
  "hint_env = sample_approve_env\<lparr>ae_envelope_at := (\<lambda>p. if p = ''/repo/model-packs/edu/context-hints/../../../data/staging/p1.json'' then Some ''p1'' else None)\<rparr>"

lemma hint_replaces_envelope:
  "let s = approve_sample ''p1'' (stage_sample ''p1'' no_staging);
       s2 = snd (stage_file Persisted ''h1'' ''l2'' ''t2'' hint_payload ''context-hint'' ''ann'' ''user'' s);
       s3 = snd (approve_staged hint_env ''h1'' ''bob'' ''admin'' [(''hint_id'', ''../../../data/staging/p1'')] s2)
   in (case get_staged ''p1'' s2 of Inr (Some e) \<Rightarrow> en_status e = PStr ''approved'' | _ \<Rightarrow> False)
      \<and> (case get_staged ''p1'' s3 of Inl x \<Rightarrow> x = TypeError | Inr _ \<Rightarrow> False)"
  by code_simp

lemma approve_staged_done:
  assumes "get_staged i s = Inr (Some e)" "approve_staged v i approver role overrides s = (Inr final, s')"
  obtains tp payload fs e3 where "require_template (en_template e) = Inr tp" "en_payload e = PDict payload" "missing_fields tp payload = []"
    "final = ae_resolve v (target_of (ae_render v) tp i payload overrides)"
    "fs = dput final (tp_format tp, deep_merge (tp_default tp) payload) (st_files s)"
    "s' = snd (persist_envelope (ae_render v) Persisted final e3 (target_written v final fs s))" "en_id e3 = en_id e"
proof -
  from assms obtain e1 tp payload final' fs e3 where b: "approve_begin v approver e = Inr (e1, tp, payload)"
    and w: "write_from_template (ae_resolve v) (ae_write_ok v) (en_template e1) payload (target_of (ae_render v) tp i payload overrides) (st_files s) = Inr (final', fs)"
    and e3: "tx_advance (ae_now v) FINALIZED approver (mark_approved v i approver role (target_of (ae_render v) tp i payload overrides) final' e1) = Inr e3"
    and p: "persist_envelope (ae_render v) (ae_persist v) final' e3 (target_written v final' fs s) = (Inr final, s')"
    by (auto simp: approve_staged_def approve_loaded_def Let_def dest!: load_and_check_get split: sum.splits)
  note b' = approve_begin_Inr [OF b]
  note w' = write_from_template_Inr [OF w, unfolded b'(4), OF b'(2)]
  from p have "ae_persist v = Persisted" "final' = final" by (auto simp: persist_envelope_def Let_def split: persist_end.splits)
  moreover have "en_id e3 = en_id e"
    using e3 b'(5) by (auto simp: tx_advance_def mark_approved_def split: option.splits elim!: res_bind_InrE)
  ultimately show ?thesis
    by (intro that [OF b'(2,3) w'(1), of fs e3]) (use w'(2,3) p in simp_all)
qed

text \<open>C19: an approval writes the file of the template and nothing else: the document at the final path has every required
  field; each field of the payload has the payload's value, merged into the default where both are mappings; the
  other defaults are kept; and no other file changes but the one of the approved envelope. A final path that is the
  file of another envelope gets the document all the same.\<close>

theorem approval_writes_payload:
  assumes "get_staged i s = Inr (Some e)" "en_payload e = PDict payload" "dict_ok payload"
    and "approve_staged v i approver role overrides s = (Inr final, s')"
  shows "\<exists>tp doc. require_template (en_template e) = Inr tp
    \<and> (case ae_envelope_at v final of
         None \<Rightarrow> dget (st_files s') final = Some (tp_format tp, doc)
       | Some j \<Rightarrow> st_files s' = st_files s \<and> (j \<noteq> py_str (ae_render v) (en_id e) \<longrightarrow> dget (st_dir s') j = Some (Some (PDict doc))))
    \<and> set (tp_required tp) \<subseteq> set (dkeys doc)
    \<and> (\<forall>k. dget doc k = (case dget payload k of
         None \<Rightarrow> dget (tp_default tp) k
       | Some w \<Rightarrow> Some (case (dget (tp_default tp) k, w) of (Some (PDict x), PDict y) \<Rightarrow> PDict (deep_merge x y) | _ \<Rightarrow> w)))
    \<and> (\<forall>p. p \<noteq> final \<longrightarrow> dget (st_files s') p = dget (st_files s) p)
    \<and> (\<forall>j. ae_envelope_at v final \<noteq> Some j \<longrightarrow> j \<noteq> py_str (ae_render v) (en_id e) \<longrightarrow> dget (st_dir s') j = dget (st_dir s) j)"
proof -
  from assms(1,4) obtain tp fs e3 where tp: "require_template (en_template e) = Inr tp" "missing_fields tp payload = []"
    and fs: "fs = dput final (tp_format tp, deep_merge (tp_default tp) payload) (st_files s)"
    and s': "s' = snd (persist_envelope (ae_render v) Persisted final e3 (target_written v final fs s))" "en_id e3 = en_id e"
    by (rule approve_staged_done) (auto simp: assms(2))
  let ?doc = "deep_merge (tp_default tp) payload"
  note get = deep_merge_get [OF assms(3), of "tp_default tp"]
  have "dhas ?doc k" if "k \<in> set (tp_required tp)" for k
    using that tp(2) get [of k] by (auto simp: missing_fields_def filter_empty_conv dhas_iff)
  then have req: "set (tp_required tp) \<subseteq> set (dkeys ?doc)" by (auto simp: dhas_def)
  have state: "st_files s' = st_files (target_written v final fs s)"
    "\<And>j. dget (st_dir s') j = (if j = py_str (ae_render v) (en_id e) then Some (Some (PDict (envelope_dict e3)))
       else dget (st_dir (target_written v final fs s)) j)"
    by (simp_all add: s' persist_envelope_def Let_def)
  show ?thesis
    using tp(1) req get
    by (intro exI [of _ tp] exI [of _ ?doc]) (simp add: state target_written_def fs split: option.split)
qed

theorem approval_writes_payload_witness:
  "\<exists>doc. dget (st_files (approve_sample ''p1'' (stage_sample ''p1'' no_staging))) ''/repo/model-packs/edu/profiles/{profile_id}.yaml''
     = Some (''yaml'', doc) \<and> dget doc ''preferences'' = Some (PDict [(''pace'', PStr ''slow'')]) \<and> dget doc ''history'' = Some (PList [])"
proof -
  let ?s = "stage_sample ''p1'' no_staging"
  have "case get_staged ''p1'' ?s of Inr (Some e) \<Rightarrow> en_payload e = PDict (sample_payload ''p1'') \<and> en_template e = PStr ''student-profile'' | _ \<Rightarrow> False"
    by code_simp
  then obtain e where e: "get_staged ''p1'' ?s = Inr (Some e)" "en_payload e = PDict (sample_payload ''p1'')" "en_template e = PStr ''student-profile''"
    by (auto split: sum.splits option.splits)
  have "case fst (approve_staged sample_approve_env ''p1'' ''bob'' ''admin'' [] ?s) of
      Inr p \<Rightarrow> p = ''/repo/model-packs/edu/profiles/{profile_id}.yaml'' | Inl _ \<Rightarrow> False" by code_simp
  then have a: "approve_staged sample_approve_env ''p1'' ''bob'' ''admin'' [] ?s
      = (Inr ''/repo/model-packs/edu/profiles/{profile_id}.yaml'', approve_sample ''p1'' ?s)"
    by (auto simp: approve_sample_def prod_eq_iff split: sum.splits)
  have ok: "dict_ok (sample_payload ''p1'')" by (simp add: sample_payload_def dict_ok_def)
  have tp: "case require_template (PStr ''student-profile'') of Inr tp \<Rightarrow> tp_format tp = ''yaml''
      \<and> tp_default tp = [(''mastery'', PDict []), (''history'', PList []), (''preferences'', PDict [])] | Inl _ \<Rightarrow> False" by code_simp
  have at: "ae_envelope_at sample_approve_env p = None" for p by (simp add: sample_approve_env_def)
  have "deep_merge [] [(''pace'', PStr ''slow'')] = [(''pace'', PStr ''slow'')]" by simp
  then show ?thesis using approval_writes_payload [OF e(1,2) ok a] tp e(3) by (auto simp: sample_payload_def at)
qed

text \<open>The name of a profile's file: its own id is not among the substitutions.\<close>

lemma profile_target:
  "require_template (PStr ''student-profile'') = Inr tp \<Longrightarrow> tp_target tp = ''model-packs/{domain_short}/profiles/{profile_id}.yaml''"
  by (auto simp: require_template_def templates_def)

lemma profile_path:
  assumes "require_template (PStr ''student-profile'') = Inr tp"
  shows "target_of render tp i payload [] = ''model-packs/'' @ extract_domain_short payload @ ''/profiles/{profile_id}.yaml''"
  using profile_target [OF assms] by (simp add: target_of_def setdefault_def dhas_def)

text \<open>Approving two student profiles of the same domain without overrides writes both to one file, whatever their
  ids, so the second replaces the first.\<close>

theorem profiles_overwrite_each_other:
  assumes "get_staged i s = Inr (Some e)" "en_payload e = PDict p" "en_template e = PStr ''student-profile''"
    and "approve_staged v i a1 r1 [] s = (Inr final1, s1)"
    and "get_staged j s2 = Inr (Some e')" "en_payload e' = PDict q" "en_template e' = PStr ''student-profile''"
    and "approve_staged v j a2 r2 [] s2 = (Inr final2, s3)" "extract_domain_short p = extract_domain_short q" "ae_envelope_at v final2 = None"
  shows "final1 = final2 \<and> (\<exists>tp. require_template (PStr ''student-profile'') = Inr tp
    \<and> dget (st_files s3) final1 = Some (tp_format tp, deep_merge (tp_default tp) q))"
proof -
  from assms(1,4) obtain tp where tp: "require_template (PStr ''student-profile'') = Inr tp" "final1 = ae_resolve v (target_of (ae_render v) tp i p [])"
    by (rule approve_staged_done) (auto simp: assms(2,3))
  from assms(5,8) obtain tp' fs e3 where tp': "require_template (PStr ''student-profile'') = Inr tp'" "final2 = ae_resolve v (target_of (ae_render v) tp' j q [])"
    "fs = dput final2 (tp_format tp', deep_merge (tp_default tp') q) (st_files s2)"
    "s3 = snd (persist_envelope (ae_render v) Persisted final2 e3 (target_written v final2 fs s2))"
    by (rule approve_staged_done) (auto simp: assms(6,7))
  have "final1 = final2" using tp tp'(1,2) assms(9) by (simp add: profile_path)
  then show ?thesis using tp'(1,3) assms(10)
    by (intro conjI exI [of _ tp']) (simp_all add: tp'(4) persist_envelope_def target_written_def)
qed

end
