(* ===== verification/Domain_Registry.thy ===== *)
theory Domain_Registry
  imports Yaml_Loader Admin_Operations
begin

text \<open>
  The domain registry, \<^verbatim>\<open>core/domain_registry.py\<close>: loading and validating the registry file, resolving requested
  domains and users' defaults, the module catalogue, and the cache of runtime contexts that requests share. The files
  are arguments, read through the program's own YAML reader; contexts are opaque.
\<close>

section \<open>The world and the errors\<close>

text \<open>Paths are as the registry spells them, relative to the repository. A file that cannot be opened has no contents;
  \<open>w_json\<close> is the parsed document, if reading and parsing succeed.\<close>

record files_env =
  w_exists :: "string \<Rightarrow> bool"
  w_read :: "string \<Rightarrow> string option"
  w_json :: "string \<Rightarrow> pyval option"

datatype reg_error = RgRaise py_exn | OsError | DomainNotFound pyval "string list" | OutOfFuel

type_synonym 'a reg = "reg_error + 'a"

definition lift_reg :: "'a res \<Rightarrow> 'a reg" where
  "lift_reg r = (case r of Inl e \<Rightarrow> Inl (RgRaise e) | Inr x \<Rightarrow> Inr x)"

lemma lift_reg_simps [simp]: "lift_reg (Inr x) = Inr x" "lift_reg (Inl e) = Inl (RgRaise e)"
  by (simp_all add: lift_reg_def)

lemma lift_reg_Inr [simp]: "lift_reg r = Inr x \<longleftrightarrow> r = Inr x"
  by (auto simp: lift_reg_def split: sum.splits)

definition read_yaml :: "files_env \<Rightarrow> string \<Rightarrow> pydict reg" where
  "read_yaml w path = (case w_read w path of
      None \<Rightarrow> Inl OsError
    | Some contents \<Rightarrow> (case load_yaml contents of None \<Rightarrow> Inl OutOfFuel | Some d \<Rightarrow> Inr d))"

text \<open>\<open>root / v\<close> for an untyped \<open>v\<close>.\<close>

definition path_of :: "pyval \<Rightarrow> string reg" where
  "path_of v = (case v of PStr s \<Rightarrow> Inr s | _ \<Rightarrow> Inl (RgRaise TypeError))"

section \<open>The registry\<close>

record registry =
  rg_domains :: "(string, pydict) dict"
  rg_default :: pyval
  rg_multi :: bool
  rg_roles :: pydict
  rg_prefixes :: "(pyval, string) dict"
  rg_unauth :: pyval

definition check_entry :: "files_env \<Rightarrow> string \<times> pyval \<Rightarrow> (string \<times> pydict) reg" where
  "check_entry w = (\<lambda>(d, entry). case entry of
       PDict e \<Rightarrow> (case dget e ''runtime_config_path'' of
           None \<Rightarrow> Inl (RgRaise RuntimeError)
         | Some cfg \<Rightarrow> res_bind (path_of cfg) (\<lambda>p. if w_exists w p then Inr (d, e) else Inl (RgRaise RuntimeError)))
     | _ \<Rightarrow> Inl (RgRaise RuntimeError))"

text \<open>A truthy value must name a domain.\<close>

definition check_named :: "(string, pydict) dict \<Rightarrow> pyval \<Rightarrow> unit reg" where
  "check_named domains v =
     (if \<not> hashable v then Inl (RgRaise TypeError)
      else if (case v of PStr s \<Rightarrow> dhas domains s | _ \<Rightarrow> False) then Inr () else Inl (RgRaise RuntimeError))"

definition prefix_map :: "(string, pydict) dict \<Rightarrow> (pyval, string) dict reg" where
  "prefix_map domains = lift_reg (fold_res (\<lambda>(d, e) acc. case dget e ''module_prefix'' of
       None \<Rightarrow> Inr acc | Some p \<Rightarrow> key_put p d acc) domains [])"

definition registry_of_data :: "files_env \<Rightarrow> pydict \<Rightarrow> registry reg" where
  "registry_of_data w data = (case dget_or data ''domains'' PNone of
     PDict (d # ds) \<Rightarrow>
       res_bind (map_res (check_entry w) (d # ds)) (\<lambda>domains.
       let default = dget_or data ''default_domain'' PNone; unauth = dget_or data ''unauthenticated_domain'' PNone in
       res_bind (if truthy default then check_named domains default else Inr ()) (\<lambda>_.
       res_bind (if truthy unauth then check_named domains unauth else Inr ()) (\<lambda>_.
       case py_or (dget_or data ''role_defaults'' PNone) (PDict []) of
         PDict roles \<Rightarrow>
           res_bind (map_res (\<lambda>(r, target). check_named domains target) roles) (\<lambda>_.
           res_bind (prefix_map domains) (\<lambda>prefixes.
             Inr \<lparr>rg_domains = domains, rg_default = default, rg_multi = True, rg_roles = roles, rg_prefixes = prefixes,
                  rg_unauth = unauth\<rparr>))
       | _ \<Rightarrow> Inl (RgRaise RuntimeError))))
   | _ \<Rightarrow> Inl (RgRaise RuntimeError))"

definition load_registry :: "files_env \<Rightarrow> string \<Rightarrow> registry reg" where
  "load_registry w path = res_bind (read_yaml w path) (registry_of_data w)"

text \<open>The constructor: a registry file, or one runtime configuration, or an error.\<close>

definition init_registry :: "files_env \<Rightarrow> string option \<Rightarrow> string option \<Rightarrow> registry reg" where
  "init_registry w registry_path single = (case registry_path of
     Some (c # cs) \<Rightarrow> load_registry w (c # cs)
   | _ \<Rightarrow> (case single of
       Some (c # cs) \<Rightarrow> Inr \<lparr>rg_domains = [(''_default'', [(''runtime_config_path'', PStr (c # cs))])],
          rg_default = PStr ''_default'', rg_multi = False, rg_roles = [], rg_prefixes = [], rg_unauth = PNone\<rparr>
     | _ \<Rightarrow> Inl (RgRaise RuntimeError)))"

section \<open>Catalogues\<close>

definition shown :: "registry \<Rightarrow> (string \<times> pydict) list" where
  "shown g = filter (\<lambda>(d, _). \<not> (d = ''_default'' \<and> \<not> rg_multi g)) (rg_domains g)"

definition list_domains :: "registry \<Rightarrow> pydict list" where
  "list_domains g = map (\<lambda>(d, e).
     [(''domain_id'', PStr d), (''label'', dget_or e ''label'' (PStr d)), (''description'', dget_or e ''description'' (PStr '''')),
      (''runtime_config_path'', dget_or e ''runtime_config_path'' (PStr '''')), (''is_default'', PBool (peq (PStr d) (rg_default g)))])
     (shown g)"

definition get_domain_routing_map :: "registry \<Rightarrow> (string, pydict) dict" where
  "get_domain_routing_map g = map (\<lambda>(d, e).
     (d, [(''label'', dget_or e ''label'' (PStr d)), (''description'', dget_or e ''description'' (PStr '''')),
          (''keywords'', py_or (dget_or e ''keywords'' PNone) (PList []))])) (shown g)"

text \<open>The runtime block of a configuration and its module map.\<close>

definition runtime_block :: "pydict \<Rightarrow> pyval" where
  "runtime_block raw = py_or (dget_or raw ''runtime'' PNone) (PDict raw)"

definition module_map :: "pyval \<Rightarrow> pyval reg" where
  "module_map block = lift_reg (res_bind (py_get block ''module_map'' PNone) (\<lambda>m. Inr (py_or m (PDict []))))"

definition module_entry :: "string \<Rightarrow> pyval \<Rightarrow> pydict res" where
  "module_entry mod_id cfg =
     res_bind (py_get cfg ''domain_physics_path'' (PStr '''')) (\<lambda>p.
     res_bind (py_get cfg ''local_only'' PNone) (\<lambda>l.
       Inr [(''module_id'', PStr mod_id), (''domain_physics_path'', p), (''local_only'', PBool (truthy l))]))"

text \<open>The id in the default physics file; whatever fails there gives the empty id.\<close>

definition physics_id :: "files_env \<Rightarrow> pyval \<Rightarrow> pyval" where
  "physics_id w path = (case path of
     PStr p \<Rightarrow> (case w_json w p of
         Some (PDict d) \<Rightarrow> dget_or d ''id'' (PStr '''')
       | _ \<Rightarrow> PStr '''')
   | _ \<Rightarrow> PStr '''')"

definition list_modules_for_domain :: "files_env \<Rightarrow> registry \<Rightarrow> pyval \<Rightarrow> pydict list reg" where
  "list_modules_for_domain w g domain_id = (case (case domain_id of PStr d \<Rightarrow> dget (rg_domains g) d | _ \<Rightarrow> None) of
     None \<Rightarrow> Inl (DomainNotFound domain_id (dkeys (rg_domains g)))
   | Some entry \<Rightarrow>
       res_bind (lift_reg (py_item (PDict entry) ''runtime_config_path'')) (\<lambda>cfg.
       res_bind (path_of cfg) (\<lambda>path.
       res_bind (read_yaml w path) (\<lambda>raw.
       let block = runtime_block raw in
       res_bind (module_map block) (\<lambda>mm.
       res_bind (lift_reg (py_items mm)) (\<lambda>items.
       res_bind (lift_reg (map_res (\<lambda>(k, c). module_entry k c) items)) (\<lambda>modules.
       res_bind (lift_reg (py_get block ''domain_physics_path'' (PStr ''''))) (\<lambda>dp.
         if \<not> truthy dp then Inr modules
         else let i = physics_id w dp in
           if \<not> truthy i then Inr modules
           else res_bind (lift_reg (py_in i (PDict items))) (\<lambda>seen.
             if seen then Inr modules else Inr (modules @ [[(''module_id'', i), (''domain_physics_path'', dp)]]))))))))))"

section \<open>Resolution\<close>

definition first_domain :: "registry \<Rightarrow> pyval" where
  "first_domain g = (case rg_domains g of (d, _) # _ \<Rightarrow> PStr d | [] \<Rightarrow> PNone)"

definition strip_slash :: "string \<Rightarrow> string" where
  "strip_slash s = rev (dropWhile (\<lambda>c. c = CHR ''/'') (rev (dropWhile (\<lambda>c. c = CHR ''/'') s)))"

text \<open>A prefix resolves to the domain that declares it.\<close>

definition by_prefix :: "registry \<Rightarrow> string \<Rightarrow> string option" where
  "by_prefix g p = (case dget (rg_prefixes g) (PStr p) of Some (c # cs) \<Rightarrow> Some (c # cs) | _ \<Rightarrow> None)"

text \<open>\<open>governed[0]\<close> for a truthy value, and the domain its path segment names.\<close>

definition first_of :: "pyval \<Rightarrow> pyval res" where
  "first_of v = (case v of PList (x # _) \<Rightarrow> Inr x | PStr (c # _) \<Rightarrow> Inr (PStr [c]) | PDict _ \<Rightarrow> Inl KeyError | _ \<Rightarrow> Inl TypeError)"

definition inferred_domain :: "registry \<Rightarrow> pyval \<Rightarrow> string option res" where
  "inferred_domain g governed =
     (if \<not> truthy governed then Inr None
      else res_bind (first_of governed) (\<lambda>m. case m of
        PStr s \<Rightarrow> Inr (case split_on (CHR ''/'') (strip_slash s) of _ # p # _ \<Rightarrow> by_prefix g p | _ \<Rightarrow> None)
      | _ \<Rightarrow> Inl AttributeError))"

definition resolve_default_for_user :: "registry \<Rightarrow> pydict option \<Rightarrow> pyval res" where
  "resolve_default_for_user g user =
     (if \<not> rg_multi g then Inr (py_or (rg_default g) (PStr ''_default''))
      else case user of
        None \<Rightarrow> Inr (py_or (rg_unauth g) (py_or (rg_default g) (first_domain g)))
      | Some u \<Rightarrow>
          let role = dget_or u ''role'' (PStr '''') in
          res_bind (py_in role (PDict (rg_roles g))) (\<lambda>b.
            if b then (case role of PStr r \<Rightarrow> py_item (PDict (rg_roles g)) r | _ \<Rightarrow> Inl KeyError)
            else res_bind (inferred_domain g (dget_or u ''governed_modules'' PNone)) (\<lambda>i. case i of
                Some d \<Rightarrow> Inr (PStr d)
              | None \<Rightarrow> Inr (py_or (rg_default g) (first_domain g)))))"

definition stripped_name :: "string \<Rightarrow> string" where
  "stripped_name r = hd (split_on (CHR ''/'') (if starts_with ''domain/'' r then drop 7 r else r))"

definition resolve_domain_id :: "registry \<Rightarrow> string option \<Rightarrow> pyval reg" where
  "resolve_domain_id g requested = (case requested of
     Some (c # cs) \<Rightarrow>
       let r = c # cs; s = stripped_name r in
       if dhas (rg_domains g) r then Inr (PStr r)
       else (case by_prefix g r of
         Some d \<Rightarrow> Inr (PStr d)
       | None \<Rightarrow>
           if s \<noteq> r \<and> dhas (rg_domains g) s then Inr (PStr s)
           else (case (if s \<noteq> r then by_prefix g s else None) of
             Some d \<Rightarrow> Inr (PStr d)
           | None \<Rightarrow> Inl (DomainNotFound (PStr r) (dkeys (rg_domains g)))))
   | _ \<Rightarrow> Inr (if truthy (rg_default g) then rg_default g else PNone))"

text \<open>\<open>Path(p).parent.parent / name\<close> on slash-separated paths: empty and dot segments vanish, the root stays.\<close>

definition beside_parent :: "string \<Rightarrow> string \<Rightarrow> string" where
  "beside_parent p name =
     (let segs = filter (\<lambda>s. s \<noteq> [] \<and> s \<noteq> ''.'') (split_on (CHR ''/'') p)
      in (if starts_with ''/'' p then ''/'' else []) @ join_with ''/'' (take (length segs - 2) segs @ [name]))"

definition pack_default :: "files_env \<Rightarrow> string \<Rightarrow> pyval" where
  "pack_default w path = (case read_yaml w path of Inr d \<Rightarrow> dget_or d ''default_module'' PNone | Inl _ \<Rightarrow> PNone)"

fun first_containing :: "pyval \<Rightarrow> pyval list \<Rightarrow> pyval res" where
  "first_containing n [] = Inr PNone"
| "first_containing n (m # ms) = res_bind (py_in n m) (\<lambda>b. if b then Inr m else first_containing n ms)"

definition get_default_module_id :: "files_env \<Rightarrow> registry \<Rightarrow> string \<Rightarrow> string option \<Rightarrow> pyval reg" where
  "get_default_module_id w g domain_id domain_role = (case dget (rg_domains g) domain_id of
     None \<Rightarrow> Inr PNone
   | Some entry \<Rightarrow>
       let cfg = dget_or entry ''runtime_config_path'' (PStr '''') in
       if \<not> truthy cfg then Inr PNone
       else res_bind (path_of cfg) (\<lambda>path.
         res_bind (read_yaml w path) (\<lambda>raw.
         res_bind (module_map (runtime_block raw)) (\<lambda>mm.
         res_bind (case domain_role of
             Some (c # cs) \<Rightarrow> lift_reg (
               res_bind (py_get (runtime_block raw) ''role_to_default_module'' PNone) (\<lambda>r.
               res_bind (py_get (py_or r (PDict [])) (c # cs) PNone) (\<lambda>m.
                 if \<not> truthy m then Inr None else res_bind (py_in m mm) (\<lambda>b. Inr (if b then Some m else None)))))
           | _ \<Rightarrow> Inr None) (\<lambda>by_role.
         case by_role of
           Some m \<Rightarrow> Inr m
         | None \<Rightarrow>
             let pack = beside_parent path ''pack.yaml''; name = pack_default w pack in
             if \<not> w_exists w pack \<or> \<not> truthy name then Inr PNone
             else lift_reg (res_bind (py_iter mm) (first_containing name)))))))"

text \<open>What the governance check asks of a registry; it swallows every error.\<close>

definition registry_modules :: "files_env \<Rightarrow> registry \<Rightarrow> module_lookup" where
  "registry_modules w g d = (case res_bind (resolve_domain_id g (Some d)) (list_modules_for_domain w g) of
     Inl _ \<Rightarrow> Inl RuntimeError | Inr ms \<Rightarrow> Inr (map PDict ms))"

section \<open>The cache of runtime contexts\<close>

text \<open>A load answers with a context, which may differ each time the files change. The request that finds no entry loads
  outside the lock and stores under it.\<close>

type_synonym 'c loader = "pyval \<Rightarrow> 'c reg"

definition load_context :: "'c loader option \<Rightarrow> registry \<Rightarrow> string \<Rightarrow> 'c reg" where
  "load_context loader g d = (case dget (rg_domains g) d of
     None \<Rightarrow> Inl (DomainNotFound (PStr d) (dkeys (rg_domains g)))
   | Some entry \<Rightarrow> (case loader of
       None \<Rightarrow> Inl (RgRaise RuntimeError)
     | Some load \<Rightarrow> res_bind (lift_reg (py_item (PDict entry) ''runtime_config_path'')) load))"

definition store_context :: "string \<Rightarrow> 'c \<Rightarrow> (string, 'c) dict \<Rightarrow> (string, 'c) dict" where
  "store_context d c cache = (if dhas cache d then cache else dput d c cache)"

definition get_runtime_context :: "'c loader option \<Rightarrow> registry \<Rightarrow> string \<Rightarrow> (string, 'c) dict \<Rightarrow> ('c \<times> (string, 'c) dict) reg" where
  "get_runtime_context loader g d cache = (case dget cache d of
     Some c \<Rightarrow> Inr (c, cache)
   | None \<Rightarrow> res_bind (load_context loader g d) (\<lambda>c.
       let cache' = store_context d c cache in Inr (the (dget cache' d), cache')))"

text \<open>Threads: what each has done so far, the shared cache, and what was returned to whom.\<close>

datatype 'c pc = Idle | Missed string | Loaded string 'c

record 'c threads =
  th_cache :: "(string, 'c) dict"
  th_pc :: "nat \<Rightarrow> 'c pc"
  th_out :: "(string \<times> 'c) list"

definition start_threads :: "'c threads" where
  "start_threads = \<lparr>th_cache = [], th_pc = (\<lambda>_. Idle), th_out = []\<rparr>"

inductive ctx_step :: "registry \<Rightarrow> 'c threads \<Rightarrow> 'c threads \<Rightarrow> bool" for g where
  hit: "th_pc s t = Idle \<Longrightarrow> dget (th_cache s) d = Some c \<Longrightarrow> ctx_step g s (s\<lparr>th_out := (d, c) # th_out s\<rparr>)"
| miss: "th_pc s t = Idle \<Longrightarrow> \<not> dhas (th_cache s) d \<Longrightarrow> ctx_step g s (s\<lparr>th_pc := (th_pc s)(t := Missed d)\<rparr>)"
| loaded: "th_pc s t = Missed d \<Longrightarrow> load_context (Some load) g d = Inr c \<Longrightarrow>
     ctx_step g s (s\<lparr>th_pc := (th_pc s)(t := Loaded d c)\<rparr>)"
| failed: "th_pc s t = Missed d \<Longrightarrow> load_context (loader :: 'c loader option) g d = Inl e \<Longrightarrow> ctx_step g s (s\<lparr>th_pc := (th_pc s)(t := Idle)\<rparr>)"
| stored: "th_pc s t = Loaded d c \<Longrightarrow> cache' = store_context d c (th_cache s) \<Longrightarrow>
     ctx_step g s (s\<lparr>th_cache := cache', th_pc := (th_pc s)(t := Idle), th_out := (d, the (dget cache' d)) # th_out s\<rparr>)"

section \<open>Facts\<close>

text \<open>What loading establishes.\<close>

definition names_domain :: "registry \<Rightarrow> pyval \<Rightarrow> bool" where
  "names_domain g v \<longleftrightarrow> (\<exists>d. v = PStr d \<and> dhas (rg_domains g) d)"

definition wf_registry :: "registry \<Rightarrow> bool" where
  "wf_registry g \<longleftrightarrow> rg_domains g \<noteq> []
     \<and> (truthy (rg_default g) \<longrightarrow> names_domain g (rg_default g))
     \<and> (truthy (rg_unauth g) \<longrightarrow> names_domain g (rg_unauth g))
     \<and> (\<forall>(r, v) \<in> set (rg_roles g). names_domain g v)
     \<and> (\<forall>(p, d) \<in> set (rg_prefixes g). dhas (rg_domains g) d)
     \<and> (\<not> rg_multi g \<longrightarrow> truthy (rg_default g))"

lemma check_named_Inr: "check_named domains v = Inr u \<Longrightarrow> \<exists>d. v = PStr d \<and> dhas domains d"
  by (auto simp: check_named_def split: if_split_asm pyval.splits)

lemma set_dput: "x \<in> set (dput k v d) \<Longrightarrow> x = (k, v) \<or> x \<in> set d"
  by (induction d rule: dput.induct) (auto split: if_split_asm)

lemma prefix_map_values:
  assumes "prefix_map domains = Inr ps"
  shows "\<forall>(p, d) \<in> set ps. dhas domains d"
proof -
  from assms have f: "fold_res (\<lambda>(d, e) acc. case dget e ''module_prefix'' of None \<Rightarrow> Inr acc | Some p \<Rightarrow> key_put p d acc) domains [] = Inr ps"
    by (simp add: prefix_map_def)
  have in_dom: "dhas domains d" if "(d, e) \<in> set domains" for d e
    using that by (force simp: dhas_def dkeys_def)
  show ?thesis
  proof (rule fold_res_inv [OF f, where P = "\<lambda>ps. \<forall>(p, d) \<in> set ps. dhas domains d"])
    fix x u v
    assume x: "x \<in> set domains" and u: "\<forall>(p, d) \<in> set u. dhas domains d"
      and v: "(case x of (d, e) \<Rightarrow> \<lambda>acc. case dget e ''module_prefix'' of None \<Rightarrow> Inr acc | Some p \<Rightarrow> key_put p d acc) u = Inr v"
    show "\<forall>(p, d) \<in> set v. dhas domains d"
      using u v in_dom [of "fst x" "snd x"] x
      by (cases x) (fastforce simp: key_put_def dest!: set_dput split: option.splits if_split_asm)
  qed simp
qed

lemma map_res_eq_Nil: "map_res f xs = Inr [] \<longleftrightarrow> xs = []"
  by (cases xs) (auto simp: res_bind_Inr_iff)

lemma wf_loaded:
  assumes "registry_of_data w data = Inr g" shows "wf_registry g" and "rg_multi g"
proof -
  from assms obtain d ds where "dget_or data ''domains'' PNone = PDict (d # ds)"
    by (auto simp: registry_of_data_def split: pyval.splits list.splits)
  with assms obtain domains where dom: "map_res (check_entry w) (d # ds) = Inr domains"
    and rest: "(let default = dget_or data ''default_domain'' PNone; unauth = dget_or data ''unauthenticated_domain'' PNone in
       res_bind (if truthy default then check_named domains default else Inr ()) (\<lambda>_.
       res_bind (if truthy unauth then check_named domains unauth else Inr ()) (\<lambda>_.
       case py_or (dget_or data ''role_defaults'' PNone) (PDict []) of
         PDict roles \<Rightarrow>
           res_bind (map_res (\<lambda>(r, target). check_named domains target) roles) (\<lambda>_.
           res_bind (prefix_map domains) (\<lambda>prefixes.
             Inr \<lparr>rg_domains = domains, rg_default = default, rg_multi = True, rg_roles = roles, rg_prefixes = prefixes,
                  rg_unauth = unauth\<rparr>))
       | _ \<Rightarrow> Inl (RgRaise RuntimeError)))) = Inr g"
    by (auto simp: registry_of_data_def elim!: res_bind_InrE)
  from rest obtain roles us ps where r: "map_res (\<lambda>(r, target). check_named domains target) roles = Inr us"
    "prefix_map domains = Inr ps" "rg_roles g = roles" "rg_prefixes g = ps" "rg_domains g = domains" "rg_multi g"
    "truthy (rg_default g) \<longrightarrow> (\<exists>u. check_named domains (rg_default g) = Inr u)"
    "truthy (rg_unauth g) \<longrightarrow> (\<exists>u. check_named domains (rg_unauth g) = Inr u)"
    by (auto simp: Let_def split: pyval.splits if_split_asm elim!: res_bind_InrE)
  have "\<exists>u. check_named domains v = Inr u" if "(k, v) \<in> set roles" for k v
    using r(1) that by (induction roles arbitrary: us) (auto elim!: res_bind_InrE)
  then have roles: "\<forall>(k, v) \<in> set roles. \<exists>u. check_named domains v = Inr u" by auto
  have "domains \<noteq> []" using dom by (auto elim!: res_bind_InrE)
  then show "wf_registry g" "rg_multi g"
    using roles r(3-8) prefix_map_values [OF r(2)] check_named_Inr by (fastforce simp: wf_registry_def names_domain_def)+
qed

lemma wf_init: "init_registry w rp sp = Inr g \<Longrightarrow> wf_registry g"
proof (cases "\<exists>c cs. rp = Some (c # cs)")
  case True
  assume "init_registry w rp sp = Inr g"
  with True show ?thesis by (auto simp: init_registry_def load_registry_def elim!: res_bind_InrE dest: wf_loaded(1))
next
  case False
  assume "init_registry w rp sp = Inr g"
  with False show ?thesis
    by (auto simp: init_registry_def wf_registry_def names_domain_def dhas_def split: option.splits list.splits)
qed

lemma first_domain_names: "wf_registry g \<Longrightarrow> names_domain g (first_domain g)"
  by (cases "rg_domains g") (auto simp: wf_registry_def first_domain_def names_domain_def dhas_def split: prod.splits)

lemma by_prefix_names: "wf_registry g \<Longrightarrow> by_prefix g p = Some d \<Longrightarrow> names_domain g (PStr d)"
  by (auto simp: by_prefix_def names_domain_def wf_registry_def split: option.splits list.splits dest!: map_of_SomeD)

lemma role_names:
  assumes "wf_registry g" "dget (rg_roles g) r = Some v" shows "names_domain g v"
proof -
  have "(r, v) \<in> set (rg_roles g)" using assms(2) by (rule map_of_SomeD)
  with assms(1) show ?thesis by (auto simp: wf_registry_def)
qed

lemma py_or_cases: "py_or a b = a \<and> truthy a \<or> py_or a b = b"
  by (simp add: py_or_def)

lemma py_or_names: "\<lbrakk>truthy a \<Longrightarrow> names_domain g a; names_domain g b\<rbrakk> \<Longrightarrow> names_domain g (py_or a b)"
  by (auto simp: py_or_def)

lemma default_or_first: "wf_registry g \<Longrightarrow> names_domain g (py_or (rg_default g) (first_domain g))"
  by (rule py_or_names) (auto simp: first_domain_names wf_registry_def)

lemma inferred_names: "wf_registry g \<Longrightarrow> inferred_domain g v = Inr (Some d) \<Longrightarrow> names_domain g (PStr d)"
  by (auto simp: inferred_domain_def split: if_split_asm pyval.splits list.splits elim!: res_bind_InrE dest: by_prefix_names)

lemma default_for_user_names:
  assumes g: "wf_registry g" and r: "resolve_default_for_user g u = Inr v"
  shows "names_domain g v"
proof (cases "rg_multi g")
  case False
  with g r show ?thesis by (auto simp: resolve_default_for_user_def wf_registry_def py_or_def)
next
  case True
  note wf = g [unfolded wf_registry_def]
  show ?thesis
  proof (cases u)
    case None
    with True r have v: "v = py_or (rg_unauth g) (py_or (rg_default g) (first_domain g))" by (simp add: resolve_default_for_user_def)
    show ?thesis unfolding v using wf by (intro py_or_names default_or_first [OF g]) simp_all
  next
    case (Some x)
    with True r show ?thesis
      by (auto simp: resolve_default_for_user_def Let_def default_or_first [OF g] split: if_split_asm pyval.splits option.splits
          elim!: res_bind_InrE intro: role_names [OF g] inferred_names [OF g])
  qed
qed

lemma resolve_names:
  assumes g: "wf_registry g" and r: "resolve_domain_id g requested = Inr v"
  shows "names_domain g v \<or> (requested \<in> {None, Some []} \<and> v = PNone \<and> \<not> truthy (rg_default g))"
proof (cases "requested \<in> {None, Some []}")
  case True
  with g r show ?thesis by (auto simp: resolve_domain_id_def wf_registry_def)
next
  case False
  then obtain c cs where q: "requested = Some (c # cs)" by (cases requested) (auto simp: neq_Nil_conv)
  from r show ?thesis
    by (auto simp: q resolve_domain_id_def Let_def names_domain_def split: if_split_asm option.splits dest: by_prefix_names [OF g, unfolded names_domain_def])
qed

lemma user_record_get [simp]:
  "dget_or (user_record role gov roles) ''role'' v = PStr role"
  "dget_or (user_record role gov roles) ''governed_modules'' v = PList (map PStr gov)"
  by (simp_all add: user_record_def dget_or_def)

lemma typed_user_resolves: "\<exists>v. resolve_default_for_user g (Some (user_record role gov roles)) = Inr v"
proof -
  have i: "\<exists>i. inferred_domain g (PList (map PStr gov)) = Inr i"
    by (cases gov) (auto simp: inferred_domain_def first_of_def)
  then show ?thesis
    by (auto simp: resolve_default_for_user_def Let_def dhas_iff split: option.split)
qed

lemma resolve_error:
  "resolve_domain_id g requested = Inl e \<Longrightarrow>
     \<exists>r. requested = Some r \<and> \<not> dhas (rg_domains g) r \<and> e = DomainNotFound (PStr r) (dkeys (rg_domains g))"
  by (auto simp: resolve_domain_id_def Let_def split: option.splits list.splits if_split_asm)

text \<open>The module ids of a catalogue are hashable, as the governance check needs.\<close>

lemma py_in_dict: "py_in i (PDict d) = Inr b \<Longrightarrow> hashable i"
  by (auto split: if_split_asm)

lemma listed_ids:
  assumes "list_modules_for_domain w g d = Inr ms"
  shows "\<forall>m \<in> set ms. \<exists>i. dget m ''module_id'' = Some i \<and> hashable i"
proof -
  have entries: "\<forall>m \<in> set ys. \<exists>i. dget m ''module_id'' = Some i \<and> hashable i"
    if "map_res (\<lambda>(k, c). module_entry k c) items = Inr ys" for items ys
    using that by (induction items arbitrary: ys) (auto simp: module_entry_def elim!: res_bind_InrE)
  from assms show ?thesis
    by (auto simp: list_modules_for_domain_def Let_def split: option.splits if_split_asm elim!: res_bind_InrE
        dest!: entries py_in_dict dest: bspec)
qed

lemma map_res_ids:
  "\<forall>m \<in> set ms. \<exists>i. dget m ''module_id'' = Some i \<and> hashable i \<Longrightarrow>
     map_res (\<lambda>m. py_item m ''module_id'') (map PDict ms) = Inr (map (\<lambda>m. dget_or m ''module_id'' PNone) ms)
     \<and> hashed (map (\<lambda>m. dget_or m ''module_id'' PNone) ms) = Inr (map (\<lambda>m. dget_or m ''module_id'' PNone) ms)"
  by (induction ms) (auto simp: hashed_def split: if_split_asm)

lemma overlap_ids: "overlap ids (map PStr xs) \<longleftrightarrow> (\<exists>i \<in> set xs. PStr i \<in> set ids)"
  by (auto simp: overlap_def list_ex_iff)

text \<open>Whether a catalogue lists a module of a scope.\<close>

definition lists_one_of :: "pydict list \<Rightarrow> string set \<Rightarrow> bool" where
  "lists_one_of ms scp \<longleftrightarrow> (\<exists>m \<in> set ms. \<exists>i. dget m ''module_id'' = Some (PStr i) \<and> i \<in> scp)"

lemma registry_check_listed:
  assumes "resolve_domain_id g (Some name) = Inr v" "list_modules_for_domain w g v = Inr ms"
  shows "registry_check (registry_modules w g) name (PList (map PStr gs)) (PDict rs) = Inr (lists_one_of ms (scope gs rs))"
proof -
  note ids = listed_ids [OF assms(2)]
  have mem: "PStr i \<in> set (map (\<lambda>m. dget_or m ''module_id'' PNone) ms) \<longleftrightarrow> (\<exists>m \<in> set ms. dget m ''module_id'' = Some (PStr i))" for i
    using ids by (force simp: image_iff dget_or_def split: option.splits)
  have "registry_check (registry_modules w g) name (PList (map PStr gs)) (PDict rs) =
      Inr (overlap (map (\<lambda>m. dget_or m ''module_id'' PNone) ms) (map PStr gs)
        \<or> overlap (map (\<lambda>m. dget_or m ''module_id'' PNone) ms) (map PStr (dkeys rs)))"
    using map_res_ids [OF ids] by (simp add: registry_check_def registry_modules_def assms keys_strs)
  then show ?thesis unfolding overlap_ids mem by (auto simp: lists_one_of_def scope_def)
qed

text \<open>Every context that was returned is the cached one; the cache holds registered domains.\<close>

definition ctx_inv :: "registry \<Rightarrow> 'c threads \<Rightarrow> bool" where
  "ctx_inv g s \<longleftrightarrow> (\<forall>(d, c) \<in> set (th_out s). dget (th_cache s) d = Some c)
     \<and> (\<forall>d. dhas (th_cache s) d \<longrightarrow> dhas (rg_domains g) d)
     \<and> (\<forall>t d c. th_pc s t = Loaded d c \<longrightarrow> dhas (rg_domains g) d)"

lemma load_context_known: "load_context loader g d = Inr c \<Longrightarrow> dhas (rg_domains g) d"
  by (auto simp: load_context_def dhas_iff split: option.splits)

lemma ctx_step_inv: "ctx_step g s s' \<Longrightarrow> ctx_inv g s \<Longrightarrow> ctx_inv g s'"
proof (induction rule: ctx_step.induct)
  case (stored s t d c cache')
  have out: "dget (th_cache s) d' = Some c'" if "(d', c') \<in> set (th_out s)" for d' c'
    using stored.prems that by (auto simp: ctx_inv_def)
  have keep: "dget (store_context d c (th_cache s)) d' = (if dget (th_cache s) d' = None \<and> d' = d then Some c else dget (th_cache s) d')" for d'
    by (auto simp: store_context_def dhas_iff)
  have "dhas (rg_domains g) d" using stored.prems stored.hyps(1) unfolding ctx_inv_def by blast
  then show ?case using stored.prems out
    by (auto simp: ctx_inv_def stored.hyps(2) keep dhas_iff split: if_split_asm)
qed (auto simp: ctx_inv_def dest: load_context_known)

lemma ctx_inv_reachable: "(ctx_step g)\<^sup>*\<^sup>* start_threads s \<Longrightarrow> ctx_inv g s"
proof (induction rule: rtranclp_induct)
  case base
  show ?case by (simp add: ctx_inv_def start_threads_def dhas_def)
qed (rule ctx_step_inv)

section \<open>Properties\<close>

text \<open>C13: whatever a constructed registry resolves is a registered domain: the domain of a request, or nothing for a
  request without domain when there is no default; and the default of any user, whose resolution never fails for
  users as the store has them.\<close>

theorem resolution_is_registered:
  assumes "init_registry w registry_path single = Inr g"
  shows "(case resolve_domain_id g requested of
        Inr v \<Rightarrow> names_domain g v \<or> (requested \<in> {None, Some []} \<and> v = PNone \<and> \<not> truthy (rg_default g))
      | Inl e \<Rightarrow> \<exists>r. requested = Some r \<and> \<not> dhas (rg_domains g) r \<and> e = DomainNotFound (PStr r) (dkeys (rg_domains g)))
    \<and> (case resolve_default_for_user g user of Inr v \<Rightarrow> names_domain g v | Inl e \<Rightarrow> user \<noteq> None)
    \<and> (\<exists>v. resolve_default_for_user g (Some (user_record role governed roles)) = Inr v \<and> names_domain g v)"
proof -
  note g = wf_init [OF assms]
  have "case resolve_domain_id g requested of
        Inr v \<Rightarrow> names_domain g v \<or> (requested \<in> {None, Some []} \<and> v = PNone \<and> \<not> truthy (rg_default g))
      | Inl e \<Rightarrow> \<exists>r. requested = Some r \<and> \<not> dhas (rg_domains g) r \<and> e = DomainNotFound (PStr r) (dkeys (rg_domains g))"
    using resolve_names [OF g, of requested] resolve_error [of g requested] by (cases "resolve_domain_id g requested") simp_all
  moreover have "case resolve_default_for_user g user of Inr v \<Rightarrow> names_domain g v | Inl e \<Rightarrow> user \<noteq> None"
    using default_for_user_names [OF g, of user]
    by (cases user) (auto simp: resolve_default_for_user_def [of g None] split: sum.split)
  moreover have "\<exists>v. resolve_default_for_user g (Some (user_record role governed roles)) = Inr v \<and> names_domain g v"
    using typed_user_resolves default_for_user_names [OF g] by blast
  ultimately show ?thesis by blast
qed

text \<open>C16: governance through the registry: for a name that resolves to a domain whose catalogue can be read, an
  administrator with a scope governs it exactly if the scope names it or one of the modules in the catalogue.\<close>

theorem governance_through_registry:
  assumes "init_registry w registry_path single = Inr g" "resolve_domain_id g (Some name) = Inr v"
    and "list_modules_for_domain w g v = Inr ms" "scope governed roles \<noteq> {}"
  shows "can_govern_domain (user_record ''admin'' governed roles) name (Some (registry_modules w g))
    = Inr (name \<in> scope governed roles \<or> lists_one_of ms (scope governed roles))"
proof -
  have or_id: "py_or (PList (map PStr gs)) (PList []) = PList (map PStr gs)" "py_or (PDict rs) (PDict []) = PDict rs" for gs rs
    by (simp_all add: py_or_def)
  have ne: "governed \<noteq> [] \<or> roles \<noteq> []" using assms(4) by (auto simp: scope_def)
  have gets: "dget_or (user_record r gs rs) ''domain_roles'' x = PDict rs" for r gs rs x by (simp add: user_record_def dget_or_def)
  show ?thesis using ne
    by (auto simp: can_govern_domain_def or_id gets Let_def registry_check_listed [OF assms(2,3)] dhas_def scope_def lists_one_of_def)
qed

text \<open>C22: the shared cache of contexts under any interleaving of requests: although two requests may both miss and load
  different contexts, every request for a domain gets the same one, which later requests get too, and only
  registered domains are cached.\<close>

theorem contexts_agree:
  assumes "(ctx_step g)\<^sup>*\<^sup>* start_threads s" "(d, c) \<in> set (th_out s)" "(d, c') \<in> set (th_out s)"
  shows "c = c' \<and> get_runtime_context loader g d (th_cache s) = Inr (c, th_cache s) \<and> dhas (rg_domains g) d"
proof -
  note inv = ctx_inv_reachable [OF assms(1), unfolded ctx_inv_def]
  from inv assms(2) have c: "dget (th_cache s) d = Some c" by blast
  from inv assms(3) have "dget (th_cache s) d = Some c'" by blast
  with c inv show ?thesis by (simp add: get_runtime_context_def dhas_iff)
qed

text \<open>A registry with two domains, read from its text.\<close>

definition lines_text :: "string list \<Rightarrow> string" where
  "lines_text ls = concat (map (\<lambda>l. l @ [CHR 0x0A]) ls)"

definition sample_files :: files_env where
  "sample_files = \<lparr>w_exists = (\<lambda>p. p = ''edu.yaml'' \<or> p = ''ops.yaml''),
     w_read = (\<lambda>p.
       if p = ''registry.yaml'' then Some (lines_text [''default_domain: ops'', ''domains:'', ''  education:'', ''    runtime_config_path: edu.yaml'',
         ''    module_prefix: edu'', ''  ops:'', ''    runtime_config_path: ops.yaml''])
       else if p = ''edu.yaml'' then Some (lines_text [''module_map:'', ''  domain/edu/algebra/v1:'', ''    local_only: true''])
       else None),
     w_json = (\<lambda>_. None)\<rparr>"

definition sample_registry :: registry where
  "sample_registry = (case init_registry sample_files (Some ''registry.yaml'') None of Inr g \<Rightarrow> g
     | Inl _ \<Rightarrow> \<lparr>rg_domains = [], rg_default = PNone, rg_multi = False, rg_roles = [], rg_prefixes = [], rg_unauth = PNone\<rparr>)"

lemma sample_registry_loaded: "init_registry sample_files (Some ''registry.yaml'') None = Inr sample_registry"
proof -
  have "case init_registry sample_files (Some ''registry.yaml'') None of Inr _ \<Rightarrow> True | Inl _ \<Rightarrow> False" by code_simp
  then show ?thesis by (auto simp: sample_registry_def split: sum.splits)
qed

theorem resolution_is_registered_witness:
  "resolve_domain_id sample_registry (Some ''domain/edu/algebra'') = Inr (PStr ''education'')
   \<and> names_domain sample_registry (PStr ''education'')"
proof -
  have r: "resolve_domain_id sample_registry (Some ''domain/edu/algebra'') = Inr (PStr ''education'')" by code_simp
  from resolution_is_registered [OF sample_registry_loaded, of "Some ''domain/edu/algebra''"] show ?thesis by (simp add: r)
qed

theorem governance_through_registry_witness:
  "can_govern_domain (user_record ''admin'' [''domain/edu/algebra/v1''] []) ''edu'' (Some (registry_modules sample_files sample_registry)) = Inr True
   \<and> can_govern_domain (user_record ''admin'' [''domain/ops/x/v1''] []) ''edu'' (Some (registry_modules sample_files sample_registry)) = Inr False"
proof -
  have r: "resolve_domain_id sample_registry (Some ''edu'') = Inr (PStr ''education'')" by code_simp
  have m: "list_modules_for_domain sample_files sample_registry (PStr ''education'') =
     Inr [[(''module_id'', PStr ''domain/edu/algebra/v1''), (''domain_physics_path'', PStr ''''), (''local_only'', PBool True)]]" by code_simp
  have sc: "scope [i] [] \<noteq> {}" for i by (simp add: scope_def)
  from governance_through_registry [OF sample_registry_loaded r m sc] show ?thesis by (simp add: scope_def lists_one_of_def)
qed

text \<open>Two requests miss and load different contexts; the second gets the first one's.\<close>

definition sample_loader :: "string \<Rightarrow> pyval \<Rightarrow> string reg" where
  "sample_loader c = (\<lambda>_. Inr c)"

theorem contexts_agree_witness:
  "\<exists>s. (ctx_step sample_registry)\<^sup>*\<^sup>* start_threads s \<and> th_out s = [(''ops'', ''a''), (''ops'', ''a'')] \<and> th_pc s 0 = Idle \<and> th_pc s 1 = Idle
     \<and> get_runtime_context (Some (sample_loader ''c'')) sample_registry ''ops'' (th_cache s) = Inr (''a'', th_cache s)"
proof -
  let ?g = sample_registry
  have load: "load_context (Some (sample_loader c)) ?g ''ops'' = Inr c" for c
  proof -
    have "case dget (rg_domains ?g) ''ops'' of Some e \<Rightarrow> dhas e ''runtime_config_path'' | None \<Rightarrow> False" by code_simp
    then show ?thesis by (auto simp: load_context_def sample_loader_def dhas_iff split: option.splits)
  qed
  define s1 :: "string threads" where "s1 = start_threads\<lparr>th_pc := (th_pc start_threads)(0 := Missed ''ops'')\<rparr>"
  define s2 where "s2 = s1\<lparr>th_pc := (th_pc s1)(1 := Missed ''ops'')\<rparr>"
  define s3 where "s3 = s2\<lparr>th_pc := (th_pc s2)(0 := Loaded ''ops'' ''a'')\<rparr>"
  define s4 where "s4 = s3\<lparr>th_pc := (th_pc s3)(1 := Loaded ''ops'' ''b'')\<rparr>"
  define s5 where "s5 = s4\<lparr>th_cache := [(''ops'', ''a'')], th_pc := (th_pc s4)(0 := Idle), th_out := (''ops'', ''a'') # th_out s4\<rparr>"
  define s6 where "s6 = s5\<lparr>th_pc := (th_pc s5)(1 := Idle), th_out := (''ops'', ''a'') # th_out s5\<rparr>"
  note defs = s1_def s2_def s3_def s4_def s5_def s6_def start_threads_def
  have "ctx_step ?g start_threads s1" unfolding s1_def by (rule ctx_step.miss) (simp_all add: start_threads_def dhas_def)
  moreover have "ctx_step ?g s1 s2" unfolding s2_def by (rule ctx_step.miss) (simp_all add: defs dhas_def)
  moreover have "ctx_step ?g s2 s3" unfolding s3_def by (rule ctx_step.loaded [OF _ load]) (simp add: defs)
  moreover have "ctx_step ?g s3 s4" unfolding s4_def by (rule ctx_step.loaded [OF _ load]) (simp add: defs)
  moreover have "ctx_step ?g s4 s5"
    using ctx_step.stored [of s4 0 "''ops''" "''a''" "[(''ops'', ''a'')]" ?g] by (simp add: s5_def) (simp add: defs store_context_def dhas_def)
  moreover have "ctx_step ?g s5 s6"
    using ctx_step.stored [of s5 1 "''ops''" "''b''" "th_cache s5" ?g] by (simp add: s6_def) (simp add: defs store_context_def dhas_def)
  ultimately have run: "(ctx_step ?g)\<^sup>*\<^sup>* start_threads s6" by (meson converse_rtranclp_into_rtranclp rtranclp.rtrancl_refl)
  have out: "th_out s6 = [(''ops'', ''a''), (''ops'', ''a'')]" "th_pc s6 0 = Idle" "th_pc s6 1 = Idle" by (simp_all add: defs)
  from contexts_agree [OF run, of "''ops''" "''a''" "''a''"] have "get_runtime_context (Some (sample_loader ''c'')) ?g ''ops'' (th_cache s6) = Inr (''a'', th_cache s6)"
    by (simp add: out)
  then show ?thesis using run out by blast
qed

end
