(* ===== verification/Business_Policy.thy ===== *)
theory Business_Policy
  imports Py_Values
begin

text \<open>
  The versioned policy documents of business operations: the shared header check (\<^verbatim>\<open>core/policy_validation.py\<close>) and
  the two policies resolved from them for an organization and a site, \<^verbatim>\<open>thread_routing/policy.py\<close> and
  \<^verbatim>\<open>decision_precedent/policy.py\<close>. A document is the untyped value the YAML reader yields; thresholds are rationals.
\<close>

section \<open>Layers\<close>

definition top_level_policy_fields :: "string list" where
  "top_level_policy_fields = [''schema_version'', ''policy_version'', ''defaults'', ''organizations'']"

definition validate_policy_header :: "pydict \<Rightarrow> pydict res" where
  "validate_policy_header config =
     (if \<not> set (dkeys config) \<subseteq> set top_level_policy_fields then Inl ValueError
      else if \<not> peq (dget_or config ''schema_version'' PNone) (PStr ''1.0.0'') then Inl ValueError
      else Inr config)"

definition require_scope :: "string \<Rightarrow> string res" where
  "require_scope identifier = (if strip identifier = [] then Inl ValueError else Inr (strip identifier))"

definition as_mapping :: "pyval \<Rightarrow> pydict res" where
  "as_mapping v = (case v of PDict d \<Rightarrow> Inr d | _ \<Rightarrow> Inl ValueError)"

definition merge_policy :: "string list \<Rightarrow> pydict \<Rightarrow> pydict \<Rightarrow> pydict res" where
  "merge_policy allowed base override =
     (if \<not> set (dkeys override) \<subseteq> set allowed then Inl ValueError else Inr (dupdate base override))"

text \<open>The organization's own fields and its sites.\<close>

definition organization_fields :: "pydict \<Rightarrow> pydict" where
  "organization_fields override = filter (\<lambda>p. fst p \<noteq> ''sites'') override"

text \<open>Defaults, then the organization, then the site: what both policies do with a document.\<close>

definition policy_layers :: "string list \<Rightarrow> pydict \<Rightarrow> string \<Rightarrow> string \<Rightarrow> pydict res" where
  "policy_layers allowed config organization_id site_id =
     res_bind (validate_policy_header config) (\<lambda>config.
     res_bind (as_mapping (dget_or config ''defaults'' PNone)) (\<lambda>defaults.
     res_bind (merge_policy allowed [] defaults) (\<lambda>resolved.
     res_bind (as_mapping (dget_or config ''organizations'' (PDict []))) (\<lambda>organizations.
     res_bind (as_mapping (dget_or organizations organization_id (PDict []))) (\<lambda>override.
     res_bind (as_mapping (dget_or override ''sites'' (PDict []))) (\<lambda>sites.
     res_bind (merge_policy allowed resolved (organization_fields override)) (\<lambda>resolved.
     res_bind (as_mapping (dget_or sites site_id (PDict []))) (\<lambda>site_override.
       merge_policy allowed resolved site_override))))))))"

section \<open>Field validators\<close>

text \<open>\<open>math.isfinite\<close> converts an integer to a float, which overflows from this bound on.\<close>

definition float_overflows :: "int \<Rightarrow> bool" where
  "float_overflows n \<longleftrightarrow> 2 ^ 1024 - 2 ^ 970 \<le> \<bar>n\<bar>"

definition unit_number :: "pyval \<Rightarrow> rat res" where
  "unit_number v = (case v of
      PInt n \<Rightarrow> if float_overflows n then Inl OverflowError else if 0 \<le> n \<and> n \<le> 1 then Inr (of_int n) else Inl ValueError
    | PFloat (Fin q) \<Rightarrow> if 0 \<le> q \<and> q \<le> 1 then Inr q else Inl ValueError
    | _ \<Rightarrow> Inl ValueError)"

definition positive_integer :: "pyval \<Rightarrow> int res" where
  "positive_integer v = (case v of PInt n \<Rightarrow> if n < 1 then Inl ValueError else Inr n | _ \<Rightarrow> Inl ValueError)"

fun strings_of :: "pyval list \<Rightarrow> string list option" where
  "strings_of [] = Some []"
| "strings_of (PStr s # vs) = map_option (\<lambda>ss. s # ss) (strings_of vs)"
| "strings_of (_ # vs) = None"

definition field :: "pydict \<Rightarrow> string \<Rightarrow> pyval" where
  "field policy k = dget_or policy k PNone"

section \<open>The thread routing policy\<close>

definition thread_fields :: "string list" where
  "thread_fields = [''attach_threshold'', ''fork_threshold'', ''ambiguity_margin'', ''recap_interval_turns'', ''candidate_limit'',
     ''manual_only'', ''require_operator_confirmation_for'']"

definition confirmation_actions :: "string list" where
  "confirmation_actions = [''attach_existing'', ''create_new'', ''fork_from'', ''ambiguous_attach'']"

record thread_policy =
  tr_version :: int
  tr_attach :: rat
  tr_fork :: rat
  tr_margin :: rat
  tr_recap :: int
  tr_limit :: int
  tr_manual :: bool
  tr_confirm :: "string list"
  tr_org :: string
  tr_site :: string

definition valid_actions :: "pyval \<Rightarrow> string list res" where
  "valid_actions v = (case v of
      PList vs \<Rightarrow> (case strings_of vs of
          Some ss \<Rightarrow> if \<not> set ss \<subseteq> set confirmation_actions \<or> \<not> distinct ss then Inl ValueError else Inr ss
        | None \<Rightarrow> Inl ValueError)
    | _ \<Rightarrow> Inl ValueError)"

definition valid_bool :: "pyval \<Rightarrow> bool res" where
  "valid_bool v = (case v of PBool b \<Rightarrow> Inr b | _ \<Rightarrow> Inl ValueError)"

definition validate_thread_policy :: "pydict \<Rightarrow> pyval \<Rightarrow> string \<Rightarrow> string \<Rightarrow> thread_policy res" where
  "validate_thread_policy policy version organization_id site_id =
     (if \<not> set thread_fields \<subseteq> set (dkeys policy) then Inl ValueError
      else if \<not> set (dkeys policy) \<subseteq> set thread_fields then Inl ValueError
      else res_bind (positive_integer version) (\<lambda>ver.
        res_bind (unit_number (field policy ''attach_threshold'')) (\<lambda>att.
        res_bind (unit_number (field policy ''fork_threshold'')) (\<lambda>frk.
        if frk > att then Inl ValueError
        else res_bind (valid_actions (field policy ''require_operator_confirmation_for'')) (\<lambda>acts.
          res_bind (valid_bool (field policy ''manual_only'')) (\<lambda>man.
          res_bind (unit_number (field policy ''ambiguity_margin'')) (\<lambda>mar.
          res_bind (positive_integer (field policy ''recap_interval_turns'')) (\<lambda>rec.
          res_bind (positive_integer (field policy ''candidate_limit'')) (\<lambda>lim.
            Inr \<lparr>tr_version = ver, tr_attach = att, tr_fork = frk, tr_margin = mar, tr_recap = rec, tr_limit = lim,
                 tr_manual = man, tr_confirm = acts, tr_org = organization_id, tr_site = site_id\<rparr>)))))))))"

definition resolve_thread_routing_policy :: "pydict \<Rightarrow> string \<Rightarrow> string \<Rightarrow> thread_policy res" where
  "resolve_thread_routing_policy config organization_id site_id =
     res_bind (require_scope organization_id) (\<lambda>org.
     res_bind (require_scope site_id) (\<lambda>site.
     res_bind (policy_layers thread_fields config org site) (\<lambda>policy.
       validate_thread_policy policy (dget_or config ''policy_version'' PNone) org site)))"

section \<open>The decision precedent policy\<close>

definition decision_fields :: "string list" where
  "decision_fields = [''candidate_limit'', ''suggest_threshold'', ''confirmation_threshold'', ''stale_after_days'', ''stale_penalty'',
     ''missing_precedent_penalty'', ''high_risk_classes'', ''confirmation_risk_classes'']"

record decision_policy =
  dp_version :: int
  dp_limit :: int
  dp_suggest :: rat
  dp_confirm :: rat
  dp_stale_days :: int
  dp_stale_penalty :: rat
  dp_missing_penalty :: rat
  dp_high_risk :: "string list"
  dp_confirm_risk :: "string list"
  dp_org :: string
  dp_site :: string

definition risk_classes :: "pyval \<Rightarrow> string list res" where
  "risk_classes v = (case v of
      PList vs \<Rightarrow> (case strings_of vs of
          Some ss \<Rightarrow> if list_ex (\<lambda>s. strip s = []) ss \<or> \<not> distinct (map strip ss) then Inl ValueError else Inr (map strip ss)
        | None \<Rightarrow> Inl ValueError)
    | _ \<Rightarrow> Inl ValueError)"

definition validate_decision_policy :: "pydict \<Rightarrow> pyval \<Rightarrow> string \<Rightarrow> string \<Rightarrow> decision_policy res" where
  "validate_decision_policy policy version organization_id site_id =
     (if \<not> set decision_fields \<subseteq> set (dkeys policy) then Inl ValueError
      else res_bind (positive_integer version) (\<lambda>ver.
        res_bind (unit_number (field policy ''suggest_threshold'')) (\<lambda>sug.
        res_bind (unit_number (field policy ''confirmation_threshold'')) (\<lambda>con.
        if con > sug then Inl ValueError
        else res_bind (risk_classes (field policy ''high_risk_classes'')) (\<lambda>high.
          res_bind (risk_classes (field policy ''confirmation_risk_classes'')) (\<lambda>conf.
          if set high \<inter> set conf \<noteq> {} then Inl ValueError
          else res_bind (positive_integer (field policy ''candidate_limit'')) (\<lambda>lim.
            res_bind (positive_integer (field policy ''stale_after_days'')) (\<lambda>days.
            res_bind (unit_number (field policy ''stale_penalty'')) (\<lambda>stale.
            res_bind (unit_number (field policy ''missing_precedent_penalty'')) (\<lambda>missing.
              Inr \<lparr>dp_version = ver, dp_limit = lim, dp_suggest = sug, dp_confirm = con, dp_stale_days = days,
                   dp_stale_penalty = stale, dp_missing_penalty = missing, dp_high_risk = high, dp_confirm_risk = conf,
                   dp_org = organization_id, dp_site = site_id\<rparr>))))))))))"

definition resolve_decision_precedent_policy :: "pydict \<Rightarrow> string \<Rightarrow> string \<Rightarrow> decision_policy res" where
  "resolve_decision_precedent_policy config organization_id site_id =
     res_bind (require_scope organization_id) (\<lambda>org.
     res_bind (require_scope site_id) (\<lambda>site.
     res_bind (policy_layers decision_fields config org site) (\<lambda>policy.
       validate_decision_policy policy (dget_or config ''policy_version'' PNone) org site)))"

section \<open>Facts\<close>

lemma unit_number_range: "unit_number v = Inr q \<Longrightarrow> 0 \<le> q \<and> q \<le> 1"
  by (auto simp: unit_number_def split: pyval.splits pyfloat.splits if_split_asm)

lemma positive_integer_ge: "positive_integer v = Inr n \<Longrightarrow> 1 \<le> n \<and> v = PInt n"
  by (auto simp: positive_integer_def split: pyval.splits if_split_asm)

lemma as_mapping_Inr [simp]: "as_mapping v = Inr d \<longleftrightarrow> v = PDict d"
  by (auto simp: as_mapping_def split: pyval.splits)

lemma as_mapping_PDict [simp]: "as_mapping (PDict d) = Inr d"
  by (simp add: as_mapping_def)

lemma merge_policy_Inr [simp]:
  "merge_policy allowed base override = Inr d \<longleftrightarrow> set (dkeys override) \<subseteq> set allowed \<and> d = dupdate base override"
  by (auto simp: merge_policy_def)

lemma strings_of_map: "strings_of vs = Some ss \<Longrightarrow> vs = map PStr ss"
  by (induction vs arbitrary: ss rule: strings_of.induct) auto

lemma valid_bool_Inr: "valid_bool v = Inr b \<Longrightarrow> v = PBool b"
  by (auto simp: valid_bool_def split: pyval.splits)

lemma valid_actions_Inr: "valid_actions v = Inr ss \<Longrightarrow> v = PList (map PStr ss)"
  by (auto simp: valid_actions_def strings_of_map split: pyval.splits option.splits if_split_asm)

text \<open>The layers a scope sees in a document: the site's override, the organization's, the defaults.\<close>

definition scope_override :: "pydict \<Rightarrow> string \<Rightarrow> pydict" where
  "scope_override config org = (case dget config ''organizations'' of
     Some (PDict os) \<Rightarrow> (case dget os org of Some (PDict o1) \<Rightarrow> o1 | _ \<Rightarrow> []) | _ \<Rightarrow> [])"

definition site_override :: "pydict \<Rightarrow> string \<Rightarrow> string \<Rightarrow> pydict" where
  "site_override config org site = (case dget (scope_override config org) ''sites'' of
     Some (PDict ss) \<Rightarrow> (case dget ss site of Some (PDict s) \<Rightarrow> s | _ \<Rightarrow> []) | _ \<Rightarrow> [])"

definition defaults_of :: "pydict \<Rightarrow> pydict" where
  "defaults_of config = (case dget config ''defaults'' of Some (PDict d) \<Rightarrow> d | _ \<Rightarrow> [])"

definition effective :: "pydict \<Rightarrow> string \<Rightarrow> string \<Rightarrow> string \<Rightarrow> pyval option" where
  "effective config org site k = (case dget (site_override config org site) k of
      Some v \<Rightarrow> Some v
    | None \<Rightarrow> (case dget (scope_override config org) k of Some v \<Rightarrow> Some v | None \<Rightarrow> dget (defaults_of config) k))"

definition wf_layers :: "pydict \<Rightarrow> string \<Rightarrow> string \<Rightarrow> bool" where
  "wf_layers config org site \<longleftrightarrow> dict_ok (defaults_of config) \<and> dict_ok (scope_override config org) \<and> dict_ok (site_override config org site)"

lemma policy_layers_get:
  assumes "policy_layers allowed config org site = Inr policy" "wf_layers config org site" "k \<noteq> ''sites''"
  shows "dget policy k = effective config org site k"
proof -
  from assms(1) obtain defaults os o1 ss s1 where l: "dget_or config ''defaults'' PNone = PDict defaults"
    "dget_or config ''organizations'' (PDict []) = PDict os" "dget_or os org (PDict []) = PDict o1"
    "dget_or o1 ''sites'' (PDict []) = PDict ss" "dget_or ss site (PDict []) = PDict s1"
    "policy = dupdate (dupdate (dupdate [] defaults) (organization_fields o1)) s1"
    by (auto simp: policy_layers_def validate_policy_header_def split: if_split_asm elim!: res_bind_InrE)
  have d: "defaults_of config = defaults" "scope_override config org = o1"
    using l(1-3) by (auto simp: defaults_of_def scope_override_def dget_or_def split: option.splits)
  have s: "site_override config org site = s1"
    using l(4,5) by (auto simp: site_override_def d dget_or_def split: option.splits)
  note ok = assms(2) [unfolded wf_layers_def d s]
  have o: "dget (organization_fields o1) k = dget o1 k"
    using dget_filter [of o1 "\<lambda>k v. k \<noteq> ''sites''" k] ok assms(3)
    by (simp add: organization_fields_def case_prod_beta split: option.splits)
  have okf: "dict_ok (organization_fields o1)" using ok by (simp add: organization_fields_def)
  show ?thesis using ok okf o by (simp add: l(6) dget_dupdate effective_def d s split: option.splits)
qed

text \<open>Both resolutions read the document through the scope's layers only.\<close>

definition same_scope :: "pydict \<Rightarrow> pydict \<Rightarrow> string \<Rightarrow> string \<Rightarrow> bool" where
  "same_scope a b org site \<longleftrightarrow> dget a ''defaults'' = dget b ''defaults'' \<and> dget a ''policy_version'' = dget b ''policy_version''
     \<and> dget a ''schema_version'' = dget b ''schema_version'' \<and> set (dkeys a) = set (dkeys b)
     \<and> (\<exists>os os' ov ov' ss ss'. dget a ''organizations'' = Some (PDict os) \<and> dget b ''organizations'' = Some (PDict os')
          \<and> dget os org = Some (PDict ov) \<and> dget os' org = Some (PDict ov') \<and> organization_fields ov = organization_fields ov'
          \<and> dget ov ''sites'' = Some (PDict ss) \<and> dget ov' ''sites'' = Some (PDict ss') \<and> dget ss site = dget ss' site)"

lemma policy_layers_cong: "same_scope a b org site \<Longrightarrow> policy_layers allowed a org site = policy_layers allowed b org site"
  unfolding same_scope_def policy_layers_def validate_policy_header_def dget_or_def
  by (elim conjE exE) simp

section \<open>Properties\<close>

text \<open>C17: a resolved thread policy takes every field from the innermost layer that sets it, site before organization
  before defaults; its thresholds lie in the unit interval, the fork threshold does not exceed the attach threshold,
  and limits and version are positive.\<close>

theorem thread_policy_layered:
  assumes "resolve_thread_routing_policy config organization_id site_id = Inr p"
    and "wf_layers config (strip organization_id) (strip site_id)"
  shows "let eff = effective config (strip organization_id) (strip site_id) in
    tr_org p = strip organization_id \<and> tr_site p = strip site_id \<and> tr_org p \<noteq> [] \<and> tr_site p \<noteq> []
    \<and> map_option unit_number (eff ''attach_threshold'') = Some (Inr (tr_attach p))
    \<and> map_option unit_number (eff ''fork_threshold'') = Some (Inr (tr_fork p))
    \<and> map_option unit_number (eff ''ambiguity_margin'') = Some (Inr (tr_margin p))
    \<and> eff ''recap_interval_turns'' = Some (PInt (tr_recap p)) \<and> eff ''candidate_limit'' = Some (PInt (tr_limit p))
    \<and> eff ''manual_only'' = Some (PBool (tr_manual p))
    \<and> eff ''require_operator_confirmation_for'' = Some (PList (map PStr (tr_confirm p)))
    \<and> 0 \<le> tr_fork p \<and> tr_fork p \<le> tr_attach p \<and> tr_attach p \<le> 1 \<and> 0 \<le> tr_margin p \<and> 1 \<le> tr_recap p \<and> 1 \<le> tr_limit p \<and> 1 \<le> tr_version p"
proof -
  from assms(1) obtain policy where l: "policy_layers thread_fields config (strip organization_id) (strip site_id) = Inr policy"
    and v: "validate_thread_policy policy (dget_or config ''policy_version'' PNone) (strip organization_id) (strip site_id) = Inr p"
    and ne: "strip organization_id \<noteq> []" "strip site_id \<noteq> []"
    by (auto simp: resolve_thread_routing_policy_def require_scope_def split: if_split_asm elim!: res_bind_InrE)
  note get = policy_layers_get [OF l assms(2)]
  have has: "dget policy k = Some (field policy k)" if "k \<in> set thread_fields" for k
    using v that by (force simp: validate_thread_policy_def field_def dget_or_def dget_None_iff subset_iff split: if_split_asm option.splits)
  from v have f: "unit_number (field policy ''attach_threshold'') = Inr (tr_attach p)" "unit_number (field policy ''fork_threshold'') = Inr (tr_fork p)"
    "unit_number (field policy ''ambiguity_margin'') = Inr (tr_margin p)" "positive_integer (field policy ''recap_interval_turns'') = Inr (tr_recap p)"
    "positive_integer (field policy ''candidate_limit'') = Inr (tr_limit p)" "valid_bool (field policy ''manual_only'') = Inr (tr_manual p)"
    "valid_actions (field policy ''require_operator_confirmation_for'') = Inr (tr_confirm p)" "positive_integer (dget_or config ''policy_version'' PNone) = Inr (tr_version p)"
    "tr_fork p \<le> tr_attach p" "tr_org p = strip organization_id" "tr_site p = strip site_id"
    by (auto simp: validate_thread_policy_def split: if_split_asm elim!: res_bind_InrE)
  have g: "effective config (strip organization_id) (strip site_id) k = Some (field policy k)" if "k \<in> set thread_fields" for k
    using get [of k] has [OF that] that by (auto simp: thread_fields_def)
  show ?thesis
    using f ne unit_number_range [OF f(1)] unit_number_range [OF f(2)] unit_number_range [OF f(3)] positive_integer_ge [OF f(4)]
      positive_integer_ge [OF f(5)] positive_integer_ge [OF f(8)] valid_bool_Inr [OF f(6)] valid_actions_Inr [OF f(7)]
    by (simp add: g thread_fields_def Let_def)
qed

text \<open>A document with an organization and a site that override one field each.\<close>

definition sample_defaults :: pydict where
  "sample_defaults = [(''attach_threshold'', PFloat (Fin (4/5))), (''fork_threshold'', PFloat (Fin (2/5))),
     (''ambiguity_margin'', PFloat (Fin (1/20))), (''recap_interval_turns'', PInt 5), (''candidate_limit'', PInt 3),
     (''manual_only'', PBool False), (''require_operator_confirmation_for'', PList [PStr ''fork_from''])]"

definition sample_policy_doc :: "pydict \<Rightarrow> pydict" where
  "sample_policy_doc other = [(''schema_version'', PStr ''1.0.0''), (''policy_version'', PInt 2), (''defaults'', PDict sample_defaults),
     (''organizations'', PDict [(''acme'', PDict [(''candidate_limit'', PInt 4), (''sites'', PDict [(''north'', PDict [(''candidate_limit'', PInt 5)]),
        (''south'', PDict other)])]), (''other'', PDict other)])]"

definition sample_thread_policy :: thread_policy where
  "sample_thread_policy = \<lparr>tr_version = 2, tr_attach = 4/5, tr_fork = 2/5, tr_margin = 1/20, tr_recap = 5, tr_limit = 5, tr_manual = False,
     tr_confirm = [''fork_from''], tr_org = ''acme'', tr_site = ''north''\<rparr>"

lemma sample_policy_resolves: "resolve_thread_routing_policy (sample_policy_doc []) ''acme'' '' north'' = Inr sample_thread_policy"
  by code_simp

theorem thread_policy_layered_witness:
  "effective (sample_policy_doc []) ''acme'' ''north'' ''candidate_limit'' = Some (PInt 5) \<and> tr_limit sample_thread_policy = 5"
proof -
  have s: "strip ''acme'' = ''acme''" "strip '' north'' = ''north''" by code_simp+
  have w: "wf_layers (sample_policy_doc []) (strip ''acme'') (strip '' north'')" unfolding s by code_simp
  from thread_policy_layered [OF sample_policy_resolves w] show ?thesis
    by (simp add: s Let_def) (simp add: sample_thread_policy_def)
qed

text \<open>What other organizations and other sites override has no influence on a scope's policies.\<close>

theorem policies_scope_isolated:
  assumes "same_scope a b (strip organization_id) (strip site_id)"
  shows "resolve_thread_routing_policy a organization_id site_id = resolve_thread_routing_policy b organization_id site_id
    \<and> resolve_decision_precedent_policy a organization_id site_id = resolve_decision_precedent_policy b organization_id site_id"
proof -
  have v: "dget_or a ''policy_version'' PNone = dget_or b ''policy_version'' PNone"
    using assms by (simp add: same_scope_def dget_or_def)
  show ?thesis using policy_layers_cong [OF assms]
    by (simp add: resolve_thread_routing_policy_def resolve_decision_precedent_policy_def require_scope_def v)
qed

theorem policies_scope_isolated_witness:
  "resolve_thread_routing_policy (sample_policy_doc [(''manual_only'', PStr ''junk'')]) ''acme'' '' north'' = Inr sample_thread_policy"
proof -
  have s: "strip ''acme'' = ''acme''" "strip '' north'' = ''north''" by code_simp+
  have "same_scope (sample_policy_doc [(''manual_only'', PStr ''junk'')]) (sample_policy_doc []) (strip ''acme'') (strip '' north'')"
    unfolding s by (simp add: same_scope_def sample_policy_doc_def organization_fields_def)
  from policies_scope_isolated [OF this] show ?thesis by (simp add: sample_policy_resolves)
qed

end
