(* ===== verification/Institutional.thy ===== *)
theory Institutional
  imports Py_Values
begin

text \<open>
  Institutional memory, \<^verbatim>\<open>retrieval/contracts.py\<close>, \<^verbatim>\<open>retrieval/vector_store.py\<close> and \<^verbatim>\<open>retrieval/institutional.py\<close>: scoped
  records become chunks, chunks are stored with their vectors in memory and on disk, and a search filters by scope
  before it ranks. Embedding, the cosine score and the ranking of scores are third-party numerics and so arguments, as
  is the digest of a chunk's content. What is on disk is the stored vectors and the dictionaries of the chunks.
\<close>

section \<open>Filters\<close>

record retrieval_filter =
  rf_org :: "string option"
  rf_site :: "string option"
  rf_actor :: "string option"
  rf_device :: "string option"
  rf_module :: "string option"
  rf_provider :: "string option"
  rf_ext_type :: "string option"
  rf_ext_id :: "string option"
  rf_institutional :: bool

definition empty_opt :: "string option \<Rightarrow> bool" where
  "empty_opt x \<longleftrightarrow> x = None \<or> x = Some []"

definition validate_filter :: "retrieval_filter \<Rightarrow> unit res" where
  "validate_filter f =
     (if rf_institutional f \<and> empty_opt (rf_org f) then Inl ValueError
      else if rf_institutional f \<and> empty_opt (rf_site f) then Inl ValueError
      else Inr ())"

definition as_metadata :: "retrieval_filter \<Rightarrow> (string, string option) dict" where
  "as_metadata f = [(''organization_id'', rf_org f), (''site_id'', rf_site f), (''actor_id'', rf_actor f), (''device_id'', rf_device f),
     (''module_key'', rf_module f), (''provider'', rf_provider f), (''external_record_type'', rf_ext_type f),
     (''external_record_id'', rf_ext_id f)]"

section \<open>Chunks\<close>

record chunk =
  ck_source :: string
  ck_heading :: string
  ck_text :: string
  ck_hash :: string
  ck_content_type :: string
  ck_domain :: string
  ck_org :: pyval
  ck_site :: pyval
  ck_actor :: pyval
  ck_device :: pyval
  ck_record_type :: pyval
  ck_record_id :: pyval
  ck_thread :: pyval
  ck_provider :: pyval
  ck_ext_type :: pyval
  ck_ext_id :: pyval
  ck_module :: pyval
  ck_created :: pyval

definition chunk_dict :: "chunk \<Rightarrow> pydict" where
  "chunk_dict c = [(''source_path'', PStr (ck_source c)), (''heading'', PStr (ck_heading c)), (''text'', PStr (ck_text c)),
     (''content_hash'', PStr (ck_hash c)), (''content_type'', PStr (ck_content_type c)), (''domain_id'', PStr (ck_domain c)),
     (''organization_id'', ck_org c), (''site_id'', ck_site c), (''actor_id'', ck_actor c), (''device_id'', ck_device c),
     (''record_type'', ck_record_type c), (''record_id'', ck_record_id c), (''thread_id'', ck_thread c), (''provider'', ck_provider c),
     (''external_record_type'', ck_ext_type c), (''external_record_id'', ck_ext_id c), (''module_key'', ck_module c),
     (''created_utc'', ck_created c)]"

text \<open>The text fields are strings in every document the store writes; another type there is a type error here.\<close>

definition str_field :: "pyval \<Rightarrow> string res" where
  "str_field v = (case v of PStr s \<Rightarrow> Inr s | _ \<Rightarrow> Inl TypeError)"

definition chunk_of_dict :: "pydict \<Rightarrow> chunk res" where
  "chunk_of_dict r =
     res_bind (py_item (PDict r) ''source_path'') (\<lambda>v. res_bind (str_field v) (\<lambda>source.
     res_bind (py_item (PDict r) ''heading'') (\<lambda>v. res_bind (str_field v) (\<lambda>heading.
     res_bind (py_item (PDict r) ''text'') (\<lambda>v. res_bind (str_field v) (\<lambda>txt.
     res_bind (py_item (PDict r) ''content_hash'') (\<lambda>v. res_bind (str_field v) (\<lambda>hash.
     res_bind (str_field (dget_or r ''content_type'' (PStr ''doc''))) (\<lambda>ctype.
     res_bind (str_field (dget_or r ''domain_id'' (PStr ''''))) (\<lambda>domain.
       let g = (\<lambda>k. dget_or r k PNone)
       in Inr \<lparr>ck_source = source, ck_heading = heading, ck_text = txt, ck_hash = hash, ck_content_type = ctype, ck_domain = domain,
            ck_org = g ''organization_id'', ck_site = g ''site_id'', ck_actor = g ''actor_id'', ck_device = g ''device_id'',
            ck_record_type = g ''record_type'', ck_record_id = g ''record_id'', ck_thread = g ''thread_id'',
            ck_provider = g ''provider'', ck_ext_type = g ''external_record_type'', ck_ext_id = g ''external_record_id'',
            ck_module = g ''module_key'', ck_created = g ''created_utc''\<rparr>))))))))))"

text \<open>\<open>getattr(chunk, field, None)\<close>.\<close>

definition chunk_attr :: "chunk \<Rightarrow> string \<Rightarrow> pyval" where
  "chunk_attr c k = dget_or (chunk_dict c) k PNone"

section \<open>The vector store\<close>

record 'v vstore =
  vs_vectors :: "'v list"
  vs_chunks :: "chunk list"
  vs_disk :: "('v list \<times> pydict list) option"

definition new_vstore :: "('v list \<times> pydict list) option \<Rightarrow> 'v vstore" where
  "new_vstore disk = \<lparr>vs_vectors = [], vs_chunks = [], vs_disk = disk\<rparr>"

text \<open>\<open>vdim\<close>: the length of a vector; the store takes rows of 384.\<close>

definition vs_add :: "('v \<Rightarrow> nat) \<Rightarrow> chunk list \<Rightarrow> 'v list \<Rightarrow> 'v vstore \<Rightarrow> 'v vstore res" where
  "vs_add vdim chunks vectors s =
     (if length chunks \<noteq> length vectors then Inl ValueError
      else if list_ex (\<lambda>v. vdim v \<noteq> 384) vectors then Inl ValueError
      else Inr (s\<lparr>vs_vectors := vs_vectors s @ vectors, vs_chunks := vs_chunks s @ chunks\<rparr>))"

definition vs_clear :: "'v vstore \<Rightarrow> 'v vstore" where
  "vs_clear s = s\<lparr>vs_vectors := [], vs_chunks := []\<rparr>"

definition vs_save :: "'v vstore \<Rightarrow> 'v vstore" where
  "vs_save s = s\<lparr>vs_disk := Some (vs_vectors s, map chunk_dict (vs_chunks s))\<rparr>"

definition vs_load :: "'v vstore \<Rightarrow> 'v vstore res" where
  "vs_load s = (case vs_disk s of
     None \<Rightarrow> Inr s
   | Some (vectors, meta) \<Rightarrow> res_bind (map_res chunk_of_dict meta) (\<lambda>chunks. Inr (s\<lparr>vs_vectors := vectors, vs_chunks := chunks\<rparr>)))"

definition vs_size :: "'v vstore \<Rightarrow> nat" where
  "vs_size s = length (vs_chunks s)"

definition vs_has_hash :: "string \<Rightarrow> 'v vstore \<Rightarrow> bool" where
  "vs_has_hash h s \<longleftrightarrow> list_ex (\<lambda>c. ck_hash c = h) (vs_chunks s)"

text \<open>The scope arguments of a search, completed by the filter where they are absent.\<close>

definition search_filters :: "(string, string option) dict \<Rightarrow> retrieval_filter option \<Rightarrow> (string, string option) dict" where
  "search_filters args rf = (case rf of
     None \<Rightarrow> args
   | Some f \<Rightarrow> dupdate args (filter (\<lambda>(k, v). v \<noteq> None \<and> dget_or args k None = None) (as_metadata f)))"

definition eligible :: "(string, string option) dict \<Rightarrow> retrieval_filter option \<Rightarrow> chunk \<Rightarrow> bool" where
  "eligible filters rf c \<longleftrightarrow>
     (case rf of Some f \<Rightarrow> \<not> rf_institutional f \<or> ck_content_type c = ''institutional_memory'' | None \<Rightarrow> True)
     \<and> list_all (\<lambda>(k, expected). case expected of None \<Rightarrow> True | Some e \<Rightarrow> peq (chunk_attr c k) (PStr e)) filters"

text \<open>\<open>best k scores\<close>: the positions of the best \<open>k\<close> scores, best first.\<close>

definition vs_search ::
  "('v \<Rightarrow> 'v \<Rightarrow> pyfloat) \<Rightarrow> (nat \<Rightarrow> pyfloat list \<Rightarrow> nat list) \<Rightarrow> 'v \<Rightarrow> int \<Rightarrow> (string, string option) dict \<Rightarrow>
     retrieval_filter option \<Rightarrow> 'v vstore \<Rightarrow> (chunk \<times> pyfloat) list res" where
  "vs_search score best query k args rf s =
     res_bind (case rf of Some f \<Rightarrow> validate_filter f | None \<Rightarrow> Inr ()) (\<lambda>_.
       if vs_vectors s = [] then Inr []
       else let indices = filter (\<lambda>i. eligible (search_filters args rf) rf (vs_chunks s ! i)) [0..<length (vs_chunks s)] in
         if indices = [] then Inr []
         else if list_ex (\<lambda>i. length (vs_vectors s) \<le> i) indices then Inl IndexError
         else let scores = map (\<lambda>i. score (vs_vectors s ! i) query) indices;
                  top_k = min k (int (length scores)) in
           if top_k \<le> 0 then Inr []
           else Inr (map (\<lambda>j. (vs_chunks s ! (indices ! j), scores ! j)) (best (nat top_k) scores)))"

section \<open>The indexer\<close>

definition required_identifier :: "pydict \<Rightarrow> string \<Rightarrow> string res" where
  "required_identifier rec k = (case dget_or rec k PNone of
      PStr s \<Rightarrow> if strip s = [] then Inl ValueError else Inr (strip s) | _ \<Rightarrow> Inl ValueError)"

fun summary_text :: "pydict \<Rightarrow> string list \<Rightarrow> string res" where
  "summary_text rec [] = Inl ValueError"
| "summary_text rec (k # ks) = (case dget_or rec k PNone of
      PStr s \<Rightarrow> if strip s \<noteq> [] then Inr (strip s) else summary_text rec ks
    | _ \<Rightarrow> summary_text rec ks)"

definition summary_fields :: "string list" where
  "summary_fields = [''summary'', ''decision_summary'', ''event_type'']"

definition as_dict :: "pyval \<Rightarrow> pydict" where
  "as_dict v = (case v of PDict d \<Rightarrow> d | _ \<Rightarrow> [])"

definition thread_of :: "string \<Rightarrow> pydict \<Rightarrow> pyval res" where
  "thread_of record_type rec =
     (if record_type = ''ThreadSummaryRecord'' then res_bind (required_identifier rec ''thread_id'') (\<lambda>t. Inr (PStr t))
      else case dget_or rec ''thread_id'' PNone of
        PNone \<Rightarrow> Inr PNone
      | PStr s \<Rightarrow> if strip s = [] then Inl ValueError else Inr (PStr (strip s))
      | _ \<Rightarrow> Inl ValueError)"

definition canonical_content :: "string \<Rightarrow> string \<Rightarrow> string \<Rightarrow> string \<Rightarrow> string \<Rightarrow> pyval" where
  "canonical_content org site record_type record_id smry =
     PDict [(''organization_id'', PStr org), (''site_id'', PStr site), (''record_type'', PStr record_type),
       (''record_id'', PStr record_id), (''summary'', PStr smry)]"

definition record_to_chunk :: "(pyval \<Rightarrow> string) \<Rightarrow> (pyval \<Rightarrow> string) \<Rightarrow> pydict \<Rightarrow> chunk res" where
  "record_to_chunk render digest rec =
     res_bind (required_identifier rec ''record_type'') (\<lambda>record_type.
     res_bind (required_identifier rec ''record_id'') (\<lambda>record_id.
     res_bind (required_identifier rec ''organization_id'') (\<lambda>org.
     res_bind (required_identifier rec ''site_id'') (\<lambda>site.
     res_bind (required_identifier rec ''actor_id'') (\<lambda>actor.
     res_bind (thread_of record_type rec) (\<lambda>thread.
     res_bind (summary_text rec summary_fields) (\<lambda>smry.
     let reference = as_dict (dget_or rec ''external_system_reference'' PNone);
         provider_data = as_dict (dget_or reference ''provider_data'' PNone)
     in Inr \<lparr>ck_source = ''institutional://'' @ record_id, ck_heading = record_type, ck_text = smry,
          ck_hash = digest (canonical_content org site record_type record_id smry), ck_content_type = ''institutional_memory'',
          ck_domain = py_str render (py_or (dget_or rec ''domain_id'' PNone) (PStr '''')),
          ck_org = PStr org, ck_site = PStr site, ck_actor = PStr actor,
          ck_device = (case dget_or rec ''device_id'' PNone of PStr d \<Rightarrow> PStr d | _ \<Rightarrow> PNone),
          ck_record_type = PStr record_type, ck_record_id = PStr record_id, ck_thread = thread,
          ck_provider = dget_or provider_data ''provider'' PNone, ck_ext_type = dget_or reference ''external_record_type'' PNone,
          ck_ext_id = dget_or reference ''external_record_id'' PNone, ck_module = dget_or rec ''module_key'' PNone,
          ck_created = dget_or rec ''created_utc'' PNone\<rparr>)))))))"

text \<open>The outside of the indexer: rendering, digest, embedding of chunks and of a query, score and ranking.\<close>

record 'v retrieval_env =
  re_render :: "pyval \<Rightarrow> string"
  re_digest :: "pyval \<Rightarrow> string"
  re_embed :: "chunk list \<Rightarrow> 'v list res"
  re_query :: "string \<Rightarrow> 'v res"
  re_dim :: "'v \<Rightarrow> nat"
  re_score :: "'v \<Rightarrow> 'v \<Rightarrow> pyfloat"
  re_top :: "nat \<Rightarrow> pyfloat list \<Rightarrow> nat list"

text \<open>The chunks of the records, without those whose digest the store has; the test asks the store only.\<close>

definition ingest :: "'v retrieval_env \<Rightarrow> pydict list \<Rightarrow> 'v vstore \<Rightarrow> ((nat \<times> nat \<times> nat) \<times> 'v vstore) res" where
  "ingest v records s =
     res_bind (map_res (record_to_chunk (re_render v) (re_digest v)) records) (\<lambda>chunks.
     let new = filter (\<lambda>c. \<not> vs_has_hash (ck_hash c) s) chunks; skipped = length chunks - length new;
         counts = (skipped + length new, length new, skipped)
     in if new = [] then Inr (counts, s)
        else res_bind (re_embed v new) (\<lambda>vectors.
          res_bind (vs_add (re_dim v) new vectors s) (\<lambda>s'. Inr (counts, vs_save s'))))"

text \<open>The scope arguments of the store that the indexer leaves at their defaults.\<close>

definition no_scope :: "(string, string option) dict" where
  "no_scope = [(''organization_id'', None), (''site_id'', None), (''actor_id'', None), (''device_id'', None)]"

definition search :: "'v retrieval_env \<Rightarrow> string \<Rightarrow> retrieval_filter \<Rightarrow> int \<Rightarrow> 'v vstore \<Rightarrow> ((chunk \<times> pyfloat) list \<times> 'v vstore) res" where
  "search v query rf k s =
     res_bind (validate_filter rf) (\<lambda>_.
     if \<not> rf_institutional rf then Inl ValueError
     else res_bind (vs_load s) (\<lambda>s'.
       if vs_size s' = 0 then Inr ([], s')
       else res_bind (re_query v query) (\<lambda>q.
         res_bind (vs_search (re_score v) (re_top v) q k
             no_scope (Some rf) s') (\<lambda>hits.
           Inr (hits, s')))))"

section \<open>Facts\<close>

lemma chunk_dict_get:
  "dget (chunk_dict c) ''source_path'' = Some (PStr (ck_source c))" "dget (chunk_dict c) ''heading'' = Some (PStr (ck_heading c))"
  "dget (chunk_dict c) ''text'' = Some (PStr (ck_text c))" "dget (chunk_dict c) ''content_hash'' = Some (PStr (ck_hash c))"
  "dget (chunk_dict c) ''content_type'' = Some (PStr (ck_content_type c))" "dget (chunk_dict c) ''domain_id'' = Some (PStr (ck_domain c))"
  "dget (chunk_dict c) ''organization_id'' = Some (ck_org c)" "dget (chunk_dict c) ''site_id'' = Some (ck_site c)"
  "dget (chunk_dict c) ''actor_id'' = Some (ck_actor c)" "dget (chunk_dict c) ''device_id'' = Some (ck_device c)"
  "dget (chunk_dict c) ''record_type'' = Some (ck_record_type c)" "dget (chunk_dict c) ''record_id'' = Some (ck_record_id c)"
  "dget (chunk_dict c) ''thread_id'' = Some (ck_thread c)" "dget (chunk_dict c) ''provider'' = Some (ck_provider c)"
  "dget (chunk_dict c) ''external_record_type'' = Some (ck_ext_type c)" "dget (chunk_dict c) ''external_record_id'' = Some (ck_ext_id c)"
  "dget (chunk_dict c) ''module_key'' = Some (ck_module c)" "dget (chunk_dict c) ''created_utc'' = Some (ck_created c)"
  by (simp_all add: chunk_dict_def)

lemma chunk_dict_read [simp]: "chunk_of_dict (chunk_dict c) = Inr c"
  by (simp add: chunk_of_dict_def str_field_def dget_or_def chunk_dict_get Let_def)

lemma map_chunk_of_dict [simp]: "map_res chunk_of_dict (map chunk_dict cs) = Inr cs"
  by (induction cs) simp_all

lemma vs_load_save [simp]: "vs_load (vs_save s) = Inr (vs_save s)"
  by (simp add: vs_load_def vs_save_def)

text \<open>The documented behaviour of the ranking: positions of the list, as many as asked for, none twice.\<close>

definition ranking :: "(nat \<Rightarrow> pyfloat list \<Rightarrow> nat list) \<Rightarrow> bool" where
  "ranking best \<longleftrightarrow> (\<forall>k ss. k \<le> length ss \<longrightarrow> length (best k ss) = k \<and> distinct (best k ss) \<and> set (best k ss) \<subseteq> {..<length ss})"

lemma no_scope_None: "dget_or no_scope k None = None"
proof -
  have "\<forall>p \<in> set no_scope. snd p = None" by (simp add: no_scope_def)
  then show ?thesis by (auto simp: dget_or_def split: option.split dest!: map_of_SomeD)
qed

lemma search_filters_scope: "search_filters no_scope (Some f) = dupdate no_scope (filter (\<lambda>(k, v). v \<noteq> None) (as_metadata f))"
  by (simp only: search_filters_def option.case no_scope_None simp_thms)

text \<open>A chunk of a result matches every field the filter sets.\<close>

lemma eligible_matches:
  assumes "eligible (search_filters no_scope (Some f)) (Some f) c"
    "(k, Some e) \<in> set (as_metadata f)"
  shows "chunk_attr c k = PStr e"
proof -
  let ?m = "filter (\<lambda>(k, v). v \<noteq> None) (as_metadata f)"
  have ok: "dict_ok ?m" by (rule dict_ok_filter) (simp add: as_metadata_def dict_ok_def)
  have "dget ?m k = Some (Some e)" using assms(2) ok by (intro map_of_is_SomeI) (auto simp: dict_ok_def dkeys_def)
  then have "dget (dupdate no_scope ?m) k = Some (Some e)"
    unfolding dget_dupdate [OF ok] by simp
  then have "(k, Some e) \<in> set (search_filters no_scope (Some f))"
    unfolding search_filters_scope by (rule map_of_SomeD)
  with assms(1) show ?thesis by (auto simp: eligible_def list_all_iff)
qed

lemma vs_search_hits:
  assumes "vs_search score best q k args (Some f) s = Inr hits" "ranking best" "(c, x) \<in> set hits"
  shows "eligible (search_filters args (Some f)) (Some f) c" "c \<in> set (vs_chunks s)" "int (length hits) \<le> k"
proof -
  define indices where "indices = filter (\<lambda>i. eligible (search_filters args (Some f)) (Some f) (vs_chunks s ! i)) [0..<length (vs_chunks s)]"
  define scores where "scores = map (\<lambda>i. score (vs_vectors s ! i) q) indices"
  define n where "n = nat (min k (int (length scores)))"
  from assms(1,3) have h: "hits = map (\<lambda>j. (vs_chunks s ! (indices ! j), scores ! j)) (best n scores)" "0 < n"
    by (auto simp: vs_search_def Let_def indices_def [symmetric] scores_def [symmetric] n_def split: if_split_asm elim!: res_bind_InrE)
  have n: "n \<le> length scores" "int n \<le> k" using h(2) by (auto simp: n_def)
  then have r: "length (best n scores) = n" "set (best n scores) \<subseteq> {..<length scores}"
    using assms(2) by (auto simp: ranking_def)
  from assms(3) h(1) obtain j where j: "j \<in> set (best n scores)" "c = vs_chunks s ! (indices ! j)" by auto
  have "indices ! j \<in> set indices" using j(1) r(2) by (auto simp: scores_def)
  then show "eligible (search_filters args (Some f)) (Some f) c" "c \<in> set (vs_chunks s)" by (auto simp: j(2) indices_def)
  show "int (length hits) \<le> k" using n(2) r(1) by (simp add: h(1))
qed

definition balanced :: "'v vstore \<Rightarrow> bool" where
  "balanced s \<longleftrightarrow> length (vs_vectors s) = length (vs_chunks s)"

lemma vs_has_hash_append: "vs_chunks s' = vs_chunks s @ ks \<Longrightarrow> vs_has_hash h s' \<longleftrightarrow> vs_has_hash h s \<or> (\<exists>c \<in> set ks. ck_hash c = h)"
  by (auto simp: vs_has_hash_def list_ex_iff)

text \<open>What a hit of a search is.\<close>

lemma search_hit:
  assumes "search v query f k s = Inr (hits, s')" "ranking (re_top v)" "(c, x) \<in> set hits"
  shows "\<exists>org site. rf_org f = Some org \<and> rf_site f = Some site \<and> ck_org c = PStr org \<and> ck_site c = PStr site \<and> org \<noteq> [] \<and> site \<noteq> []
    \<and> ck_content_type c = ''institutional_memory'' \<and> c \<in> set (vs_chunks s') \<and> int (length hits) \<le> k
    \<and> (\<forall>(key, expected) \<in> set (as_metadata f). expected = None \<or> Some (chunk_attr c key) = map_option PStr expected)"
proof -
  from assms(1,3) obtain q where vf: "validate_filter f = Inr ()" "rf_institutional f"
    and h: "vs_search (re_score v) (re_top v) q k no_scope
      (Some f) s' = Inr hits"
    by (auto simp: search_def split: if_split_asm elim!: res_bind_InrE)
  note e = vs_search_hits [OF h assms(2,3)]
  from vf obtain org site where o: "rf_org f = Some org" "rf_site f = Some site" "org \<noteq> []" "site \<noteq> []"
    by (cases "rf_org f"; cases "rf_site f") (auto simp: validate_filter_def empty_opt_def split: if_split_asm)
  have m: "chunk_attr c key = PStr w" if "(key, Some w) \<in> set (as_metadata f)" for key w
    using eligible_matches [OF e(1) that] .
  have "chunk_attr c ''organization_id'' = PStr org" "chunk_attr c ''site_id'' = PStr site"
    using o by (auto intro!: m simp: as_metadata_def)
  then have "ck_org c = PStr org" "ck_site c = PStr site" by (simp_all add: chunk_attr_def chunk_dict_def dget_or_def)
  moreover have "ck_content_type c = ''institutional_memory''" using e(1) vf(2) by (simp add: eligible_def)
  moreover have "\<forall>(key, expected) \<in> set (as_metadata f). expected = None \<or> Some (chunk_attr c key) = map_option PStr expected"
  proof (rule ballI, clarify)
    fix key expected assume "(key, expected) \<in> set (as_metadata f)" "Some (chunk_attr c key) \<noteq> map_option PStr expected"
    then show "expected = None" using m [of key] by (cases expected) auto
  qed
  ultimately show ?thesis using o e(2,3) by blast
qed

section \<open>Properties\<close>

text \<open>C9: whatever is stored, a search of institutional memory yields only stored chunks of the organization and the site
  asked for, which match every other field the filter sets, and no more than asked for.\<close>

theorem search_scoped:
  assumes "search v query f k s = Inr (hits, s')" "ranking (re_top v)" "(c, x) \<in> set hits"
  shows "\<exists>org site. rf_org f = Some org \<and> rf_site f = Some site \<and> ck_org c = PStr org \<and> ck_site c = PStr site \<and> org \<noteq> [] \<and> site \<noteq> []
    \<and> ck_content_type c = ''institutional_memory'' \<and> c \<in> set (vs_chunks s') \<and> int (length hits) \<le> k
    \<and> (\<forall>(key, expected) \<in> set (as_metadata f). expected = None \<or> Some (chunk_attr c key) = map_option PStr expected)"
  by (rule search_hit [OF assms])

text \<open>Ingesting is additive and repeatable: the memory keeps its chunks and gains one for each record whose digest it
  has not; when it gains any, it is persisted as a whole; and ingesting the same records again changes nothing.\<close>

theorem ingest_repeatable:
  assumes "ingest v records s = Inr ((seen, new, skipped), s')"
  shows "\<exists>ks. vs_chunks s' = vs_chunks s @ ks \<and> length ks = new \<and> seen = length records \<and> skipped + new = seen
    \<and> vs_disk s' = (if ks = [] then vs_disk s else Some (vs_vectors s', map chunk_dict (vs_chunks s')))
    \<and> ingest v records s' = Inr ((length records, 0, length records), s')"
proof -
  from assms obtain chunks where c: "map_res (record_to_chunk (re_render v) (re_digest v)) records = Inr chunks"
    by (auto simp: ingest_def elim!: res_bind_InrE)
  define ks where "ks = filter (\<lambda>c. \<not> vs_has_hash (ck_hash c) s) chunks"
  have len: "length chunks = length records" using c
    by (induction records arbitrary: chunks) (auto elim!: res_bind_InrE)
  have le: "length ks \<le> length chunks" by (simp add: ks_def)
  have counts: "new = length ks" "seen = length records" "skipped = length chunks - length ks"
    using assms le by (auto simp: ingest_def c Let_def ks_def [symmetric] len split: if_split_asm elim!: res_bind_InrE)
  have s': "vs_chunks s' = vs_chunks s @ ks" "vs_disk s' = (if ks = [] then vs_disk s else Some (vs_vectors s', map chunk_dict (vs_chunks s')))"
    using assms by (auto simp: ingest_def c Let_def ks_def [symmetric] vs_add_def vs_save_def split: if_split_asm elim!: res_bind_InrE)
  have "vs_has_hash (ck_hash x) s'" if "x \<in> set chunks" for x
    using that by (auto simp: vs_has_hash_append [OF s'(1)] ks_def)
  then have none: "filter (\<lambda>c. \<not> vs_has_hash (ck_hash c) s') chunks = []" by (simp add: filter_empty_conv)
  have "ingest v records s' = Inr ((length records, 0, length records), s')" by (simp add: ingest_def c Let_def none len)
  then show ?thesis using s' counts le len by (intro exI [of _ ks]) simp
qed

text \<open>C15: ingesting does not load what is persisted: after a restart, the first record that is ingested before any search
  leaves on disk exactly what it would leave on an empty disk, so the memory of before is lost.\<close>

theorem restart_ingest_forgets:
  assumes "ingest v records (new_vstore disk) = Inr ((seen, Suc n, skipped), s')"
  shows "\<exists>s0. ingest v records (new_vstore None) = Inr ((seen, Suc n, skipped), s0) \<and> vs_disk s' = vs_disk s0
    \<and> (\<exists>vs ms. vs_disk s' = Some (vs, ms) \<and> length ms \<le> length records)"
proof -
  from assms obtain chunks where c: "map_res (record_to_chunk (re_render v) (re_digest v)) records = Inr chunks"
    by (auto simp: ingest_def elim!: res_bind_InrE)
  have len: "length chunks = length records" using c
    by (induction records arbitrary: chunks) (auto elim!: res_bind_InrE)
  have none: "\<not> vs_has_hash h (new_vstore d)" for h and d :: "('a list \<times> pydict list) option" by (simp add: vs_has_hash_def new_vstore_def)
  from assms obtain vectors where e: "re_embed v chunks = Inr vectors" "length chunks = length vectors" "\<not> list_ex (\<lambda>x. re_dim v x \<noteq> 384) vectors"
    and s': "s' = vs_save \<lparr>vs_vectors = vectors, vs_chunks = chunks, vs_disk = disk\<rparr>" and n: "chunks \<noteq> []" "seen = length chunks" "Suc n = length chunks" "skipped = 0"
    by (auto simp: ingest_def c Let_def none vs_add_def split: if_split_asm elim!: res_bind_InrE) (auto simp: new_vstore_def)
  have "ingest v records (new_vstore None) = Inr ((seen, Suc n, skipped), vs_save \<lparr>vs_vectors = vectors, vs_chunks = chunks, vs_disk = None\<rparr>)"
    using e n by (simp add: ingest_def c none vs_add_def) (simp add: new_vstore_def)
  then show ?thesis using len by (auto simp: s' vs_save_def)
qed

text \<open>Two records of two sites; vectors are lists of numbers, all scores are equal.\<close>

definition sample_env :: "rat list retrieval_env" where
  "sample_env = \<lparr>re_render = (\<lambda>_. []), re_digest = (\<lambda>v. case v of PDict d \<Rightarrow> (case dget d ''record_id'' of Some (PStr s) \<Rightarrow> s | _ \<Rightarrow> []) | _ \<Rightarrow> []),
     re_embed = (\<lambda>cs. Inr (map (\<lambda>_. replicate 384 0) cs)), re_query = (\<lambda>_. Inr (replicate 384 0)), re_dim = length,
     re_score = (\<lambda>_ _. Fin 0), re_top = (\<lambda>k ss. [0..<k])\<rparr>"

definition sample_record :: "string \<Rightarrow> string \<Rightarrow> pydict" where
  "sample_record i site = [(''record_type'', PStr ''ThreadSummaryRecord''), (''record_id'', PStr i), (''organization_id'', PStr ''acme''),
     (''site_id'', PStr site), (''actor_id'', PStr ''ann''), (''thread_id'', PStr ''t1''), (''summary'', PStr ''Topics: orders'')]"

definition sample_filter :: retrieval_filter where
  "sample_filter = \<lparr>rf_org = Some ''acme'', rf_site = Some ''north'', rf_actor = None, rf_device = None, rf_module = None,
     rf_provider = None, rf_ext_type = None, rf_ext_id = None, rf_institutional = True\<rparr>"

definition ingested :: "pydict list \<Rightarrow> rat list vstore \<Rightarrow> rat list vstore" where
  "ingested records s = (case ingest sample_env records s of Inr (_, s') \<Rightarrow> s' | Inl _ \<Rightarrow> s)"

definition sample_store :: "rat list vstore" where
  "sample_store = ingested [sample_record ''r1'' ''north'', sample_record ''r2'' ''south''] (new_vstore None)"

lemma sample_ranking: "ranking (re_top sample_env)"
  by (auto simp: ranking_def sample_env_def)

theorem search_scoped_witness:
  "\<exists>c x s'. search sample_env ''orders'' sample_filter 5 sample_store = Inr ([(c, x)], s') \<and> ck_record_id c = PStr ''r1'' \<and> ck_site c = PStr ''north''"
proof -
  have "case search sample_env ''orders'' sample_filter 5 sample_store of Inr ([(c, x)], s') \<Rightarrow> ck_record_id c = PStr ''r1'' | _ \<Rightarrow> False"
    by code_simp
  then obtain c x s' where h: "search sample_env ''orders'' sample_filter 5 sample_store = Inr ([(c, x)], s')" "ck_record_id c = PStr ''r1''"
    by (auto split: sum.splits list.splits)
  from search_scoped [OF h(1) sample_ranking, of c x] have "ck_site c = PStr ''north''" by (auto simp: sample_filter_def)
  with h show ?thesis by blast
qed

theorem ingest_repeatable_witness:
  "\<exists>s'. ingest sample_env [sample_record ''r2'' ''south'', sample_record ''r3'' ''north''] sample_store = Inr ((2, 1, 1), s') \<and> vs_size s' = 3"
proof -
  have "case ingest sample_env [sample_record ''r2'' ''south'', sample_record ''r3'' ''north''] sample_store of Inr (n, s') \<Rightarrow> n = (2, 1, 1) | Inl _ \<Rightarrow> False"
    by code_simp
  then obtain s' where h: "ingest sample_env [sample_record ''r2'' ''south'', sample_record ''r3'' ''north''] sample_store = Inr ((2, 1, 1), s')"
    by (auto split: sum.splits)
  have "vs_size sample_store = 2" by code_simp
  with ingest_repeatable [OF h] h show ?thesis by (auto simp: vs_size_def)
qed

theorem restart_ingest_forgets_witness:
  "\<exists>vs ms. vs_disk (ingested [sample_record ''r3'' ''north''] (new_vstore (vs_disk sample_store))) = Some (vs, ms) \<and> length ms = 1"
proof -
  have "case ingest sample_env [sample_record ''r3'' ''north''] (new_vstore (vs_disk sample_store)) of Inr (n, s') \<Rightarrow> n = (1, 1, 0) | Inl _ \<Rightarrow> False"
    by code_simp
  then obtain s' where h: "ingest sample_env [sample_record ''r3'' ''north''] (new_vstore (vs_disk sample_store)) = Inr ((1, Suc 0, 0), s')"
    by (auto split: sum.splits)
  have "case vs_disk (ingested [sample_record ''r3'' ''north''] (new_vstore (vs_disk sample_store))) of Some (vs, ms) \<Rightarrow> ms \<noteq> [] | None \<Rightarrow> False" by code_simp
  with restart_ingest_forgets [OF h] show ?thesis by (auto simp: ingested_def h Suc_le_eq le_Suc_eq split: option.splits)
qed

end
