(* ===== verification/Api_Base.thy ===== *)
theory Api_Base
  imports Auth Operating_Context
begin

text \<open>
  What the request handlers share: HTTP errors as values, the guards of \<^verbatim>\<open>api/middleware.py\<close> and \<^verbatim>\<open>api/dependencies.py\<close>,
  and the pattern of the two confirmation endpoints, where a decision is issued under a fresh id and settled at most
  once. A handler returns its state next to the answer, because a request that fails may have changed it.
\<close>

section \<open>Errors and guards\<close>

text \<open>An error with a status the handler chose, or an exception that leaves it and becomes a 500.\<close>

datatype http_error = Http nat | Crash py_exn

type_synonym 'a http = "http_error + 'a"

definition crash :: "'a res \<Rightarrow> 'a http" where
  "crash r = (case r of Inl e \<Rightarrow> Inl (Crash e) | Inr x \<Rightarrow> Inr x)"

text \<open>\<open>except ValueError as exc: raise HTTPException(status)\<close>.\<close>

definition value_error_as :: "nat \<Rightarrow> 'a res \<Rightarrow> 'a http" where
  "value_error_as status r = (case r of Inl ValueError \<Rightarrow> Inl (Http status) | Inl e \<Rightarrow> Inl (Crash e) | Inr x \<Rightarrow> Inr x)"

lemma crash_Inr [simp]: "crash r = Inr x \<longleftrightarrow> r = Inr x"
  by (auto simp: crash_def split: sum.splits)

lemma value_error_as_Inr [simp]: "value_error_as n r = Inr x \<longleftrightarrow> r = Inr x"
  by (auto simp: value_error_as_def split: sum.splits py_exn.splits)

definition get_current_user ::
  "codec \<Rightarrow> auth_config \<Rightarrow> rat \<Rightarrow> string list \<Rightarrow> string option \<Rightarrow> pydict option http" where
  "get_current_user cd c now revoked credentials = (case credentials of
     None \<Rightarrow> Inr None
   | Some token \<Rightarrow> (case verify_scoped_jwt cd c now revoked None token of
       Inl (AuthRaise e) \<Rightarrow> Inl (Crash e)
     | Inl _ \<Rightarrow> Inl (Http 401)
     | Inr payload \<Rightarrow> res_bind (value_error_as 401 (operating_context_from_claims payload)) (\<lambda>_. Inr (Some payload))))"

definition require_auth :: "'u option \<Rightarrow> 'u http" where
  "require_auth user = (case user of None \<Rightarrow> Inl (Http 401) | Some u \<Rightarrow> Inr u)"

definition require_role :: "pydict \<Rightarrow> string list \<Rightarrow> unit http" where
  "require_role user allowed = (if list_ex (\<lambda>r. peq (dget_or user ''role'' PNone) (PStr r)) allowed then Inr () else Inl (Http 403))"

definition get_active_operating_context :: "pydict \<Rightarrow> op_context http" where
  "get_active_operating_context user =
     res_bind (value_error_as 403 (operating_context_from_claims user)) (\<lambda>c. case c of None \<Rightarrow> Inl (Http 403) | Some ctx \<Rightarrow> Inr ctx)"

section \<open>Decisions settled once\<close>

text \<open>A run of a component that issues decisions under fresh ids, settles them, and does other things: the ids issued
  and settled so far, latest first.\<close>

inductive one_shot_run ::
  "('s \<Rightarrow> bool) \<Rightarrow> ('s \<Rightarrow> string \<Rightarrow> 's \<Rightarrow> bool) \<Rightarrow> ('s \<Rightarrow> string \<Rightarrow> 's \<Rightarrow> bool) \<Rightarrow> ('s \<Rightarrow> 's \<Rightarrow> bool) \<Rightarrow> 's \<Rightarrow> string list \<Rightarrow> string list \<Rightarrow> bool"
  for init issue settle other where
  started: "init s \<Longrightarrow> one_shot_run init issue settle other s [] []"
| issued: "one_shot_run init issue settle other s xs ss \<Longrightarrow> i \<notin> set xs \<Longrightarrow> issue s i s' \<Longrightarrow> one_shot_run init issue settle other s' (i # xs) ss"
| settled: "one_shot_run init issue settle other s xs ss \<Longrightarrow> settle s i s' \<Longrightarrow> one_shot_run init issue settle other s' xs (i # ss)"
| otherwise: "one_shot_run init issue settle other s xs ss \<Longrightarrow> other s s' \<Longrightarrow> one_shot_run init issue settle other s' xs ss"

text \<open>What makes settling exclusive: it needs an open id and closes it, and only issuing opens one.\<close>

locale one_shot =
  fixes open_ids :: "'s \<Rightarrow> string set"
    and init :: "'s \<Rightarrow> bool"
    and issue settle :: "'s \<Rightarrow> string \<Rightarrow> 's \<Rightarrow> bool"
    and other :: "'s \<Rightarrow> 's \<Rightarrow> bool"
  assumes init_open: "init s \<Longrightarrow> open_ids s = {}"
    and issue_open: "issue s i s' \<Longrightarrow> open_ids s' \<subseteq> insert i (open_ids s)"
    and settle_open: "settle s i s' \<Longrightarrow> i \<in> open_ids s \<and> open_ids s' \<subseteq> open_ids s - {i}"
    and other_open: "other s s' \<Longrightarrow> open_ids s' \<subseteq> open_ids s"
begin

lemma run_exclusive:
  "one_shot_run init issue settle other s xs ss \<Longrightarrow>
     distinct ss \<and> set ss \<subseteq> set xs \<and> open_ids s \<subseteq> set xs \<and> open_ids s \<inter> set ss = {}"
proof (induction rule: one_shot_run.induct)
  case (started s)
  then show ?case by (simp add: init_open)
next
  case (issued s xs ss i s')
  then show ?case using issue_open [OF issued.hyps(3)] by auto
next
  case (settled s xs ss i s')
  then show ?case using settle_open [OF settled.hyps(2)] by auto
next
  case (otherwise s xs ss s')
  then show ?case using other_open [OF otherwise.hyps(2)] by auto
qed

end

end
