(* ===== verification/Decision_Precedent.thy ===== *)
theory Decision_Precedent
  imports Api_Base Business_Policy Institutional Admin_Operations "HOL-Library.Char_ord" "HOL-Library.List_Lexorder"
    "HOL-Library.Product_Lexorder"
begin

text \<open>
  Decision precedents, \<^verbatim>\<open>decision_precedent/\<close> and \<^verbatim>\<open>api/routes/decision_precedent.py\<close>: summaries found in the caller's
  scope become candidates, the scorer ranks them and decides a tier, and the preflight and confirmation endpoints
  record the evidence, escalate, or let the same actor confirm once. Instants are microseconds since the first day of
  the calendar in UTC; similarities and scores are rationals. Parsing and printing of instants and fresh ids are
  arguments.
\<close>

section \<open>Candidates\<close>

record candidate =
  pk_summary :: string
  pk_thread :: string
  pk_similarity :: rat
  pk_created :: int

text \<open>\<open>max(0.0, min(1.0, (score + 1.0) / 2.0))\<close>: a NaN is not smaller than one, so \<open>min\<close> keeps the one.\<close>

definition confidence_from_cosine :: "pyfloat \<Rightarrow> rat" where
  "confidence_from_cosine x = (case x of
      Fin q \<Rightarrow> max 0 (min 1 ((q + 1) / 2)) | Infty True \<Rightarrow> 1 | Infty False \<Rightarrow> 0 | NaN \<Rightarrow> 1)"

text \<open>A present identifier; the indexer stores strings or nothing.\<close>

definition ident :: "pyval \<Rightarrow> string option" where
  "ident v = (case v of PStr (c # cs) \<Rightarrow> Some (c # cs) | _ \<Rightarrow> None)"

definition parse_created_utc :: "(string \<Rightarrow> int option) \<Rightarrow> pyval \<Rightarrow> int option" where
  "parse_created_utc parse v = (case v of PStr s \<Rightarrow> if strip s = [] then None else parse s | _ \<Rightarrow> None)"

definition candidate_of :: "(string \<Rightarrow> int option) \<Rightarrow> chunk \<times> pyfloat \<Rightarrow> candidate option" where
  "candidate_of parse = (\<lambda>(c, x).
     if ck_record_type c \<noteq> PStr ''ThreadSummaryRecord'' then None
     else case (ident (ck_thread c), ident (ck_record_id c), parse_created_utc parse (ck_created c)) of
       (Some t, Some r, Some utc) \<Rightarrow> Some \<lparr>pk_summary = r, pk_thread = t, pk_similarity = confidence_from_cosine x, pk_created = utc\<rparr>
     | _ \<Rightarrow> None)"

text \<open>The best candidate of each summary record.\<close>

definition keep_best :: "candidate \<Rightarrow> (string, candidate) dict \<Rightarrow> (string, candidate) dict" where
  "keep_best p d = (case dget d (pk_summary p) of
     Some q \<Rightarrow> if pk_similarity p > pk_similarity q then dput (pk_summary p) p d else d
   | None \<Rightarrow> dput (pk_summary p) p d)"

definition precedent_candidates :: "(string \<Rightarrow> int option) \<Rightarrow> (chunk \<times> pyfloat) list \<Rightarrow> candidate list" where
  "precedent_candidates parse results =
     map snd (fold (\<lambda>r d. case candidate_of parse r of None \<Rightarrow> d | Some p \<Rightarrow> keep_best p d) results [])"

section \<open>The score\<close>

datatype tier = Suggest_Only | Require_Confirmation | Mandatory_Escalation

datatype rationale = High_Risk_Class | Missing_Precedent | High_Confidence_Precedent | Confirmation_Threshold
  | Insufficient_Confidence | Stale_Precedent | Confirmation_Risk_Class

record match =
  mt_candidate :: candidate
  mt_stale :: bool
  mt_rank :: nat

record score =
  sc_id :: string
  sc_org :: string
  sc_site :: string
  sc_actor :: string
  sc_version :: int
  sc_risk :: string
  sc_similarity :: rat
  sc_recency_penalty :: rat
  sc_missing_penalty :: rat
  sc_final :: rat
  sc_tier :: tier
  sc_rationale :: "rationale list"
  sc_matches :: "match list"

text \<open>\<open>round(x, 6)\<close>, half to even.\<close>

definition round6 :: "rat \<Rightarrow> rat" where
  "round6 q = (let y = q * 1000000; f = \<lfloor>y\<rfloor>; d = y - of_int f in
     of_int (if d < 1/2 then f else if d > 1/2 then f + 1 else if even f then f else f + 1) / 1000000)"

definition day :: int where "day = 86400000000"

text \<open>The cutoff date: a time span of more than 999999999 days, or a date before the calendar, raises.\<close>

definition ordered_matches :: "candidate list \<Rightarrow> decision_policy \<Rightarrow> int \<Rightarrow> match list res" where
  "ordered_matches candidates policy evaluated =
     (if dp_stale_days policy > 999999999 \<or> evaluated < dp_stale_days policy * day then Inl OverflowError
      else let cutoff = evaluated - dp_stale_days policy * day;
               ordered = sort_key (\<lambda>p. (- pk_similarity p, pk_summary p)) candidates
        in Inr (map (\<lambda>(r, p). \<lparr>mt_candidate = p, mt_stale = (pk_created p < cutoff), mt_rank = r\<rparr>)
             (enumerate 1 (take (nat (dp_limit policy)) ordered))))"

definition decide_tier :: "decision_policy \<Rightarrow> string \<Rightarrow> match option \<Rightarrow> rat \<Rightarrow> tier \<times> rationale" where
  "decide_tier policy risk_class best final =
     (if risk_class \<in> set (dp_high_risk policy) then (Mandatory_Escalation, High_Risk_Class)
      else if best = None then (Mandatory_Escalation, Missing_Precedent)
      else if final \<ge> dp_suggest policy \<and> risk_class \<notin> set (dp_confirm_risk policy) then (Suggest_Only, High_Confidence_Precedent)
      else if final \<ge> dp_confirm policy then (Require_Confirmation, Confirmation_Threshold)
      else (Mandatory_Escalation, Insufficient_Confidence))"

definition require_identifier :: "string \<Rightarrow> string res" where
  "require_identifier v = (if strip v = [] then Inl ValueError else Inr (strip v))"

definition score_decision_precedent :: "candidate list \<Rightarrow> decision_policy \<Rightarrow> string \<Rightarrow> string \<Rightarrow> int \<Rightarrow> string \<Rightarrow> score res" where
  "score_decision_precedent candidates policy actor_id risk_class evaluated record_id =
     res_bind (require_identifier actor_id) (\<lambda>actor.
     res_bind (require_identifier risk_class) (\<lambda>risk.
     res_bind (ordered_matches candidates policy evaluated) (\<lambda>matches.
     let best = (case matches of [] \<Rightarrow> None | m # _ \<Rightarrow> Some m);
         stale = (case best of Some m \<Rightarrow> mt_stale m | None \<Rightarrow> False);
         similarity = (case best of Some m \<Rightarrow> pk_similarity (mt_candidate m) | None \<Rightarrow> 0);
         recency = (if stale then dp_stale_penalty policy else 0);
         missing = (if best = None then dp_missing_penalty policy else 0);
         final = round6 (max 0 (similarity - recency - missing));
         (t, why) = decide_tier policy risk best final
     in Inr \<lparr>sc_id = record_id, sc_org = dp_org policy, sc_site = dp_site policy, sc_actor = actor, sc_version = dp_version policy,
          sc_risk = risk, sc_similarity = similarity, sc_recency_penalty = recency, sc_missing_penalty = missing, sc_final = final,
          sc_tier = t,
          sc_rationale = [why] @ (if stale then [Stale_Precedent] else [])
            @ (if risk \<in> set (dp_confirm_risk policy) \<and> t = Require_Confirmation then [Confirmation_Risk_Class] else []),
          sc_matches = matches\<rparr>)))"

section \<open>Evaluation in the caller's scope\<close>

definition policy_filter :: "string \<Rightarrow> string \<Rightarrow> retrieval_filter" where
  "policy_filter org site = \<lparr>rf_org = Some org, rf_site = Some site, rf_actor = None, rf_device = None, rf_module = None,
     rf_provider = None, rf_ext_type = None, rf_ext_id = None, rf_institutional = True\<rparr>"

definition evaluate_decision_precedent ::
  "'v retrieval_env \<Rightarrow> (string \<Rightarrow> int option) \<Rightarrow> string \<Rightarrow> decision_policy \<Rightarrow> string \<Rightarrow> string \<Rightarrow> int \<Rightarrow> string \<Rightarrow> 'v vstore \<Rightarrow>
     (score \<times> 'v vstore) res" where
  "evaluate_decision_precedent v parse query policy actor_id risk_class evaluated record_id s =
     (if strip query = [] then Inl ValueError
      else res_bind (search v query (policy_filter (dp_org policy) (dp_site policy)) (dp_limit policy) s) (\<lambda>(results, s').
        res_bind (score_decision_precedent (precedent_candidates parse results) policy actor_id risk_class evaluated record_id) (\<lambda>sc.
          Inr (sc, s'))))"

section \<open>Records\<close>

definition tier_str :: "tier \<Rightarrow> string" where
  "tier_str t = (case t of Suggest_Only \<Rightarrow> ''suggest_only'' | Require_Confirmation \<Rightarrow> ''require_confirmation''
     | Mandatory_Escalation \<Rightarrow> ''mandatory_escalation'')"

definition rationale_str :: "rationale \<Rightarrow> string" where
  "rationale_str r = (case r of High_Risk_Class \<Rightarrow> ''high_risk_class'' | Missing_Precedent \<Rightarrow> ''missing_precedent''
     | High_Confidence_Precedent \<Rightarrow> ''high_confidence_precedent'' | Confirmation_Threshold \<Rightarrow> ''confirmation_threshold''
     | Insufficient_Confidence \<Rightarrow> ''insufficient_confidence'' | Stale_Precedent \<Rightarrow> ''stale_precedent''
     | Confirmation_Risk_Class \<Rightarrow> ''confirmation_risk_class'')"

definition match_record :: "(int \<Rightarrow> string) \<Rightarrow> score \<Rightarrow> match \<Rightarrow> pyval" where
  "match_record utc_str sc m = PDict [(''record_id'', PStr (sc_id sc @ '':match:'' @ int_str (int (mt_rank m)))),
     (''organization_id'', PStr (sc_org sc)), (''site_id'', PStr (sc_site sc)), (''actor_id'', PStr (sc_actor sc)),
     (''summary_record_id'', PStr (pk_summary (mt_candidate m))), (''thread_id'', PStr (pk_thread (mt_candidate m))),
     (''similarity'', PFloat (Fin (pk_similarity (mt_candidate m)))), (''created_utc'', PStr (utc_str (pk_created (mt_candidate m)))),
     (''recency_band'', PStr (if mt_stale m then ''stale'' else ''current'')), (''rank'', PInt (int (mt_rank m)))]"

definition score_record :: "(int \<Rightarrow> string) \<Rightarrow> int \<Rightarrow> score \<Rightarrow> pydict" where
  "score_record utc_str now sc = [(''record_id'', PStr (sc_id sc)), (''organization_id'', PStr (sc_org sc)), (''site_id'', PStr (sc_site sc)),
     (''actor_id'', PStr (sc_actor sc)), (''policy_version'', PInt (sc_version sc)), (''risk_class'', PStr (sc_risk sc)),
     (''similarity_score'', PFloat (Fin (sc_similarity sc))), (''recency_penalty'', PFloat (Fin (sc_recency_penalty sc))),
     (''missing_precedent_penalty'', PFloat (Fin (sc_missing_penalty sc))), (''final_score'', PFloat (Fin (sc_final sc))),
     (''tier'', PStr (tier_str (sc_tier sc))), (''rationale_codes'', PList (map (\<lambda>r. PStr (rationale_str r)) (sc_rationale sc))),
     (''precedent_matches'', PList (map (match_record utc_str sc) (sc_matches sc))), (''created_utc'', PStr (utc_str now))]"

section \<open>The endpoints\<close>

record pending_conf =
  pf_score :: score
  pf_session :: string
  pf_expires :: rat

record precedent_state =
  ds_pending :: "(string, pending_conf) dict"
  ds_consumed :: "(string, rat) dict"
  ds_log :: "(string \<times> pydict) list"

definition ttl :: rat where "ttl = 300"

definition prune_expired_confirmations :: "rat \<Rightarrow> precedent_state \<Rightarrow> precedent_state" where
  "prune_expired_confirmations now s = s\<lparr>ds_pending := filter (\<lambda>(_, p). \<not> pf_expires p \<le> now) (ds_pending s),
     ds_consumed := filter (\<lambda>(_, e). \<not> e \<le> now) (ds_consumed s)\<rparr>"

text \<open>What a request finds outside: the clocks, fresh ids (two for an escalation), the opaque session id of an
  escalation, printing of instants, and whether the ledger takes a record.\<close>

record request_env =
  qe_mono :: rat
  qe_utc :: int
  qe_fresh :: "nat \<Rightarrow> string"
  qe_uuid5 :: "string \<Rightarrow> string"
  qe_utc_str :: "int \<Rightarrow> string"
  qe_log_ok :: bool

definition escalation_target :: string where "escalation_target = ''business-ops:owner-manager''"

definition escalation_session_id :: "request_env \<Rightarrow> string option \<Rightarrow> string \<Rightarrow> string" where
  "escalation_session_id q session_id record_id =
     qe_uuid5 q (''decision-precedent:'' @ (case session_id of Some (c # cs) \<Rightarrow> c # cs | _ \<Rightarrow> record_id))"

definition build_escalation_record :: "request_env \<Rightarrow> string option \<Rightarrow> score \<Rightarrow> pydict" where
  "build_escalation_record q session_id sc =
     (let now = PStr (qe_utc_str q (qe_utc q));
          packet = [(''packet_id'', PStr (qe_fresh q 2)), (''organization_id'', PStr (sc_org sc)), (''site_id'', PStr (sc_site sc)),
            (''actor_id'', PStr (sc_actor sc)), (''confidence_record_id'', PStr (sc_id sc)), (''policy_version'', PInt (sc_version sc)),
            (''risk_class'', PStr (sc_risk sc)), (''tier'', PStr ''mandatory_escalation''), (''target_role'', PStr escalation_target),
            (''status'', PStr ''pending''),
            (''precedent_summary_record_ids'', PList (map (\<lambda>m. PStr (pk_summary (mt_candidate m))) (sc_matches sc))), (''created_utc'', now)]
      in [(''record_type'', PStr ''EscalationRecord''), (''record_id'', PStr (qe_fresh q 3)), (''prev_record_hash'', PStr ''genesis''),
          (''timestamp_utc'', now), (''session_id'', PStr (escalation_session_id q session_id (sc_id sc))),
          (''escalating_actor_id'', PStr (sc_actor sc)), (''target_meta_authority_id'', PStr escalation_target),
          (''organization_id'', PStr (sc_org sc)), (''site_id'', PStr (sc_site sc)),
          (''trigger'', PStr ''Decision precedent policy requires human approval.''), (''trigger_type'', PStr ''other''),
          (''evidence_summary'', PDict [(''decision_confidence_score'', PDict (score_record (qe_utc_str q) (qe_utc q) sc)),
             (''business_escalation_packet'', PDict packet)]),
          (''status'', PStr ''pending''), (''proposed_action'', PStr ''Human approval is required before any business action.'')])"

definition append_log :: "request_env \<Rightarrow> string \<Rightarrow> pydict \<Rightarrow> precedent_state \<Rightarrow> precedent_state option" where
  "append_log q session rec s = (if qe_log_ok q then Some (s\<lparr>ds_log := ds_log s @ [(session, rec)]\<rparr>) else None)"

text \<open>The answer of a preflight: the score, and the id of the escalation if there is one. The context is the one of the
  caller's token; \<open>doc\<close> is the parsed policy file.\<close>

definition preflight ::
  "request_env \<Rightarrow> 'v retrieval_env \<Rightarrow> (string \<Rightarrow> int option) \<Rightarrow> pydict \<Rightarrow> op_context \<Rightarrow> string \<Rightarrow> string \<Rightarrow> string \<Rightarrow> string option \<Rightarrow>
     'v vstore \<Rightarrow> precedent_state \<Rightarrow> (score \<times> string option) http \<times> precedent_state" where
  "preflight q v parse doc ctx sub message risk_class session_id store s =
     (case value_error_as 422 (res_bind (resolve_decision_precedent_policy doc (oc_org ctx) (oc_site ctx)) (\<lambda>policy.
             res_bind (evaluate_decision_precedent v parse message policy sub risk_class (qe_utc q) (qe_fresh q 0) store) (\<lambda>(sc, _). Inr sc))) of
       Inl e \<Rightarrow> (Inl e, s)
     | Inr sc \<Rightarrow>
         let ledger_id = (case session_id of Some (c # cs) \<Rightarrow> c # cs | _ \<Rightarrow> ''decision-precedent'');
             event = build_trace_event (qe_fresh q 1) (qe_utc_str q (qe_utc q)) ledger_id sub ''other'' ''decision_precedent_evaluated''
               (Some [(''decision_confidence_score'', PDict (score_record (qe_utc_str q) (qe_utc q) sc))]) ''genesis''
         in case append_log q ledger_id event s of
              None \<Rightarrow> (Inl (Crash RuntimeError), s)
            | Some s1 \<Rightarrow>
                (case sc_tier sc of
                   Mandatory_Escalation \<Rightarrow>
                     (let escalation = build_escalation_record q session_id sc
                      in case append_log q ledger_id escalation s1 of
                           None \<Rightarrow> (Inl (Crash RuntimeError), s1)
                         | Some s2 \<Rightarrow> (Inr (sc, Some (qe_fresh q 3)), s2))
                 | Require_Confirmation \<Rightarrow>
                     (let s2 = prune_expired_confirmations (qe_mono q) s1
                      in (Inr (sc, None), s2\<lparr>ds_pending := dput (sc_id sc)
                           \<lparr>pf_score = sc, pf_session = ledger_id, pf_expires = qe_mono q + ttl\<rparr> (ds_pending s2)\<rparr>))
                 | Suggest_Only \<Rightarrow> (Inr (sc, None), s1)))"

text \<open>A confirmation up to its first await, which lets other requests run: the checks. The check of expiry after the
  pruning reads a later clock, \<open>later\<close>.\<close>

definition confirm_check ::
  "request_env \<Rightarrow> rat \<Rightarrow> op_context \<Rightarrow> string \<Rightarrow> string \<Rightarrow> precedent_state \<Rightarrow> pending_conf http \<times> precedent_state" where
  "confirm_check q later ctx sub record_id s0 =
     (let s = prune_expired_confirmations (qe_mono q) s0 in
      if dhas (ds_consumed s) record_id then (Inl (Http 409), s)
      else case dget (ds_pending s) record_id of
        None \<Rightarrow> (Inl (Http 404), s)
      | Some p \<Rightarrow>
          if pf_expires p \<le> later then (Inl (Http 410), s\<lparr>ds_pending := ddel record_id (ds_pending s)\<rparr>)
          else if sc_actor (pf_score p) \<noteq> sub then (Inl (Http 403), s)
          else if sc_org (pf_score p) \<noteq> oc_org ctx \<or> sc_site (pf_score p) \<noteq> oc_site ctx then (Inl (Http 403), s)
          else (Inr p, s))"

definition confirmed_event :: "request_env \<Rightarrow> string \<Rightarrow> pending_conf \<Rightarrow> pydict" where
  "confirmed_event q sub p =
     build_trace_event (qe_fresh q 1) (qe_utc_str q (qe_utc q)) (pf_session p) sub ''other'' ''decision_precedent_confirmed''
       (Some [(''confirmation_id'', PStr (qe_fresh q 0)), (''confidence_record_id'', PStr (sc_id (pf_score p))),
          (''tier'', PStr (tier_str (sc_tier (pf_score p))))]) ''genesis''"

text \<open>What follows the await.\<close>

definition confirm_commit :: "rat \<Rightarrow> string \<Rightarrow> precedent_state \<Rightarrow> unit http \<times> precedent_state" where
  "confirm_commit later record_id s =
     (if \<not> dhas (ds_pending s) record_id then (Inl (Crash KeyError), s)
      else (Inr (), s\<lparr>ds_pending := ddel record_id (ds_pending s), ds_consumed := dput record_id (later + ttl) (ds_consumed s)\<rparr>))"

text \<open>A confirmation that no other request overlaps.\<close>

definition confirm ::
  "request_env \<Rightarrow> rat \<Rightarrow> op_context \<Rightarrow> string \<Rightarrow> string \<Rightarrow> precedent_state \<Rightarrow> score http \<times> precedent_state" where
  "confirm q later ctx sub record_id s0 =
     (case confirm_check q later ctx sub record_id s0 of
        (Inl e, s) \<Rightarrow> (Inl e, s)
      | (Inr p, s) \<Rightarrow>
          (case append_log q (pf_session p) (confirmed_event q sub p) s of
             None \<Rightarrow> (Inl (Crash RuntimeError), s)
           | Some s1 \<Rightarrow>
               (case confirm_commit later record_id s1 of (Inl e, s2) \<Rightarrow> (Inl e, s2) | (Inr _, s2) \<Rightarrow> (Inr (pf_score p), s2))))"

section \<open>Facts on the evidence\<close>

text \<open>A candidate comes from a result, and the dictionary of the best ones is keyed by their summaries.\<close>

definition keyed :: "(string, candidate) dict \<Rightarrow> bool" where
  "keyed d \<longleftrightarrow> dict_ok d \<and> (\<forall>(k, p) \<in> set d. pk_summary p = k)"

lemma set_dput_cases: "x \<in> set (dput k v d) \<Longrightarrow> x = (k, v) \<or> x \<in> set d"
  by (induction d rule: dput.induct) (auto split: if_split_asm)

lemma keep_best_keyed:
  "keyed d \<Longrightarrow> keyed (keep_best p d) \<and> snd ` set (keep_best p d) \<subseteq> insert p (snd ` set d)"
  by (auto simp: keyed_def keep_best_def split: option.splits dest!: set_dput_cases)

lemma candidates_keyed:
  "keyed d \<Longrightarrow> keyed (fold (\<lambda>r d. case candidate_of parse r of None \<Rightarrow> d | Some p \<Rightarrow> keep_best p d) results d)
     \<and> (\<forall>p \<in> snd ` set (fold (\<lambda>r d. case candidate_of parse r of None \<Rightarrow> d | Some p \<Rightarrow> keep_best p d) results d).
          p \<in> snd ` set d \<or> (\<exists>r \<in> set results. candidate_of parse r = Some p))"
proof (induction results arbitrary: d)
  case (Cons r rs)
  define d' where "d' = (case candidate_of parse r of None \<Rightarrow> d | Some p \<Rightarrow> keep_best p d)"
  have d': "keyed d'" "\<And>p. p \<in> snd ` set d' \<Longrightarrow> p \<in> snd ` set d \<or> candidate_of parse r = Some p"
  proof -
    note k = keep_best_keyed [OF Cons.prems]
    show "keyed d'" using Cons.prems k by (simp add: d'_def split: option.split)
    show "p \<in> snd ` set d' \<Longrightarrow> p \<in> snd ` set d \<or> candidate_of parse r = Some p" for p
    proof (cases "candidate_of parse r")
      case (Some x)
      assume "p \<in> snd ` set d'"
      then show ?thesis using k [of x] by (auto simp: d'_def Some)
    qed (simp add: d'_def)
  qed
  let ?f = "\<lambda>r d. case candidate_of parse r of None \<Rightarrow> d | Some p \<Rightarrow> keep_best p d"
  have step: "fold ?f (r # rs) d = fold ?f rs d'" by (simp only: fold_Cons comp_apply d'_def)
  from Cons.IH [OF d'(1)] d'(2) show ?case unfolding step set_simps by blast
qed simp

lemma precedent_candidates_mem:
  assumes "p \<in> set (precedent_candidates parse results)"
  shows "\<exists>r \<in> set results. candidate_of parse r = Some p"
  using candidates_keyed [of "[]" parse results] assms by (auto simp: precedent_candidates_def keyed_def)

lemma precedent_candidates_distinct: "distinct (map pk_summary (precedent_candidates parse results))"
proof -
  let ?d = "fold (\<lambda>r d. case candidate_of parse r of None \<Rightarrow> d | Some p \<Rightarrow> keep_best p d) results []"
  have k: "keyed ?d" using candidates_keyed [of "[]" parse results] by (simp add: keyed_def)
  then have e: "map pk_summary (map snd ?d) = map fst ?d" unfolding keyed_def by (auto simp: case_prod_beta)
  show ?thesis unfolding precedent_candidates_def e using k by (simp add: keyed_def dict_ok_def dkeys_def)
qed

lemma candidate_of_scope:
  assumes "candidate_of parse (c, x) = Some p"
  shows "ck_record_type c = PStr ''ThreadSummaryRecord'' \<and> ck_record_id c = PStr (pk_summary p) \<and> ck_thread c = PStr (pk_thread p)
    \<and> parse_created_utc parse (ck_created c) = Some (pk_created p) \<and> 0 \<le> pk_similarity p \<and> pk_similarity p \<le> 1"
proof -
  have id: "v = PStr r" if "ident v = Some r" for v r
    using that by (auto simp: ident_def split: pyval.splits list.splits)
  have sim: "0 \<le> confidence_from_cosine x \<and> confidence_from_cosine x \<le> 1"
    by (auto simp: confidence_from_cosine_def split: pyfloat.split bool.split)
  from assms show ?thesis by (auto simp: candidate_of_def sim id split: if_split_asm option.splits)
qed

lemma ordered_matches_mem:
  assumes "ordered_matches candidates policy evaluated = Inr ms"
  shows "set (map mt_candidate ms) \<subseteq> set candidates" "length ms \<le> nat (dp_limit policy)"
    "sorted (map (\<lambda>m. - pk_similarity (mt_candidate m)) ms)" "map mt_rank ms = [1..<Suc (length ms)]"
    "distinct (map pk_summary candidates) \<Longrightarrow> distinct (map (\<lambda>m. pk_summary (mt_candidate m)) ms)"
proof -
  define xs where "xs = take (nat (dp_limit policy)) (sort_key (\<lambda>p. (- pk_similarity p, pk_summary p)) candidates)"
  from assms have ms: "ms = map (\<lambda>(r, p). \<lparr>mt_candidate = p, mt_stale = (pk_created p < evaluated - dp_stale_days policy * day), mt_rank = r\<rparr>) (enumerate 1 xs)"
    by (auto simp: ordered_matches_def Let_def xs_def split: if_split_asm)
  have c: "map mt_candidate ms = xs" by (simp add: ms case_prod_beta o_def map_snd_enumerate [of 1 xs, unfolded snd_def])
  show "set (map mt_candidate ms) \<subseteq> set candidates" unfolding c xs_def using set_take_subset [of "nat (dp_limit policy)"] by fastforce
  show "length ms \<le> nat (dp_limit policy)" by (simp add: ms xs_def)
  have "sorted (map (\<lambda>p. (- pk_similarity p, pk_summary p)) xs)"
    unfolding xs_def take_map [symmetric] by (rule sorted_wrt_take) (rule sorted_sort_key)
  then have "sorted (map (\<lambda>p. - pk_similarity p) xs)"
    unfolding sorted_wrt_map by (rule sorted_wrt_mono_rel [rotated]) (auto simp: less_eq_prod_def)
  then show "sorted (map (\<lambda>m. - pk_similarity (mt_candidate m)) ms)" using c by (metis (no_types, lifting) list.map_comp comp_def map_eq_conv)
  show "map mt_rank ms = [1..<Suc (length ms)]" by (simp add: ms case_prod_beta o_def enumerate_eq_zip del: upt_Suc)
  assume "distinct (map pk_summary candidates)"
  moreover define ys where "ys = sort_key (\<lambda>p. (- pk_similarity p, pk_summary p)) candidates"
  moreover have "set ys = set candidates" "distinct ys = distinct candidates" by (simp_all add: ys_def)
  ultimately have "distinct (map pk_summary ys)" by (simp only: distinct_map)
  then have "distinct (map pk_summary xs)" unfolding xs_def ys_def [symmetric] take_map [symmetric] by (rule distinct_take)
  then show "distinct (map (\<lambda>m. pk_summary (mt_candidate m)) ms)" by (simp add: c [symmetric] o_def)
qed

text \<open>The first match is the best of all candidates, and staleness is measured from the cutoff date.\<close>

lemma ordered_matches_best:
  assumes "ordered_matches candidates policy evaluated = Inr ms"
  shows "ms \<noteq> [] \<Longrightarrow> p \<in> set candidates \<Longrightarrow> pk_similarity p \<le> pk_similarity (mt_candidate (hd ms))"
    "m \<in> set ms \<Longrightarrow> mt_stale m \<longleftrightarrow> pk_created (mt_candidate m) < evaluated - dp_stale_days policy * day"
    "ms = [] \<longleftrightarrow> candidates = [] \<or> dp_limit policy \<le> 0"
proof -
  define ys where "ys = sort_key (\<lambda>p. (- pk_similarity p, pk_summary p)) candidates"
  define xs where "xs = take (nat (dp_limit policy)) ys"
  from assms have ms: "ms = map (\<lambda>(r, p). \<lparr>mt_candidate = p, mt_stale = (pk_created p < evaluated - dp_stale_days policy * day), mt_rank = r\<rparr>) (enumerate 1 xs)"
    by (auto simp: ordered_matches_def Let_def xs_def ys_def split: if_split_asm)
  show "m \<in> set ms \<Longrightarrow> mt_stale m \<longleftrightarrow> pk_created (mt_candidate m) < evaluated - dp_stale_days policy * day"
    by (auto simp: ms)
  have "ys = [] \<longleftrightarrow> candidates = []" unfolding ys_def by (metis length_0_conv length_sort)
  then show "ms = [] \<longleftrightarrow> candidates = [] \<or> dp_limit policy \<le> 0" by (cases ys) (auto simp: ms xs_def enumerate_eq_zip)
  assume ne: "ms \<noteq> []" and p: "p \<in> set candidates"
  then have "ys \<noteq> []" "0 < nat (dp_limit policy)" by (auto simp: ms xs_def enumerate_eq_zip)
  then obtain y zs where y: "ys = y # zs" "0 < nat (dp_limit policy)" by (cases ys) auto
  then have "mt_candidate (hd ms) = y" by (cases "nat (dp_limit policy)") (simp_all add: ms xs_def)
  moreover have "sorted (map (\<lambda>p. (- pk_similarity p, pk_summary p)) ys)" unfolding ys_def by (rule sorted_sort_key)
  moreover have "p \<in> set ys" using p by (simp add: ys_def)
  ultimately show "pk_similarity p \<le> pk_similarity (mt_candidate (hd ms))" by (auto simp: y(1) less_eq_prod_def)
qed

text \<open>What a score claims of its matches: similarity and penalties are those of the best match, the final score is what the
  penalties leave, and the tier is the one the thresholds give for it.\<close>

definition explained :: "decision_policy \<Rightarrow> score \<Rightarrow> bool" where
  "explained policy sc \<longleftrightarrow>
     (case sc_matches sc of
        [] \<Rightarrow> sc_similarity sc = 0 \<and> sc_recency_penalty sc = 0 \<and> sc_missing_penalty sc = dp_missing_penalty policy
      | m # _ \<Rightarrow> sc_similarity sc = pk_similarity (mt_candidate m)
          \<and> sc_recency_penalty sc = (if mt_stale m then dp_stale_penalty policy else 0) \<and> sc_missing_penalty sc = 0)
     \<and> sc_final sc = round6 (max 0 (sc_similarity sc - sc_recency_penalty sc - sc_missing_penalty sc))
     \<and> (sc_tier sc = Suggest_Only \<longleftrightarrow> sc_matches sc \<noteq> [] \<and> sc_risk sc \<notin> set (dp_high_risk policy)
          \<and> sc_risk sc \<notin> set (dp_confirm_risk policy) \<and> dp_suggest policy \<le> sc_final sc)
     \<and> (sc_tier sc = Require_Confirmation \<longleftrightarrow> sc_matches sc \<noteq> [] \<and> sc_risk sc \<notin> set (dp_high_risk policy)
          \<and> dp_confirm policy \<le> sc_final sc \<and> (sc_risk sc \<in> set (dp_confirm_risk policy) \<or> sc_final sc < dp_suggest policy))"

lemma score_explained:
  assumes "score_decision_precedent candidates policy actor_id risk_class evaluated record_id = Inr sc"
  shows "ordered_matches candidates policy evaluated = Inr (sc_matches sc)" "explained policy sc"
proof -
  from assms obtain ms where ms: "ordered_matches candidates policy evaluated = Inr ms" "sc_matches sc = ms"
    and v: "sc_similarity sc = (case ms of [] \<Rightarrow> 0 | m # _ \<Rightarrow> pk_similarity (mt_candidate m))"
      "sc_recency_penalty sc = (case ms of [] \<Rightarrow> 0 | m # _ \<Rightarrow> if mt_stale m then dp_stale_penalty policy else 0)"
      "sc_missing_penalty sc = (if ms = [] then dp_missing_penalty policy else 0)"
      "sc_final sc = round6 (max 0 (sc_similarity sc - sc_recency_penalty sc - sc_missing_penalty sc))"
    and t: "sc_tier sc = fst (decide_tier policy (sc_risk sc) (case ms of [] \<Rightarrow> None | m # _ \<Rightarrow> Some m) (sc_final sc))"
    by (auto simp: score_decision_precedent_def Let_def split: prod.splits list.splits elim!: res_bind_InrE)
  then show "ordered_matches candidates policy evaluated = Inr (sc_matches sc)" by simp
  show "explained policy sc"
    unfolding explained_def ms(2)
    using v t by (cases ms) (auto simp: decide_tier_def not_le split: if_splits)
qed

section \<open>Facts on confirmations\<close>

definition precedent_init :: "precedent_state \<Rightarrow> bool" where
  "precedent_init s \<longleftrightarrow> ds_pending s = [] \<and> ds_consumed s = [] \<and> ds_log s = []"

text \<open>The three kinds of requests: a preflight that asks for confirmation, a confirmation that succeeds, anything else.
  Vectors are lists of floats.\<close>

inductive precedent_issue :: "precedent_state \<Rightarrow> string \<Rightarrow> precedent_state \<Rightarrow> bool" where
  "preflight q (v :: pyfloat list retrieval_env) parse doc ctx sub message risk session store s = (Inr (sc, esc), s') \<Longrightarrow> sc_tier sc = Require_Confirmation \<Longrightarrow>
     precedent_issue s (sc_id sc) s'"

inductive precedent_settle :: "precedent_state \<Rightarrow> string \<Rightarrow> precedent_state \<Rightarrow> bool" where
  "confirm q later ctx sub i s = (Inr sc, s') \<Longrightarrow> precedent_settle s i s'"

inductive precedent_other :: "precedent_state \<Rightarrow> precedent_state \<Rightarrow> bool" where
  decided: "preflight q (v :: pyfloat list retrieval_env) parse doc ctx sub message risk session store s = (Inr (sc, esc), s') \<Longrightarrow> sc_tier sc \<noteq> Require_Confirmation \<Longrightarrow>
     precedent_other s s'"
| refused: "preflight q (v :: pyfloat list retrieval_env) parse doc ctx sub message risk session store s = (Inl e, s') \<Longrightarrow> precedent_other s s'"
| unconfirmed: "confirm q later ctx sub i s = (Inl e, s') \<Longrightarrow> precedent_other s s'"

lemma prune_pending:
  "set (ds_pending (prune_expired_confirmations now s)) \<subseteq> set (ds_pending s)"
  "set (dkeys (ds_pending (prune_expired_confirmations now s))) \<subseteq> set (dkeys (ds_pending s))"
  by (auto simp: prune_expired_confirmations_def dkeys_def)

lemma append_log_Some: "append_log q i r s = Some s' \<Longrightarrow> s' = s\<lparr>ds_log := ds_log s @ [(i, r)]\<rparr>"
  by (simp add: append_log_def split: if_split_asm)

text \<open>What a preflight does with the pending decisions.\<close>

lemma preflight_pending:
  assumes "preflight q v parse doc ctx sub message risk session store s = (r, s')"
  shows "(\<exists>sc esc p (s2 :: precedent_state). r = Inr (sc, esc) \<and> sc_tier sc = Require_Confirmation \<and> pf_score p = sc \<and> set (ds_pending s2) \<subseteq> set (ds_pending s)
      \<and> ds_pending s' = dput (sc_id sc) p (ds_pending s2))
    \<or> (ds_pending s' = ds_pending s \<and> (\<forall>sc esc. r = Inr (sc, esc) \<longrightarrow> sc_tier sc \<noteq> Require_Confirmation))"
proof -
  define sr where "sr = value_error_as 422 (res_bind (resolve_decision_precedent_policy doc (oc_org ctx) (oc_site ctx)) (\<lambda>policy.
             res_bind (evaluate_decision_precedent v parse message policy sub risk (qe_utc q) (qe_fresh q 0) store) (\<lambda>(sc, _). Inr sc)))"
  show ?thesis
  proof (cases sr)
    case (Inl e)
    then have "r = Inl e" "s' = s" using assms by (simp_all add: preflight_def sr_def [symmetric])
    then show ?thesis by simp
  next
    case (Inr sc)
    show ?thesis
    proof (cases "sc_tier sc")
      case Require_Confirmation
      define lid where "lid = (case session of Some (c # cs) \<Rightarrow> c # cs | _ \<Rightarrow> ''decision-precedent'')"
      define event where "event = build_trace_event (qe_fresh q 1) (qe_utc_str q (qe_utc q)) lid sub ''other'' ''decision_precedent_evaluated''
               (Some [(''decision_confidence_score'', PDict (score_record (qe_utc_str q) (qe_utc q) sc))]) ''genesis''"
      note d = assms [unfolded preflight_def sr_def [symmetric] Inr sum.case Let_def lid_def [symmetric] event_def [symmetric]]
      show ?thesis
      proof (cases "append_log q lid event s")
        case None
        then have "r = Inl (Crash RuntimeError)" "s' = s" using d by simp_all
        then show ?thesis by simp
      next
        case (Some s1)
        then have s1: "ds_pending s1 = ds_pending s" by (auto dest: append_log_Some)
        define s2 where "s2 = prune_expired_confirmations (qe_mono q) s1"
        have "r = Inr (sc, None)" "ds_pending s' = dput (sc_id sc) \<lparr>pf_score = sc, pf_session = lid, pf_expires = qe_mono q + ttl\<rparr> (ds_pending s2)"
          using d Some Require_Confirmation by (auto simp: s2_def [symmetric])
        moreover have "set (ds_pending s2) \<subseteq> set (ds_pending s)" using prune_pending(1) [of "qe_mono q" s1] by (simp add: s2_def s1)
        ultimately show ?thesis using Require_Confirmation
          by (intro disjI1 exI [of _ sc] exI [of _ None] exI [of _ "\<lparr>pf_score = sc, pf_session = lid, pf_expires = qe_mono q + ttl\<rparr>"] exI [of _ s2]) simp
      qed
    qed (use assms Inr in \<open>auto simp: preflight_def sr_def [symmetric] Let_def dest!: append_log_Some split: option.splits\<close>)
  qed
qed

lemma confirm_check_Inr:
  assumes "confirm_check q later ctx sub i s = (Inr p, s')"
  shows "s' = prune_expired_confirmations (qe_mono q) s" "dget (ds_pending s') i = Some p" "\<not> dhas (ds_consumed s') i" "\<not> pf_expires p \<le> later"
    "sc_actor (pf_score p) = sub" "sc_org (pf_score p) = oc_org ctx" "sc_site (pf_score p) = oc_site ctx"
  using assms by (auto simp: confirm_check_def Let_def split: if_split_asm option.splits)

lemma confirm_check_Inl:
  "confirm_check q later ctx sub i s = (Inl e, s') \<Longrightarrow> set (ds_pending s') \<subseteq> set (ds_pending s)"
  using prune_pending(1) [of "qe_mono q" s] by (auto simp: confirm_check_def Let_def ddel_def split: if_split_asm option.splits)

lemma dhas_dget: "dget d k = Some v \<Longrightarrow> dhas d k"
  by (force simp: dhas_def dkeys_def dest: map_of_SomeD)

lemma ddel_in: "x \<in> set (ddel k d) \<Longrightarrow> x \<in> set d"
  by (simp add: ddel_def)

lemma append_log_pending: "append_log q i r s = Some s' \<Longrightarrow> ds_pending s' = ds_pending s"
  by (auto dest: append_log_Some)

lemma confirm_cases:
  assumes "confirm q later ctx sub i s = (r, s')"
  obtains (check) e where "confirm_check q later ctx sub i s = (Inl e, s')" "r = Inl e"
  | (log) p where "confirm_check q later ctx sub i s = (Inr p, s')" "r = Inl (Crash RuntimeError)"
  | (ok) p u u1 where "confirm_check q later ctx sub i s = (Inr p, u)" "append_log q (pf_session p) (confirmed_event q sub p) u = Some u1"
      "confirm_commit later i u1 = (Inr (), s')" "r = Inr (pf_score p)"
proof -
  obtain c u where c: "confirm_check q later ctx sub i s = (c, u)" by fastforce
  show ?thesis
  proof (cases c)
    case (Inl e)
    then show ?thesis using assms c check by (simp add: confirm_def)
  next
    case (Inr p)
    show ?thesis
    proof (cases "append_log q (pf_session p) (confirmed_event q sub p) u")
      case None
      then show ?thesis using assms c Inr log by (simp add: confirm_def)
    next
      case (Some u1)
      have "dhas (ds_pending u1) i"
        using dhas_dget [OF confirm_check_Inr(2) [OF c [unfolded Inr]]] by (simp add: append_log_pending [OF Some])
      then have "confirm_commit later i u1 = (Inr (), snd (confirm_commit later i u1))" by (simp add: confirm_commit_def)
      moreover from this have "r = Inr (pf_score p)" "s' = snd (confirm_commit later i u1)" using assms c Inr Some by (simp_all add: confirm_def split: prod.splits)
      ultimately show ?thesis using ok c Inr Some by simp
    qed
  qed
qed

lemma confirm_pending:
  assumes "confirm q later ctx sub i s = (r, s')"
  shows "set (ds_pending s') \<subseteq> set (ds_pending s)"
    and "r = Inr sc \<Longrightarrow> \<exists>p. (i, p) \<in> set (ds_pending s) \<and> pf_score p = sc \<and> sc_actor sc = sub \<and> sc_org sc = oc_org ctx \<and> sc_site sc = oc_site ctx
        \<and> \<not> pf_expires p \<le> later \<and> \<not> dhas (ds_pending s') i \<and> dhas (ds_consumed s') i"
  using assms
proof (atomize (full), cases rule: confirm_cases)
  case (ok p u u1)
  note c = confirm_check_Inr [OF ok(1)]
  have "set (ds_pending u) \<subseteq> set (ds_pending s)" unfolding c(1) by (rule prune_pending(1))
  then show "set (ds_pending s') \<subseteq> set (ds_pending s) \<and> (r = Inr sc \<longrightarrow> (\<exists>p. (i, p) \<in> set (ds_pending s) \<and> pf_score p = sc \<and> sc_actor sc = sub
        \<and> sc_org sc = oc_org ctx \<and> sc_site sc = oc_site ctx \<and> \<not> pf_expires p \<le> later \<and> \<not> dhas (ds_pending s') i \<and> dhas (ds_consumed s') i))"
    using c(4-) map_of_SomeD [OF c(2)] ok(3,4) append_log_pending [OF ok(2)]
    by (auto simp: confirm_commit_def dhas_def split: if_split_asm dest!: ddel_in)
qed (use prune_pending(1) [of "qe_mono q" s] in \<open>auto dest: confirm_check_Inl confirm_check_Inr(1)\<close>)

lemma keys_mono: "set a \<subseteq> set b \<Longrightarrow> set (dkeys a) \<subseteq> set (dkeys b)"
  by (auto simp: dkeys_def)

interpretation precedent: one_shot "\<lambda>s. set (dkeys (ds_pending s))" precedent_init precedent_issue precedent_settle precedent_other
proof
  fix s :: precedent_state
  show "precedent_init s \<Longrightarrow> set (dkeys (ds_pending s)) = {}" by (simp add: precedent_init_def)
next
  fix s i s' assume "precedent_issue s i s'"
  then show "set (dkeys (ds_pending s')) \<subseteq> insert i (set (dkeys (ds_pending s)))"
  proof cases
    case (1 q v parse doc ctx sub message risk session store sc esc)
    from preflight_pending [OF 1(2)] 1(3) obtain p and s2 :: precedent_state where "set (ds_pending s2) \<subseteq> set (ds_pending s)" "ds_pending s' = dput (sc_id sc) p (ds_pending s2)"
      by auto
    then show ?thesis using keys_mono [of "ds_pending s2" "ds_pending s"] by (auto simp: 1(1))
  qed
next
  fix s i s' assume "precedent_settle s i s'"
  then obtain q later ctx sub sc where c: "confirm q later ctx sub i s = (Inr sc, s')" by cases
  have "i \<in> set (dkeys (ds_pending s))" "i \<notin> set (dkeys (ds_pending s'))"
    using confirm_pending(2) [OF c refl] by (force simp: dhas_def dkeys_def)+
  with confirm_pending(1) [OF c] show "i \<in> set (dkeys (ds_pending s)) \<and> set (dkeys (ds_pending s')) \<subseteq> set (dkeys (ds_pending s)) - {i}"
    using keys_mono by blast
next
  fix s s' assume "precedent_other s s'"
  then show "set (dkeys (ds_pending s')) \<subseteq> set (dkeys (ds_pending s))"
    by cases (auto dest!: preflight_pending confirm_pending(1) keys_mono)
qed

text \<open>What waits for confirmation is a decision that needs one, under its own id.\<close>

abbreviation precedent_run :: "precedent_state \<Rightarrow> string list \<Rightarrow> string list \<Rightarrow> bool" where
  "precedent_run \<equiv> one_shot_run precedent_init precedent_issue precedent_settle precedent_other"

definition pending_ok :: "precedent_state \<Rightarrow> bool" where
  "pending_ok s \<longleftrightarrow> (\<forall>(i, p) \<in> set (ds_pending s). sc_tier (pf_score p) = Require_Confirmation \<and> sc_id (pf_score p) = i)"

lemma preflight_pending_ok:
  "preflight q v parse doc ctx sub message risk session store s = (r, s') \<Longrightarrow> pending_ok s \<Longrightarrow> pending_ok s'"
proof (drule preflight_pending, elim disjE exE conjE)
  fix sc esc p s2
  assume ok: "pending_ok s" and p: "sc_tier sc = Require_Confirmation" "pf_score p = sc" "set (ds_pending s2) \<subseteq> set (ds_pending s)"
    "ds_pending s' = dput (sc_id sc) p (ds_pending s2)"
  have "(i, w) = (sc_id sc, p) \<or> (i, w) \<in> set (ds_pending s)" if "(i, w) \<in> set (ds_pending s')" for i w
    using set_dput_cases [OF that [unfolded p(4)]] p(3) by blast
  then show "pending_ok s'" using ok p(1,2) unfolding pending_ok_def by fast
qed (simp add: pending_ok_def)

lemma confirm_pending_ok: "confirm q later ctx sub i s = (r, s') \<Longrightarrow> pending_ok s \<Longrightarrow> pending_ok s'"
  using confirm_pending(1) unfolding pending_ok_def by blast

lemma precedent_run_pending_ok: "precedent_run s is ss \<Longrightarrow> pending_ok s"
proof (induction rule: one_shot_run.induct)
  case (started s)
  then show ?case by (simp add: precedent_init_def pending_ok_def)
next
  case (issued s xs ss i s')
  from issued.hyps(3) show ?case by cases (rule preflight_pending_ok [OF _ issued.IH])
next
  case (settled s xs ss i s')
  from settled.hyps(2) show ?case by cases (rule confirm_pending_ok [OF _ settled.IH])
next
  case (otherwise s xs ss s')
  from otherwise.hyps(2) show ?case by cases (blast intro: preflight_pending_ok confirm_pending_ok otherwise.IH)+
qed

section \<open>Properties\<close>

text \<open>C8: the evidence of a score is in scope and explains it: every match is a timestamped thread summary of the policy's
  organization and site that the store holds, no two are the same summary, and they are ranked by descending similarity
  within the limit. The similarity of the score is that of the first match, which no candidate the search found exceeds; the
  penalty is for that match being older than the cutoff, or for the lack of a match; the final score is what the penalties
  leave; and the tier is decided by the risk class and by where the final score lies between the thresholds.\<close>

theorem precedent_evidence_in_scope:
  assumes "evaluate_decision_precedent v parse query policy actor_id risk_class evaluated record_id s = Inr (sc, s')" "ranking (re_top v)"
  shows "(\<forall>m \<in> set (sc_matches sc). \<exists>c \<in> set (vs_chunks s'). ck_org c = PStr (dp_org policy) \<and> ck_site c = PStr (dp_site policy)
        \<and> ck_record_type c = PStr ''ThreadSummaryRecord'' \<and> ck_record_id c = PStr (pk_summary (mt_candidate m))
        \<and> parse_created_utc parse (ck_created c) = Some (pk_created (mt_candidate m))
        \<and> (mt_stale m \<longleftrightarrow> pk_created (mt_candidate m) < evaluated - dp_stale_days policy * day))
    \<and> distinct (map (\<lambda>m. pk_summary (mt_candidate m)) (sc_matches sc)) \<and> length (sc_matches sc) \<le> nat (dp_limit policy)
    \<and> sorted (map (\<lambda>m. - pk_similarity (mt_candidate m)) (sc_matches sc))
    \<and> (\<exists>results. search v query (policy_filter (dp_org policy) (dp_site policy)) (dp_limit policy) s = Inr (results, s')
        \<and> (\<forall>p \<in> set (precedent_candidates parse results). 0 < dp_limit policy \<longrightarrow> pk_similarity p \<le> sc_similarity sc))
    \<and> explained policy sc"
proof -
  from assms(1) obtain results where r: "search v query (policy_filter (dp_org policy) (dp_site policy)) (dp_limit policy) s = Inr (results, s')"
    and sc: "score_decision_precedent (precedent_candidates parse results) policy actor_id risk_class evaluated record_id = Inr sc"
    by (auto simp: evaluate_decision_precedent_def split: if_split_asm elim!: res_bind_InrE)
  note ms = score_explained [OF sc]
  note o = ordered_matches_mem [OF ms(1)] and best = ordered_matches_best [OF ms(1)]
  have "\<exists>c \<in> set (vs_chunks s'). ck_org c = PStr (dp_org policy) \<and> ck_site c = PStr (dp_site policy)
        \<and> ck_record_type c = PStr ''ThreadSummaryRecord'' \<and> ck_record_id c = PStr (pk_summary (mt_candidate m))
        \<and> parse_created_utc parse (ck_created c) = Some (pk_created (mt_candidate m))
        \<and> (mt_stale m \<longleftrightarrow> pk_created (mt_candidate m) < evaluated - dp_stale_days policy * day)" if "m \<in> set (sc_matches sc)" for m
  proof -
    from that o(1) have "mt_candidate m \<in> set (precedent_candidates parse results)" by auto
    from precedent_candidates_mem [OF this] obtain c x where cx: "(c, x) \<in> set results" "candidate_of parse (c, x) = Some (mt_candidate m)"
      by auto
    from search_hit [OF r assms(2) cx(1)] candidate_of_scope [OF cx(2)] best(2) [OF that] show ?thesis
      by (intro bexI [of _ c]) (auto simp: policy_filter_def)
  qed
  moreover have "pk_similarity p \<le> sc_similarity sc" if "p \<in> set (precedent_candidates parse results)" "0 < dp_limit policy" for p
  proof -
    have "sc_matches sc \<noteq> []" using best(3) that by auto
    with best(1) [OF this that(1)] ms(2) show ?thesis by (auto simp: explained_def split: list.splits)
  qed
  ultimately show ?thesis using r o(2,3) o(5) [OF precedent_candidates_distinct] ms(2) by blast
qed

text \<open>C6: over every sequence of requests with fresh record ids that do not overlap, a decision is confirmed at most once,
  never if it was escalated or only suggested, and only by its own actor, in its own organization and site, before it
  expires.\<close>

theorem precedent_confirmed_once:
  assumes "precedent_run s issued confirmed" "confirm q later ctx sub i s = (Inr sc, s')"
  shows "i \<in> set issued \<and> i \<notin> set confirmed \<and> distinct (i # confirmed) \<and> sc_id sc = i \<and> sc_tier sc = Require_Confirmation
    \<and> sc_actor sc = sub \<and> sc_org sc = oc_org ctx \<and> sc_site sc = oc_site ctx
    \<and> (\<exists>p. (i, p) \<in> set (ds_pending s) \<and> later < pf_expires p) \<and> fst (confirm q' later' ctx' sub' i s') \<noteq> Inr sc'"
proof -
  from confirm_pending(2) [OF assms(2) refl] obtain p where p: "(i, p) \<in> set (ds_pending s)" "pf_score p = sc" "sc_actor sc = sub"
    "sc_org sc = oc_org ctx" "sc_site sc = oc_site ctx" "\<not> pf_expires p \<le> later" "\<not> dhas (ds_pending s') i" by blast
  have i: "i \<in> set (dkeys (ds_pending s))" using p(1) by (force simp: dkeys_def)
  have again: "fst (confirm q' later' ctx' sub' i s') \<noteq> Inr sc'"
  proof
    assume "fst (confirm q' later' ctx' sub' i s') = Inr sc'"
    then have "confirm q' later' ctx' sub' i s' = (Inr sc', snd (confirm q' later' ctx' sub' i s'))" by (simp add: prod_eq_iff)
    from confirm_pending(2) [OF this refl] p(7) show False by (force simp: dhas_def dkeys_def)
  qed
  have "sc_tier sc = Require_Confirmation" "sc_id sc = i"
    using precedent_run_pending_ok [OF assms(1)] p(1,2) by (auto simp: pending_ok_def)
  then show ?thesis using precedent.run_exclusive [OF assms(1)] i p again by (auto simp: not_le)
qed

text \<open>C36: two confirmations of a decision that overlap, the second checked while the first awaits the ledger, both enter the
  ledger; the first to resume succeeds and the other ends in a KeyError, after it was recorded.\<close>

theorem overlapping_confirmations:
  assumes "confirm_check q later ctx sub i s = (Inr p, s1)" "confirm_check q2 later2 ctx2 sub2 i s1 = (Inr p2, s2)"
    and "append_log q (pf_session p) (confirmed_event q sub p) s2 = Some s3" "append_log q2 (pf_session p2) (confirmed_event q2 sub2 p2) s3 = Some s4"
  shows "\<exists>s5. confirm_commit later i s4 = (Inr (), s5) \<and> confirm_commit later2 i s5 = (Inl (Crash KeyError), s5)
    \<and> ds_log s5 = ds_log s @ [(pf_session p, confirmed_event q sub p), (pf_session p2, confirmed_event q2 sub2 p2)]"
proof -
  have log: "ds_log s2 = ds_log s"
    by (simp add: confirm_check_Inr(1) [OF assms(1)] confirm_check_Inr(1) [OF assms(2)] prune_expired_confirmations_def)
  have "dhas (ds_pending s4) i"
    using dhas_dget [OF confirm_check_Inr(2) [OF assms(2)]] by (simp add: append_log_pending [OF assms(3)] append_log_pending [OF assms(4)])
  then show ?thesis using log append_log_Some [OF assms(3)] append_log_Some [OF assms(4)]
    by (auto simp: confirm_commit_def dhas_def)
qed

text \<open>One summary of the scope, found with a cosine of 0.9, under a policy that wants orders confirmed.\<close>

definition sample_precedent_doc :: pydict where
  "sample_precedent_doc = [(''schema_version'', PStr ''1.0.0''), (''policy_version'', PInt 1), (''defaults'', PDict [(''candidate_limit'', PInt 5),
     (''suggest_threshold'', PFloat (Fin (4/5))), (''confirmation_threshold'', PFloat (Fin (1/2))), (''stale_after_days'', PInt 30),
     (''stale_penalty'', PFloat (Fin (1/5))), (''missing_precedent_penalty'', PFloat (Fin (1/2))), (''high_risk_classes'', PList [PStr ''payroll'']),
     (''confirmation_risk_classes'', PList [PStr ''orders''])])]"

definition sample_memory :: "pyfloat list retrieval_env" where
  "sample_memory = \<lparr>re_render = (\<lambda>_. []), re_digest = (\<lambda>_. ''d''), re_embed = (\<lambda>cs. Inr (map (\<lambda>_. replicate 384 (Fin 0)) cs)),
     re_query = (\<lambda>_. Inr []), re_dim = length, re_score = (\<lambda>_ _. Fin (9/10)), re_top = (\<lambda>k ss. [0..<k])\<rparr>"

definition sample_summary :: pydict where
  "sample_summary = dput ''created_utc'' (PStr ''now'') (sample_record ''r1'' ''north'')"

definition sample_index :: "pyfloat list vstore" where
  "sample_index = (case ingest sample_memory [sample_summary] (new_vstore None) of Inr (_, s) \<Rightarrow> s | Inl _ \<Rightarrow> new_vstore None)"

definition sample_request :: request_env where
  "sample_request = \<lparr>qe_mono = 10, qe_utc = 63000000000000000, qe_fresh = (\<lambda>n. ''id'' @ int_str (int n)), qe_uuid5 = (\<lambda>s. s), qe_utc_str = (\<lambda>_. ''now''),
     qe_log_ok = True\<rparr>"

definition sample_parse :: "string \<Rightarrow> int option" where
  "sample_parse = (\<lambda>s. if s = ''now'' then Some 63000000000000000 else None)"

definition sample_context :: op_context where
  "sample_context = \<lparr>oc_org = ''acme'', oc_site = ''north'', oc_role = None, oc_device = None\<rparr>"

definition sample_preflight :: "(score \<times> string option) http \<times> precedent_state" where
  "sample_preflight = preflight sample_request sample_memory sample_parse sample_precedent_doc sample_context ''ann'' ''reorder?'' ''orders'' None
     sample_index \<lparr>ds_pending = [], ds_consumed = [], ds_log = []\<rparr>"

theorem precedent_evidence_in_scope_witness:
  "\<exists>policy sc s'. resolve_decision_precedent_policy sample_precedent_doc ''acme'' ''north'' = Inr policy
     \<and> evaluate_decision_precedent sample_memory sample_parse ''reorder?'' policy ''ann'' ''orders'' 63000000000000000 ''c1'' sample_index = Inr (sc, s')
     \<and> sc_tier sc = Require_Confirmation \<and> dp_confirm policy \<le> sc_final sc \<and> length (sc_matches sc) = 1
     \<and> sc_similarity sc = pk_similarity (mt_candidate (hd (sc_matches sc)))"
proof -
  let ?e = "\<lambda>policy. evaluate_decision_precedent sample_memory sample_parse ''reorder?'' policy ''ann'' ''orders'' 63000000000000000 ''c1'' sample_index"
  have "case resolve_decision_precedent_policy sample_precedent_doc ''acme'' ''north'' of
      Inr policy \<Rightarrow> (case ?e policy of Inr (sc, s') \<Rightarrow> sc_tier sc = Require_Confirmation \<and> length (sc_matches sc) = 1 \<and> \<not> dp_suggest policy \<le> 0
        \<and> dp_confirm policy = 1/2 \<and> dp_suggest policy = 4/5 | Inl _ \<Rightarrow> False) | Inl _ \<Rightarrow> False"
    by code_simp
  then obtain policy sc s' where r: "resolve_decision_precedent_policy sample_precedent_doc ''acme'' ''north'' = Inr policy"
    "?e policy = Inr (sc, s')" "sc_tier sc = Require_Confirmation" "length (sc_matches sc) = 1" "dp_confirm policy = 1/2" "dp_suggest policy = 4/5"
    by (auto split: sum.splits)
  have rank: "ranking (re_top sample_memory)" by (auto simp: ranking_def sample_memory_def)
  have "explained policy sc" using precedent_evidence_in_scope [OF r(2) rank] by blast
  with r(3,4) have "dp_confirm policy \<le> sc_final sc" "sc_similarity sc = pk_similarity (mt_candidate (hd (sc_matches sc)))"
    by (auto simp: explained_def split: list.splits)
  with r show ?thesis by blast
qed

theorem precedent_confirmed_once_witness:
  "\<exists>sc. fst (confirm sample_request 11 sample_context ''ann'' ''id0'' (snd sample_preflight)) = Inr sc \<and> sc_tier sc = Require_Confirmation
     \<and> fst (confirm sample_request 12 sample_context ''ann'' ''id0'' (snd (confirm sample_request 11 sample_context ''ann'' ''id0'' (snd sample_preflight)))) = Inl (Http 409)"
proof -
  let ?s = "snd sample_preflight"
  have "case fst sample_preflight of Inr (sc, esc) \<Rightarrow> sc_tier sc = Require_Confirmation \<and> sc_id sc = ''id0'' | Inl _ \<Rightarrow> False" by code_simp
  then obtain sc0 esc where f: "fst sample_preflight = Inr (sc0, esc)" "sc_tier sc0 = Require_Confirmation" "sc_id sc0 = ''id0''"
    by (auto split: sum.splits)
  have i: "precedent_issue \<lparr>ds_pending = [], ds_consumed = [], ds_log = []\<rparr> ''id0'' ?s"
  proof -
    have "sample_preflight = (Inr (sc0, esc), ?s)" by (simp add: prod_eq_iff f(1))
    from precedent_issue.intros [OF trans [OF sample_preflight_def [symmetric] this] f(2)] show ?thesis by (simp add: f(3))
  qed
  have "precedent_init \<lparr>ds_pending = [], ds_consumed = [], ds_log = []\<rparr>" by (simp add: precedent_init_def)
  then have "precedent_run \<lparr>ds_pending = [], ds_consumed = [], ds_log = []\<rparr> [] []" by (rule one_shot_run.started)
  with i have run: "precedent_run ?s [''id0''] []"
    by (intro one_shot_run.issued [where s = "\<lparr>ds_pending = [], ds_consumed = [], ds_log = []\<rparr>" and i = "''id0''" and xs = "[]" and ss = "[]" and s' = ?s]) simp_all
  have "case fst (confirm sample_request 11 sample_context ''ann'' ''id0'' ?s) of Inr _ \<Rightarrow> True | Inl _ \<Rightarrow> False" by code_simp
  then obtain sc where c: "fst (confirm sample_request 11 sample_context ''ann'' ''id0'' ?s) = Inr sc" by (auto split: sum.splits)
  then have "confirm sample_request 11 sample_context ''ann'' ''id0'' ?s = (Inr sc, snd (confirm sample_request 11 sample_context ''ann'' ''id0'' ?s))"
    by (simp add: prod_eq_iff)
  from precedent_confirmed_once [OF run this] have "sc_tier sc = Require_Confirmation" by blast
  moreover have "fst (confirm sample_request 12 sample_context ''ann'' ''id0'' (snd (confirm sample_request 11 sample_context ''ann'' ''id0'' ?s))) = Inl (Http 409)"
    by code_simp
  ultimately show ?thesis using c by blast
qed

theorem overlapping_confirmations_witness:
  "\<exists>p s1 s4 s5. confirm_check sample_request 11 sample_context ''ann'' ''id0'' (snd sample_preflight) = (Inr p, s1)
     \<and> confirm_commit 11 ''id0'' s4 = (Inr (), s5) \<and> fst (confirm_commit 12 ''id0'' s5) = Inl (Crash KeyError) \<and> 2 < length (ds_log s5)"
proof -
  let ?c = "confirm_check sample_request 11 sample_context ''ann'' ''id0'' (snd sample_preflight)"
  let ?c2 = "confirm_check sample_request 12 sample_context ''ann'' ''id0'' (snd ?c)"
  have "case fst ?c of Inr _ \<Rightarrow> True | Inl _ \<Rightarrow> False" by code_simp
  then obtain p where p: "?c = (Inr p, snd ?c)" by (auto split: sum.splits simp: prod_eq_iff)
  have "case fst ?c2 of Inr _ \<Rightarrow> True | Inl _ \<Rightarrow> False" by code_simp
  then obtain p2 where p2: "?c2 = (Inr p2, snd ?c2)" by (auto split: sum.splits simp: prod_eq_iff)
  have ok: "append_log sample_request a b t = Some (t\<lparr>ds_log := ds_log t @ [(a, b)]\<rparr>)" for a b and t :: precedent_state
    by (simp add: append_log_def sample_request_def)
  have "ds_log (snd sample_preflight) \<noteq> []" by code_simp
  then have "0 < length (ds_log (snd sample_preflight))" by simp
  with overlapping_confirmations [OF p p2 ok ok] p show ?thesis by fastforce
qed

end
