(* ===== verification/Thread_Routing.thy ===== *)
theory Thread_Routing
  imports Decision_Precedent
begin

text \<open>
  Thread routing, \<^verbatim>\<open>thread_routing/\<close> and \<^verbatim>\<open>api/routes/thread_routing.py\<close>: the decision over scoped candidates, the
  retrieval that feeds it, bindings of threads to sessions, rolling recaps, and the endpoints that issue a decision and
  settle it once. The persistence adapter's session states are a dictionary; the digest in its keys, fresh ids, clocks
  and printing are arguments. A file of the repository holds the policy, \<open>doc\<close> is what it parses to.
\<close>

section \<open>Decisions\<close>

record thread_candidate =
  tc_thread :: string
  tc_summary :: string
  tc_score :: rat

datatype action = Attach_Existing | Create_New | Fork_From

datatype route_rationale = High_Confidence_Match | No_Eligible_Match | Topic_Drift | Ambiguous_Attach | Manual_Policy | Operator_Override

record routing_decision =
  rd_id :: string
  rd_org :: string
  rd_site :: string
  rd_actor :: string
  rd_action :: action
  rd_thread :: string
  rd_source :: "string option"
  rd_version :: int
  rd_confidence :: rat
  rd_rationale :: route_rationale
  rd_confirm :: bool
  rd_candidates :: "thread_candidate list"
  rd_override :: bool

definition action_str :: "action \<Rightarrow> string" where
  "action_str a = (case a of Attach_Existing \<Rightarrow> ''attach_existing'' | Create_New \<Rightarrow> ''create_new'' | Fork_From \<Rightarrow> ''fork_from'')"

definition route_rationale_str :: "route_rationale \<Rightarrow> string" where
  "route_rationale_str r = (case r of High_Confidence_Match \<Rightarrow> ''high_confidence_match'' | No_Eligible_Match \<Rightarrow> ''no_eligible_match''
     | Topic_Drift \<Rightarrow> ''topic_drift'' | Ambiguous_Attach \<Rightarrow> ''ambiguous_attach'' | Manual_Policy \<Rightarrow> ''manual_policy''
     | Operator_Override \<Rightarrow> ''operator_override'')"

definition decision_record :: "(int \<Rightarrow> string) \<Rightarrow> int \<Rightarrow> routing_decision \<Rightarrow> pydict" where
  "decision_record utc_str now d = [(''schema_version'', PStr ''1.0.0''), (''decision_id'', PStr (rd_id d)), (''organization_id'', PStr (rd_org d)),
     (''site_id'', PStr (rd_site d)), (''actor_id'', PStr (rd_actor d)), (''decision'', PStr (action_str (rd_action d))),
     (''thread_id'', PStr (rd_thread d)), (''source_thread_id'', case rd_source d of None \<Rightarrow> PNone | Some t \<Rightarrow> PStr t),
     (''policy_version'', PInt (rd_version d)), (''confidence'', PFloat (Fin (rd_confidence d))),
     (''rationale_code'', PStr (route_rationale_str (rd_rationale d))), (''operator_confirmation_required'', PBool (rd_confirm d)),
     (''operator_override'', PBool (rd_override d)),
     (''candidates'', PList (map (\<lambda>(r, c). PDict [(''thread_id'', PStr (tc_thread c)), (''summary_record_id'', PStr (tc_summary c)),
        (''score'', PFloat (Fin (tc_score c))), (''rank'', PInt (int r))]) (enumerate 1 (rd_candidates d)))),
     (''created_utc'', PStr (utc_str now))]"

definition ordered_candidates :: "thread_candidate list \<Rightarrow> int \<Rightarrow> thread_candidate list" where
  "ordered_candidates cs limit = take (nat limit) (sort_key (\<lambda>c. (- tc_score c, tc_thread c)) cs)"

definition nonempty :: "string option \<Rightarrow> string option" where
  "nonempty x = (case x of Some (c # cs) \<Rightarrow> Some (c # cs) | _ \<Rightarrow> None)"

text \<open>The choice over the ranked candidates: action, thread, source, confidence and rationale.\<close>

definition route_choice ::
  "thread_policy \<Rightarrow> thread_candidate list \<Rightarrow> string option \<Rightarrow> string \<Rightarrow> action \<times> string \<times> string option \<times> rat \<times> route_rationale" where
  "route_choice policy ordered active_thread_id generated =
     (let best = (case ordered of [] \<Rightarrow> None | c # _ \<Rightarrow> Some c);
          active = find (\<lambda>c. Some (tc_thread c) = active_thread_id) ordered;
          confidence = (case best of Some b \<Rightarrow> tc_score b | None \<Rightarrow> 0);
          attach = (case best of Some b \<Rightarrow> tc_score b \<ge> tr_attach policy | None \<Rightarrow> False);
          drifted = (case active of Some a \<Rightarrow> tc_score a < tr_fork policy | None \<Rightarrow> True)
      in if tr_manual policy then (Create_New, generated, None, confidence, Manual_Policy)
         else if attach then (Attach_Existing, (case best of Some b \<Rightarrow> tc_thread b | None \<Rightarrow> []), None, confidence, High_Confidence_Match)
         else if nonempty active_thread_id \<noteq> None \<and> drifted
         then (Fork_From, generated, active_thread_id, (case active of Some a \<Rightarrow> tc_score a | None \<Rightarrow> 0), Topic_Drift)
         else (Create_New, generated, None, confidence, No_Eligible_Match))"

definition near_tie :: "thread_policy \<Rightarrow> thread_candidate list \<Rightarrow> bool" where
  "near_tie policy cs \<longleftrightarrow> (case cs of b # c # _ \<Rightarrow> tc_score b - tc_score c \<le> tr_margin policy | _ \<Rightarrow> False)"

definition decide_thread_route ::
  "thread_candidate list \<Rightarrow> thread_policy \<Rightarrow> string \<Rightarrow> string option \<Rightarrow> string \<Rightarrow> string \<Rightarrow> routing_decision res" where
  "decide_thread_route cs policy actor_id active_thread_id decision_id new_thread_id =
     (if strip actor_id = [] then Inl ValueError
      else let ordered = ordered_candidates cs (tr_limit policy);
               (act, thread, source, confidence, why) = route_choice policy ordered active_thread_id new_thread_id;
               ambiguous = (act = Attach_Existing \<and> near_tie policy ordered)
           in Inr \<lparr>rd_id = decision_id, rd_org = tr_org policy, rd_site = tr_site policy, rd_actor = strip actor_id, rd_action = act,
                rd_thread = thread, rd_source = source, rd_version = tr_version policy, rd_confidence = confidence,
                rd_rationale = (if ambiguous then Ambiguous_Attach else why),
                rd_confirm = (tr_manual policy \<or> ambiguous \<or> action_str act \<in> set (tr_confirm policy)),
                rd_candidates = ordered, rd_override = False\<rparr>)"

section \<open>Retrieval\<close>

definition thread_candidate_of :: "chunk \<times> pyfloat \<Rightarrow> thread_candidate option" where
  "thread_candidate_of = (\<lambda>(c, x). case (ident (ck_thread c), ident (ck_record_id c)) of
     (Some t, Some r) \<Rightarrow> Some \<lparr>tc_thread = t, tc_summary = r, tc_score = confidence_from_cosine x\<rparr> | _ \<Rightarrow> None)"

text \<open>Two hits of a thread are compared by score, then by record id.\<close>

definition keep_strongest :: "thread_candidate \<Rightarrow> (string, thread_candidate) dict \<Rightarrow> (string, thread_candidate) dict" where
  "keep_strongest p d = (case dget d (tc_thread p) of
     Some q \<Rightarrow> if (tc_score p, tc_summary p) > (tc_score q, tc_summary q) then dput (tc_thread p) p d else d
   | None \<Rightarrow> dput (tc_thread p) p d)"

definition thread_candidates :: "(chunk \<times> pyfloat) list \<Rightarrow> thread_candidate list" where
  "thread_candidates results = map snd (fold (\<lambda>r d. case thread_candidate_of r of None \<Rightarrow> d | Some p \<Rightarrow> keep_strongest p d) results [])"

definition preflight_thread_route ::
  "'v retrieval_env \<Rightarrow> string \<Rightarrow> thread_policy \<Rightarrow> string \<Rightarrow> string option \<Rightarrow> string \<Rightarrow> string \<Rightarrow> 'v vstore \<Rightarrow> (routing_decision \<times> 'v vstore) res" where
  "preflight_thread_route v query policy actor_id active_thread_id decision_id new_thread_id s =
     (if strip query = [] then Inl ValueError
      else res_bind (search v query (policy_filter (tr_org policy) (tr_site policy)) (tr_limit policy) s) (\<lambda>(results, s').
        res_bind (decide_thread_route (thread_candidates results) policy actor_id active_thread_id decision_id new_thread_id) (\<lambda>d.
          Inr (d, s'))))"

section \<open>Bindings\<close>

record binding =
  bd_thread :: string
  bd_session :: string
  bd_org :: string
  bd_site :: string
  bd_actor :: string

type_synonym sessions = "(string, pyval) dict"

definition scope_key :: "(string \<Rightarrow> string) \<Rightarrow> string \<Rightarrow> string \<Rightarrow> string \<Rightarrow> string \<Rightarrow> string" where
  "scope_key sha prefix thread_id org site = prefix @ sha (org @ [CHR 0x1F] @ site @ [CHR 0x1F] @ thread_id)"

definition binding_key :: "(string \<Rightarrow> string) \<Rightarrow> string \<Rightarrow> string \<Rightarrow> string \<Rightarrow> string" where
  "binding_key sha thread_id org site = scope_key sha ''thread-binding-'' thread_id org site"

definition binding_val :: "binding \<Rightarrow> pyval" where
  "binding_val b = PDict [(''thread_id'', PStr (bd_thread b)), (''session_id'', PStr (bd_session b)), (''organization_id'', PStr (bd_org b)),
     (''site_id'', PStr (bd_site b)), (''actor_id'', PStr (bd_actor b))]"

definition stored_id :: "pydict \<Rightarrow> string \<Rightarrow> string res" where
  "stored_id d k = (case dget_or d k PNone of PStr s \<Rightarrow> if strip s = [] then Inl ValueError else Inr (strip s) | _ \<Rightarrow> Inl ValueError)"

definition load_thread_session_binding :: "(string \<Rightarrow> string) \<Rightarrow> sessions \<Rightarrow> string \<Rightarrow> string \<Rightarrow> string \<Rightarrow> binding option res" where
  "load_thread_session_binding sha ss thread_id organization_id site_id =
     res_bind (require_identifier thread_id) (\<lambda>thread.
     res_bind (require_identifier organization_id) (\<lambda>org.
     res_bind (require_identifier site_id) (\<lambda>site.
     case dget_or ss (binding_key sha thread org site) PNone of
       PNone \<Rightarrow> Inr None
     | PDict d \<Rightarrow>
         res_bind (stored_id d ''thread_id'') (\<lambda>t.
         res_bind (stored_id d ''session_id'') (\<lambda>s.
         res_bind (stored_id d ''organization_id'') (\<lambda>o1.
         res_bind (stored_id d ''site_id'') (\<lambda>s1.
         res_bind (stored_id d ''actor_id'') (\<lambda>a.
           if t \<noteq> thread \<or> o1 \<noteq> org \<or> s1 \<noteq> site then Inl ValueError
           else Inr (Some \<lparr>bd_thread = t, bd_session = s, bd_org = o1, bd_site = s1, bd_actor = a\<rparr>))))))
     | _ \<Rightarrow> Inl ValueError)))"

definition create_thread_session_binding ::
  "(string \<Rightarrow> string) \<Rightarrow> string \<Rightarrow> string \<Rightarrow> string \<Rightarrow> string \<Rightarrow> string \<Rightarrow> sessions \<Rightarrow> (binding \<times> sessions) res" where
  "create_thread_session_binding sha thread_id session_id organization_id site_id actor_id ss =
     res_bind (require_identifier thread_id) (\<lambda>thread.
     res_bind (require_identifier session_id) (\<lambda>session.
     res_bind (require_identifier organization_id) (\<lambda>org.
     res_bind (require_identifier site_id) (\<lambda>site.
     res_bind (require_identifier actor_id) (\<lambda>actor.
     let b = \<lparr>bd_thread = thread, bd_session = session, bd_org = org, bd_site = site, bd_actor = actor\<rparr>
     in res_bind (load_thread_session_binding sha ss thread org site) (\<lambda>existing. case existing of
          Some e \<Rightarrow> if e \<noteq> b then Inl ValueError else Inr (e, ss)
        | None \<Rightarrow> Inr (b, dput (binding_key sha thread org site) (binding_val b) ss)))))))"

section \<open>Recaps\<close>

definition ascii_alnum :: "char \<Rightarrow> bool" where
  "ascii_alnum c \<longleftrightarrow> (let n = of_char c :: nat in (48 \<le> n \<and> n \<le> 57) \<or> (65 \<le> n \<and> n \<le> 90) \<or> (97 \<le> n \<and> n \<le> 122))"

definition token_char :: "char \<Rightarrow> bool" where
  "token_char c \<longleftrightarrow> ascii_alnum c \<or> c = CHR ''_'' \<or> c = CHR ''-''"

function find_tokens :: "string \<Rightarrow> string list" where
  "find_tokens [] = []"
| "find_tokens (c # cs) =
     (if ascii_alnum c \<and> 2 \<le> length (takeWhile token_char cs)
      then (c # takeWhile token_char cs) # find_tokens (dropWhile token_char cs)
      else find_tokens cs)"
  by pat_completeness auto

termination by (relation "measure length") (auto simp: le_imp_less_Suc length_dropWhile_le)

definition stop_words :: "string list" where
  "stop_words = [''about'', ''after'', ''again'', ''because'', ''before'', ''could'', ''from'', ''have'', ''here'', ''into'', ''just'', ''need'',
     ''please'', ''that'', ''the'', ''this'', ''what'', ''when'', ''with'', ''would'', ''your'']"

fun topic_loop :: "string list \<Rightarrow> string list \<Rightarrow> string list" where
  "topic_loop [] labels = labels"
| "topic_loop (t # ts) labels =
     (let labels' = (if t \<notin> set stop_words \<and> t \<notin> set labels then labels @ [t] else labels)
      in if length labels' = 6 then labels' else topic_loop ts labels')"

definition topics :: "string \<Rightarrow> string list" where
  "topics message = (case topic_loop (find_tokens (to_lower message)) [] of [] \<Rightarrow> [''general''] | ls \<Rightarrow> ls)"

definition summary_key :: "(string \<Rightarrow> string) \<Rightarrow> string \<Rightarrow> string \<Rightarrow> string \<Rightarrow> string" where
  "summary_key sha thread_id org site = scope_key sha ''thread-summary-'' thread_id org site"

text \<open>The recap state of before: \<open>None\<close> also for a mapping without entries.\<close>

definition previous_recap :: "pyval \<Rightarrow> pydict option res" where
  "previous_recap state = (case (case state of PDict d \<Rightarrow> dget_or d ''summary_state'' PNone | _ \<Rightarrow> PNone) of
      PNone \<Rightarrow> Inr None | PDict [] \<Rightarrow> Inr None | PDict d \<Rightarrow> Inr (Some d) | _ \<Rightarrow> Inl ValueError)"

definition recap_record :: "thread_policy \<Rightarrow> string \<Rightarrow> string \<Rightarrow> string \<Rightarrow> string list \<Rightarrow> string \<Rightarrow> pyval \<Rightarrow> pyval \<Rightarrow> string \<Rightarrow> pydict" where
  "recap_record policy record_id thread_id actor_id labels action_text domain_id device_id now =
     [(''record_type'', PStr ''ThreadSummaryRecord''), (''record_id'', PStr record_id), (''organization_id'', PStr (tr_org policy)),
      (''site_id'', PStr (tr_site policy)), (''actor_id'', PStr actor_id), (''created_utc'', PStr now), (''thread_id'', PStr thread_id),
      (''summary'', PStr (''Topics: '' @ join_with '', '' labels @ ''. Latest action: '' @ action_text @ ''.'')),
      (''domain_id'', py_or domain_id (PStr ''''))]
     @ (if truthy device_id then [(''device_id'', device_id)] else [])"

definition record_thread_recap ::
  "'v retrieval_env \<Rightarrow> (string \<Rightarrow> string) \<Rightarrow> thread_policy \<Rightarrow> string \<Rightarrow> string \<Rightarrow> string \<Rightarrow> string \<Rightarrow> int \<Rightarrow> string \<Rightarrow> string \<Rightarrow>
     pyval \<Rightarrow> pyval \<Rightarrow> 'v vstore \<Rightarrow> sessions \<Rightarrow> (pydict option \<times> 'v vstore \<times> sessions) res" where
  "record_thread_recap v sha policy record_id now thread_id actor_id turn_count message action_text domain_id device_id store ss =
     (if turn_count < 1 then Inl ValueError
      else let key = summary_key sha thread_id (tr_org policy) (tr_site policy) in
        res_bind (previous_recap (dget_or ss key PNone)) (\<lambda>previous.
        res_bind (case previous of None \<Rightarrow> Inr 0 | Some d \<Rightarrow> py_int (dget_or d ''turn_end'' (PInt 0))) (\<lambda>previous_end.
        if previous \<noteq> None \<and> turn_count < previous_end then Inl ValueError
        else if previous \<noteq> None \<and> turn_count - previous_end < tr_recap policy then Inr (None, store, ss)
        else let labels = topics message in
          res_bind (case previous of None \<Rightarrow> Inr 1 | Some d \<Rightarrow> res_bind (py_int (dget_or d ''recap_version'' (PInt 0))) (\<lambda>n. Inr (n + 1))) (\<lambda>version.
          let state = [(''schema_version'', PStr ''1.0.0''), (''thread_id'', PStr thread_id), (''organization_id'', PStr (tr_org policy)),
                (''site_id'', PStr (tr_site policy)), (''actor_id'', PStr actor_id), (''status'', PStr ''open''),
                (''summary_record_id'', PStr record_id), (''recap_version'', PInt version), (''turn_start'', PInt (previous_end + 1)),
                (''turn_end'', PInt turn_count), (''topics'', PList (map PStr labels)), (''updated_utc'', PStr now)]
                @ (if truthy device_id then [(''device_id'', device_id)] else [])
          in res_bind (ingest v [recap_record policy record_id thread_id actor_id labels action_text domain_id device_id now] store) (\<lambda>(_, store').
            Inr (Some state, store', dput key (PDict [(''summary_state'', PDict state)]) ss))))))"

section \<open>The endpoints\<close>

record pending_route =
  pr_decision :: routing_decision
  pr_session :: string
  pr_active :: "string option"
  pr_expires :: rat

record routing_state =
  rs_pending :: "(string, pending_route) dict"
  rs_consumed :: "(string, rat) dict"
  rs_sessions :: sessions
  rs_log :: "(string \<times> pydict) list"

definition prune_consumed :: "rat \<Rightarrow> routing_state \<Rightarrow> routing_state" where
  "prune_consumed now s = s\<lparr>rs_consumed := filter (\<lambda>(_, e). \<not> e \<le> now) (rs_consumed s)\<rparr>"

definition prune_expired_decisions :: "rat \<Rightarrow> routing_state \<Rightarrow> routing_state" where
  "prune_expired_decisions now s = prune_consumed now (s\<lparr>rs_pending := filter (\<lambda>(_, p). \<not> pr_expires p \<le> now) (rs_pending s)\<rparr>)"

text \<open>The decision is pending before the ledger takes its record, and stays so if the ledger raises.\<close>

definition route_preflight ::
  "request_env \<Rightarrow> 'v retrieval_env \<Rightarrow> pydict \<Rightarrow> op_context \<Rightarrow> string \<Rightarrow> string \<Rightarrow> string option \<Rightarrow> string option \<Rightarrow> 'v vstore \<Rightarrow>
     routing_state \<Rightarrow> routing_decision http \<times> routing_state" where
  "route_preflight q v doc ctx sub message active_thread_id session_id store s =
     (case value_error_as 422 (res_bind (resolve_thread_routing_policy doc (oc_org ctx) (oc_site ctx)) (\<lambda>policy.
             res_bind (preflight_thread_route v message policy sub active_thread_id (qe_fresh q 0) (''thread-'' @ qe_fresh q 1) store) (\<lambda>(d, _). Inr d))) of
       Inl e \<Rightarrow> (Inl e, s)
     | Inr d \<Rightarrow>
         let sid = (case session_id of Some (c # cs) \<Rightarrow> c # cs | _ \<Rightarrow> ''thread-routing'');
             s1 = prune_expired_decisions (qe_mono q) s;
             s2 = s1\<lparr>rs_pending := dput (rd_id d) \<lparr>pr_decision = d, pr_session = sid, pr_active = active_thread_id, pr_expires = qe_mono q + ttl\<rparr> (rs_pending s1)\<rparr>
         in if qe_log_ok q then (Inr d, s2\<lparr>rs_log := rs_log s2 @ [(sid, decision_record (qe_utc_str q) (qe_utc q) d)]\<rparr>)
            else (Inl (Crash RuntimeError), s2))"

definition resolve_confirmation :: "request_env \<Rightarrow> (string \<Rightarrow> string) \<Rightarrow> sessions \<Rightarrow> pending_route \<Rightarrow> string \<Rightarrow> routing_decision http" where
  "resolve_confirmation q sha ss p act =
     (let d = pr_decision p in
      if act = ''accept'' then Inr d
      else if act = ''attach_existing'' then
        (case rd_candidates d of
           [] \<Rightarrow> Inl (Http 422)
         | c # _ \<Rightarrow>
             res_bind (crash (load_thread_session_binding sha ss (tc_thread c) (rd_org d) (rd_site d))) (\<lambda>b. case b of
               None \<Rightarrow> Inl (Http 409)
             | Some b \<Rightarrow>
                 if bd_actor b \<noteq> rd_actor d then Inl (Http 403)
                 else Inr (d\<lparr>rd_action := Attach_Existing, rd_thread := tc_thread c, rd_source := None, rd_override := True\<rparr>)))
      else if act = ''create_new'' then
        Inr (d\<lparr>rd_action := Create_New, rd_thread := ''thread-'' @ qe_fresh q 2, rd_source := None, rd_override := True\<rparr>)
      else if act = ''fork_from'' then
        (case nonempty (pr_active p) of
           None \<Rightarrow> Inl (Http 422)
         | Some t \<Rightarrow> Inr (d\<lparr>rd_action := Fork_From, rd_thread := ''thread-'' @ qe_fresh q 2, rd_source := Some t, rd_override := True\<rparr>))
      else Inl (Http 422))"

text \<open>The session of the selected thread, bound on demand; the sessions change only when a binding is created.\<close>

definition bind_selected :: "request_env \<Rightarrow> (string \<Rightarrow> string) \<Rightarrow> routing_decision \<Rightarrow> sessions \<Rightarrow> (binding \<times> sessions) http" where
  "bind_selected q sha d ss =
     res_bind (crash (load_thread_session_binding sha ss (rd_thread d) (rd_org d) (rd_site d))) (\<lambda>b. case b of
       None \<Rightarrow>
         if rd_action d = Attach_Existing then Inl (Http 409)
         else crash (create_thread_session_binding sha (rd_thread d) (qe_fresh q 3) (rd_org d) (rd_site d) (rd_actor d) ss)
     | Some b \<Rightarrow> if bd_actor b \<noteq> rd_actor d then Inl (Http 403) else Inr (b, ss))"

definition confirmation_event :: "request_env \<Rightarrow> string \<Rightarrow> string \<Rightarrow> string \<Rightarrow> routing_decision \<Rightarrow> binding \<Rightarrow> pydict" where
  "confirmation_event q session sub decision_id d b =
     build_trace_event (qe_fresh q 5) (qe_utc_str q (qe_utc q)) session sub ''other'' ''thread_routing_confirmed''
       (Some [(''application_id'', PStr (qe_fresh q 4)), (''preflight_decision_id'', PStr decision_id),
          (''routing_decision'', PDict (decision_record (qe_utc_str q) (qe_utc q) d)), (''session_id'', PStr (bd_session b))]) ''genesis''"

definition route_confirm ::
  "request_env \<Rightarrow> rat \<Rightarrow> (string \<Rightarrow> string) \<Rightarrow> op_context \<Rightarrow> string \<Rightarrow> string \<Rightarrow> string \<Rightarrow> routing_state \<Rightarrow>
     (routing_decision \<times> binding) http \<times> routing_state" where
  "route_confirm q later sha ctx sub decision_id act s0 =
     (let now = qe_mono q; s = prune_consumed now s0 in
      if dhas (rs_consumed s) decision_id then (Inl (Http 409), s)
      else case dget (rs_pending s) decision_id of
        None \<Rightarrow> (Inl (Http 404), s)
      | Some p \<Rightarrow>
          if pr_expires p \<le> now then (Inl (Http 410), s\<lparr>rs_pending := ddel decision_id (rs_pending s)\<rparr>)
          else let s1 = prune_expired_decisions now s; d = pr_decision p in
            if rd_actor d \<noteq> sub then (Inl (Http 403), s1)
            else if rd_org d \<noteq> oc_org ctx \<or> rd_site d \<noteq> oc_site ctx then (Inl (Http 403), s1)
            else case res_bind (resolve_confirmation q sha (rs_sessions s1) p act) (\<lambda>sel.
                 res_bind (bind_selected q sha sel (rs_sessions s1)) (\<lambda>(b, ss). Inr (sel, b, ss))) of
              Inl e \<Rightarrow> (Inl e, s1)
            | Inr (sel, b, ss) \<Rightarrow>
                let s2 = s1\<lparr>rs_sessions := ss\<rparr> in
                if \<not> qe_log_ok q then (Inl (Crash RuntimeError), s2)
                else (Inr (sel, b), s2\<lparr>rs_log := rs_log s2 @ [(pr_session p, confirmation_event q (pr_session p) sub decision_id sel b)],
                        rs_pending := ddel decision_id (rs_pending s2), rs_consumed := dput decision_id (later + ttl) (rs_consumed s2)\<rparr>))"

section \<open>Facts on candidates\<close>

definition thread_keyed :: "(string, thread_candidate) dict \<Rightarrow> bool" where
  "thread_keyed d \<longleftrightarrow> dict_ok d \<and> (\<forall>(k, p) \<in> set d. tc_thread p = k)"

lemma keep_strongest_keyed:
  "thread_keyed d \<Longrightarrow> thread_keyed (keep_strongest p d) \<and> snd ` set (keep_strongest p d) \<subseteq> insert p (snd ` set d)"
  by (auto simp: thread_keyed_def keep_strongest_def split: option.splits dest!: set_dput_cases)

lemma thread_candidates_keyed:
  "thread_keyed d \<Longrightarrow> thread_keyed (fold (\<lambda>r d. case thread_candidate_of r of None \<Rightarrow> d | Some p \<Rightarrow> keep_strongest p d) results d)
     \<and> (\<forall>p \<in> snd ` set (fold (\<lambda>r d. case thread_candidate_of r of None \<Rightarrow> d | Some p \<Rightarrow> keep_strongest p d) results d).
          p \<in> snd ` set d \<or> (\<exists>r \<in> set results. thread_candidate_of r = Some p))"
proof (induction results arbitrary: d)
  case (Cons r rs)
  let ?f = "\<lambda>r d. case thread_candidate_of r of None \<Rightarrow> d | Some p \<Rightarrow> keep_strongest p d"
  note k = keep_strongest_keyed [OF Cons.prems]
  have d': "thread_keyed (?f r d)" "\<forall>p \<in> snd ` set (?f r d). p \<in> snd ` set d \<or> thread_candidate_of r = Some p"
    using Cons.prems k by (cases "thread_candidate_of r"; auto)+
  have step: "fold ?f (r # rs) d = fold ?f rs (?f r d)" by (simp only: fold_Cons comp_apply)
  from Cons.IH [OF d'(1)] d'(2) show ?case unfolding step set_simps by blast
qed simp

lemma thread_candidates_facts:
  "distinct (map tc_thread (thread_candidates results))"
  "p \<in> set (thread_candidates results) \<Longrightarrow> \<exists>r \<in> set results. thread_candidate_of r = Some p"
proof -
  let ?d = "fold (\<lambda>r d. case thread_candidate_of r of None \<Rightarrow> d | Some p \<Rightarrow> keep_strongest p d) results []"
  have k: "thread_keyed ?d" "\<forall>p \<in> snd ` set ?d. \<exists>r \<in> set results. thread_candidate_of r = Some p"
    using thread_candidates_keyed [of "[]" results] by (simp_all add: thread_keyed_def)
  have "map tc_thread (map snd ?d) = map fst ?d" using k(1) unfolding thread_keyed_def by (auto simp: case_prod_beta)
  then show "distinct (map tc_thread (thread_candidates results))"
    unfolding thread_candidates_def using k(1) by (simp only:) (simp add: thread_keyed_def dict_ok_def dkeys_def)
  show "p \<in> set (thread_candidates results) \<Longrightarrow> \<exists>r \<in> set results. thread_candidate_of r = Some p"
    using k(2) by (fastforce simp only: thread_candidates_def set_map)
qed

lemma ordered_candidates_facts:
  "set (ordered_candidates cs n) \<subseteq> set cs" "length (ordered_candidates cs n) \<le> nat n"
  "distinct (map tc_thread cs) \<Longrightarrow> distinct (map tc_thread (ordered_candidates cs n))"
  "sorted (map (\<lambda>c. - tc_score c) (ordered_candidates cs n))"
proof -
  define ys where "ys = sort_key (\<lambda>c. (- tc_score c, tc_thread c)) cs"
  have ys: "set ys = set cs" "distinct ys = distinct cs" "sorted (map (\<lambda>c. (- tc_score c, tc_thread c)) ys)" by (simp_all add: ys_def)
  note o = ordered_candidates_def [of cs n, folded ys_def]
  show "set (ordered_candidates cs n) \<subseteq> set cs" unfolding o ys(1) [symmetric] by (rule set_take_subset)
  show "length (ordered_candidates cs n) \<le> nat n" by (simp add: o)
  show "distinct (map tc_thread (ordered_candidates cs n))" if "distinct (map tc_thread cs)"
    using that ys(1,2) unfolding o take_map [symmetric] by (intro distinct_take) (simp add: distinct_map)
  have "sorted (map (\<lambda>c. (- tc_score c, tc_thread c)) (take (nat n) ys))" unfolding take_map [symmetric] by (rule sorted_wrt_take [OF ys(3)])
  then show "sorted (map (\<lambda>c. - tc_score c) (ordered_candidates cs n))"
    unfolding o sorted_wrt_map by (rule sorted_wrt_mono_rel [rotated]) (auto simp: less_eq_prod_def)
qed

text \<open>The decision in terms of the ranked candidates.\<close>

lemma sorted_head: "sorted (map (\<lambda>c. - tc_score c) (b # cs)) \<Longrightarrow> c \<in> set (b # cs) \<Longrightarrow> tc_score c \<le> tc_score b"
  by auto

lemma active_below:
  "distinct (map tc_thread cs) \<Longrightarrow>
     (case find (\<lambda>c. Some (tc_thread c) = Some t) cs of None \<Rightarrow> True | Some a \<Rightarrow> tc_score a < x)
       \<longleftrightarrow> (\<forall>c \<in> set cs. tc_thread c = t \<longrightarrow> tc_score c < x)"
proof (induction cs)
  case (Cons c cs)
  show ?case
  proof (cases "tc_thread c = t")
    case True
    then have "\<forall>c' \<in> set cs. tc_thread c' \<noteq> t" using Cons.prems by (auto simp: image_iff)
    then show ?thesis using True by auto
  next
    case False
    then show ?thesis using Cons.IH Cons.prems by simp
  qed
qed simp

lemma nonempty_Some: "nonempty x = Some t \<Longrightarrow> x = Some t"
  by (auto simp: nonempty_def split: option.splits list.splits)

definition route_spec :: "thread_policy \<Rightarrow> string option \<Rightarrow> string \<Rightarrow> routing_decision \<Rightarrow> bool" where
  "route_spec policy active new d \<longleftrightarrow>
     (let cs = rd_candidates d; top_match = (\<lambda>c. c \<in> set cs \<and> (\<forall>c' \<in> set cs. tc_score c' \<le> tc_score c));
          confident = (\<not> tr_manual policy \<and> (\<exists>c \<in> set cs. tr_attach policy \<le> tc_score c));
          drift = (\<lambda>t. \<not> tr_manual policy \<and> \<not> confident \<and> nonempty active = Some t
             \<and> (\<forall>c \<in> set cs. tc_thread c = t \<longrightarrow> tc_score c < tr_fork policy))
      in (rd_action d = Attach_Existing \<longleftrightarrow> confident) \<and> (rd_action d = Fork_From \<longleftrightarrow> (\<exists>t. drift t))
       \<and> (if confident then \<exists>c. top_match c \<and> rd_thread d = tc_thread c else rd_thread d = new)
       \<and> (\<forall>t. rd_source d = Some t \<longleftrightarrow> drift t)
       \<and> (rd_confirm d \<longleftrightarrow> tr_manual policy \<or> (confident \<and> near_tie policy cs) \<or> action_str (rd_action d) \<in> set (tr_confirm policy)))"

lemma decide_spec:
  assumes "decide_thread_route cs policy actor active i new = Inr d" "distinct (map tc_thread cs)"
  shows "route_spec policy active new d" "rd_candidates d = ordered_candidates cs (tr_limit policy)"
    "rd_org d = tr_org policy" "rd_site d = tr_site policy" "rd_actor d = strip actor" "rd_id d = i" "strip actor \<noteq> []"
proof -
  define ys where "ys = ordered_candidates cs (tr_limit policy)"
  obtain act thread source conf why where ch: "route_choice policy ys active new = (act, thread, source, conf, why)" by (cases "route_choice policy ys active new")
  from assms(1) show "rd_candidates d = ordered_candidates cs (tr_limit policy)" "rd_org d = tr_org policy" "rd_site d = tr_site policy"
    "rd_actor d = strip actor" "rd_id d = i" "strip actor \<noteq> []"
    by (auto simp: decide_thread_route_def Let_def ys_def [symmetric] ch split: if_split_asm)
  from assms(1) have d: "rd_candidates d = ys" "rd_action d = act" "rd_thread d = thread" "rd_source d = source"
    "rd_confirm d \<longleftrightarrow> tr_manual policy \<or> (act = Attach_Existing \<and> near_tie policy ys) \<or> action_str act \<in> set (tr_confirm policy)"
    by (auto simp: decide_thread_route_def Let_def ys_def [symmetric] ch split: if_split_asm)
  note dist = ordered_candidates_facts(3) [OF assms(2), of "tr_limit policy", folded ys_def]
  note sort = ordered_candidates_facts(4) [of cs "tr_limit policy", folded ys_def]
  define confident where "confident \<longleftrightarrow> \<not> tr_manual policy \<and> (\<exists>c \<in> set ys. tr_attach policy \<le> tc_score c)"
  have drift: "(case find (\<lambda>c. Some (tc_thread c) = active) ys of Some a \<Rightarrow> tc_score a < tr_fork policy | None \<Rightarrow> True)
      \<longleftrightarrow> (\<forall>c \<in> set ys. tc_thread c = t \<longrightarrow> tc_score c < tr_fork policy)" if "nonempty active = Some t" for t
    using active_below [OF dist] unfolding nonempty_Some [OF that] .
  have attach: "(case (case ys of [] \<Rightarrow> None | c # _ \<Rightarrow> Some c) of Some b \<Rightarrow> tc_score b \<ge> tr_attach policy | None \<Rightarrow> False)
      \<longleftrightarrow> (\<exists>c \<in> set ys. tr_attach policy \<le> tc_score c)"
    and best: "\<exists>c \<in> set ys. tr_attach policy \<le> tc_score c \<Longrightarrow> \<exists>b zs. ys = b # zs \<and> (\<forall>c \<in> set ys. tc_score c \<le> tc_score b)"
    using sort sorted_head by (cases ys; fastforce)+
  have c: "(act, thread, source) = (if tr_manual policy then (Create_New, new, None)
      else if confident then (Attach_Existing, tc_thread (hd ys), None)
      else case nonempty active of
        Some t \<Rightarrow> if \<forall>c \<in> set ys. tc_thread c = t \<longrightarrow> tc_score c < tr_fork policy then (Fork_From, new, Some t) else (Create_New, new, None)
      | None \<Rightarrow> (Create_New, new, None))"
    using ch drift best nonempty_Some [of active] unfolding route_choice_def Let_def attach confident_def
    by (auto split: if_split_asm option.split)
  show "route_spec policy active new d"
  proof (cases confident)
    case True
    with best obtain b zs where b: "ys = b # zs" "\<forall>c \<in> set ys. tc_score c \<le> tc_score b" unfolding confident_def by blast
    from True c have "act = Attach_Existing" "thread = tc_thread b" "source = None" "\<not> tr_manual policy" by (auto simp: confident_def b(1))
    moreover have "b \<in> set ys" by (simp add: b(1))
    ultimately show ?thesis using True b(2) unfolding route_spec_def Let_def d confident_def [symmetric] by auto
  next
    case False
    with c show ?thesis unfolding route_spec_def Let_def d confident_def [symmetric]
      by (auto split: if_split_asm option.splits)
  qed
qed

section \<open>Facts on bindings\<close>

lemma require_identifier_Inr: "require_identifier v = Inr w \<longleftrightarrow> w = strip v \<and> w \<noteq> []"
  by (auto simp: require_identifier_def)

lemma stored_binding: "stored_id d k = Inr v \<longleftrightarrow> (\<exists>s. dget_or d k PNone = PStr s \<and> v = strip s \<and> v \<noteq> [])"
  by (auto simp: stored_id_def split: pyval.splits if_split_asm)

text \<open>A binding that is loaded is in the scope asked for.\<close>

lemma load_binding_scope:
  "load_thread_session_binding sha ss thread org site = Inr (Some b) \<Longrightarrow>
     bd_thread b = strip thread \<and> bd_org b = strip org \<and> bd_site b = strip site
     \<and> dget ss (binding_key sha (strip thread) (strip org) (strip site)) \<noteq> None"
  by (auto simp: load_thread_session_binding_def require_identifier_Inr dget_or_def split: pyval.splits if_split_asm option.splits elim!: res_bind_InrE)

lemma load_binding_None:
  "load_thread_session_binding sha ss thread org site = Inr None \<Longrightarrow>
     dget_or ss (binding_key sha (strip thread) (strip org) (strip site)) PNone = PNone"
  by (auto simp: load_thread_session_binding_def require_identifier_Inr split: pyval.splits if_split_asm elim!: res_bind_InrE)

text \<open>What is created is loaded back, and nothing that was there is overwritten.\<close>

lemma create_binding:
  assumes "create_thread_session_binding sha thread session org site actor ss = Inr (b, ss')"
  shows "load_thread_session_binding sha ss' thread org site = Inr (Some b)" "bd_actor b = strip actor" "bd_session b = strip session"
    "dget ss k = Some v \<Longrightarrow> v \<noteq> PNone \<Longrightarrow> dget ss' k = Some v"
proof -
  define nb where "nb = \<lparr>bd_thread = strip thread, bd_session = strip session, bd_org = strip org, bd_site = strip site, bd_actor = strip actor\<rparr>"
  from assms have ne: "strip thread \<noteq> []" "strip session \<noteq> []" "strip org \<noteq> []" "strip site \<noteq> []" "strip actor \<noteq> []"
    and c: "res_bind (load_thread_session_binding sha ss (strip thread) (strip org) (strip site)) (\<lambda>existing. case existing of
          Some e \<Rightarrow> if e \<noteq> nb then Inl ValueError else Inr (e, ss)
        | None \<Rightarrow> Inr (nb, dput (binding_key sha (strip thread) (strip org) (strip site)) (binding_val nb) ss)) = Inr (b, ss')"
    unfolding nb_def create_thread_session_binding_def require_identifier_def Let_def by (simp_all split: if_split_asm)
  have strip_args: "load_thread_session_binding sha ss (strip thread) (strip org) (strip site) = load_thread_session_binding sha ss thread org site"
    by (simp add: load_thread_session_binding_def require_identifier_def)
  have b: "b = nb" using c by (auto split: option.splits if_split_asm elim!: res_bind_InrE)
  then show "bd_actor b = strip actor" "bd_session b = strip session" by (simp_all add: nb_def)
  from c consider "load_thread_session_binding sha ss thread org site = Inr (Some b)" "ss' = ss"
    | "load_thread_session_binding sha ss thread org site = Inr None"
      "ss' = dput (binding_key sha (strip thread) (strip org) (strip site)) (binding_val nb) ss"
    unfolding strip_args by (auto split: option.splits if_split_asm elim!: res_bind_InrE)
  then show "load_thread_session_binding sha ss' thread org site = Inr (Some b)"
    "dget ss k = Some v \<Longrightarrow> v \<noteq> PNone \<Longrightarrow> dget ss' k = Some v"
  proof (atomize (full), cases)
    case 2
    have g: "dget_or ss' (binding_key sha (strip thread) (strip org) (strip site)) PNone = binding_val nb" by (simp add: 2(2) dget_or_def)
    have "load_thread_session_binding sha ss' thread org site = Inr (Some nb)"
      using ne by (simp add: load_thread_session_binding_def require_identifier_def g binding_val_def) (simp add: nb_def stored_id_def dget_or_def)
    moreover have "v \<noteq> PNone \<longrightarrow> dget ss k = Some v \<longrightarrow> dget ss' k = Some v"
      using load_binding_None [OF 2(1)] by (auto simp: 2(2) dget_or_def)
    ultimately show "load_thread_session_binding sha ss' thread org site = Inr (Some b) \<and> (dget ss k = Some v \<longrightarrow> v \<noteq> PNone \<longrightarrow> dget ss' k = Some v)"
      by (simp add: b)
  qed simp
qed

lemma bind_selected_Inr:
  assumes "bind_selected q sha d ss = Inr (b, ss')" "strip (rd_actor d) = rd_actor d"
  shows "load_thread_session_binding sha ss' (rd_thread d) (rd_org d) (rd_site d) = Inr (Some b)" "bd_actor b = rd_actor d"
    "dget ss k = Some v \<Longrightarrow> v \<noteq> PNone \<Longrightarrow> dget ss' k = Some v"
    "rd_action d = Attach_Existing \<Longrightarrow> ss' = ss"
  using assms create_binding [of sha "rd_thread d" _ "rd_org d" "rd_site d" "rd_actor d" ss b ss']
  by (auto simp: bind_selected_def split: option.splits if_split_asm elim!: res_bind_InrE)

section \<open>Facts on the endpoints\<close>

definition routing_init :: "routing_state \<Rightarrow> bool" where
  "routing_init s \<longleftrightarrow> rs_pending s = [] \<and> rs_consumed s = []"

text \<open>Requests: a preflight, which may leave a decision pending, a confirmation that succeeds, and one that fails.\<close>

inductive routing_issue :: "routing_state \<Rightarrow> string \<Rightarrow> routing_state \<Rightarrow> bool" where
  "route_preflight q (v :: pyfloat list retrieval_env) doc ctx sub message active session store s = (r, s') \<Longrightarrow>
     routing_issue s (qe_fresh q 0) s'"

inductive routing_settle :: "routing_state \<Rightarrow> string \<Rightarrow> routing_state \<Rightarrow> bool" where
  "route_confirm q later sha ctx sub i act s = (Inr r, s') \<Longrightarrow> routing_settle s i s'"

inductive routing_other :: "routing_state \<Rightarrow> routing_state \<Rightarrow> bool" where
  "route_confirm q later sha ctx sub i act s = (Inl e, s') \<Longrightarrow> routing_other s s'"

abbreviation routing_run :: "routing_state \<Rightarrow> string list \<Rightarrow> string list \<Rightarrow> bool" where
  "routing_run \<equiv> one_shot_run routing_init routing_issue routing_settle routing_other"

lemma prune_decisions [simp]:
  "set (rs_pending (prune_expired_decisions now s)) \<subseteq> set (rs_pending s)" "rs_sessions (prune_expired_decisions now s) = rs_sessions s"
  "rs_pending (prune_consumed now s) = rs_pending s" "rs_sessions (prune_consumed now s) = rs_sessions s"
  by (auto simp: prune_expired_decisions_def prune_consumed_def)

lemma preflight_decision:
  assumes "preflight_thread_route v message policy sub active i new store = Inr (d, store')"
  shows "rd_id d = i" "rd_actor d = strip sub" "rd_org d = tr_org policy" "rd_site d = tr_site policy" "strip sub \<noteq> []"
proof -
  from assms obtain results where "decide_thread_route (thread_candidates results) policy sub active i new = Inr d"
    by (auto simp: preflight_thread_route_def split: if_split_asm elim!: res_bind_InrE)
  from decide_spec [OF this thread_candidates_facts(1)] show "rd_id d = i" "rd_actor d = strip sub" "rd_org d = tr_org policy"
    "rd_site d = tr_site policy" "strip sub \<noteq> []" by simp_all
qed

lemma thread_policy_scope:
  "resolve_thread_routing_policy doc org site = Inr policy \<Longrightarrow> tr_org policy = strip org \<and> tr_site policy = strip site"
  by (auto simp: resolve_thread_routing_policy_def require_scope_def validate_thread_policy_def split: if_split_asm elim!: res_bind_InrE)

lemma route_preflight_effect:
  assumes "route_preflight q v doc ctx sub message active session store s = (r, s')"
  shows "rs_sessions s' = rs_sessions s"
    and "s' = s \<or> (\<exists>p base. set base \<subseteq> set (rs_pending s) \<and> rs_pending s' = dput (qe_fresh q 0) p base \<and> rd_id (pr_decision p) = qe_fresh q 0
      \<and> rd_actor (pr_decision p) = strip sub \<and> rd_org (pr_decision p) = strip (oc_org ctx) \<and> rd_site (pr_decision p) = strip (oc_site ctx))"
proof -
  define sr where "sr = value_error_as 422 (res_bind (resolve_thread_routing_policy doc (oc_org ctx) (oc_site ctx)) (\<lambda>policy.
             res_bind (preflight_thread_route v message policy sub active (qe_fresh q 0) (''thread-'' @ qe_fresh q 1) store) (\<lambda>(d, _). Inr d)))"
  note a = assms [unfolded route_preflight_def sr_def [symmetric]]
  show "rs_sessions s' = rs_sessions s"
    using a by (auto simp: Let_def split: sum.splits if_split_asm)
  show "s' = s \<or> (\<exists>p base. set base \<subseteq> set (rs_pending s) \<and> rs_pending s' = dput (qe_fresh q 0) p base \<and> rd_id (pr_decision p) = qe_fresh q 0
      \<and> rd_actor (pr_decision p) = strip sub \<and> rd_org (pr_decision p) = strip (oc_org ctx) \<and> rd_site (pr_decision p) = strip (oc_site ctx))"
  proof (cases sr)
    case (Inl e)
    then show ?thesis using a by simp
  next
    case (Inr d)
    then obtain policy store' where pol: "resolve_thread_routing_policy doc (oc_org ctx) (oc_site ctx) = Inr policy"
      "preflight_thread_route v message policy sub active (qe_fresh q 0) (''thread-'' @ qe_fresh q 1) store = Inr (d, store')"
      by (auto simp: sr_def elim!: res_bind_InrE)
    note d = preflight_decision [OF pol(2)] thread_policy_scope [OF pol(1)]
    define sid where "sid = (case session of Some (c # cs) \<Rightarrow> c # cs | _ \<Rightarrow> ''thread-routing'')"
    define s1 where "s1 = prune_expired_decisions (qe_mono q) s"
    have "rs_pending s' = dput (rd_id d) \<lparr>pr_decision = d, pr_session = sid, pr_active = active, pr_expires = qe_mono q + ttl\<rparr> (rs_pending s1)"
      using a [unfolded Inr sum.case Let_def s1_def [symmetric] sid_def [symmetric]]
      by (auto split: if_split_asm)
    moreover have "set (rs_pending s1) \<subseteq> set (rs_pending s)" by (simp add: s1_def)
    ultimately show ?thesis using d by (intro disjI2 exI [of _ "\<lparr>pr_decision = d, pr_session = sid, pr_active = active, pr_expires = qe_mono q + ttl\<rparr>"]
          exI [of _ "rs_pending s1"]) simp
  qed
qed

lemma resolve_confirmation_keeps:
  "resolve_confirmation q sha ss p act = Inr sel \<Longrightarrow> rd_actor sel = rd_actor (pr_decision p) \<and> rd_org sel = rd_org (pr_decision p)
     \<and> rd_site sel = rd_site (pr_decision p) \<and> rd_id sel = rd_id (pr_decision p)"
  by (auto simp: resolve_confirmation_def Let_def split: if_split_asm list.splits option.splits elim!: res_bind_InrE)

text \<open>Pending decisions carry their own id and an actor without surrounding blanks.\<close>

definition routing_ok :: "routing_state \<Rightarrow> bool" where
  "routing_ok s \<longleftrightarrow> (\<forall>(i, p) \<in> set (rs_pending s). rd_id (pr_decision p) = i \<and> strip (rd_actor (pr_decision p)) = rd_actor (pr_decision p))"

lemma route_confirm_effect:
  assumes "route_confirm q later sha ctx sub i act s = (r, s')" "routing_ok s"
  shows "set (rs_pending s') \<subseteq> set (rs_pending s)" and "dget (rs_sessions s) k = Some w \<Longrightarrow> w \<noteq> PNone \<Longrightarrow> dget (rs_sessions s') k = Some w"
    and "r = Inr (sel, b) \<Longrightarrow> \<exists>p. (i, p) \<in> set (rs_pending s) \<and> i \<notin> set (dkeys (rs_pending s')) \<and> dhas (rs_consumed s') i \<and> qe_mono q < pr_expires p
      \<and> rd_id sel = i \<and> rd_actor sel = sub \<and> rd_org sel = oc_org ctx \<and> rd_site sel = oc_site ctx \<and> bd_actor b = sub
      \<and> load_thread_session_binding sha (rs_sessions s') (rd_thread sel) (rd_org sel) (rd_site sel) = Inr (Some b)"
proof -
  define u where "u = prune_consumed (qe_mono q) s"
  define u1 where "u1 = prune_expired_decisions (qe_mono q) u"
  have u: "rs_pending u = rs_pending s" "rs_sessions u = rs_sessions s" "set (rs_pending u1) \<subseteq> set (rs_pending s)" "rs_sessions u1 = rs_sessions s"
    using prune_decisions(1) [of "qe_mono q" u] by (simp_all add: u_def u1_def)
  note d = assms(1) [unfolded route_confirm_def Let_def u_def [symmetric] u1_def [symmetric] u(1)]
  have del: "set (ddel i ps) \<subseteq> set ps" for ps :: "(string, pending_route) dict" by (auto simp: ddel_def)
  have gone: "i \<notin> set (dkeys (ddel i ps))" for ps :: "(string, pending_route) dict" by simp
  show "set (rs_pending s') \<subseteq> set (rs_pending s)"
    using d u del by (auto split: if_split_asm option.splits sum.splits) blast+
  {
    fix p assume p: "dget (rs_pending s) i = Some p"
    define sb where "sb = res_bind (resolve_confirmation q sha (rs_sessions u1) p act) (\<lambda>sel.
                 res_bind (bind_selected q sha sel (rs_sessions u1)) (\<lambda>(b, ss). Inr (sel, b, ss)))"
    have mem: "(i, p) \<in> set (rs_pending s)" using p by (rule map_of_SomeD)
    have ok: "rd_id (pr_decision p) = i" "strip (rd_actor (pr_decision p)) = rd_actor (pr_decision p)" using assms(2) mem by (auto simp: routing_ok_def)
    have "\<exists>e. sb = Inl e" if "\<nexists>x. sb = Inr x" using that by (cases sb) auto
    note d' = d [unfolded p option.case sb_def [symmetric]]
    have sel: "bd_actor b = rd_actor (pr_decision p) \<and> rd_actor sel = rd_actor (pr_decision p) \<and> rd_org sel = rd_org (pr_decision p)
        \<and> rd_site sel = rd_site (pr_decision p) \<and> rd_id sel = i
        \<and> load_thread_session_binding sha ss (rd_thread sel) (rd_org sel) (rd_site sel) = Inr (Some b)
        \<and> (dget (rs_sessions s) k = Some w \<longrightarrow> w \<noteq> PNone \<longrightarrow> dget ss k = Some w)" if "sb = Inr (sel, b, ss)" for sel b ss
    proof -
      from that have r: "resolve_confirmation q sha (rs_sessions u1) p act = Inr sel" "bind_selected q sha sel (rs_sessions u1) = Inr (b, ss)"
        by (auto simp: sb_def elim!: res_bind_InrE)
      note keep = resolve_confirmation_keeps [OF r(1)]
      with ok(2) have "strip (rd_actor sel) = rd_actor sel" by simp
      from bind_selected_Inr [OF r(2) this] keep ok(1) show ?thesis by (auto simp: u(4))
    qed
    note this = mem d' sel
  }
  note pend = this
  show "dget (rs_sessions s') k = Some w" if "dget (rs_sessions s) k = Some w" "w \<noteq> PNone"
  proof (cases "dget (rs_pending s) i")
    case None
    then show ?thesis using d that u by (auto split: if_split_asm)
  next
    case (Some p)
    from pend(2) [OF Some] pend(3) [OF Some] that u show ?thesis
      by (auto split: if_split_asm sum.splits)
  qed
  show "\<exists>p. (i, p) \<in> set (rs_pending s) \<and> i \<notin> set (dkeys (rs_pending s')) \<and> dhas (rs_consumed s') i \<and> qe_mono q < pr_expires p
      \<and> rd_id sel = i \<and> rd_actor sel = sub \<and> rd_org sel = oc_org ctx \<and> rd_site sel = oc_site ctx \<and> bd_actor b = sub
      \<and> load_thread_session_binding sha (rs_sessions s') (rd_thread sel) (rd_org sel) (rd_site sel) = Inr (Some b)" if "r = Inr (sel, b)"
  proof (cases "dget (rs_pending s) i")
    case None
    then show ?thesis using d that by (auto split: if_split_asm)
  next
    case (Some p)
    from pend(2) [OF Some] pend(3) [OF Some] pend(1) [OF Some] that gone show ?thesis
      by (intro exI [of _ p]) (auto split: if_split_asm sum.splits simp: dhas_def)
  qed
qed

lemma routing_ok_steps:
  "routing_issue s i s' \<Longrightarrow> routing_ok s \<Longrightarrow> routing_ok s'"
  "routing_settle s i s' \<Longrightarrow> routing_ok s \<Longrightarrow> routing_ok s'"
  "routing_other s s' \<Longrightarrow> routing_ok s \<Longrightarrow> routing_ok s'"
proof -
  assume "routing_issue s i s'" and ok: "routing_ok s"
  then obtain q and v :: "pyfloat list retrieval_env" and doc ctx sub message active session store r where
    "route_preflight q v doc ctx sub message active session store s = (r, s')" by cases
  from route_preflight_effect(2) [OF this] show "routing_ok s'"
  proof (elim disjE exE conjE)
    fix p base assume b: "set base \<subseteq> set (rs_pending s)" "rs_pending s' = dput (qe_fresh q 0) p base" "rd_id (pr_decision p) = qe_fresh q 0"
      "rd_actor (pr_decision p) = strip sub"
    have "(k, w) = (qe_fresh q 0, p) \<or> (k, w) \<in> set (rs_pending s)" if "(k, w) \<in> set (rs_pending s')" for k w
      using set_dput_cases [OF that [unfolded b(2)]] b(1) by blast
    then show "routing_ok s'" using ok b(3,4) strip_idem [of sub] unfolding routing_ok_def by fastforce
  qed (simp add: ok)
next
  assume "routing_settle s i s'" and ok: "routing_ok s"
  then obtain q later sha ctx sub act r where "route_confirm q later sha ctx sub i act s = (Inr r, s')" by cases
  from route_confirm_effect(1) [OF this ok] show "routing_ok s'" using ok unfolding routing_ok_def by blast
next
  assume "routing_other s s'" and ok: "routing_ok s"
  then obtain q later sha ctx sub i act e where "route_confirm q later sha ctx sub i act s = (Inl e, s')" by cases
  from route_confirm_effect(1) [OF this ok] show "routing_ok s'" using ok unfolding routing_ok_def by blast
qed

text \<open>The interface of decisions that are settled once, on the states that runs reach.\<close>

interpretation routing: one_shot "\<lambda>s. if routing_ok s then set (dkeys (rs_pending s)) else {}" routing_init
  "\<lambda>s i s'. routing_ok s \<and> routing_issue s i s'" "\<lambda>s i s'. routing_ok s \<and> routing_settle s i s'" "\<lambda>s s'. routing_ok s \<and> routing_other s s'"
proof
  fix s :: routing_state
  show "routing_init s \<Longrightarrow> (if routing_ok s then set (dkeys (rs_pending s)) else {}) = {}" by (simp add: routing_init_def)
next
  fix s i s' assume a: "routing_ok s \<and> routing_issue s i s'"
  then obtain q and v :: "pyfloat list retrieval_env" and doc ctx sub message active session store r where
    e: "i = qe_fresh q 0" "route_preflight q v doc ctx sub message active session store s = (r, s')" by (auto elim: routing_issue.cases)
  from route_preflight_effect(2) [OF e(2)] have "set (dkeys (rs_pending s')) \<subseteq> insert i (set (dkeys (rs_pending s)))"
  proof (elim disjE exE conjE)
    fix p base assume "set base \<subseteq> set (rs_pending s)" "rs_pending s' = dput (qe_fresh q 0) p base"
    then show ?thesis using keys_mono [of base "rs_pending s"] by (simp add: e(1) subset_insertI2)
  qed blast
  with a show "(if routing_ok s' then set (dkeys (rs_pending s')) else {}) \<subseteq> insert i (if routing_ok s then set (dkeys (rs_pending s)) else {})"
    by simp
next
  fix s i s' assume a: "routing_ok s \<and> routing_settle s i s'"
  then obtain q later sha ctx sub act sel b where c: "route_confirm q later sha ctx sub i act s = (Inr (sel, b), s')"
    by (auto elim: routing_settle.cases)
  from a have ok: "routing_ok s" "routing_ok s'" using routing_ok_steps(2) by blast+
  from route_confirm_effect(3) [OF c ok(1) refl] have "i \<in> set (dkeys (rs_pending s))" "i \<notin> set (dkeys (rs_pending s'))" by (force simp: dkeys_def)+
  then show "i \<in> (if routing_ok s then set (dkeys (rs_pending s)) else {}) \<and> (if routing_ok s' then set (dkeys (rs_pending s')) else {})
      \<subseteq> (if routing_ok s then set (dkeys (rs_pending s)) else {}) - {i}"
    using route_confirm_effect(1) [OF c ok(1)] keys_mono ok by auto
next
  fix s s' assume a: "routing_ok s \<and> routing_other s s'"
  then obtain q later sha ctx sub i act e where c: "route_confirm q later sha ctx sub i act s = (Inl e, s')" by (auto elim: routing_other.cases)
  from a have ok: "routing_ok s" "routing_ok s'" using routing_ok_steps(3) by blast+
  then show "(if routing_ok s' then set (dkeys (rs_pending s')) else {}) \<subseteq> (if routing_ok s then set (dkeys (rs_pending s)) else {})"
    using route_confirm_effect(1) [OF c ok(1)] keys_mono by simp
qed

lemma routing_run_ok:
  "routing_run s xs ss \<Longrightarrow> routing_ok s \<and> one_shot_run routing_init (\<lambda>s i s'. routing_ok s \<and> routing_issue s i s')
     (\<lambda>s i s'. routing_ok s \<and> routing_settle s i s') (\<lambda>s s'. routing_ok s \<and> routing_other s s') s xs ss"
proof (induction rule: one_shot_run.induct)
  case (started s)
  then show ?case by (auto simp: routing_ok_def routing_init_def intro: one_shot_run.started)
qed (blast intro: one_shot_run.issued one_shot_run.settled one_shot_run.otherwise routing_ok_steps)+

section \<open>Properties\<close>

text \<open>C20: a routing decision follows its policy over candidates of the scope: every candidate is a thread with a summary
  of the policy's organization and site, each thread once; it attaches exactly if the best candidate reaches the
  attach threshold and routing is not manual, and then to a best one; it forks exactly if an active thread is given,
  nothing is attached and the active thread stays below the fork threshold; and it asks for confirmation exactly if
  routing is manual, two best candidates are within the margin, or the policy lists the action.\<close>

theorem routing_decision_in_scope:
  assumes "preflight_thread_route v query policy actor active i new s = Inr (d, s')" "ranking (re_top v)"
  shows "route_spec policy active new d \<and> distinct (map tc_thread (rd_candidates d)) \<and> length (rd_candidates d) \<le> nat (tr_limit policy)
    \<and> (\<forall>k \<in> set (rd_candidates d). \<exists>c \<in> set (vs_chunks s'). ck_org c = PStr (tr_org policy) \<and> ck_site c = PStr (tr_site policy)
         \<and> ck_thread c = PStr (tc_thread k) \<and> ck_record_id c = PStr (tc_summary k))"
proof -
  from assms(1) obtain results where r: "search v query (policy_filter (tr_org policy) (tr_site policy)) (tr_limit policy) s = Inr (results, s')"
    and d: "decide_thread_route (thread_candidates results) policy actor active i new = Inr d"
    by (auto simp: preflight_thread_route_def split: if_split_asm elim!: res_bind_InrE)
  note f = decide_spec [OF d thread_candidates_facts(1)] and o = ordered_candidates_facts [of "thread_candidates results" "tr_limit policy"]
  have "\<exists>c \<in> set (vs_chunks s'). ck_org c = PStr (tr_org policy) \<and> ck_site c = PStr (tr_site policy)
         \<and> ck_thread c = PStr (tc_thread k) \<and> ck_record_id c = PStr (tc_summary k)" if "k \<in> set (rd_candidates d)" for k
  proof -
    from that f(2) o(1) have "k \<in> set (thread_candidates results)" by auto
    from thread_candidates_facts(2) [OF this] obtain c x where cx: "(c, x) \<in> set results" "thread_candidate_of (c, x) = Some k" by auto
    from cx(2) have "ck_thread c = PStr (tc_thread k)" "ck_record_id c = PStr (tc_summary k)"
      by (auto simp: thread_candidate_of_def ident_def split: option.splits pyval.splits list.splits)
    with search_hit [OF r assms(2) cx(1)] show ?thesis by (intro bexI [of _ c]) (auto simp: policy_filter_def)
  qed
  then show ?thesis using f o(2) o(3) [OF thread_candidates_facts(1)] by simp
qed

text \<open>C7: over every sequence of preflights with fresh ids and confirmations that do not overlap, a decision is settled at most once, only by its
  actor in its organization and site and before it expires; the session it yields is bound to the selected thread for
  that actor and scope, and loading the binding gives it back.\<close>

theorem routing_settled_once:
  assumes "routing_run s issued earlier" "route_confirm q later sha ctx sub i act s = (Inr (sel, b), s')"
  shows "i \<in> set issued \<and> i \<notin> set earlier \<and> distinct (i # earlier) \<and> rd_id sel = i \<and> rd_actor sel = sub \<and> rd_org sel = oc_org ctx \<and> rd_site sel = oc_site ctx
    \<and> bd_actor b = sub \<and> load_thread_session_binding sha (rs_sessions s') (rd_thread sel) (oc_org ctx) (oc_site ctx) = Inr (Some b)
    \<and> (\<exists>p. (i, p) \<in> set (rs_pending s) \<and> qe_mono q < pr_expires p)"
proof -
  note r = routing_run_ok [OF assms(1)]
  from route_confirm_effect(3) [OF assms(2) conjunct1 [OF r] refl] obtain p where p: "(i, p) \<in> set (rs_pending s)" "qe_mono q < pr_expires p"
    "rd_id sel = i" "rd_actor sel = sub" "rd_org sel = oc_org ctx" "rd_site sel = oc_site ctx" "bd_actor b = sub"
    "load_thread_session_binding sha (rs_sessions s') (rd_thread sel) (rd_org sel) (rd_site sel) = Inr (Some b)" by blast
  have "i \<in> set (dkeys (rs_pending s))" using p(1) by (force simp: dkeys_def)
  with routing.run_exclusive [OF conjunct2 [OF r]] conjunct1 [OF r] have "i \<in> set issued" "i \<notin> set earlier" "distinct earlier" by auto
  then show ?thesis using p by auto
qed

text \<open>Any request of the routing endpoints.\<close>

inductive routing_step :: "routing_state \<Rightarrow> routing_state \<Rightarrow> bool" where
  preflighted: "routing_issue s i s' \<Longrightarrow> routing_step s s'"
| confirmed: "routing_settle s i s' \<Longrightarrow> routing_step s s'"
| refused: "routing_other s s' \<Longrightarrow> routing_step s s'"

lemma routing_step_keeps:
  assumes "routing_step s s'" "routing_ok s"
  shows "routing_ok s'" and "dget (rs_sessions s) k = Some w \<Longrightarrow> w \<noteq> PNone \<Longrightarrow> dget (rs_sessions s') k = Some w"
proof -
  show "routing_ok s'" using assms by cases (blast intro: routing_ok_steps)+
  show "dget (rs_sessions s') k = Some w" if w: "dget (rs_sessions s) k = Some w" "w \<noteq> PNone"
    using assms(1)
  proof cases
    case (preflighted i)
    then show ?thesis by (cases rule: routing_issue.cases) (auto dest: route_preflight_effect(1) simp: w)
  next
    case (confirmed i)
    then show ?thesis by (cases rule: routing_settle.cases) (use w assms(2) route_confirm_effect(2) in blast)
  next
    case refused
    then show ?thesis by (cases rule: routing_other.cases) (use w assms(2) route_confirm_effect(2) in blast)
  qed
qed

text \<open>C26: no request of the routing endpoints ever changes a stored session state, so a binding, once it can be loaded,
  stays what it is.\<close>

theorem thread_bindings_stable:
  assumes "routing_run s issued earlier" "routing_step\<^sup>*\<^sup>* s s'"
    and "load_thread_session_binding sha (rs_sessions s) thread org site = Inr (Some b)"
  shows "load_thread_session_binding sha (rs_sessions s') thread org site = Inr (Some b)
    \<and> (\<forall>k. dget (rs_sessions s) k \<notin> {None, Some PNone} \<longrightarrow> dget (rs_sessions s') k = dget (rs_sessions s) k)"
proof -
  have ok: "routing_ok s" using routing_run_ok [OF assms(1)] by blast
  have keep: "routing_ok s' \<and> (\<forall>k w. dget (rs_sessions s) k = Some w \<longrightarrow> w \<noteq> PNone \<longrightarrow> dget (rs_sessions s') k = Some w)"
    using assms(2)
  proof (induction rule: rtranclp_induct)
    case (step y z)
    then show ?case using routing_step_keeps [OF step.hyps(2)] by blast
  qed (simp add: ok)
  let ?k = "binding_key sha (strip thread) (strip org) (strip site)"
  from load_binding_scope [OF assms(3)] obtain w where w: "dget (rs_sessions s) ?k = Some w" by blast
  have "w \<noteq> PNone"
  proof
    assume "w = PNone"
    with assms(3) w show False by (auto simp: load_thread_session_binding_def require_identifier_Inr dget_or_def elim!: res_bind_InrE)
  qed
  with keep w have "dget_or (rs_sessions s') ?k PNone = dget_or (rs_sessions s) ?k PNone" by (auto simp: dget_or_def)
  then have "load_thread_session_binding sha (rs_sessions s') thread org site = load_thread_session_binding sha (rs_sessions s) thread org site"
    by (simp add: load_thread_session_binding_def require_identifier_def)
  with assms(3) keep show ?thesis by (auto simp: not_None_eq)
qed

lemma topic_loop_facts:
  "distinct labels \<Longrightarrow> length labels < 6 \<Longrightarrow> set labels \<inter> set stop_words = {} \<Longrightarrow>
     distinct (topic_loop ts labels) \<and> length (topic_loop ts labels) \<le> 6 \<and> set (topic_loop ts labels) \<inter> set stop_words = {}"
  by (induction ts arbitrary: labels) (auto simp: Let_def)

lemma topics_facts: "distinct (topics m) \<and> length (topics m) \<le> 6 \<and> topics m \<noteq> [] \<and> set (topics m) \<inter> set stop_words = {}"
proof -
  note f = topic_loop_facts [of "[]" "find_tokens (to_lower m)"]
  show ?thesis
  proof (cases "topic_loop (find_tokens (to_lower m)) []")
    case Nil
    then show ?thesis by (simp add: topics_def) (simp add: stop_words_def)
  next
    case (Cons l ls)
    then show ?thesis using f by (simp add: topics_def)
  qed
qed

text \<open>What a recap leaves in the session states.\<close>

lemma recap_state:
  assumes "record_thread_recap v sha policy record_id now thread_id actor turn message act did dev store ss = Inr (Some st, store', ss')"
  shows "ss' = dput (summary_key sha thread_id (tr_org policy) (tr_site policy)) (PDict [(''summary_state'', PDict st)]) ss"
    "dget_or st ''turn_end'' (PInt 0) = PInt turn" "dget_or st ''topics'' PNone = PList (map PStr (topics message))" "1 \<le> turn" "st \<noteq> []"
    "\<exists>version. dget_or st ''recap_version'' (PInt 0) = PInt version \<and> (case previous_recap (dget_or ss (summary_key sha thread_id (tr_org policy) (tr_site policy)) PNone) of
        Inr (Some d) \<Rightarrow> \<exists>e n. py_int (dget_or d ''turn_end'' (PInt 0)) = Inr e \<and> py_int (dget_or d ''recap_version'' (PInt 0)) = Inr n
          \<and> version = n + 1 \<and> dget st ''turn_start'' = Some (PInt (e + 1)) \<and> e + tr_recap policy \<le> turn
      | Inr None \<Rightarrow> version = 1 \<and> dget st ''turn_start'' = Some (PInt 1)
      | Inl _ \<Rightarrow> False)"
proof -
  define key where "key = summary_key sha thread_id (tr_org policy) (tr_site policy)"
  from assms obtain previous e version store2 counts where p: "previous_recap (dget_or ss key PNone) = Inr previous" "1 \<le> turn"
    "(case previous of None \<Rightarrow> Inr 0 | Some d \<Rightarrow> py_int (dget_or d ''turn_end'' (PInt 0))) = Inr e"
    "(case previous of None \<Rightarrow> Inr 1 | Some d \<Rightarrow> res_bind (py_int (dget_or d ''recap_version'' (PInt 0))) (\<lambda>n. Inr (n + 1))) = Inr version"
    "previous \<noteq> None \<longrightarrow> e + tr_recap policy \<le> turn"
    and st: "st = [(''schema_version'', PStr ''1.0.0''), (''thread_id'', PStr thread_id), (''organization_id'', PStr (tr_org policy)),
                (''site_id'', PStr (tr_site policy)), (''actor_id'', PStr actor), (''status'', PStr ''open''),
                (''summary_record_id'', PStr record_id), (''recap_version'', PInt version), (''turn_start'', PInt (e + 1)),
                (''turn_end'', PInt turn), (''topics'', PList (map PStr (topics message))), (''updated_utc'', PStr now)]
                @ (if truthy dev then [(''device_id'', dev)] else [])" "ss' = dput key (PDict [(''summary_state'', PDict st)]) ss"
    unfolding record_thread_recap_def Let_def key_def [symmetric]
    by (auto split: if_split_asm prod.splits elim!: res_bind_InrE)
  show "ss' = dput (summary_key sha thread_id (tr_org policy) (tr_site policy)) (PDict [(''summary_state'', PDict st)]) ss" using st(2) by (simp add: key_def)
  have get: "dget st ''turn_end'' = Some (PInt turn)" "dget st ''topics'' = Some (PList (map PStr (topics message)))"
    "dget st ''turn_start'' = Some (PInt (e + 1))" "dget st ''recap_version'' = Some (PInt version)" "st \<noteq> []" by (simp_all add: st(1))
  then show "dget_or st ''turn_end'' (PInt 0) = PInt turn" "dget_or st ''topics'' PNone = PList (map PStr (topics message))" "1 \<le> turn" "st \<noteq> []"
    using p(2) by simp_all
  show "\<exists>version. dget_or st ''recap_version'' (PInt 0) = PInt version \<and> (case previous_recap (dget_or ss (summary_key sha thread_id (tr_org policy) (tr_site policy)) PNone) of
        Inr (Some d) \<Rightarrow> \<exists>e n. py_int (dget_or d ''turn_end'' (PInt 0)) = Inr e \<and> py_int (dget_or d ''recap_version'' (PInt 0)) = Inr n
          \<and> version = n + 1 \<and> dget st ''turn_start'' = Some (PInt (e + 1)) \<and> e + tr_recap policy \<le> turn
      | Inr None \<Rightarrow> version = 1 \<and> dget st ''turn_start'' = Some (PInt 1)
      | Inl _ \<Rightarrow> False)"
    using p get(3,4) unfolding key_def [symmetric] by (cases previous) (auto elim!: res_bind_InrE)
qed

text \<open>C34: recaps of a thread keep their interval: after a recap at a turn, a recap at an earlier turn is refused, one before
  the interval has passed changes nothing, and the next one that is recorded comes at least an interval later,
  continues at the following turn and has the next version; a recap keeps at most six distinct topic words.\<close>

theorem recap_interval:
  assumes "record_thread_recap v sha policy record_id now thread_id actor turn message act did dev store ss = Inr (Some st, store', ss')"
    and "1 \<le> tr_recap policy"
  shows "let again = (\<lambda>t. record_thread_recap v2 sha policy record_id2 now2 thread_id actor2 t message2 act2 did2 dev2 store2 ss') in
      (\<forall>t < turn. again t = Inl ValueError) \<and> (\<forall>t. turn \<le> t \<and> t < turn + tr_recap policy \<longrightarrow> again t = Inr (None, store2, ss'))
      \<and> (\<forall>t st2 x y. again t = Inr (Some st2, x, y) \<longrightarrow> turn + tr_recap policy \<le> t \<and> dget st2 ''turn_start'' = Some (PInt (turn + 1))
           \<and> (\<exists>n. dget_or st ''recap_version'' (PInt 0) = PInt n \<and> dget_or st2 ''recap_version'' (PInt 0) = PInt (n + 1)))
      \<and> (\<exists>ls. dget_or st ''topics'' PNone = PList (map PStr ls) \<and> distinct ls \<and> length ls \<le> 6 \<and> set ls \<inter> set stop_words = {})"
proof -
  note r = recap_state [OF assms(1)]
  define key where "key = summary_key sha thread_id (tr_org policy) (tr_site policy)"
  have prev: "previous_recap (dget_or ss' key PNone) = Inr (Some st)"
    using r(5) by (cases st) (simp_all add: r(1) key_def [symmetric] previous_recap_def dget_or_def)
  have e: "py_int (dget_or st ''turn_end'' (PInt 0)) = Inr turn" by (simp add: r(2))
  define again where "again = (\<lambda>t. record_thread_recap v2 sha policy record_id2 now2 thread_id actor2 t message2 act2 did2 dev2 store2 ss')"
  have early: "again t = Inl ValueError" if "t < turn" for t
    using that unfolding again_def record_thread_recap_def Let_def key_def [symmetric] prev by (simp add: e)
  have quiet: "again t = Inr (None, store2, ss')" if "turn \<le> t" "t < turn + tr_recap policy" for t
    using that r(4) unfolding again_def record_thread_recap_def Let_def key_def [symmetric] prev by (simp add: e)
  obtain n where n: "dget_or st ''recap_version'' (PInt 0) = PInt n" using r(6) by blast
  have "turn + tr_recap policy \<le> t \<and> dget st2 ''turn_start'' = Some (PInt (turn + 1)) \<and> dget_or st2 ''recap_version'' (PInt 0) = PInt (n + 1)"
    if "again t = Inr (Some st2, x, y)" for t st2 x y
    using recap_state(6) [OF that [unfolded again_def]] by (auto simp: key_def [symmetric] prev e n r(2))
  then show ?thesis using early quiet n r(3) topics_facts [of message] unfolding Let_def again_def [symmetric] by blast
qed

section \<open>Witnesses\<close>

definition sample_routing_doc :: pydict where
  "sample_routing_doc = sample_policy_doc []"

definition empty_routing :: routing_state where
  "empty_routing = \<lparr>rs_pending = [], rs_consumed = [], rs_sessions = [], rs_log = []\<rparr>"

theorem routing_decision_in_scope_witness:
  "\<exists>d s'. preflight_thread_route sample_memory ''orders'' sample_thread_policy ''ann'' None ''d1'' ''new'' sample_index = Inr (d, s')
     \<and> rd_action d = Attach_Existing \<and> rd_thread d = ''t1''
     \<and> list_ex (\<lambda>c. ck_thread c = PStr ''t1'' \<and> ck_site c = PStr ''north'') (vs_chunks s')"
proof -
  let ?p = "preflight_thread_route sample_memory ''orders'' sample_thread_policy ''ann'' None ''d1'' ''new'' sample_index"
  have "case ?p of Inr (d, s') \<Rightarrow> rd_action d = Attach_Existing \<and> rd_thread d = ''t1'' \<and> map tc_thread (rd_candidates d) = [''t1''] | Inl _ \<Rightarrow> False" by code_simp
  then obtain d s' where p: "?p = Inr (d, s')" "rd_action d = Attach_Existing" "rd_thread d = ''t1''" "map tc_thread (rd_candidates d) = [''t1'']"
    by (auto split: sum.splits)
  then obtain k where k: "k \<in> set (rd_candidates d)" "tc_thread k = ''t1''" by (cases "rd_candidates d") auto
  have rank: "ranking (re_top sample_memory)" by (auto simp: ranking_def sample_memory_def)
  from routing_decision_in_scope [OF p(1) rank] k show ?thesis
    using p by (intro exI conjI) (auto simp: list_ex_iff sample_thread_policy_def)
qed

definition sample_route :: "routing_state \<Rightarrow> routing_decision http \<times> routing_state" where
  "sample_route s = route_preflight sample_request sample_memory sample_routing_doc sample_context ''ann'' ''new topic'' None None (new_vstore None) s"

definition sample_settle :: "routing_state \<Rightarrow> (routing_decision \<times> binding) http \<times> routing_state" where
  "sample_settle s = route_confirm sample_request 11 (\<lambda>x. x) sample_context ''ann'' ''id0'' ''accept'' s"

lemma sample_route_run: "routing_run (snd (sample_route empty_routing)) [''id0''] []"
proof -
  have q: "qe_fresh sample_request 0 = ''id0''" by code_simp
  have i: "routing_issue empty_routing ''id0'' (snd (sample_route empty_routing))"
    unfolding q [symmetric] by (rule routing_issue.intros, unfold sample_route_def) (rule prod.collapse [symmetric])
  have "routing_run empty_routing [] []" by (rule one_shot_run.started) (simp add: routing_init_def empty_routing_def)
  with i show ?thesis
    by (intro one_shot_run.issued [where s = empty_routing and i = "''id0''" and xs = "[]" and ss = "[]" and s' = "snd (sample_route empty_routing)"]) simp_all
qed

lemma sample_settled:
  "\<exists>sel b s'. route_confirm sample_request 11 (\<lambda>x. x) sample_context ''ann'' ''id0'' ''accept'' (snd (sample_route empty_routing)) = (Inr (sel, b), s')
     \<and> rd_action sel = Create_New \<and> rd_thread sel = ''thread-id1'' \<and> bd_session b = ''id3''"
proof -
  have "case sample_settle (snd (sample_route empty_routing)) of (Inr (sel, b), s') \<Rightarrow> rd_action sel = Create_New \<and> rd_thread sel = ''thread-id1'' \<and> bd_session b = ''id3''
      | (Inl _, _) \<Rightarrow> False" by code_simp
  then show ?thesis unfolding sample_settle_def by (auto split: prod.splits sum.splits)
qed

theorem routing_settled_once_witness:
  "\<exists>b (s' :: routing_state). load_thread_session_binding (\<lambda>x. x) (rs_sessions s') ''thread-id1'' ''acme'' ''north'' = Inr (Some b) \<and> bd_actor b = ''ann'' \<and> bd_session b = ''id3''"
proof -
  obtain sel b s' where c: "route_confirm sample_request 11 (\<lambda>x. x) sample_context ''ann'' ''id0'' ''accept'' (snd (sample_route empty_routing)) = (Inr (sel, b), s')"
    "rd_thread sel = ''thread-id1''" "bd_session b = ''id3''" using sample_settled by blast
  from routing_settled_once [OF sample_route_run c(1)] show ?thesis
    by (intro exI [of _ b] exI [of _ s']) (auto simp: sample_context_def c(2,3))
qed

theorem thread_bindings_stable_witness:
  "\<exists>s b. routing_run s [''id0''] [''id0''] \<and> load_thread_session_binding (\<lambda>x. x) (rs_sessions (snd (sample_route s))) ''thread-id1'' ''acme'' ''north'' = Inr (Some b)"
proof -
  obtain sel b s' where c: "route_confirm sample_request 11 (\<lambda>x. x) sample_context ''ann'' ''id0'' ''accept'' (snd (sample_route empty_routing)) = (Inr (sel, b), s')"
    "rd_thread sel = ''thread-id1''" using sample_settled by blast
  have run: "routing_run s' [''id0''] [''id0'']"
    by (rule one_shot_run.settled [OF sample_route_run]) (rule routing_settle.intros [OF c(1)])
  have "routing_ok (snd (sample_route empty_routing))" using routing_run_ok [OF sample_route_run] by blast
  from route_confirm_effect(3) [OF c(1) this refl]
  have l: "load_thread_session_binding (\<lambda>x. x) (rs_sessions s') ''thread-id1'' ''acme'' ''north'' = Inr (Some b)" by (auto simp: c(2) sample_context_def)
  have "routing_step s' (snd (sample_route s'))"
    by (rule routing_step.preflighted, rule routing_issue.intros, unfold sample_route_def) (rule prod.collapse [symmetric])
  then have "routing_step\<^sup>*\<^sup>* s' (snd (sample_route s'))" by (rule r_into_rtranclp)
  from thread_bindings_stable [OF run this l] run show ?thesis by blast
qed

definition sample_recap :: "int \<Rightarrow> sessions \<Rightarrow> (pydict option \<times> pyfloat list vstore \<times> sessions) res" where
  "sample_recap turn ss = record_thread_recap sample_memory (\<lambda>x. x) sample_thread_policy ''r1'' ''now'' ''t1'' ''ann'' turn ''Please reorder the blue paper, reorder'' ''reply''
     PNone PNone (new_vstore None) ss"

theorem recap_interval_witness:
  "\<exists>st store ss. sample_recap 3 [] = Inr (Some st, store, ss) \<and> dget st ''topics'' = Some (PList [PStr ''reorder'', PStr ''blue'', PStr ''paper''])
     \<and> sample_recap 2 ss = Inl ValueError \<and> sample_recap 7 ss = Inr (None, new_vstore None, ss)"
proof -
  have "case sample_recap 3 [] of Inr (Some st, store, ss) \<Rightarrow> dget st ''topics'' = Some (PList [PStr ''reorder'', PStr ''blue'', PStr ''paper'']) | _ \<Rightarrow> False"
    by code_simp
  then obtain st store ss where r: "sample_recap 3 [] = Inr (Some st, store, ss)" "dget st ''topics'' = Some (PList [PStr ''reorder'', PStr ''blue'', PStr ''paper''])"
    by (auto split: sum.splits option.splits)
  have lim: "1 \<le> tr_recap sample_thread_policy" "tr_recap sample_thread_policy = 5" by (simp_all add: sample_thread_policy_def)
  have again: "sample_recap t ss = record_thread_recap sample_memory (\<lambda>x. x) sample_thread_policy ''r1'' ''now'' ''t1'' ''ann'' t
      ''Please reorder the blue paper, reorder'' ''reply'' PNone PNone (new_vstore None) ss" for t by (simp add: sample_recap_def)
  note i = recap_interval [where ?v2.0 = sample_memory and ?record_id2.0 = "''r1''" and ?now2.0 = "''now''" and ?actor2.0 = "''ann''"
      and ?message2.0 = "''Please reorder the blue paper, reorder''" and ?act2.0 = "''reply''" and ?did2.0 = PNone and ?dev2.0 = PNone and ?store2.0 = "new_vstore None",
      OF r(1) [unfolded sample_recap_def] lim(1), unfolded Let_def again [symmetric] lim(2)]
  have "sample_recap 2 ss = Inl ValueError" by (rule conjunct1 [OF i, THEN spec, THEN mp]) simp
  moreover have "sample_recap 7 ss = Inr (None, new_vstore None, ss)" by (rule conjunct1 [OF conjunct2 [OF i], THEN spec, THEN mp]) simp
  ultimately show ?thesis using r by blast
qed

end
