(* ===== verification/Plan_Dag.thy ===== *)
theory Plan_Dag
  imports Py_Values "HOL-Library.Char_ord" "HOL-Library.List_Lexorder" "HOL-Library.Multiset"
begin

text \<open>
  The plans of the coding-agent pack, \<^verbatim>\<open>model-packs/coding-agent/domain-lib\<close>: nodes with dependencies, the two
  topological sorts of \<^verbatim>\<open>tier2_decomposer.py\<close> and \<^verbatim>\<open>dag_validator.py\<close>, the validation of a plan, the nodes that are
  ready, and the task slices made of it. Dependencies stay dynamic values, as the decomposer takes them from the job.
  The sorts are one loop, with or without sorting of the queue; its correctness is proved against a
  specification that determines the result.
\<close>

section \<open>Plans\<close>

record plan_node =
  pn_id :: string
  pn_desc :: string
  pn_deps :: "pyval list"
  pn_tier :: int
  pn_action :: string
  pn_parent :: string

text \<open>\<open>{n.node_id: n for n in nodes}\<close>: of nodes with the same id the last one counts.\<close>

definition node_dict :: "plan_node list \<Rightarrow> (string, plan_node) dict" where
  "node_dict nodes = fold (\<lambda>n. dput (pn_id n) n) nodes []"

definition node_ids :: "plan_node list \<Rightarrow> string list" where
  "node_ids nodes = dkeys (node_dict nodes)"

text \<open>\<open>dep in nodes\<close>: the keys are strings, and an unhashable value raises.\<close>

definition names :: "string list \<Rightarrow> pyval \<Rightarrow> string option res" where
  "names ids v = (if \<not> hashable v then Inl TypeError else Inr (case v of PStr s \<Rightarrow> if s \<in> set ids then Some s else None | _ \<Rightarrow> None))"

fun known_deps :: "string list \<Rightarrow> pyval list \<Rightarrow> string list res" where
  "known_deps ids [] = Inr []"
| "known_deps ids (v # vs) = res_bind (names ids v) (\<lambda>s. res_bind (known_deps ids vs) (\<lambda>ss.
     Inr (case s of None \<Rightarrow> ss | Some d \<Rightarrow> d # ss)))"

text \<open>The pairs of a known dependency and its dependent, in the order in which both sorts visit them.\<close>

definition dag_edges :: "plan_node list \<Rightarrow> (string \<times> string) list res" where
  "dag_edges nodes = res_bind (map_res (\<lambda>n. res_bind (known_deps (node_ids nodes) (pn_deps n)) (\<lambda>ds. Inr (map (\<lambda>d. (d, pn_id n)) ds))) nodes)
     (\<lambda>ess. Inr (concat ess))"

section \<open>The sorts\<close>

definition kids :: "(string \<times> string) list \<Rightarrow> string \<Rightarrow> string list" where
  "kids es d = map snd (filter (\<lambda>e. fst e = d) es)"

definition indegrees :: "string list \<Rightarrow> (string \<times> string) list \<Rightarrow> (string, int) dict" where
  "indegrees ids es = map (\<lambda>i. (i, int (length (filter (\<lambda>e. snd e = i) es)))) ids"

definition in_order :: "bool \<Rightarrow> string list \<Rightarrow> string list" where
  "in_order st xs = (if st then sort xs else xs)"

text \<open>One pass over the children of a node: a child whose last open dependency was the node becomes ready.\<close>

fun relax :: "string list \<Rightarrow> (string, int) dict \<Rightarrow> string list \<Rightarrow> (string, int) dict \<times> string list" where
  "relax [] indeg ready = (indeg, ready)"
| "relax (c # cs) indeg ready =
     (let k = dget_or indeg c 0 - 1 in relax cs (dput c k indeg) (if k = 0 then ready @ [c] else ready))"

definition open_nodes :: "(string, int) dict \<Rightarrow> nat" where
  "open_nodes indeg = length (filter (\<lambda>(_, k). 0 < k) indeg)"

lemma open_nodes_simps [simp]:
  "open_nodes [] = 0" "open_nodes ((c, k) # d) = (if 0 < k then 1 else 0) + open_nodes d"
  by (simp_all add: open_nodes_def)

lemma open_nodes_dput:
  "open_nodes (dput c (dget_or d c 0 - 1) d) + (if dget_or d c 0 = 1 then 1 else 0) = open_nodes d"
  by (induction d) (auto simp: dget_or_def split: option.splits)

lemma relax_measure: "relax cs indeg ready = (indeg', ready') \<Longrightarrow> length ready' + open_nodes indeg' = length ready + open_nodes indeg"
proof (induction cs arbitrary: indeg ready)
  case (Cons c cs)
  show ?case using Cons.IH [OF Cons.prems [unfolded relax.simps Let_def]] open_nodes_dput [of c indeg] by (simp split: if_splits)
qed simp

function kahn :: "bool \<Rightarrow> (string \<times> string) list \<Rightarrow> string list \<Rightarrow> (string, int) dict \<Rightarrow> string list" where
  "kahn st es [] indeg = []"
| "kahn st es (c # ready) indeg =
     (let (indeg', ready') = relax (in_order st (kids es c)) indeg ready in c # kahn st es (in_order st ready') indeg')"
  by pat_completeness auto

termination
  by (relation "measure (\<lambda>(st, es, ready, indeg). length ready + open_nodes indeg)")
    (auto simp: in_order_def dest!: relax_measure [OF sym])

definition kahn_order :: "bool \<Rightarrow> string list \<Rightarrow> (string \<times> string) list \<Rightarrow> string list" where
  "kahn_order st ids es = (let indeg = indegrees ids es in kahn st es (in_order st (filter (\<lambda>i. dget_or indeg i 0 = 0) ids)) indeg)"

definition sort_with :: "bool \<Rightarrow> plan_node list \<Rightarrow> plan_node list res" where
  "sort_with st nodes = res_bind (dag_edges nodes) (\<lambda>es.
     let order = kahn_order st (node_ids nodes) es in
     if length order \<noteq> length (node_ids nodes) then Inl ValueError
     else map_res (\<lambda>i. case dget (node_dict nodes) i of None \<Rightarrow> Inl KeyError | Some n \<Rightarrow> Inr n) order)"

definition topological_sort :: "plan_node list \<Rightarrow> plan_node list res" where
  "topological_sort = sort_with False"

definition stable_topological_sort :: "plan_node list \<Rightarrow> plan_node list res" where
  "stable_topological_sort = sort_with True"

section \<open>Correctness of the loop\<close>

text \<open>What may come next: a node that is not done and whose dependencies are.\<close>

definition available :: "string list \<Rightarrow> (string \<times> string) list \<Rightarrow> string list \<Rightarrow> string set" where
  "available ids es done_ids = {n \<in> set ids - set done_ids. \<forall>d. (d, n) \<in> set es \<longrightarrow> d \<in> set done_ids}"

text \<open>An order that always continues with an available node, the smallest one if it is stable.\<close>

definition orders :: "bool \<Rightarrow> string list \<Rightarrow> (string \<times> string) list \<Rightarrow> string list \<Rightarrow> string list \<Rightarrow> bool" where
  "orders st ids es before xs \<longleftrightarrow> (\<forall>i < length xs. xs ! i \<in> available ids es (before @ take i xs)
      \<and> (st \<longrightarrow> (\<forall>m \<in> available ids es (before @ take i xs). xs ! i \<le> m)))"

lemma orders_Nil [simp]: "orders st ids es before []"
  by (simp add: orders_def)

lemma orders_Cons:
  "orders st ids es before (x # xs) \<longleftrightarrow> x \<in> available ids es before \<and> (st \<longrightarrow> (\<forall>m \<in> available ids es before. x \<le> m))
     \<and> orders st ids es (before @ [x]) xs"
  unfolding orders_def by (auto simp: All_less_Suc2)


text \<open>The loop keeps, for each node, the number of its open dependencies.\<close>

definition counts_ok :: "string list \<Rightarrow> (string \<times> string) list \<Rightarrow> string list \<Rightarrow> (string, int) dict \<Rightarrow> bool" where
  "counts_ok ids es before indeg \<longleftrightarrow> (\<forall>n \<in> set ids. dget_or indeg n 0 = int (length (filter (\<lambda>e. snd e = n \<and> fst e \<notin> set before) es)))"

lemma relax_counts:
  assumes "relax cs indeg ready = (indeg', ready')" "\<forall>n. int (count_list cs n) \<le> dget_or indeg n 0 \<or> n \<notin> set cs"
    and "distinct ready" "\<forall>n \<in> set ready. n \<notin> set cs"
  shows "(\<forall>n. dget_or indeg' n 0 = dget_or indeg n 0 - int (count_list cs n)) \<and> distinct ready' \<and> set ready' = set ready \<union> {n \<in> set cs. dget_or indeg n 0 = int (count_list cs n)}"
  using assms
proof (induction cs arbitrary: indeg ready)
  case (Cons c cs)
  define i1 where "i1 = dput c (dget_or indeg c 0 - 1) indeg"
  have i1: "dget_or i1 n 0 = (if n = c then dget_or indeg c 0 - 1 else dget_or indeg n 0)" for n
    by (simp add: i1_def dget_or_def)
  have c1: "1 \<le> dget_or indeg c 0" using Cons.prems(2) [rule_format, of c] by auto
  define r1 where "r1 = (if dget_or indeg c 0 - 1 = 0 then ready @ [c] else ready)"
  have r: "relax cs i1 r1 = (indeg', ready')" using Cons.prems(1) by (simp add: Let_def i1_def r1_def)
  have le: "\<forall>n. int (count_list cs n) \<le> dget_or i1 n 0 \<or> n \<notin> set cs"
    using Cons.prems(2) by (auto simp: i1 split: if_splits)
  have c0: "c \<notin> set cs" if "dget_or indeg c 0 = 1"
    using Cons.prems(2) [rule_format, of c] that count_list_0_iff [of cs c] by auto
  have d: "distinct r1" "\<forall>n \<in> set r1. n \<notin> set cs" using Cons.prems(3,4) c0 by (auto simp: r1_def)
  have IH: "dget_or indeg' n 0 = dget_or i1 n 0 - int (count_list cs n)"
    "distinct ready' \<and> set ready' = set r1 \<union> {n \<in> set cs. dget_or i1 n 0 = int (count_list cs n)}" for n
    using Cons.IH [OF r le d] by blast+
  have "set r1 \<union> {n \<in> set cs. dget_or i1 n 0 = int (count_list cs n)} =
      set ready \<union> {n \<in> set (c # cs). dget_or indeg n 0 = int (count_list (c # cs) n)}"
    using c0 count_list_0_iff [of cs c] by (auto simp: r1_def i1)
  with IH show ?case by (simp add: i1)
qed simp_all

lemma count_kids: "count_list (kids es c) n = length (filter (\<lambda>e. snd e = n \<and> fst e = c) es)"
  by (induction es) (auto simp: kids_def)

lemma in_order_simps [simp]:
  "count_list (in_order st xs) n = count_list xs n" "set (in_order st xs) = set xs" "distinct (in_order st xs) = distinct xs"
  "length (in_order st xs) = length xs"
  by (simp_all add: in_order_def) (metis count_mset mset_sort)


lemma kahn_step:
  assumes c: "counts_ok ids es before indeg" and d: "distinct (before @ c # ready)" and r: "set (c # ready) = available ids es before"
    and e: "snd ` set es \<subseteq> set ids" and closed: "\<forall>d n. (d, n) \<in> set es \<longrightarrow> n \<in> set before \<longrightarrow> d \<in> set before"
    and x: "relax (in_order st (kids es c)) indeg ready = (indeg', ready')"
  shows "counts_ok ids es (before @ [c]) indeg'" "distinct ready'" "set ready' = available ids es (before @ [c])"
proof -
  let ?open = "\<lambda>b n. length (filter (\<lambda>e. snd e = n \<and> fst e \<notin> b) es)"
  have split: "?open (set before) n = ?open (insert c (set before)) n + count_list (kids es c) n" for n
    using d by (induction es) (auto simp: kids_def)
  have own: "n \<in> set (kids es c) \<longleftrightarrow> (c, n) \<in> set es" for n by (auto simp: kids_def image_iff)
  have le: "\<forall>n. int (count_list (in_order st (kids es c)) n) \<le> dget_or indeg n 0 \<or> n \<notin> set (in_order st (kids es c))"
    using c e own split by (auto simp: counts_ok_def)
  have no: "\<forall>n \<in> set ready. n \<notin> set (in_order st (kids es c))"
  proof
    fix n assume "n \<in> set ready"
    then have "n \<in> available ids es before" using r by auto
    moreover have "c \<notin> set before" using d by auto
    ultimately show "n \<notin> set (in_order st (kids es c))" by (auto simp: own available_def)
  qed
  from relax_counts [OF x le _ no] d have R: "dget_or indeg' n 0 = dget_or indeg n 0 - int (count_list (kids es c) n)"
    "distinct ready'" "set ready' = set ready \<union> {n \<in> set (kids es c). dget_or indeg n 0 = int (count_list (kids es c) n)}" for n
    by auto
  show counts: "counts_ok ids es (before @ [c]) indeg'" using c split by (simp add: counts_ok_def R(1))
  show "distinct ready'" by (rule R(2))
  have zero: "?open b n = 0 \<longleftrightarrow> (\<forall>d. (d, n) \<in> set es \<longrightarrow> d \<in> b)" for b n by (auto simp: filter_empty_conv)
  have "n \<in> set ready' \<longleftrightarrow> n \<in> available ids es (before @ [c])" for n
  proof (cases "(c, n) \<in> set es")
    case True
    then have n: "n \<in> set ids" using e by force
    have "n \<notin> set before" "n \<noteq> c" "n \<notin> set ready" using True closed d r by (auto simp: available_def)
    moreover have "dget_or indeg n 0 = int (count_list (kids es c) n) \<longleftrightarrow> ?open (insert c (set before)) n = 0"
      using c n split [of n] by (simp add: counts_ok_def)
    ultimately show ?thesis using True n own zero [of n "insert c (set before)"] by (auto simp: R(3) available_def)
  next
    case False
    have "n \<in> set ready \<longleftrightarrow> n \<in> available ids es before \<and> n \<noteq> c" using r d by auto
    with False own show ?thesis by (auto simp: R(3) available_def)
  qed
  then show "set ready' = available ids es (before @ [c])" by blast
qed

lemma kahn_correct:
  assumes "counts_ok ids es before indeg" "distinct (before @ ready)" "set ready = available ids es before"
    "st \<longrightarrow> sorted ready" "snd ` set es \<subseteq> set ids" "\<forall>d n. (d, n) \<in> set es \<longrightarrow> n \<in> set before \<longrightarrow> d \<in> set before"
  shows "orders st ids es before (kahn st es ready indeg) \<and> distinct (before @ kahn st es ready indeg)
    \<and> available ids es (before @ kahn st es ready indeg) = {}"
  using assms
proof (induction st es ready indeg arbitrary: before rule: kahn.induct)
  case (1 st es indeg)
  then show ?case by simp
next
  case (2 st es c ready indeg)
  obtain indeg' ready' where x: "relax (in_order st (kids es c)) indeg ready = (indeg', ready')" by fastforce
  note step = kahn_step [OF 2(2,3,4) 2(6,7) x]
  have ca: "c \<in> available ids es before" using 2(4) by auto
  have disj: "set (before @ [c]) \<inter> set ready' = {}" by (auto simp: step(3) available_def)
  have cl: "\<forall>d n. (d, n) \<in> set es \<longrightarrow> n \<in> set (before @ [c]) \<longrightarrow> d \<in> set (before @ [c])"
    using 2(7) ca by (auto simp: available_def)
  have "orders st ids es (before @ [c]) (kahn st es (in_order st ready') indeg') \<and> distinct ((before @ [c]) @ kahn st es (in_order st ready') indeg')
    \<and> available ids es ((before @ [c]) @ kahn st es (in_order st ready') indeg') = {}"
    by (rule 2(1) [OF x [symmetric] refl]) (use step 2(3,6) cl disj in \<open>auto simp: in_order_def\<close>)
  moreover have "\<forall>m \<in> available ids es before. c \<le> m" if st using 2(5) that 2(4) by (auto simp: set_eq_iff)
  ultimately show ?case using x ca by (simp add: orders_Cons)
qed


text \<open>From the start: the order is complete exactly if there is no cycle.\<close>

lemma orders_prefix:
  assumes "orders st ids es [] xs" "i < length xs" "(d, xs ! i) \<in> set es"
  shows "\<exists>j < i. xs ! j = d"
proof -
  from assms have "d \<in> set (take i xs)" by (auto simp: orders_def available_def)
  then show ?thesis using assms(2) by (auto simp: in_set_conv_nth)
qed

lemma complete_acyclic:
  assumes "orders st ids es [] xs" "set xs = set ids" "snd ` set es \<subseteq> set ids"
  shows "acyclic (set es)"
proof -
  have "wf (set es)"
  proof (rule wf_subset [OF wf_measure [of "\<lambda>n. LEAST i. i < length xs \<and> xs ! i = n"]], safe)
    fix d n assume e: "(d, n) \<in> set es"
    then have "n \<in> set xs" using assms(2,3) by force
    then have "\<exists>i. i < length xs \<and> xs ! i = n" by (simp add: in_set_conv_nth)
    then have i: "(LEAST i. i < length xs \<and> xs ! i = n) < length xs \<and> xs ! (LEAST i. i < length xs \<and> xs ! i = n) = n" by (rule LeastI_ex)
    from orders_prefix [OF assms(1) conjunct1 [OF i]] e i obtain j where j: "j < (LEAST i. i < length xs \<and> xs ! i = n)" "xs ! j = d" by auto
    have "(LEAST i. i < length xs \<and> xs ! i = d) \<le> j" using i j by (intro Least_le) simp
    with j(1) show "(d, n) \<in> measure (\<lambda>n. LEAST i. i < length xs \<and> xs ! i = n)" by (simp add: le_less_trans)
  qed
  then show ?thesis by (rule wf_acyclic)
qed

lemma acyclic_complete:
  assumes "available ids es xs = {}" "acyclic (set es)" "fst ` set es \<subseteq> set ids"
  shows "set ids \<subseteq> set xs"
proof
  fix n assume "n \<in> set ids"
  have "wf (set es)" using assms(2) by (simp add: finite_acyclic_wf)
  then show "n \<in> set xs" using \<open>n \<in> set ids\<close>
  proof (induction n rule: wf_induct_rule)
    case (less n)
    then have "\<forall>d. (d, n) \<in> set es \<longrightarrow> d \<in> set xs" using assms(3) by force
    with less.prems assms(1) show ?case by (auto simp: available_def)
  qed
qed

lemma dget_indegrees: "i \<in> set ids \<Longrightarrow> dget_or (indegrees ids es) i 0 = int (length (filter (\<lambda>e. snd e = i) es))"
  by (induction ids) (auto simp: indegrees_def dget_or_def)

lemma kahn_order_correct:
  assumes "distinct ids" "fst ` set es \<subseteq> set ids" "snd ` set es \<subseteq> set ids"
  shows "orders st ids es [] (kahn_order st ids es)" "distinct (kahn_order st ids es)" "set (kahn_order st ids es) \<subseteq> set ids"
    "length (kahn_order st ids es) = length ids \<longleftrightarrow> acyclic (set es)"
    "length (kahn_order st ids es) = length ids \<Longrightarrow> set (kahn_order st ids es) = set ids"
proof -
  let ?f = "filter (\<lambda>i. dget_or (indegrees ids es) i 0 = 0) ids" and ?r = "kahn_order st ids es"
  have zero: "set ?f = available ids es []" by (fastforce simp: available_def dget_indegrees filter_empty_conv)
  have r: "orders st ids es [] ?r \<and> distinct ([] @ ?r) \<and> available ids es ([] @ ?r) = {}"
    unfolding kahn_order_def Let_def
    by (rule kahn_correct) (use assms zero in \<open>auto simp: counts_ok_def dget_indegrees in_order_def\<close>)
  then show o: "orders st ids es [] ?r" and d: "distinct ?r" by auto
  show sub: "set ?r \<subseteq> set ids" using o by (force simp: orders_def available_def in_set_conv_nth)
  have full: "length ?r = length ids \<longleftrightarrow> set ?r = set ids"
    using sub assms(1) d by (metis card_subset_eq distinct_card finite_set)
  then show "length ?r = length ids \<longleftrightarrow> acyclic (set es)"
    using complete_acyclic [OF o _ assms(3)] acyclic_complete [of ids es ?r] r assms(2) sub by auto
  show "length ?r = length ids \<Longrightarrow> set ?r = set ids" using full by simp
qed

text \<open>The stable order is determined by the nodes and the dependencies alone.\<close>

lemma orders_stable_unique:
  assumes "orders True ids es before xs" "orders True ids' es' before ys" "set ids = set ids'" "set es = set es'" "length xs = length ys"
  shows "xs = ys"
  using assms
proof (induction xs arbitrary: before ys)
  case (Cons x xs)
  then obtain y ys' where ys: "ys = y # ys'" by (cases ys) auto
  have same: "available ids es before = available ids' es' before" using Cons.prems(3,4) by (simp add: available_def)
  have "x = y" using Cons.prems(1,2) same unfolding ys orders_Cons by (metis antisym)
  then show ?case using Cons by (auto simp: ys orders_Cons)
qed simp


section \<open>Correctness of the sorts\<close>

definition plan_rel :: "plan_node list \<Rightarrow> (string \<times> string) set" where
  "plan_rel nodes = {(d, pn_id n) |d n. n \<in> set nodes \<and> PStr d \<in> set (pn_deps n) \<and> d \<in> pn_id ` set nodes}"

definition plain_deps :: "plan_node list \<Rightarrow> bool" where
  "plain_deps nodes \<longleftrightarrow> list_all (\<lambda>n. list_all hashable (pn_deps n)) nodes"

lemma node_dict_snoc [simp]: "node_dict (nodes @ [n]) = dput (pn_id n) n (node_dict nodes)"
  by (simp add: node_dict_def)

lemma set_node_ids [simp]: "set (node_ids nodes) = pn_id ` set nodes"
  by (induction nodes rule: rev_induct) (auto simp: node_ids_def node_dict_def [of "[]"])

lemma distinct_node_ids [simp]: "distinct (node_ids nodes)"
proof -
  have "dict_ok (node_dict nodes)" by (induction nodes rule: rev_induct) (simp_all add: node_dict_def [of "[]"])
  then show ?thesis by (simp add: node_ids_def dict_ok_def)
qed

lemma dget_node_dict: "dget (node_dict nodes) i = Some n \<Longrightarrow> pn_id n = i \<and> n \<in> set nodes"
  by (induction nodes rule: rev_induct) (auto simp: node_dict_def [of "[]"] split: if_splits)

lemma dget_node_dict_ex: "i \<in> pn_id ` set nodes \<Longrightarrow> \<exists>n. dget (node_dict nodes) i = Some n"
  using set_node_ids [of nodes] dget_None_iff [of "node_dict nodes" i] by (auto simp: node_ids_def)

lemma known_deps_Inr: "known_deps ids vs = Inr ss \<Longrightarrow> list_all hashable vs \<and> set ss = {d. PStr d \<in> set vs \<and> d \<in> set ids}"
  by (induction vs arbitrary: ss) (auto simp: names_def elim!: res_bind_InrE split: if_split_asm pyval.splits)

lemma known_deps_total: "list_all hashable vs \<Longrightarrow> \<exists>ss. known_deps ids vs = Inr ss"
  by (induction vs) (auto simp: names_def)

lemma map_res_Inr_all: "map_res f xs = Inr ys \<Longrightarrow> length ys = length xs \<and> (\<forall>i < length xs. f (xs ! i) = Inr (ys ! i))"
proof (induction xs arbitrary: ys)
  case (Cons x xs)
  from Cons.prems obtain y zs where "f x = Inr y" "map_res f xs = Inr zs" "ys = y # zs" by (auto elim!: res_bind_InrE)
  with Cons.IH show ?case by (auto simp: nth_Cons split: nat.splits)
qed simp

lemma map_res_set: "map_res f xs = Inr ys \<Longrightarrow> set ys = {y. \<exists>x \<in> set xs. f x = Inr y}"
  by (induction xs arbitrary: ys) (auto elim!: res_bind_InrE)

lemma dag_edges_Inr:
  assumes "dag_edges nodes = Inr es"
  shows "plain_deps nodes" "set es = plan_rel nodes"
proof -
  let ?f = "\<lambda>n. res_bind (known_deps (node_ids nodes) (pn_deps n)) (\<lambda>ds. Inr (map (\<lambda>d. (d, pn_id n)) ds))"
  from assms obtain ess where m: "map_res ?f nodes = Inr ess" "es = concat ess" by (auto simp: dag_edges_def elim!: res_bind_InrE)
  have all: "\<exists>y. ?f n = Inr y" if "n \<in> set nodes" for n
    using map_res_Inr_all [OF m(1)] that by (metis in_set_conv_nth)
  have "list_all hashable (pn_deps n)" if n: "n \<in> set nodes" for n
  proof -
    obtain ss where "known_deps (node_ids nodes) (pn_deps n) = Inr ss" using all [OF n] by (auto elim!: res_bind_InrE)
    then show ?thesis by (simp add: known_deps_Inr)
  qed
  then show "plain_deps nodes" by (simp add: plain_deps_def list_all_iff)
  have y: "{e. \<exists>y. ?f n = Inr y \<and> e \<in> set y} = {(d, pn_id n) |d. PStr d \<in> set (pn_deps n) \<and> d \<in> pn_id ` set nodes}"
    if n: "n \<in> set nodes" for n
  proof -
    obtain ss where ss: "known_deps (node_ids nodes) (pn_deps n) = Inr ss" using all [OF n] by (auto elim!: res_bind_InrE)
    then show ?thesis using known_deps_Inr [OF ss] by auto
  qed
  have "set es = (\<Union>n \<in> set nodes. {e. \<exists>y. ?f n = Inr y \<and> e \<in> set y})"
    using map_res_set [OF m(1)] by (auto simp: m(2))
  also have "\<dots> = (\<Union>n \<in> set nodes. {(d, pn_id n) |d. PStr d \<in> set (pn_deps n) \<and> d \<in> pn_id ` set nodes})"
    by (rule SUP_cong [OF refl y])
  also have "\<dots> = plan_rel nodes" by (auto simp: plan_rel_def)
  finally show "set es = plan_rel nodes" .
qed

lemma dag_edges_total: "plain_deps nodes \<Longrightarrow> \<exists>es. dag_edges nodes = Inr es"
proof -
  assume h: "plain_deps nodes"
  have "\<exists>ys. map_res (\<lambda>n. res_bind (known_deps ids (pn_deps n)) (\<lambda>ds. Inr (map (\<lambda>d. (d, pn_id n)) ds))) ns = Inr ys"
    if "set ns \<subseteq> set nodes" for ns ids
    using that
  proof (induction ns)
    case (Cons n ns)
    then obtain ss where "known_deps ids (pn_deps n) = Inr ss"
      using known_deps_total h by (metis list.set_intros(1) list_all_iff plain_deps_def subsetD)
    with Cons show ?case by auto
  qed simp
  from this [OF order_refl, of "node_ids nodes"] show ?thesis by (auto simp: dag_edges_def)
qed

lemma sort_with_cases:
  assumes "dag_edges nodes = Inr es"
  shows "(\<not> acyclic (plan_rel nodes) \<and> sort_with st nodes = Inl ValueError) \<or>
    (acyclic (plan_rel nodes) \<and> (\<exists>ns. sort_with st nodes = Inr ns \<and> map pn_id ns = kahn_order st (node_ids nodes) es \<and> set ns \<subseteq> set nodes
       \<and> orders st (node_ids nodes) es [] (map pn_id ns) \<and> distinct (map pn_id ns) \<and> set (map pn_id ns) = pn_id ` set nodes))"
proof -
  note e = dag_edges_Inr(2) [OF assms]
  have ends: "fst ` set es \<subseteq> set (node_ids nodes)" "snd ` set es \<subseteq> set (node_ids nodes)" by (auto simp: e plan_rel_def)
  note k = kahn_order_correct [OF distinct_node_ids ends, of st, unfolded e]
  let ?o = "kahn_order st (node_ids nodes) es"
  let ?the = "\<lambda>i. the (dget (node_dict nodes) i)"
  have look: "pn_id (?the i) = i" "?the i \<in> set nodes" if "i \<in> pn_id ` set nodes" for i
    using dget_node_dict_ex [OF that] dget_node_dict by auto
  have sub: "set ?o \<subseteq> pn_id ` set nodes" using k(3) by simp
  have m: "map_res (\<lambda>i. case dget (node_dict nodes) i of None \<Rightarrow> Inl KeyError | Some n \<Rightarrow> Inr n) ?o = Inr (map ?the ?o)"
  proof (rule map_res_total)
    fix i assume "i \<in> set ?o"
    with sub obtain n where "dget (node_dict nodes) i = Some n" using dget_node_dict_ex by blast
    then show "(case dget (node_dict nodes) i of None \<Rightarrow> Inl KeyError | Some n \<Rightarrow> Inr n) = Inr (?the i)" by simp
  qed
  have "map (\<lambda>i. pn_id (?the i)) ?o = map (\<lambda>i. i) ?o" by (rule map_cong [OF refl]) (use sub look(1) in blast)
  then have ids: "map pn_id (map ?the ?o) = ?o" by (simp add: o_def)
  have "set (map ?the ?o) \<subseteq> set nodes" using sub look(2) by auto
  moreover have "sort_with st nodes = (if acyclic (plan_rel nodes) then Inr (map ?the ?o) else Inl ValueError)"
    using k(4) m by (auto simp: sort_with_def assms Let_def)
  moreover have "set ?o = pn_id ` set nodes" if "acyclic (plan_rel nodes)" using k(4,5) that by simp
  ultimately show ?thesis using k(1,2) ids by metis
qed


lemma sort_with_Inr:
  assumes "sort_with st nodes = Inr ns"
  obtains es where "dag_edges nodes = Inr es" "set es = plan_rel nodes" "acyclic (plan_rel nodes)" "set ns \<subseteq> set nodes"
    "orders st (node_ids nodes) es [] (map pn_id ns)" "distinct (map pn_id ns)" "set (map pn_id ns) = pn_id ` set nodes"
proof -
  from assms obtain es where es: "dag_edges nodes = Inr es" by (auto simp: sort_with_def elim!: res_bind_InrE)
  have "acyclic (plan_rel nodes) \<and> set ns \<subseteq> set nodes \<and> orders st (node_ids nodes) es [] (map pn_id ns)
      \<and> distinct (map pn_id ns) \<and> set (map pn_id ns) = pn_id ` set nodes"
    using sort_with_cases [OF es, of st] by (elim disjE conjE exE) (simp_all only: assms sum.simps simp_thms)
  then show ?thesis using that [OF es dag_edges_Inr(2) [OF es]] by blast
qed

lemma sort_with_error: "sort_with st nodes = Inl e \<Longrightarrow> plain_deps nodes \<Longrightarrow> e = ValueError \<and> \<not> acyclic (plan_rel nodes)"
  using dag_edges_total [of nodes] sort_with_cases [of nodes _ st] by force

section \<open>Validation and readiness\<close>

text \<open>The first loop reports every id that occurred before.\<close>

fun duplicates :: "string set \<Rightarrow> string list \<Rightarrow> string list" where
  "duplicates seen [] = []"
| "duplicates seen (i # is) = (if i \<in> seen then [i] else []) @ duplicates (insert i seen) is"

definition dangling :: "(pyval \<Rightarrow> string) \<Rightarrow> string list \<Rightarrow> plan_node \<Rightarrow> string list res" where
  "dangling render ids n = fold_res (\<lambda>v acc. res_bind (names ids v) (\<lambda>s.
     Inr (if s = None then acc @ [''dangling_depends_on: '' @ pn_id n @ '' -> '' @ py_str render v] else acc))) (pn_deps n) []"

definition validate_dag :: "(pyval \<Rightarrow> string) \<Rightarrow> plan_node list \<Rightarrow> string list res" where
  "validate_dag render nodes =
     (let ids = map pn_id nodes in
      res_bind (map_res (dangling render ids) nodes) (\<lambda>ds.
        Inr (map ((@) ''duplicate_node_id: '') (duplicates {} ids) @ concat ds
          @ (case stable_topological_sort nodes of Inl _ \<Rightarrow> [''cycle_or_sort_error: cycle detected in PlanDAG''] | Inr _ \<Rightarrow> []))))"

definition deps_done :: "string list \<Rightarrow> plan_node \<Rightarrow> bool" where
  "deps_done completed n \<longleftrightarrow> list_all (\<lambda>v. case v of PStr s \<Rightarrow> s \<in> set completed | _ \<Rightarrow> False) (pn_deps n)"

lemma deps_done_iff: "deps_done completed n \<longleftrightarrow> (\<forall>v \<in> set (pn_deps n). \<exists>d \<in> set completed. v = PStr d)"
proof -
  have "(case v of PStr s \<Rightarrow> s \<in> set completed | _ \<Rightarrow> False) \<longleftrightarrow> (\<exists>d \<in> set completed. v = PStr d)" for v
    by (cases v) auto
  then show ?thesis by (simp add: deps_done_def list_all_iff)
qed

definition ready_node_ids :: "plan_node list \<Rightarrow> string list \<Rightarrow> string list res" where
  "ready_node_ids nodes completed = res_bind (stable_topological_sort nodes) (\<lambda>ordered.
     Inr (map pn_id (filter (\<lambda>n. pn_id n \<notin> set completed \<and> deps_done completed n) ordered)))"

definition valid_plan :: "plan_node list \<Rightarrow> bool" where
  "valid_plan nodes \<longleftrightarrow> distinct (map pn_id nodes) \<and> (\<forall>n \<in> set nodes. \<forall>v \<in> set (pn_deps n). \<exists>m \<in> set nodes. v = PStr (pn_id m))
     \<and> acyclic (plan_rel nodes)"

lemma duplicates_Nil: "duplicates seen is = [] \<longleftrightarrow> distinct is \<and> set is \<inter> seen = {}"
  by (induction "is" arbitrary: seen) auto

lemma dangling_fold:
  "fold_res (\<lambda>v acc. res_bind (names ids v) (\<lambda>s. Inr (if s = None then acc @ [g v] else acc))) vs acc = Inr [] \<longleftrightarrow>
     acc = [] \<and> (\<forall>v \<in> set vs. \<exists>i \<in> set ids. v = PStr i)"
proof (induction vs arbitrary: acc)
  case (Cons v vs)
  show ?case
  proof (cases "names ids v")
    case (Inl e)
    then have "\<not> (\<exists>i \<in> set ids. v = PStr i)" by (auto simp: names_def)
    with Inl show ?thesis by auto
  next
    case (Inr s)
    then have "s \<noteq> None \<longleftrightarrow> (\<exists>i \<in> set ids. v = PStr i)" by (auto simp: names_def split: if_split_asm pyval.splits)
    with Inr Cons.IH show ?thesis by auto
  qed
qed simp

lemma valid_plan_plain: "valid_plan nodes \<Longrightarrow> plain_deps nodes"
  by (fastforce simp: valid_plan_def plain_deps_def list_all_iff)

lemma valid_plan_sort: assumes "valid_plan nodes" shows "\<exists>ns. sort_with st nodes = Inr ns"
  using sort_with_error [OF _ valid_plan_plain [OF assms], of st] assms by (cases "sort_with st nodes") (auto simp: valid_plan_def)

lemma validate_dag_valid: "validate_dag render nodes = Inr [] \<longleftrightarrow> valid_plan nodes"
proof
  assume v: "validate_dag render nodes = Inr []"
  then obtain ds where ds: "map_res (dangling render (map pn_id nodes)) nodes = Inr ds" "concat ds = []"
    "distinct (map pn_id nodes)" "\<exists>ns. stable_topological_sort nodes = Inr ns"
    by (auto simp: validate_dag_def Let_def duplicates_Nil elim!: res_bind_InrE split: sum.splits)
  have "dangling render (map pn_id nodes) n = Inr []" if n: "n \<in> set nodes" for n
    using map_res_Inr_all [OF ds(1)] ds(2) n by (metis concat_eq_Nil_conv in_set_conv_nth)
  then have "\<forall>v \<in> set (pn_deps n). \<exists>m \<in> set nodes. v = PStr (pn_id m)" if "n \<in> set nodes" for n
    using that by (auto simp: dangling_def dangling_fold)
  moreover have "acyclic (plan_rel nodes)" using ds(4) by (auto simp: stable_topological_sort_def elim: sort_with_Inr)
  ultimately show "valid_plan nodes" using ds(3) by (simp add: valid_plan_def)
next
  assume v: "valid_plan nodes"
  then have "map_res (dangling render (map pn_id nodes)) nodes = Inr (map (\<lambda>_. []) nodes)"
    by (intro map_res_total) (auto simp: dangling_def dangling_fold valid_plan_def)
  moreover have "concat (map (\<lambda>_. []) nodes) = []" by simp
  ultimately show "validate_dag render nodes = Inr []"
    using v valid_plan_sort [OF v, of True]
    by (elim exE) (simp add: validate_dag_def Let_def duplicates_Nil valid_plan_def stable_topological_sort_def)
qed

lemma plan_rel_wf: "valid_plan nodes \<Longrightarrow> wf (plan_rel nodes)"
proof -
  assume v: "valid_plan nodes"
  have "finite (plan_rel nodes)"
    by (rule finite_subset [of _ "(pn_id ` set nodes) \<times> (pn_id ` set nodes)"]) (auto simp: plan_rel_def)
  with v show ?thesis by (simp add: finite_acyclic_wf valid_plan_def)
qed

lemma ready_node_ids_mem:
  assumes "ready_node_ids nodes completed = Inr rs" "valid_plan nodes"
  shows "set rs = {pn_id n |n. n \<in> set nodes \<and> pn_id n \<notin> set completed \<and> deps_done completed n}"
proof -
  from assms(1) obtain ns where ns: "sort_with True nodes = Inr ns" "rs = map pn_id (filter (\<lambda>n. pn_id n \<notin> set completed \<and> deps_done completed n) ns)"
    by (auto simp: ready_node_ids_def stable_topological_sort_def elim!: res_bind_InrE)
  from ns(1) have "set ns \<subseteq> set nodes" "set (map pn_id ns) = pn_id ` set nodes" by (auto elim: sort_with_Inr)
  moreover have "inj_on pn_id (set nodes)" using assms(2) by (simp add: valid_plan_def distinct_map)
  ultimately have "set ns = set nodes" by (auto dest: inj_onD)
  then show ?thesis by (auto simp: ns(2))
qed

lemma ready_node_exists:
  assumes "valid_plan nodes" "\<not> pn_id ` set nodes \<subseteq> set completed"
  shows "\<exists>r rs. ready_node_ids nodes completed = Inr (r # rs)"
proof -
  from assms(2) obtain i where "i \<in> pn_id ` set nodes - set completed" by blast
  with plan_rel_wf [OF assms(1)] obtain m where m: "m \<in> pn_id ` set nodes - set completed"
    "\<And>d. (d, m) \<in> plan_rel nodes \<Longrightarrow> d \<notin> pn_id ` set nodes - set completed" using wfE_min by metis
  then obtain n where n: "n \<in> set nodes" "m = pn_id n" by blast
  have "deps_done completed n"
    unfolding deps_done_def list_all_iff
  proof
    fix v assume v: "v \<in> set (pn_deps n)"
    from assms(1) n(1) v have "\<exists>m' \<in> set nodes. v = PStr (pn_id m')" by (simp add: valid_plan_def)
    then obtain d where "v = PStr d" "d \<in> pn_id ` set nodes" by blast
    with m(2) [of d] n v show "case v of PStr s \<Rightarrow> s \<in> set completed | _ \<Rightarrow> False" by (auto simp: plan_rel_def)
  qed
  moreover obtain rs where rs: "ready_node_ids nodes completed = Inr rs"
    using valid_plan_sort [OF assms(1), of True] by (auto simp: ready_node_ids_def stable_topological_sort_def)
  ultimately have "rs \<noteq> []" using ready_node_ids_mem [OF rs assms(1)] m(1) n by force
  with rs show ?thesis by (cases rs) auto
qed

section \<open>From a job to slices\<close>

text \<open>\<open>list(v or [])\<close>.\<close>

definition listed :: "pyval \<Rightarrow> pyval list res" where
  "listed v = (if truthy v then py_iter v else Inr [])"

definition plan_node_of :: "(pyval \<Rightarrow> string) \<Rightarrow> pyval \<Rightarrow> (plan_node \<times> pyval list) res" where
  "plan_node_of render item = (case item of
     PDict d \<Rightarrow>
       res_bind (py_int (dget_or d ''tier'' (PInt 2))) (\<lambda>tier.
       res_bind (listed (dget_or d ''blocked_by'' PNone)) (\<lambda>deps.
       res_bind (listed (dget_or d ''allowed_tools'' PNone)) (\<lambda>tools.
         Inr (\<lparr>pn_id = py_str render (dget_or d ''task_id'' PNone), pn_desc = py_str render (py_or (dget_or d ''task_type'' PNone) (PStr [])),
               pn_deps = deps, pn_tier = tier, pn_action = ''code'', pn_parent = []\<rparr>, tools))))
   | _ \<Rightarrow> Inl AttributeError)"

text \<open>The plan and the tools of each node. A job without a task graph is one node.\<close>

definition decompose_job :: "(pyval \<Rightarrow> string) \<Rightarrow> pydict \<Rightarrow> (plan_node list \<times> (string, pyval list) dict) res" where
  "decompose_job render job =
     (case dget_or job ''task_graph'' PNone of
        PList (i # is) \<Rightarrow> res_bind (map_res (plan_node_of render) (i # is)) (\<lambda>ps. Inr (map fst ps, fold (\<lambda>(n, ts). dput (pn_id n) ts) ps []))
      | v \<Rightarrow>
          if v \<noteq> PNone \<and> v \<noteq> PList [] then Inl TypeError
          else res_bind (listed (dget_or job ''validation_commands'' PNone)) (\<lambda>ts.
            let n = \<lparr>pn_id = py_str render (dget_or job ''job_id'' PNone), pn_desc = py_str render (dget_or job ''summary'' PNone), pn_deps = [],
                 pn_tier = 2, pn_action = ''code'', pn_parent = []\<rparr>
            in Inr ([n], [(pn_id n, ts)])))"

definition doc_keywords :: "string list" where
  "doc_keywords = [''doc'', ''docs'', ''documentation'', ''readme'', ''manpage'', ''spec'', ''guide'']"

definition is_documentation_node :: "plan_node \<Rightarrow> bool" where
  "is_documentation_node n \<longleftrightarrow> list_ex (\<lambda>k. is_substr k (to_lower (pn_desc n)) \<or> is_substr k (to_lower (pn_id n))) doc_keywords"

definition classify_nodes :: "plan_node list \<Rightarrow> plan_node list" where
  "classify_nodes nodes = map (\<lambda>n. n\<lparr>pn_tier := (if pn_tier n = 0 then 2 else pn_tier n),
     pn_action := (if is_documentation_node n then ''document'' else if pn_action n = [] then ''code'' else pn_action n), pn_parent := []\<rparr>) nodes"

definition build_model_class_map :: "plan_node list \<Rightarrow> (string, string) dict" where
  "build_model_class_map nodes = fold (\<lambda>n. dput (pn_id n) (if pn_action n = ''document'' then ''slm'' else ''llm'')) nodes []"

record task_slice =
  ts_id :: string
  ts_node :: string
  ts_desc :: string
  ts_tools :: "pyval list"
  ts_budget :: int
  ts_tier :: int
  ts_model :: "string option"
  ts_deps :: "pyval list"
  ts_parent :: string

text \<open>\<open>t in allowed_set\<close>, for each tool of a node.\<close>

definition permitted :: "pyval list \<Rightarrow> pyval list \<Rightarrow> pyval list res" where
  "permitted allowed ts = (if list_all hashable ts then Inr (filter (\<lambda>t. list_ex (peq t) allowed) ts) else Inl TypeError)"

definition slice_of :: "pyval list \<Rightarrow> (string, pyval list) dict \<Rightarrow> (string, string) dict \<Rightarrow> plan_node \<Rightarrow> task_slice res" where
  "slice_of allowed tools models n = res_bind (permitted allowed (dget_or tools (pn_id n) [])) (\<lambda>ts.
     Inr \<lparr>ts_id = pn_id n @ ''-slice'', ts_node = pn_id n, ts_desc = pn_desc n, ts_tools = ts, ts_budget = 1024, ts_tier = 3,
       ts_model = (if models = [] then Some ''llm'' else dget models (pn_id n)), ts_deps = pn_deps n,
       ts_parent = (if pn_parent n = [] then pn_id n else pn_parent n)\<rparr>)"

text \<open>One slice for each node: the way both dispatchers call it, without a budget of tokens.\<close>

definition assign_task_slices :: "plan_node list \<Rightarrow> (string, pyval list) dict \<Rightarrow> pyval list \<Rightarrow> (string, string) dict \<Rightarrow> task_slice list res" where
  "assign_task_slices nodes tools allowed models =
     (if list_all hashable allowed then map_res (slice_of allowed tools models) nodes else Inl TypeError)"

definition validate_task_slice_lineage :: "(pyval \<Rightarrow> string) \<Rightarrow> plan_node list \<Rightarrow> task_slice list \<Rightarrow> string list res" where
  "validate_task_slice_lineage render nodes slices =
     (let ids = map pn_id nodes in
      fold_res (\<lambda>t acc.
        let parent = (if ts_parent t = [] then ts_node t else ts_parent t);
            acc1 = acc @ (if parent \<notin> set ids then [''slice_missing_parent: '' @ ts_id t @ '' -> '' @ parent] else [])
        in fold_res (\<lambda>v acc. res_bind (names ids v) (\<lambda>s.
             Inr (if s = None then acc @ [''slice_dangling_depends_on: '' @ ts_id t @ '' -> '' @ py_str render v] else acc))) (ts_deps t) acc1) slices [])"

section \<open>The planning tiers\<close>

record plan_result =
  pr_dispatched :: bool
  pr_reason :: "string option"
  pr_nodes :: "plan_node list"
  pr_slices :: "task_slice list"
  pr_errors :: "string list"

definition default_tools :: "pyval list" where
  "default_tools = [PStr ''adapter/ca/read-file/v1'', PStr ''adapter/ca/write-file/v1'', PStr ''adapter/ca/run-tests/v1'', PStr ''adapter/ca/stage-patch/v1'']"

definition allowed_of :: "pydict \<Rightarrow> pyval list res" where
  "allowed_of job = (let v = dget_or job ''allowed_tools'' PNone in if truthy v then py_iter v else Inr default_tools)"

text \<open>Any exception becomes a result that names the failed stage; the message of the exception is left out.\<close>

definition plan_failed :: "string \<Rightarrow> plan_result" where
  "plan_failed why = \<lparr>pr_dispatched = False, pr_reason = Some why, pr_nodes = [], pr_slices = [], pr_errors = []\<rparr>"

definition or_failed :: "string \<Rightarrow> plan_result res \<Rightarrow> plan_result" where
  "or_failed why r = (case r of Inl _ \<Rightarrow> plan_failed why | Inr p \<Rightarrow> p)"

definition dispatch_tier1 :: "(pyval \<Rightarrow> string) \<Rightarrow> pydict \<Rightarrow> plan_result" where
  "dispatch_tier1 render job = or_failed ''architect_failed''
     (res_bind (decompose_job render job) (\<lambda>(raw, tools).
      let nodes = classify_nodes raw in
      res_bind (validate_dag render nodes) (\<lambda>errors.
      res_bind (listed (dget_or job ''system_state_refs'' PNone)) (\<lambda>refs.
        if errors \<noteq> [] then Inr \<lparr>pr_dispatched = False, pr_reason = Some ''invalid_global_dag'', pr_nodes = nodes, pr_slices = [], pr_errors = errors\<rparr>
        else res_bind (allowed_of job) (\<lambda>allowed.
          res_bind (assign_task_slices nodes tools allowed (build_model_class_map nodes)) (\<lambda>slices.
          res_bind (validate_task_slice_lineage render nodes slices) (\<lambda>lineage.
            Inr \<lparr>pr_dispatched = (lineage = []), pr_reason = None, pr_nodes = nodes, pr_slices = slices, pr_errors = lineage\<rparr>)))))))"

definition dispatch_tier2 :: "(pyval \<Rightarrow> string) \<Rightarrow> pydict \<Rightarrow> plan_result" where
  "dispatch_tier2 render job = or_failed ''decompose_failed''
     (res_bind (decompose_job render job) (\<lambda>(raw, tools).
      res_bind (validate_dag render raw) (\<lambda>errors.
        if errors \<noteq> [] then Inr \<lparr>pr_dispatched = False, pr_reason = Some ''invalid_dag'', pr_nodes = raw, pr_slices = [], pr_errors = errors\<rparr>
        else let nodes = classify_nodes raw in
          res_bind (allowed_of job) (\<lambda>allowed.
          res_bind (assign_task_slices nodes tools allowed (build_model_class_map nodes)) (\<lambda>slices.
            Inr \<lparr>pr_dispatched = True, pr_reason = None, pr_nodes = nodes, pr_slices = slices, pr_errors = errors\<rparr>)))))"

lemma classify_maps [simp]: "map pn_id (classify_nodes nodes) = map pn_id nodes" "map pn_deps (classify_nodes nodes) = map pn_deps nodes"
  by (simp_all add: classify_nodes_def)

lemma valid_plan_cong:
  assumes "map pn_id nodes = map pn_id nodes'" "map pn_deps nodes = map pn_deps nodes'"
  shows "valid_plan nodes = valid_plan nodes'"
proof -
  let ?z = "\<lambda>nodes. zip (map pn_id nodes) (map pn_deps nodes)"
  have z: "set (?z ns) = (\<lambda>n. (pn_id n, pn_deps n)) ` set ns" for ns :: "plan_node list" by (induction ns) auto
  have v: "valid_plan ns \<longleftrightarrow> distinct (map pn_id ns) \<and> (\<forall>(i, vs) \<in> set (?z ns). \<forall>v \<in> set vs. \<exists>m \<in> set (map pn_id ns). v = PStr m)
      \<and> acyclic {(d, i) |d i vs. (i, vs) \<in> set (?z ns) \<and> PStr d \<in> set vs \<and> d \<in> set (map pn_id ns)}" for ns :: "plan_node list"
  proof -
    have "plan_rel ns = {(d, i) |d i vs. (i, vs) \<in> set (?z ns) \<and> PStr d \<in> set vs \<and> d \<in> set (map pn_id ns)}"
      unfolding z by (auto simp: plan_rel_def)
    then show ?thesis unfolding z valid_plan_def by auto
  qed
  show ?thesis unfolding v assms ..
qed

lemma valid_plan_classify [simp]: "valid_plan (classify_nodes nodes) = valid_plan nodes"
  by (rule valid_plan_cong) simp_all

lemma or_failed_dispatched: "p = or_failed why r \<Longrightarrow> pr_dispatched p \<Longrightarrow> r = Inr p"
  by (auto simp: or_failed_def plan_failed_def split: sum.splits)

lemma dispatch_tier1_True:
  assumes "p = dispatch_tier1 render job" "pr_dispatched p"
  shows "\<exists>raw tools allowed. decompose_job render job = Inr (raw, tools) \<and> pr_nodes p = classify_nodes raw \<and> allowed_of job = Inr allowed
    \<and> assign_task_slices (pr_nodes p) tools allowed (build_model_class_map (pr_nodes p)) = Inr (pr_slices p) \<and> valid_plan (pr_nodes p)"
  using or_failed_dispatched [OF assms [unfolded dispatch_tier1_def]] assms(2)
  by (auto simp: Let_def validate_dag_valid elim!: res_bind_InrE split: if_split_asm)

lemma dispatch_tier2_True:
  assumes "p = dispatch_tier2 render job" "pr_dispatched p"
  shows "\<exists>raw tools allowed. decompose_job render job = Inr (raw, tools) \<and> pr_nodes p = classify_nodes raw \<and> allowed_of job = Inr allowed
    \<and> assign_task_slices (pr_nodes p) tools allowed (build_model_class_map (pr_nodes p)) = Inr (pr_slices p) \<and> valid_plan (pr_nodes p)"
  using or_failed_dispatched [OF assms [unfolded dispatch_tier2_def]] assms(2)
  by (auto simp: Let_def validate_dag_valid elim!: res_bind_InrE split: if_split_asm)

lemma assign_facts:
  assumes "assign_task_slices nodes tools allowed models = Inr slices"
  shows "map ts_node slices = map pn_id nodes" "map ts_deps slices = map pn_deps nodes"
    "\<forall>t \<in> set slices. \<forall>v \<in> set (ts_tools t). v \<in> set (dget_or tools (ts_node t) []) \<and> (\<exists>w \<in> set allowed. peq v w)"
proof -
  have m: "map_res (slice_of allowed tools models) nodes = Inr slices" using assms by (auto simp: assign_task_slices_def split: if_split_asm)
  have s: "ts_node t = pn_id n \<and> ts_deps t = pn_deps n \<and> (\<forall>v \<in> set (ts_tools t). v \<in> set (dget_or tools (ts_node t) []) \<and> (\<exists>w \<in> set allowed. peq v w))"
    if "slice_of allowed tools models n = Inr t" for n t
    using that by (auto simp: slice_of_def permitted_def list_ex_iff elim!: res_bind_InrE split: if_split_asm)
  note i = map_res_Inr_all [OF m]
  show "map ts_node slices = map pn_id nodes" "map ts_deps slices = map pn_deps nodes"
    by (rule nth_equalityI; use i s in fastforce)+
  show "\<forall>t \<in> set slices. \<forall>v \<in> set (ts_tools t). v \<in> set (dget_or tools (ts_node t) []) \<and> (\<exists>w \<in> set allowed. peq v w)"
    using map_res_mem [OF m] s by blast
qed

section \<open>Properties\<close>

text \<open>Both sorts of a plan succeed exactly if its dependencies have no cycle and raise a ValueError otherwise; a sorted
  plan holds every id of the plan once, and every node comes after all its known dependencies.\<close>

theorem plan_sort_exact:
  assumes "plain_deps nodes" "srt = topological_sort \<or> srt = stable_topological_sort"
  shows "(case srt nodes of
     Inl e \<Rightarrow> e = ValueError \<and> \<not> acyclic (plan_rel nodes)
   | Inr ns \<Rightarrow> acyclic (plan_rel nodes) \<and> set ns \<subseteq> set nodes \<and> distinct (map pn_id ns) \<and> pn_id ` set ns = pn_id ` set nodes
       \<and> (\<forall>i < length ns. \<forall>d. (d, pn_id (ns ! i)) \<in> plan_rel nodes \<longrightarrow> (\<exists>j < i. pn_id (ns ! j) = d)))"
proof -
  obtain st where st: "srt = sort_with st" using assms(2) by (auto simp: topological_sort_def stable_topological_sort_def)
  show ?thesis
  proof (cases "srt nodes")
    case (Inl e)
    then show ?thesis using sort_with_error [OF _ assms(1)] by (simp add: st)
  next
    case (Inr ns)
    from Inr [unfolded st] obtain es where s: "set es = plan_rel nodes" "acyclic (plan_rel nodes)" "set ns \<subseteq> set nodes"
      "orders st (node_ids nodes) es [] (map pn_id ns)" "distinct (map pn_id ns)" "set (map pn_id ns) = pn_id ` set nodes" by (rule sort_with_Inr)
    have "\<exists>j < i. pn_id (ns ! j) = d" if "i < length ns" "(d, pn_id (ns ! i)) \<in> plan_rel nodes" for i d
      using orders_prefix [OF s(4), of i d] that by (auto simp: s(1))
    with s(2,3,5,6) show ?thesis by (simp add: Inr)
  qed
qed

text \<open>The stable sort is deterministic: it depends on the nodes of a plan and not on the order in which they are listed,
  and it lists, at every position, the smallest id among the nodes that are available there.\<close>

theorem stable_sort_deterministic:
  assumes "plain_deps nodes" "distinct (map pn_id nodes)" "mset nodes' = mset nodes"
  shows "stable_topological_sort nodes' = stable_topological_sort nodes
    \<and> (\<forall>ns i n. stable_topological_sort nodes = Inr ns \<longrightarrow> i < length ns \<longrightarrow> n \<in> set nodes \<longrightarrow> pn_id n \<notin> pn_id ` set (take i ns)
        \<longrightarrow> deps_done (map pn_id (take i ns)) n \<longrightarrow> pn_id (ns ! i) \<le> pn_id n)"
proof -
  have same: "set nodes' = set nodes" "plan_rel nodes' = plan_rel nodes" "plain_deps nodes'"
    using assms(1) mset_eq_setD [OF assms(3)] by (simp_all add: plan_rel_def plain_deps_def list_all_iff)
  have inj: "inj_on pn_id (set nodes)" using assms(2) by (simp add: distinct_map)
  have "stable_topological_sort nodes' = stable_topological_sort nodes"
  proof (cases "sort_with True nodes")
    case (Inl e)
    then have "e = ValueError" "\<not> acyclic (plan_rel nodes)" using sort_with_error [OF Inl assms(1)] by auto
    moreover from this(2) obtain e' where "sort_with True nodes' = Inl e'" using sort_with_Inr [of True nodes'] same(2) by (cases "sort_with True nodes'") auto
    ultimately show ?thesis using sort_with_error [OF _ same(3)] Inl by (simp add: stable_topological_sort_def)
  next
    case (Inr xs)
    from Inr obtain es where x: "set es = plan_rel nodes" "acyclic (plan_rel nodes)" "set xs \<subseteq> set nodes" "orders True (node_ids nodes) es [] (map pn_id xs)"
      "distinct (map pn_id xs)" "set (map pn_id xs) = pn_id ` set nodes" by (rule sort_with_Inr)
    obtain ys where Inr': "sort_with True nodes' = Inr ys"
      using sort_with_error [OF _ same(3), of True] x(2) same(2) by (cases "sort_with True nodes'") auto
    from Inr' obtain es' where y: "set es' = plan_rel nodes'" "set ys \<subseteq> set nodes'" "orders True (node_ids nodes') es' [] (map pn_id ys)"
      "distinct (map pn_id ys)" "set (map pn_id ys) = pn_id ` set nodes'" by (rule sort_with_Inr)
    have len: "length (map pn_id xs) = length (map pn_id ys)"
      using x(5,6) y(4,5) same(1) by (metis distinct_card)
    have "map pn_id xs = map pn_id ys"
      by (rule orders_stable_unique [OF x(4) y(3) _ _ len]) (simp_all add: same x(1) y(1))
    then have "xs = ys" using x(3) y(2) same(1) inj by (intro map_inj_on [of pn_id]) (auto intro: inj_on_subset)
    then show ?thesis using Inr Inr' by (simp add: stable_topological_sort_def)
  qed
  moreover have "pn_id (ns ! i) \<le> pn_id n" if h: "stable_topological_sort nodes = Inr ns" "i < length ns" "n \<in> set nodes" "pn_id n \<notin> pn_id ` set (take i ns)"
      "deps_done (map pn_id (take i ns)) n" for ns i n
  proof -
    from h(1) [unfolded stable_topological_sort_def] obtain es where x: "set es = plan_rel nodes" "orders True (node_ids nodes) es [] (map pn_id ns)"
      by (rule sort_with_Inr)
    have "d \<in> set (map pn_id (take i ns))" if "(d, pn_id n) \<in> set es" for d
    proof -
      from that x(1) obtain m where "m \<in> set nodes" "pn_id m = pn_id n" "PStr d \<in> set (pn_deps m)" by (auto simp: plan_rel_def)
      with inj h(3) have "PStr d \<in> set (pn_deps n)" by (metis inj_onD)
      with h(5) show ?thesis by (auto simp: deps_done_def list_all_iff)
    qed
    then have "pn_id n \<in> available (node_ids nodes) es (take i (map pn_id ns))" using h(3,4) by (auto simp: available_def take_map)
    with x(2) h(2) show ?thesis by (auto simp: orders_def)
  qed
  ultimately show ?thesis by blast
qed

text \<open>A validated plan never gets stuck: as long as a node is not completed, some node is ready, and the ready nodes are
  exactly the nodes that are not completed and whose dependencies are.\<close>

theorem valid_plan_progress:
  assumes "validate_dag render nodes = Inr []"
  shows "\<exists>rs. ready_node_ids nodes completed = Inr rs \<and> (rs = [] \<longleftrightarrow> pn_id ` set nodes \<subseteq> set completed)
    \<and> set rs = {pn_id n |n. n \<in> set nodes \<and> pn_id n \<notin> set completed \<and> (\<forall>v \<in> set (pn_deps n). \<exists>d \<in> set completed. v = PStr d)}"
proof -
  have v: "valid_plan nodes" using assms by (simp add: validate_dag_valid)
  obtain rs where rs: "ready_node_ids nodes completed = Inr rs"
    using valid_plan_sort [OF v, of True] by (auto simp: ready_node_ids_def stable_topological_sort_def)
  note mem = ready_node_ids_mem [OF rs v, unfolded deps_done_iff]
  moreover have "rs = []" if "pn_id ` set nodes \<subseteq> set completed"
  proof -
    have "set rs = {}" using mem that by auto
    then show ?thesis by simp
  qed
  moreover have "pn_id ` set nodes \<subseteq> set completed" if "rs = []"
    using ready_node_exists [OF v, of completed] rs that by auto
  ultimately show ?thesis using rs by blast
qed

text \<open>A plan that either planning tier dispatches is valid, has one slice for each node, in order and with its
  dependencies, gives a slice only tools of its node that the job allows, and has a node to start with.\<close>

theorem dispatched_plan_sound:
  assumes "p = dispatch_tier1 render job \<or> p = dispatch_tier2 render job" "pr_dispatched p"
  shows "valid_plan (pr_nodes p) \<and> map ts_node (pr_slices p) = map pn_id (pr_nodes p) \<and> map ts_deps (pr_slices p) = map pn_deps (pr_nodes p)
    \<and> (\<exists>raw tools allowed. decompose_job render job = Inr (raw, tools) \<and> pr_nodes p = classify_nodes raw \<and> allowed_of job = Inr allowed
        \<and> (\<forall>t \<in> set (pr_slices p). \<forall>v \<in> set (ts_tools t). v \<in> set (dget_or tools (ts_node t) []) \<and> (\<exists>w \<in> set allowed. peq v w)))
    \<and> (pr_nodes p \<noteq> [] \<longrightarrow> (\<exists>r rs. ready_node_ids (pr_nodes p) [] = Inr (r # rs)))"
proof -
  from assms dispatch_tier1_True dispatch_tier2_True obtain raw tools allowed where a: "decompose_job render job = Inr (raw, tools)"
    "pr_nodes p = classify_nodes raw" "allowed_of job = Inr allowed"
    "assign_task_slices (pr_nodes p) tools allowed (build_model_class_map (pr_nodes p)) = Inr (pr_slices p)" "valid_plan (pr_nodes p)" by metis
  note sl = assign_facts [OF a(4)]
  have "\<exists>r rs. ready_node_ids (pr_nodes p) [] = Inr (r # rs)" if "pr_nodes p \<noteq> []"
    using ready_node_exists [OF a(5), of "[]"] that by simp
  with a sl show ?thesis by blast
qed

section \<open>Witnesses\<close>

text \<open>A job of three tasks: two steps and their documentation, listed last first.\<close>

definition sample_task :: "string \<Rightarrow> string list \<Rightarrow> string \<Rightarrow> pyval" where
  "sample_task i deps kind = PDict [(''task_id'', PStr i), (''task_type'', PStr kind), (''blocked_by'', PList (map PStr deps)),
     (''allowed_tools'', PList [PStr ''adapter/ca/stage-patch/v1'', PStr ''shell''])]"

definition sample_job :: pydict where
  "sample_job = [(''task_graph'', PList [sample_task ''c'' [''a'', ''b''] ''write docs'', sample_task ''b'' [''a''] ''edit'', sample_task ''a'' [] ''design''])]"

definition sample_plan :: "plan_node list" where
  "sample_plan = [\<lparr>pn_id = ''c'', pn_desc = ''write docs'', pn_deps = [PStr ''a'', PStr ''b''], pn_tier = 2, pn_action = ''document'', pn_parent = []\<rparr>,
     \<lparr>pn_id = ''b'', pn_desc = ''edit'', pn_deps = [PStr ''a''], pn_tier = 2, pn_action = ''code'', pn_parent = []\<rparr>,
     \<lparr>pn_id = ''a'', pn_desc = ''design'', pn_deps = [], pn_tier = 2, pn_action = ''code'', pn_parent = []\<rparr>]"

definition sample_slices :: "task_slice list" where
  "sample_slices = [\<lparr>ts_id = ''c-slice'', ts_node = ''c'', ts_desc = ''write docs'', ts_tools = [PStr ''adapter/ca/stage-patch/v1''], ts_budget = 1024, ts_tier = 3,
       ts_model = Some ''slm'', ts_deps = [PStr ''a'', PStr ''b''], ts_parent = ''c''\<rparr>,
     \<lparr>ts_id = ''b-slice'', ts_node = ''b'', ts_desc = ''edit'', ts_tools = [PStr ''adapter/ca/stage-patch/v1''], ts_budget = 1024, ts_tier = 3,
       ts_model = Some ''llm'', ts_deps = [PStr ''a''], ts_parent = ''b''\<rparr>,
     \<lparr>ts_id = ''a-slice'', ts_node = ''a'', ts_desc = ''design'', ts_tools = [PStr ''adapter/ca/stage-patch/v1''], ts_budget = 1024, ts_tier = 3,
       ts_model = Some ''llm'', ts_deps = [], ts_parent = ''a''\<rparr>]"

lemma sample_dispatch:
  "dispatch_tier1 (\<lambda>_. []) sample_job = \<lparr>pr_dispatched = True, pr_reason = None, pr_nodes = sample_plan, pr_slices = sample_slices, pr_errors = []\<rparr>"
  by code_simp

lemma sample_plan_facts:
  "validate_dag (\<lambda>_. []) sample_plan = Inr []" "plain_deps sample_plan" "distinct (map pn_id sample_plan)"
  by code_simp+

theorem plan_sort_exact_witness:
  "\<exists>ns. stable_topological_sort sample_plan = Inr ns \<and> map pn_id ns = [''a'', ''b'', ''c''] \<and> acyclic (plan_rel sample_plan) \<and> (\<exists>j < 2. pn_id (ns ! j) = ''b'')"
proof -
  have "case stable_topological_sort sample_plan of Inr ns \<Rightarrow> map pn_id ns = [''a'', ''b'', ''c''] | Inl _ \<Rightarrow> False" by code_simp
  then obtain ns where ns: "stable_topological_sort sample_plan = Inr ns" "map pn_id ns = [''a'', ''b'', ''c'']" by (auto split: sum.splits)
  then have l: "length ns = 3" "pn_id (ns ! 2) = ''c''" by (auto simp: map_eq_Cons_conv)
  have "(''b'', ''c'') \<in> plan_rel sample_plan"
    unfolding plan_rel_def by (rule CollectI, rule exI [of _ "''b''"], rule exI [of _ "hd sample_plan"]) (simp add: sample_plan_def)
  with plan_sort_exact [OF sample_plan_facts(2), of stable_topological_sort] ns l show ?thesis by auto
qed

theorem stable_sort_deterministic_witness:
  "stable_topological_sort (rev sample_plan) = stable_topological_sort sample_plan \<and> map pn_id (rev sample_plan) \<noteq> map pn_id sample_plan"
  using stable_sort_deterministic [OF sample_plan_facts(2,3), of "rev sample_plan"] by (simp add: sample_plan_def)

theorem valid_plan_progress_witness:
  "\<exists>rs. ready_node_ids sample_plan [''a''] = Inr rs \<and> rs \<noteq> [] \<and> ''c'' \<notin> set rs"
proof -
  obtain rs where rs: "ready_node_ids sample_plan [''a''] = Inr rs" "rs = [] \<longleftrightarrow> pn_id ` set sample_plan \<subseteq> set [''a'']"
    "set rs = {pn_id n |n. n \<in> set sample_plan \<and> pn_id n \<notin> set [''a''] \<and> (\<forall>v \<in> set (pn_deps n). \<exists>d \<in> set [''a'']. v = PStr d)}"
    using valid_plan_progress [OF sample_plan_facts(1), of "[''a'']"] by blast
  have "rs \<noteq> []" using rs(2) by (simp add: sample_plan_def)
  moreover have "\<forall>n \<in> set sample_plan. pn_id n = ''c'' \<longrightarrow> PStr ''b'' \<in> set (pn_deps n)" by (simp add: sample_plan_def)
  then have "''c'' \<notin> set rs" unfolding rs(3) by fastforce
  ultimately show ?thesis using rs(1) by blast
qed

theorem dispatched_plan_sound_witness:
  "\<exists>p. p = dispatch_tier1 (\<lambda>_. []) sample_job \<and> pr_dispatched p \<and> valid_plan (pr_nodes p) \<and> map ts_node (pr_slices p) = [''c'', ''b'', ''a'']
     \<and> map ts_tools (pr_slices p) = [[PStr ''adapter/ca/stage-patch/v1''], [PStr ''adapter/ca/stage-patch/v1''], [PStr ''adapter/ca/stage-patch/v1'']]"
proof -
  let ?p = "dispatch_tier1 (\<lambda>_. []) sample_job"
  have "pr_dispatched ?p" by (simp add: sample_dispatch)
  with dispatched_plan_sound [of ?p "\<lambda>_. []" sample_job] show ?thesis by (auto simp: sample_dispatch sample_slices_def)
qed

end
