(* ===== verification/Dag_Execution.thy ===== *)
theory Dag_Execution
  imports Plan_Dag
begin

text \<open>
  The third tier of the coding-agent pack: the readiness gate (\<^verbatim>\<open>tier3_ready_scheduler.py\<close>), retries
  (\<^verbatim>\<open>retry_policy.py\<close>), the budget of a turn (\<^verbatim>\<open>turn_budget.py\<close>), the tools (\<^verbatim>\<open>tool_adapters.py\<close>), the dispatch of one
  slice (\<^verbatim>\<open>tier_dispatcher.py\<close>) and the loop that executes a plan (\<^verbatim>\<open>orchestration_loop.py\<close>). Contexts, slices and
  results are records: the code turns them into dictionaries and back between the loop and the dispatcher, which
  changes nothing on typed values. Files, processes, the small model and the clock are arguments; telemetry, evidence
  harvest and teardown, whose failures the loop ignores, are left out.
\<close>

section \<open>Contexts, retries, budgets\<close>

record exec_ctx =
  ec_completed :: "string list"
  ec_failed :: "string list"
  ec_retries :: "(string, int) dict"
  ec_max_retries :: int
  ec_base :: rat
  ec_max_backoff :: rat

definition classify_failure :: "string \<Rightarrow> string" where
  "classify_failure e = (let m = to_lower e; has = (\<lambda>k. is_substr k m) in
     if m = [] then ''unknown''
     else if has ''timeout'' \<or> has ''temporar'' \<or> has ''connection'' then ''transient''
     else if has ''rate limit'' \<or> has ''429'' then ''rate_limit''
     else if has ''unauthorized'' \<or> has ''forbidden'' \<or> has ''permission'' then ''auth''
     else if has ''invalid'' \<or> has ''validation'' \<or> has ''schema'' then ''validation''
     else ''tool_error'')"

definition should_retry :: "string \<Rightarrow> int \<Rightarrow> int \<Rightarrow> bool" where
  "should_retry failure attempts limit \<longleftrightarrow> attempts < limit \<and> failure \<in> {''transient'', ''rate_limit'', ''unknown''}"

definition next_backoff_seconds :: "int \<Rightarrow> rat \<Rightarrow> rat \<Rightarrow> rat" where
  "next_backoff_seconds attempts base limit = min limit (base * 2 ^ nat (max 0 attempts))"

record turn_budget =
  tb_max_tokens :: int
  tb_max_time :: rat
  tb_max_slices :: int
  tb_started :: rat
  tb_consumed :: int
  tb_executed :: int

definition time_remaining :: "turn_budget \<Rightarrow> rat \<Rightarrow> rat option" where
  "time_remaining b now = (if tb_max_time b \<le> 0 then None else Some (max 0 (tb_max_time b - max 0 (now - tb_started b))))"

definition out_of_time :: "turn_budget \<Rightarrow> rat \<Rightarrow> bool" where
  "out_of_time b now = (case time_remaining b now of None \<Rightarrow> False | Some r \<Rightarrow> r \<le> 0)"

definition can_execute_slice :: "turn_budget \<Rightarrow> rat \<Rightarrow> int \<Rightarrow> bool" where
  "can_execute_slice b now next_tokens \<longleftrightarrow>
     (let next = max 0 next_tokens in
      \<not> tb_executed b \<ge> tb_max_slices b
      \<and> \<not> (tb_max_tokens b > 0 \<and> tb_consumed b \<ge> tb_max_tokens b)
      \<and> \<not> (tb_max_tokens b > 0 \<and> next > 0 \<and> tb_consumed b + next > tb_max_tokens b)
      \<and> \<not> out_of_time b now)"

definition record_slice :: "int \<Rightarrow> turn_budget \<Rightarrow> turn_budget" where
  "record_slice tokens b = b\<lparr>tb_executed := tb_executed b + 1, tb_consumed := tb_consumed b + max 0 tokens\<rparr>"

definition budget_exhaustion_reason :: "turn_budget \<Rightarrow> rat \<Rightarrow> int \<Rightarrow> string" where
  "budget_exhaustion_reason b now next_tokens =
     (let next = max 0 next_tokens in
      if tb_executed b \<ge> tb_max_slices b then ''slice_limit_reached''
      else if tb_max_tokens b > 0 \<and> next > 0 \<and> tb_consumed b + next > tb_max_tokens b then ''token_budget_exhausted''
      else if tb_max_tokens b > 0 \<and> tb_consumed b \<ge> tb_max_tokens b then ''token_budget_exhausted''
      else if out_of_time b now then ''time_budget_exhausted''
      else ''budget_available'')"

section \<open>Readiness\<close>

definition is_node_ready :: "string \<Rightarrow> plan_node list \<Rightarrow> exec_ctx \<Rightarrow> bool res" where
  "is_node_ready i nodes ctx = res_bind (ready_node_ids nodes (ec_completed ctx)) (\<lambda>rs. Inr (i \<in> set rs))"

definition validate_slice_ready :: "(pyval \<Rightarrow> string) \<Rightarrow> task_slice \<Rightarrow> plan_node list \<Rightarrow> exec_ctx \<Rightarrow> string list res" where
  "validate_slice_ready render t nodes ctx =
     (let i = ts_node t in
      if i \<notin> set (map pn_id nodes) then Inr [''unknown_slice_node: '' @ i]
      else let e1 = (if i \<in> set (ec_completed ctx) then [''already_completed: '' @ i] else []) @
                    (if i \<in> set (ec_failed ctx) then [''failed_node_blocked: '' @ i] else [])
        in res_bind (is_node_ready i nodes ctx) (\<lambda>ready.
          if ready then Inr e1
          else fold_res (\<lambda>v acc. res_bind (names (ec_completed ctx) v) (\<lambda>s.
            Inr (if s = None then acc @ [''dependency_not_ready: '' @ i @ '' -> '' @ py_str render v] else acc))) (ts_deps t) e1))"

definition slice_by_node :: "task_slice list \<Rightarrow> (string, task_slice) dict" where
  "slice_by_node slices = fold (\<lambda>t. dput (ts_node t) t) slices []"

definition next_ready_slices :: "plan_node list \<Rightarrow> task_slice list \<Rightarrow> exec_ctx \<Rightarrow> task_slice list res" where
  "next_ready_slices nodes slices ctx =
     res_bind (ready_node_ids nodes (ec_completed ctx)) (\<lambda>ready.
     res_bind (stable_topological_sort nodes) (\<lambda>ordered.
       Inr (List.map_filter (\<lambda>n. let i = pn_id n in
         if i \<in> set (ec_completed ctx) \<or> i \<in> set (ec_failed ctx) \<or> i \<notin> set ready then None else dget (slice_by_node slices) i) ordered)))"

section \<open>Tools\<close>

text \<open>The outcome of a child process: it ended with a code and its output, timed out, was not found, or starting it
  raised something else.\<close>

datatype process = Ended int string | Timed_Out | Not_Found | Raised string

record 'w tool_env =
  te_read :: "string \<Rightarrow> 'w \<Rightarrow> string + string"
  te_write :: "string \<Rightarrow> string \<Rightarrow> 'w \<Rightarrow> (string + unit) \<times> 'w"
  te_first :: "string \<Rightarrow> string"
  te_run :: "string list \<Rightarrow> 'w \<Rightarrow> process \<times> 'w"
  te_stage :: "'w \<Rightarrow> 'w"
  te_slm :: "string \<Rightarrow> 'w \<Rightarrow> (string + string) option \<times> 'w"
  te_providers :: "(int, string) dict"
  te_allow_cloud :: string

text \<open>A tool returns a dictionary or raises, here with the message.\<close>

definition read_file_tool :: "'w tool_env \<Rightarrow> string \<Rightarrow> 'w \<Rightarrow> (string + pydict) \<times> 'w" where
  "read_file_tool env path w = (case te_read env path w of
     Inr content \<Rightarrow> (Inr [(''read_ok'', PBool True), (''content'', PStr content)], w)
   | Inl e \<Rightarrow> (Inr [(''read_ok'', PBool False), (''content'', PStr []), (''error'', PStr e)], w))"

definition write_file_tool :: "'w tool_env \<Rightarrow> string \<Rightarrow> string \<Rightarrow> 'w \<Rightarrow> (string + pydict) \<times> 'w" where
  "write_file_tool env path contents w = (case te_write env path contents w of
     (Inr _, w') \<Rightarrow> (Inr [(''write_ok'', PBool True), (''path'', PStr path)], w')
   | (Inl e, w') \<Rightarrow> (Inr [(''write_ok'', PBool False), (''error'', PStr e)], w'))"

definition run_tests_tool :: "'w tool_env \<Rightarrow> string list \<Rightarrow> 'w \<Rightarrow> (string + pydict) \<times> 'w" where
  "run_tests_tool env commands w = (case commands of
     [] \<Rightarrow> (Inr [(''tests_passed'', PBool False), (''output'', PStr ''invalid_commands'')], w)
   | c # _ \<Rightarrow>
       if (if strip c = [] then [] else te_first env c) \<notin> {''pytest'', ''python'', ''python3''}
       then (Inr [(''tests_passed'', PBool False), (''output'', PStr ''unauthorized_command'')], w)
       else (case te_run env commands w of
           (Ended code out, w') \<Rightarrow> (Inr [(''tests_passed'', PBool (code = 0)), (''output'', PStr (take 4000 out)), (''return_code'', PInt code)], w')
         | (Timed_Out, w') \<Rightarrow> (Inr [(''tests_passed'', PBool False), (''output'', PStr ''timeout''), (''return_code'', PInt (-1))], w')
         | (Not_Found, w') \<Rightarrow> (Inr [(''tests_passed'', PBool False), (''output'', PStr ''command_not_found''), (''return_code'', PInt (-1))], w')
         | (Raised e, w') \<Rightarrow> (Inl e, w')))"

definition stage_patch_tool :: "'w tool_env \<Rightarrow> pyval list \<Rightarrow> 'w \<Rightarrow> (string + pydict) \<times> 'w" where
  "stage_patch_tool env files w = (Inr [(''staged'', PBool True), (''files'', PList files)], te_stage env w)"

definition tool_registry :: "string list" where
  "tool_registry = [''adapter/ca/read-file/v1'', ''adapter/ca/write-file/v1'', ''adapter/ca/run-tests/v1'', ''adapter/ca/stage-patch/v1'']"

text \<open>The tool with the payload the dispatcher gives it.\<close>

definition call_tool :: "'w tool_env \<Rightarrow> string \<Rightarrow> string \<Rightarrow> 'w \<Rightarrow> (string + pydict) \<times> 'w" where
  "call_tool env tool description w =
     (if tool = ''adapter/ca/read-file/v1'' then read_file_tool env description w
      else if tool = ''adapter/ca/run-tests/v1'' then run_tests_tool env [''pytest -q''] w
      else if tool = ''adapter/ca/stage-patch/v1'' then stage_patch_tool env [] w
      else write_file_tool env [] [] w)"

text \<open>What the dispatcher takes for a failure; the empty string is none.\<close>

definition tool_failure :: "(pyval \<Rightarrow> string) \<Rightarrow> pydict \<Rightarrow> string" where
  "tool_failure render result = (let e = dget_or result ''error'' PNone in
     if truthy e then py_str render e
     else if dget_or result ''read_ok'' PNone = PBool False then ''read_failed''
     else if dget_or result ''write_ok'' PNone = PBool False then ''write_failed''
     else [])"

text \<open>The tools in order, with the first failure.\<close>

fun run_tools :: "(pyval \<Rightarrow> string) \<Rightarrow> 'w tool_env \<Rightarrow> string \<Rightarrow> string list \<Rightarrow> string \<Rightarrow> 'w \<Rightarrow> string \<times> (string \<times> pydict) list \<times> 'w" where
  "run_tools render env description [] failure w = (failure, [], w)"
| "run_tools render env description (t # ts) failure w =
     (let (r, w') = call_tool env t description w;
          result = (case r of Inr d \<Rightarrow> d | Inl e \<Rightarrow> [(''error'', PStr e)]);
          (f, trace, w'') = run_tools render env description ts (if failure = [] then tool_failure render result else failure) w'
      in (f, (t, result) # trace, w''))"

section \<open>The dispatch of a slice\<close>

record dispatch_result =
  dr_dispatched :: bool
  dr_reason :: string
  dr_retryable :: bool
  dr_after :: rat
  dr_status :: string
  dr_attempt :: int
  dr_error_class :: string
  dr_error :: string
  dr_allowed :: "string list"
  dr_denied :: "string list"
  dr_trace :: "(string \<times> pydict) list"
  dr_output :: "string option"

text \<open>A result with evidence and without any tool run.\<close>

definition evidence_only :: "int \<Rightarrow> bool \<Rightarrow> string \<Rightarrow> string \<Rightarrow> string \<Rightarrow> string \<Rightarrow> dispatch_result" where
  "evidence_only attempts ok reason status error_class error = \<lparr>dr_dispatched = ok, dr_reason = reason, dr_retryable = False, dr_after = 0, dr_status = status,
     dr_attempt = attempts, dr_error_class = error_class, dr_error = error, dr_allowed = [], dr_denied = [], dr_trace = [], dr_output = None\<rparr>"

text \<open>A failure, with the decision to retry it.\<close>

definition failed_result :: "exec_ctx \<Rightarrow> int \<Rightarrow> string \<Rightarrow> string \<Rightarrow> dispatch_result" where
  "failed_result ctx attempts error permanent =
     (let failure = classify_failure error; retryable = should_retry failure attempts (ec_max_retries ctx) in
      (evidence_only attempts False (if retryable then ''retry_scheduled'' else permanent) (if retryable then ''retry_scheduled'' else ''failed'') failure error)
        \<lparr>dr_retryable := retryable, dr_after := (if retryable then next_backoff_seconds attempts (ec_base ctx) (ec_max_backoff ctx) else 0)\<rparr>)"

definition resolve_provider :: "'w tool_env \<Rightarrow> int \<Rightarrow> string" where
  "resolve_provider env tier = (let first = dget_or (te_providers env) tier []; second = dget_or (te_providers env) 3 [] in
     if first \<noteq> [] then first else if second \<noteq> [] then second else ''local'')"

definition is_provider_allowed :: "'w tool_env \<Rightarrow> string \<Rightarrow> bool" where
  "is_provider_allowed env provider \<longleftrightarrow> provider = [] \<or> provider = ''local'' \<or> to_lower (te_allow_cloud env) \<notin> {''0'', ''false'', ''no''}"

text \<open>\<open>tool_id in registry\<close>, for each tool of the slice.\<close>

definition split_tools :: "pyval list \<Rightarrow> (string list \<times> pyval list) res" where
  "split_tools ts = (if \<not> list_all hashable ts then Inl TypeError
     else Inr (List.map_filter (\<lambda>v. case v of PStr t \<Rightarrow> if t \<in> set tool_registry then Some t else None | _ \<Rightarrow> None) ts,
       filter (\<lambda>v. \<not> list_ex (\<lambda>t. v = PStr t) tool_registry) ts))"

definition execute_tools :: "(pyval \<Rightarrow> string) \<Rightarrow> 'w tool_env \<Rightarrow> exec_ctx \<Rightarrow> int \<Rightarrow> task_slice \<Rightarrow> 'w \<Rightarrow> (dispatch_result \<times> 'w) res" where
  "execute_tools render env ctx attempts t w =
     (if \<not> is_provider_allowed env (resolve_provider env (ts_tier t))
      then Inr (evidence_only attempts False ''provider_disabled'' ''failed'' ''provider_disabled''
        (''provider '' @ resolve_provider env (ts_tier t) @ '' is disabled by local policy''), w)
      else res_bind (split_tools (ts_tools t)) (\<lambda>(allowed, denied).
        let denied = map (py_str render) denied in
        if allowed = [] then Inr ((evidence_only attempts False [] ''blocked'' ''no_allowed_tools'' ''no tools were allowed for this slice'')\<lparr>dr_denied := denied\<rparr>, w)
        else let (failure, trace, w') = run_tools render env (ts_desc t) allowed [] w;
                 r = (if failure = [] then evidence_only attempts True [] ''success'' [] [] else failed_result ctx attempts failure ''tier3_execution_failed'')
          in Inr (r\<lparr>dr_allowed := allowed, dr_denied := denied, dr_trace := trace\<rparr>, w')))"

definition join_errors :: "string list \<Rightarrow> string" where
  "join_errors es = join_with ''; '' es"

text \<open>The slice first has to be ready in the plan, if a plan is given; a documentation slice goes to the small model when
  that is available.\<close>

definition dispatch_tier3 ::
  "(pyval \<Rightarrow> string) \<Rightarrow> 'w tool_env \<Rightarrow> plan_node list option \<Rightarrow> exec_ctx \<Rightarrow> task_slice \<Rightarrow> 'w \<Rightarrow> (dispatch_result \<times> 'w) res" where
  "dispatch_tier3 render env plan ctx t w =
     (let attempts = dget_or (ec_retries ctx) (ts_node t) 0 in
      case (case plan of None \<Rightarrow> Inr [] | Some nodes \<Rightarrow> validate_slice_ready render t nodes ctx) of
        Inl _ \<Rightarrow> Inr (evidence_only attempts False ''invalid_plan'' [] [] [], w)
      | Inr (e # es) \<Rightarrow> Inr (evidence_only attempts False ''slice_not_ready'' ''blocked'' ''not_ready'' (join_errors (e # es)), w)
      | Inr [] \<Rightarrow>
          if ts_model t = Some ''slm''
          then (case te_slm env (ts_desc t) w of
              (Some (Inr out), w') \<Rightarrow> Inr ((evidence_only attempts True [] ''success'' [] [])\<lparr>dr_output := Some out\<rparr>, w')
            | (Some (Inl e), w') \<Rightarrow> Inr (failed_result ctx attempts e (''slm_failed: '' @ e), w')
            | (None, w') \<Rightarrow> execute_tools render env ctx attempts t w')
          else execute_tools render env ctx attempts t w)"

definition update_context :: "string \<Rightarrow> dispatch_result \<Rightarrow> exec_ctx \<Rightarrow> exec_ctx" where
  "update_context i r ctx =
     (if i = [] then ctx
      else if dr_status r = ''success'' then ctx\<lparr>ec_completed := (if i \<in> set (ec_completed ctx) then ec_completed ctx else ec_completed ctx @ [i]),
             ec_failed := filter (\<lambda>j. j \<noteq> i) (ec_failed ctx), ec_retries := ddel i (ec_retries ctx)\<rparr>
      else if dr_status r = ''retry_scheduled'' \<or> dr_retryable r then ctx\<lparr>ec_retries := dput i (dget_or (ec_retries ctx) i 0 + 1) (ec_retries ctx)\<rparr>
      else if dr_status r = ''failed'' then ctx\<lparr>ec_failed := (if i \<in> set (ec_failed ctx) then ec_failed ctx else ec_failed ctx @ [i])\<rparr>
      else ctx)"

definition dispatch_with_state ::
  "(pyval \<Rightarrow> string) \<Rightarrow> 'w tool_env \<Rightarrow> plan_node list option \<Rightarrow> exec_ctx \<Rightarrow> task_slice \<Rightarrow> 'w \<Rightarrow> (dispatch_result \<times> exec_ctx \<times> 'w) res" where
  "dispatch_with_state render env plan ctx t w =
     res_bind (dispatch_tier3 render env plan ctx t w) (\<lambda>(r, w'). Inr (r, update_context (ts_node t) r ctx, w'))"

section \<open>The loop\<close>

record 'w loop_env =
  le_render :: "pyval \<Rightarrow> string"
  le_tools :: "'w tool_env"
  le_clock :: "nat \<Rightarrow> rat"
  le_saved :: "nat \<Rightarrow> bool"
  le_nodes :: "plan_node list"
  le_slices :: "task_slice list"

text \<open>\<open>le_saved\<close>: whether the checkpoint after so many slices is stored, always true without a store.
  An entry of the timeline: slice, node, reason, dispatched, status.\<close>

record 'w loop_state =
  lo_ctx :: exec_ctx
  lo_budget :: turn_budget
  lo_executed :: "string list"
  lo_timeline :: "(string \<times> string \<times> string \<times> bool \<times> string) list"
  lo_tick :: nat
  lo_world :: 'w

datatype turn = Go | Halt string "string option"

text \<open>What ends the loop when nothing is ready.\<close>

definition nothing_ready :: "plan_node list \<Rightarrow> exec_ctx \<Rightarrow> turn" where
  "nothing_ready nodes ctx =
     (if nodes \<noteq> [] \<and> pn_id ` set nodes \<subseteq> set (ec_completed ctx) then Halt ''all_completed'' None
      else if ec_failed ctx \<noteq> [] then Halt ''permanent_failure'' (Some (last (ec_failed ctx)))
      else Halt ''no_ready_slices'' None)"

text \<open>Results of the dispatcher carry no token usage, so a slice costs what was estimated for it.\<close>

definition run_slice :: "'w loop_env \<Rightarrow> task_slice \<Rightarrow> 'w loop_state \<Rightarrow> (turn \<times> 'w loop_state) res" where
  "run_slice E t s =
     res_bind (dispatch_with_state (le_render E) (le_tools E) (Some (le_nodes E)) (lo_ctx s) t (lo_world s)) (\<lambda>(r, ctx, w).
     let s1 = s\<lparr>lo_ctx := ctx, lo_world := w, lo_executed := lo_executed s @ [ts_id t],
           lo_timeline := lo_timeline s @ [(ts_id t, ts_node t, dr_reason r, dr_dispatched r, dr_status r)]\<rparr> in
     if \<not> le_saved E (length (lo_executed s1))
     then Inr (Halt ''checkpoint_persist_failed'' None, s1\<lparr>lo_timeline := lo_timeline s1 @ [(ts_id t, ts_node t, ''checkpoint_persist_failed'', False, ''failed'')]\<rparr>)
     else let s2 = s1\<lparr>lo_budget := record_slice (max 0 (ts_budget t)) (lo_budget s1)\<rparr> in
       if dr_status r = ''failed'' \<or> (dr_reason r = ''tier3_execution_failed'' \<and> \<not> dr_retryable r) then Inr (Halt ''permanent_failure'' (Some (ts_node t)), s2)
       else if dr_status r = ''retry_scheduled'' \<or> dr_reason r = ''retry_scheduled'' then Inr (Halt ''retry_scheduled'' None, s2)
       else Inr (Go, s2))"

text \<open>Every look at the clock takes the next instant.\<close>

definition loop_turn :: "'w loop_env \<Rightarrow> 'w loop_state \<Rightarrow> (turn \<times> 'w loop_state) res" where
  "loop_turn E s =
     (let t0 = le_clock E (lo_tick s); t1 = le_clock E (lo_tick s + 1); t2 = le_clock E (lo_tick s + 2) in
      if \<not> can_execute_slice (lo_budget s) t0 0 then Inr (Halt (budget_exhaustion_reason (lo_budget s) t1 0) None, s)
      else res_bind (next_ready_slices (le_nodes E) (le_slices E) (lo_ctx s)) (\<lambda>ready. case ready of
        [] \<Rightarrow> Inr (nothing_ready (le_nodes E) (lo_ctx s), s)
      | t # _ \<Rightarrow>
          if \<not> can_execute_slice (lo_budget s) t1 (max 0 (ts_budget t)) then Inr (Halt (budget_exhaustion_reason (lo_budget s) t2 (max 0 (ts_budget t))) None, s)
          else run_slice E t (s\<lparr>lo_tick := lo_tick s + 2\<rparr>)))"

lemma run_slice_Go:
  "run_slice E t s = Inr (Go, s') \<Longrightarrow> lo_budget s' = record_slice (max 0 (ts_budget t)) (lo_budget s)"
  by (auto simp: run_slice_def Let_def elim!: res_bind_InrE split: if_split_asm)

lemma loop_turn_Go:
  assumes "loop_turn E s = Inr (Go, s')"
  shows "nat (tb_max_slices (lo_budget s') - tb_executed (lo_budget s')) < nat (tb_max_slices (lo_budget s) - tb_executed (lo_budget s))"
  using assms
  by (auto simp: loop_turn_def Let_def nothing_ready_def record_slice_def can_execute_slice_def elim!: res_bind_InrE dest!: run_slice_Go
    split: if_split_asm list.splits)

function run_loop :: "'w loop_env \<Rightarrow> 'w loop_state \<Rightarrow> (string \<times> string option \<times> 'w loop_state) res" where
  "run_loop E s = (case loop_turn E s of
     Inl e \<Rightarrow> Inl e
   | Inr (Halt why node, s') \<Rightarrow> Inr (why, node, s')
   | Inr (Go, s') \<Rightarrow> run_loop E s')"
  by pat_completeness auto

termination
  by (relation "measure (\<lambda>(E, s). nat (tb_max_slices (lo_budget s) - tb_executed (lo_budget s)))") (auto dest: loop_turn_Go)

declare run_loop.simps [simp del]

definition compat_halt_reason :: "string \<Rightarrow> string" where
  "compat_halt_reason why = (if why \<in> {''slice_limit_reached'', ''token_budget_exhausted'', ''time_budget_exhausted''} then ''budget_exhausted'' else why)"

text \<open>The reason reported, the node that failed, the final state.\<close>

definition execute_dag_until :: "'w loop_env \<Rightarrow> exec_ctx \<Rightarrow> turn_budget \<Rightarrow> 'w \<Rightarrow> (string \<times> string option \<times> 'w loop_state) res" where
  "execute_dag_until E ctx b w =
     res_bind (run_loop E \<lparr>lo_ctx = ctx, lo_budget = b, lo_executed = [], lo_timeline = [], lo_tick = 0, lo_world = w\<rparr>) (\<lambda>(why, node, s).
     Inr (if le_nodes E \<noteq> [] \<and> pn_id ` set (le_nodes E) \<subseteq> set (ec_completed (lo_ctx s))
            \<and> why \<in> {''no_ready_slices'', ''slice_limit_reached'', ''token_budget_exhausted'', ''time_budget_exhausted'', ''budget_available''}
          then ''all_completed'' else why, node, s))"

section \<open>What a turn of the loop does\<close>

lemma slice_by_node_Some: "dget (slice_by_node slices) i = Some t \<Longrightarrow> t \<in> set slices \<and> ts_node t = i"
proof (induction slices rule: rev_induct)
  case (snoc u us)
  then show ?case by (auto simp: slice_by_node_def split: if_splits)
qed (simp add: slice_by_node_def)

lemma slice_by_node_None: "dget (slice_by_node slices) i = None \<Longrightarrow> t \<in> set slices \<Longrightarrow> ts_node t \<noteq> i"
  by (induction slices rule: rev_induct) (auto simp: slice_by_node_def split: if_splits)

lemma valid_plan_sorted:
  assumes "valid_plan nodes" "stable_topological_sort nodes = Inr ns"
  shows "set ns = set nodes"
proof -
  from assms(2) [unfolded stable_topological_sort_def] have "set ns \<subseteq> set nodes" "set (map pn_id ns) = pn_id ` set nodes"
    by (auto elim: sort_with_Inr)
  moreover have "inj_on pn_id (set nodes)" using assms(1) by (simp add: valid_plan_def distinct_map)
  ultimately show ?thesis by (auto dest: inj_onD)
qed

lemma map_filter_mem: "t \<in> set (List.map_filter f xs) \<longleftrightarrow> (\<exists>x \<in> set xs. f x = Some t)"
  by (induction xs) (auto simp: List.map_filter_simps split: option.splits)

lemma next_ready_mem:
  assumes "valid_plan nodes" "next_ready_slices nodes slices ctx = Inr ts"
  shows "t \<in> set ts \<longleftrightarrow> (\<exists>n \<in> set nodes. pn_id n \<notin> set (ec_completed ctx) \<and> pn_id n \<notin> set (ec_failed ctx) \<and> deps_done (ec_completed ctx) n
    \<and> dget (slice_by_node slices) (pn_id n) = Some t)"
proof -
  from assms(2) obtain ready ns where r: "ready_node_ids nodes (ec_completed ctx) = Inr ready" "stable_topological_sort nodes = Inr ns"
    "ts = List.map_filter (\<lambda>n. if pn_id n \<in> set (ec_completed ctx) \<or> pn_id n \<in> set (ec_failed ctx) \<or> pn_id n \<notin> set ready then None
       else dget (slice_by_node slices) (pn_id n)) ns"
    by (auto simp: next_ready_slices_def Let_def elim!: res_bind_InrE)
  have inj: "inj_on pn_id (set nodes)" using assms(1) by (simp add: valid_plan_def distinct_map)
  have "pn_id n \<in> set ready \<longleftrightarrow> pn_id n \<notin> set (ec_completed ctx) \<and> deps_done (ec_completed ctx) n" if "n \<in> set nodes" for n
    using ready_node_ids_mem [OF r(1) assms(1)] inj that by (auto dest: inj_onD)
  then show ?thesis by (auto simp: r(3) map_filter_mem valid_plan_sorted [OF assms(1) r(2)] split: if_split_asm)
qed

lemma next_ready_total: "valid_plan nodes \<Longrightarrow> \<exists>ts. next_ready_slices nodes slices ctx = Inr ts"
  using valid_plan_sort [of nodes True] by (auto simp: next_ready_slices_def ready_node_ids_def stable_topological_sort_def)

text \<open>How the completed nodes may grow: by nodes of the plan, each once and after its dependencies.\<close>

definition grows :: "plan_node list \<Rightarrow> string list \<Rightarrow> string list \<Rightarrow> bool" where
  "grows nodes c c' \<longleftrightarrow> (\<exists>new. c' = c @ new \<and> distinct new \<and> set new \<inter> set c = {}
     \<and> (\<forall>i < length new. \<exists>n \<in> set nodes. pn_id n = new ! i \<and> deps_done (c @ take i new) n))"

lemma grows_refl: "grows nodes c c"
  by (simp add: grows_def)

lemma grows_one: "n \<in> set nodes \<Longrightarrow> pn_id n \<notin> set c \<Longrightarrow> deps_done c n \<Longrightarrow> grows nodes c (c @ [pn_id n])"
  unfolding grows_def by (rule exI [of _ "[pn_id n]"]) auto

lemma grows_trans:
  assumes "grows nodes a b" "grows nodes b c"
  shows "grows nodes a c"
proof -
  from assms obtain x y where x: "b = a @ x" "distinct x" "set x \<inter> set a = {}" "\<forall>i < length x. \<exists>n \<in> set nodes. pn_id n = x ! i \<and> deps_done (a @ take i x) n"
    and y: "c = b @ y" "distinct y" "set y \<inter> set b = {}" "\<forall>i < length y. \<exists>n \<in> set nodes. pn_id n = y ! i \<and> deps_done (b @ take i y) n"
    by (auto simp: grows_def)
  have "\<exists>n \<in> set nodes. pn_id n = (x @ y) ! i \<and> deps_done (a @ take i (x @ y)) n" if i: "i < length (x @ y)" for i
  proof (cases "i < length x")
    case True
    then show ?thesis using x(4) by (simp add: nth_append)
  next
    case False
    then have "i - length x < length y" using i by auto
    from y(4) [rule_format, OF this] False show ?thesis by (simp add: nth_append x(1))
  qed
  then show ?thesis using x y unfolding grows_def by (intro exI [of _ "x @ y"]) auto
qed

lemma update_context_completed:
  "ec_completed (update_context i r ctx) = (if i \<noteq> [] \<and> dr_status r = ''success'' \<and> i \<notin> set (ec_completed ctx) then ec_completed ctx @ [i] else ec_completed ctx)"
  by (simp add: update_context_def)

lemma run_slice_facts:
  assumes "run_slice E t s = Inr (v, s')"
  obtains r w where "dispatch_tier3 (le_render E) (le_tools E) (Some (le_nodes E)) (lo_ctx s) t (lo_world s) = Inr (r, w)"
    "lo_ctx s' = update_context (ts_node t) r (lo_ctx s)" "lo_executed s' = lo_executed s @ [ts_id t]"
    "lo_budget s' = (if le_saved E (length (lo_executed s) + 1) then record_slice (max 0 (ts_budget t)) (lo_budget s) else lo_budget s)"
    "v \<noteq> Halt ''all_completed'' x"
  using assms by (auto simp: run_slice_def dispatch_with_state_def Let_def elim!: res_bind_InrE split: if_split_asm)

lemma loop_turn_cases:
  assumes "loop_turn E s = Inr (v, s')"
  obtains (full) "s' = s" "v = Halt (budget_exhaustion_reason (lo_budget s) (le_clock E (lo_tick s + 1)) 0) None" 
      "\<not> can_execute_slice (lo_budget s) (le_clock E (lo_tick s)) 0"
  | (idle) "s' = s" "next_ready_slices (le_nodes E) (le_slices E) (lo_ctx s) = Inr []" "v = nothing_ready (le_nodes E) (lo_ctx s)"
  | (dear) t ts where "s' = s" "next_ready_slices (le_nodes E) (le_slices E) (lo_ctx s) = Inr (t # ts)"
      "v = Halt (budget_exhaustion_reason (lo_budget s) (le_clock E (lo_tick s + 2)) (max 0 (ts_budget t))) None"
      "\<not> can_execute_slice (lo_budget s) (le_clock E (lo_tick s + 1)) (max 0 (ts_budget t))"
  | (run) t ts where "next_ready_slices (le_nodes E) (le_slices E) (lo_ctx s) = Inr (t # ts)"
      "can_execute_slice (lo_budget s) (le_clock E (lo_tick s + 1)) (max 0 (ts_budget t))"
      "run_slice E t (s\<lparr>lo_tick := lo_tick s + 2\<rparr>) = Inr (v, s')"
  using assms by (auto simp: loop_turn_def Let_def elim!: res_bind_InrE split: if_split_asm list.splits)

lemma budget_reasons: "budget_exhaustion_reason b now n \<noteq> ''all_completed''"
  by (simp add: budget_exhaustion_reason_def Let_def)

text \<open>One turn: the completed nodes grow soundly, the budget holds, and only a completed plan is reported as such.\<close>

lemma loop_turn_sound:
  assumes "valid_plan (le_nodes E)" "loop_turn E s = Inr (v, s')"
  shows "grows (le_nodes E) (ec_completed (lo_ctx s)) (ec_completed (lo_ctx s'))
    \<and> (v = Halt ''all_completed'' x \<longrightarrow> pn_id ` set (le_nodes E) \<subseteq> set (ec_completed (lo_ctx s')))
    \<and> set (lo_executed s') \<subseteq> set (lo_executed s) \<union> ts_id ` set (le_slices E)"
  using assms(2)
proof (cases rule: loop_turn_cases)
  case (run t ts)
  have t: "\<exists>n \<in> set (le_nodes E). pn_id n \<notin> set (ec_completed (lo_ctx s)) \<and> deps_done (ec_completed (lo_ctx s)) n
      \<and> dget (slice_by_node (le_slices E)) (pn_id n) = Some t"
    using next_ready_mem [OF assms(1) run(1), of t] by auto
  then obtain n where n: "n \<in> set (le_nodes E)" "pn_id n \<notin> set (ec_completed (lo_ctx s))" "deps_done (ec_completed (lo_ctx s)) n"
    "t \<in> set (le_slices E)" "ts_node t = pn_id n" using slice_by_node_Some by blast
  from run(3) show ?thesis
    by (rule run_slice_facts [of _ _ _ _ _ x]) (use n grows_refl grows_one in \<open>auto simp: update_context_completed\<close>)
qed (auto simp: grows_refl nothing_ready_def budget_reasons split: if_split_asm)

lemma run_loop_sound:
  assumes "run_loop E s = Inr (why, node, s')" "valid_plan (le_nodes E)"
  shows "grows (le_nodes E) (ec_completed (lo_ctx s)) (ec_completed (lo_ctx s'))
    \<and> (why = ''all_completed'' \<longrightarrow> pn_id ` set (le_nodes E) \<subseteq> set (ec_completed (lo_ctx s')))
    \<and> set (lo_executed s') \<subseteq> set (lo_executed s) \<union> ts_id ` set (le_slices E)"
  using assms
proof (induction E s rule: run_loop.induct)
  case (1 E s)
  show ?case
  proof (cases "loop_turn E s")
    case (Inl e)
    then show ?thesis using 1(2) by (simp add: run_loop.simps [of E s])
  next
    case (Inr p)
    obtain v u where p: "p = (v, u)" by fastforce
    note l = Inr [unfolded p]
    note turn = loop_turn_sound [OF 1(3) l, of node]
    show ?thesis
    proof (cases v)
      case Go
      then have "run_loop E u = Inr (why, node, s')" using 1(2) l by (simp add: run_loop.simps [of E s])
      note rest = 1(1) [OF l [unfolded Go] refl refl this 1(3)]
      have "grows (le_nodes E) (ec_completed (lo_ctx s)) (ec_completed (lo_ctx s'))"
        using turn rest by (elim conjE) (rule grows_trans)
      with turn rest show ?thesis by auto
    next
      case (Halt why' node')
      then have "why' = why" "node' = node" "u = s'" using 1(2) l by (simp_all add: run_loop.simps [of E s])
      then show ?thesis using turn Halt by simp
    qed
  qed
qed

text \<open>The budget over the loop.\<close>

definition tokens_ok :: "turn_budget \<Rightarrow> bool" where
  "tokens_ok b \<longleftrightarrow> 0 < tb_max_tokens b \<longrightarrow> tb_consumed b \<le> tb_max_tokens b"

lemma run_loop_budget:
  assumes "run_loop E s = Inr (why, node, s')"
  shows "int (length (lo_executed s')) \<le> int (length (lo_executed s)) + max 0 (tb_max_slices (lo_budget s) - tb_executed (lo_budget s))
    \<and> (tokens_ok (lo_budget s) \<longrightarrow> tokens_ok (lo_budget s')) \<and> tb_max_tokens (lo_budget s') = tb_max_tokens (lo_budget s)"
  using assms
proof (induction E s rule: run_loop.induct)
  case (1 E s)
  show ?case
  proof (cases "loop_turn E s")
    case (Inl e)
    then show ?thesis using 1(2) by (simp add: run_loop.simps [of E s])
  next
    case (Inr p)
    obtain v u where p: "p = (v, u)" by fastforce
    note l = Inr [unfolded p]
    have turn: "(lo_budget u = lo_budget s \<and> lo_executed u = lo_executed s \<and> v \<noteq> Go)
      \<or> (\<exists>t. tb_executed (lo_budget s) < tb_max_slices (lo_budget s) \<and> length (lo_executed u) = Suc (length (lo_executed s))
           \<and> (tokens_ok (lo_budget s) \<longrightarrow> tokens_ok (lo_budget u)) \<and> tb_max_tokens (lo_budget u) = tb_max_tokens (lo_budget s)
           \<and> tb_max_slices (lo_budget u) = tb_max_slices (lo_budget s) \<and> (v = Go \<longrightarrow> tb_executed (lo_budget u) = tb_executed (lo_budget s) + 1))"
      using l
    proof (cases rule: loop_turn_cases)
      case (run t ts)
      have room: "tb_executed (lo_budget s) < tb_max_slices (lo_budget s)"
        and fits: "tokens_ok (lo_budget s) \<Longrightarrow> tokens_ok (record_slice (max 0 (ts_budget t)) (lo_budget s))"
        using run(2) by (auto simp: can_execute_slice_def record_slice_def tokens_ok_def Let_def)
      have b: "lo_budget u = record_slice (max 0 (ts_budget t)) (lo_budget s) \<or> (lo_budget u = lo_budget s \<and> v \<noteq> Go)"
        "length (lo_executed u) = Suc (length (lo_executed s))"
      proof -
        from run(3) obtain r w where "lo_executed u = lo_executed s @ [ts_id t]"
          "lo_budget u = (if le_saved E (length (lo_executed s) + 1) then record_slice (max 0 (ts_budget t)) (lo_budget s) else lo_budget s)"
          by (rule run_slice_facts) simp
        moreover have "v = Go \<Longrightarrow> lo_budget u = record_slice (max 0 (ts_budget t)) (lo_budget s)" using run_slice_Go run(3) by fastforce
        ultimately show "lo_budget u = record_slice (max 0 (ts_budget t)) (lo_budget s) \<or> (lo_budget u = lo_budget s \<and> v \<noteq> Go)"
          "length (lo_executed u) = Suc (length (lo_executed s))" by (auto split: if_split_asm)
      qed
      then show ?thesis using room fits by (elim disjE) (auto simp: record_slice_def)
    qed (auto simp: nothing_ready_def)
    show ?thesis
    proof (cases v)
      case Go
      then have "run_loop E u = Inr (why, node, s')" using 1(2) l by (simp add: run_loop.simps [of E s])
      from 1(1) [OF l [unfolded Go] refl refl this] turn Go show ?thesis by auto
    next
      case (Halt why' node')
      then have "u = s'" using 1(2) l by (simp_all add: run_loop.simps [of E s])
      then show ?thesis using turn by auto
    qed
  qed
qed

text \<open>A slice that would succeed on its own succeeds in the loop.\<close>

lemma gate_open:
  assumes "valid_plan nodes" "next_ready_slices nodes slices ctx = Inr (t # ts)"
  shows "validate_slice_ready render t nodes ctx = Inr []"
proof -
  from next_ready_mem [OF assms, of t] obtain n where n: "n \<in> set nodes" "pn_id n \<notin> set (ec_completed ctx)" "pn_id n \<notin> set (ec_failed ctx)"
    "deps_done (ec_completed ctx) n" "dget (slice_by_node slices) (pn_id n) = Some t" by auto
  then have t: "ts_node t = pn_id n" using slice_by_node_Some by blast
  obtain rs where rs: "ready_node_ids nodes (ec_completed ctx) = Inr rs"
    using valid_plan_sort [OF assms(1), of True] by (auto simp: ready_node_ids_def stable_topological_sort_def)
  have "pn_id n \<in> set rs" using ready_node_ids_mem [OF rs assms(1)] n by blast
  then show ?thesis using n by (simp add: validate_slice_ready_def t is_node_ready_def rs)
qed

lemma dispatch_gate:
  "validate_slice_ready render t nodes ctx = Inr [] \<Longrightarrow> dispatch_tier3 render env (Some nodes) ctx t w = dispatch_tier3 render env None ctx t w"
  by (simp add: dispatch_tier3_def)

lemma run_loop_completes:
  assumes "valid_plan (le_nodes E)" "le_nodes E \<noteq> []"
    and "\<And>n. n \<in> set (le_nodes E) \<Longrightarrow> pn_id n \<noteq> [] \<and> dget (slice_by_node (le_slices E)) (pn_id n) \<noteq> None"
    and "\<And>t ctx w. t \<in> set (le_slices E) \<Longrightarrow> \<exists>r w'. dispatch_tier3 (le_render E) (le_tools E) None ctx t w = Inr (r, w') \<and> dr_status r = ''success'' \<and> dr_reason r = []"
    and "\<And>k. le_saved E k"
    and "ec_failed (lo_ctx s) = []" "tb_max_time (lo_budget s) \<le> 0" "tb_max_tokens (lo_budget s) \<le> 0"
    and "int (card (pn_id ` set (le_nodes E) - set (ec_completed (lo_ctx s)))) \<le> tb_max_slices (lo_budget s) - tb_executed (lo_budget s)"
  shows "\<exists>why node s'. run_loop E s = Inr (why, node, s') \<and> why \<in> {''all_completed'', ''slice_limit_reached''} \<and> pn_id ` set (le_nodes E) \<subseteq> set (ec_completed (lo_ctx s'))"
  using assms
proof (induction E s rule: run_loop.induct)
  case (1 E s)
  let ?ids = "pn_id ` set (le_nodes E)" and ?done = "set (ec_completed (lo_ctx s))"
  obtain ts where ts: "next_ready_slices (le_nodes E) (le_slices E) (lo_ctx s) = Inr ts" using next_ready_total [OF 1(2)] by blast
  have time: "\<not> out_of_time (lo_budget s) now" for now using 1(8) by (simp add: out_of_time_def time_remaining_def)
  have can: "can_execute_slice (lo_budget s) now k \<longleftrightarrow> tb_executed (lo_budget s) < tb_max_slices (lo_budget s)" for now k
    using 1(9) time by (auto simp: can_execute_slice_def Let_def)
  show ?case
  proof (cases "?ids \<subseteq> ?done")
    case True
    have "ts = []" 
    proof -
      have "t \<notin> set ts" for t using next_ready_mem [OF 1(2) ts, of t] True by blast
      then show ?thesis by (cases ts) auto
    qed
    then show ?thesis using True 1(3) ts can
      by (subst run_loop.simps) (auto simp: loop_turn_def nothing_ready_def budget_exhaustion_reason_def Let_def)
  next
    case False
    then have "0 < card (?ids - ?done)" by (auto simp: card_gt_0_iff)
    then have room: "tb_executed (lo_budget s) < tb_max_slices (lo_budget s)" using 1(10) by linarith
    from ready_node_exists [OF 1(2) False] obtain q rs where "ready_node_ids (le_nodes E) (ec_completed (lo_ctx s)) = Inr (q # rs)" by blast
    from ready_node_ids_mem [OF this 1(2)] obtain n where "n \<in> set (le_nodes E)" "pn_id n \<notin> ?done" "deps_done (ec_completed (lo_ctx s)) n"
      by (auto simp: set_eq_iff)
    moreover from this 1(4) obtain t' where "dget (slice_by_node (le_slices E)) (pn_id n) = Some t'" by blast
    ultimately have "t' \<in> set ts" using next_ready_mem [OF 1(2) ts] 1(7) by auto
    then obtain t ts' where t: "ts = t # ts'" by (cases ts) auto
    from next_ready_mem [OF 1(2) ts, of t] obtain m where m: "m \<in> set (le_nodes E)" "pn_id m \<notin> ?done"
      "dget (slice_by_node (le_slices E)) (pn_id m) = Some t" by (auto simp: t)
    then have tm: "t \<in> set (le_slices E)" "ts_node t = pn_id m" using slice_by_node_Some by blast+
    from 1(5) [OF tm(1)] obtain r w' where r: "dispatch_tier3 (le_render E) (le_tools E) None (lo_ctx s) t (lo_world s) = Inr (r, w')"
      "dr_status r = ''success''" "dr_reason r = []" by blast
    note r' = r(1) [folded dispatch_gate [OF gate_open [OF 1(2) ts [unfolded t]]]]
    obtain u where u: "loop_turn E s = Inr (Go, u)" "lo_ctx u = update_context (ts_node t) r (lo_ctx s)" "lo_budget u = record_slice (max 0 (ts_budget t)) (lo_budget s)"
      using r' r(2,3) ts t can room 1(6) by (simp add: loop_turn_def run_slice_def dispatch_with_state_def Let_def)
    have c: "ec_completed (lo_ctx u) = ec_completed (lo_ctx s) @ [pn_id m]" "ec_failed (lo_ctx u) = []"
      using m 1(4) [OF m(1)] 1(7) r(2) by (simp_all add: u(2) tm(2) update_context_def)
    have "card (?ids - set (ec_completed (lo_ctx u))) + 1 = card (?ids - ?done)"
    proof -
      have "?ids - ?done = insert (pn_id m) (?ids - set (ec_completed (lo_ctx u)))" using m(1,2) by (auto simp: c(1))
      moreover have "pn_id m \<notin> ?ids - set (ec_completed (lo_ctx u))" by (simp add: c(1))
      ultimately show ?thesis by simp
    qed
    then have "int (card (?ids - set (ec_completed (lo_ctx u)))) \<le> tb_max_slices (lo_budget u) - tb_executed (lo_budget u)"
      using 1(10) by (simp add: u(3) record_slice_def)
    from 1(1) [OF u(1) refl refl 1(2-6) c(2) _ _ this] 1(8,9) show ?thesis
      by (simp add: u(1,3) run_loop.simps [of E s] record_slice_def)
  qed
qed

section \<open>Properties\<close>

text \<open>C10: executing a valid plan completes nodes of the plan only, each once and after all its dependencies, whatever tools,
  model and clock do; only slices of the plan are run; and all_completed is reported only if every node is completed.\<close>

theorem execution_respects_plan:
  assumes "validate_dag render (le_nodes E) = Inr []" "execute_dag_until E ctx b w = Inr (why, node, s)"
  shows "(\<exists>new. ec_completed (lo_ctx s) = ec_completed ctx @ new \<and> distinct new \<and> set new \<inter> set (ec_completed ctx) = {}
      \<and> (\<forall>i < length new. \<exists>n \<in> set (le_nodes E). pn_id n = new ! i \<and> (\<forall>v \<in> set (pn_deps n). \<exists>d \<in> set (ec_completed ctx @ take i new). v = PStr d)))
    \<and> set (lo_executed s) \<subseteq> ts_id ` set (le_slices E)
    \<and> (why = ''all_completed'' \<longrightarrow> pn_id ` set (le_nodes E) \<subseteq> set (ec_completed (lo_ctx s)))"
proof -
  let ?s0 = "\<lparr>lo_ctx = ctx, lo_budget = b, lo_executed = [], lo_timeline = [], lo_tick = 0, lo_world = w\<rparr>"
  from assms(2) obtain why' where r: "run_loop E ?s0 = Inr (why', node, s)"
    "why = ''all_completed'' \<Longrightarrow> why' = ''all_completed'' \<or> pn_id ` set (le_nodes E) \<subseteq> set (ec_completed (lo_ctx s))"
    by (auto simp: execute_dag_until_def elim!: res_bind_InrE split: if_split_asm)
  from run_loop_sound [OF r(1)] assms(1) r(2) show ?thesis by (auto simp: grows_def validate_dag_valid deps_done_iff)
qed

text \<open>A turn stays in its budget: it runs no more slices than the limit leaves, and if the tokens have a limit, the
  estimates of the slices it ran do not exceed it.\<close>

theorem execution_within_budget:
  assumes "execute_dag_until E ctx b w = Inr (why, node, s)"
  shows "int (length (lo_executed s)) \<le> max 0 (tb_max_slices b - tb_executed b)
    \<and> (0 < tb_max_tokens b \<and> tb_consumed b \<le> tb_max_tokens b \<longrightarrow> tb_consumed (lo_budget s) \<le> tb_max_tokens b)"
proof -
  let ?s0 = "\<lparr>lo_ctx = ctx, lo_budget = b, lo_executed = [], lo_timeline = [], lo_tick = 0, lo_world = w\<rparr>"
  from assms obtain why' where "run_loop E ?s0 = Inr (why', node, s)" by (auto simp: execute_dag_until_def elim!: res_bind_InrE)
  from run_loop_budget [OF this] show ?thesis by (auto simp: tokens_ok_def)
qed

text \<open>If every slice would succeed, a valid plan whose nodes all have a slice is completed, provided that the turn may
  still run as many slices as there are nodes left and has no limit on tokens and time.\<close>

theorem plan_completes:
  assumes "validate_dag render (le_nodes E) = Inr []" "le_nodes E \<noteq> []"
    and "\<forall>n \<in> set (le_nodes E). pn_id n \<noteq> [] \<and> (\<exists>t \<in> set (le_slices E). ts_node t = pn_id n)"
    and "\<forall>t \<in> set (le_slices E). \<forall>ctx w. \<exists>r w'. dispatch_tier3 (le_render E) (le_tools E) None ctx t w = Inr (r, w') \<and> dr_status r = ''success'' \<and> dr_reason r = []"
    and "\<forall>k. le_saved E k" "ec_failed ctx = []" "tb_max_time b \<le> 0" "tb_max_tokens b \<le> 0"
    and "int (card (pn_id ` set (le_nodes E) - set (ec_completed ctx))) \<le> tb_max_slices b - tb_executed b"
  shows "\<exists>node s. execute_dag_until E ctx b w = Inr (''all_completed'', node, s) \<and> pn_id ` set (le_nodes E) \<subseteq> set (ec_completed (lo_ctx s))"
proof -
  let ?s0 = "\<lparr>lo_ctx = ctx, lo_budget = b, lo_executed = [], lo_timeline = [], lo_tick = 0, lo_world = w\<rparr>"
  have "valid_plan (le_nodes E)" using assms(1) by (simp add: validate_dag_valid)
  moreover have "pn_id n \<noteq> [] \<and> dget (slice_by_node (le_slices E)) (pn_id n) \<noteq> None" if "n \<in> set (le_nodes E)" for n
    using assms(3) that slice_by_node_None by force
  ultimately have "\<exists>why node s'. run_loop E ?s0 = Inr (why, node, s') \<and> why \<in> {''all_completed'', ''slice_limit_reached''}
      \<and> pn_id ` set (le_nodes E) \<subseteq> set (ec_completed (lo_ctx s'))"
    using assms(2,4-9) by (intro run_loop_completes) auto
  then show ?thesis using assms(2) by (auto simp: execute_dag_until_def)
qed

text \<open>A slice that only runs the tests succeeds, and its node is completed, although the tests failed, timed out, or
  could not be started: the dispatcher looks for an error and never at tests_passed.\<close>

theorem failed_tests_complete_node:
  assumes "ts_tools t = [PStr ''adapter/ca/run-tests/v1'']" "ts_model t \<noteq> Some ''slm''" "ts_node t \<noteq> []"
    and "is_provider_allowed env (resolve_provider env (ts_tier t))"
    and "fst (te_run env [''pytest -q''] w) \<in> {Not_Found, Timed_Out, Ended code out}"
  shows "\<exists>r ctx' w'. dispatch_with_state render env None ctx t w = Inr (r, ctx', w') \<and> dr_dispatched r \<and> dr_status r = ''success''
    \<and> ts_node t \<in> set (ec_completed ctx') \<and> (code \<noteq> 0 \<longrightarrow> (\<exists>d. dr_trace r = [(''adapter/ca/run-tests/v1'', d)] \<and> dget d ''tests_passed'' = Some (PBool False)))"
proof -
  obtain p u where p: "te_run env [''pytest -q''] w = (p, u)" by fastforce
  have "\<exists>d w'. run_tests_tool env [''pytest -q''] w = (Inr d, w') \<and> dget d ''error'' = None \<and> dget d ''read_ok'' = None \<and> dget d ''write_ok'' = None
      \<and> (code \<noteq> 0 \<longrightarrow> dget d ''tests_passed'' = Some (PBool False))"
    using assms(5) p unfolding run_tests_tool_def by (cases "(if strip ''pytest -q'' = [] then [] else te_first env ''pytest -q'') \<in> {''pytest'', ''python'', ''python3''}") auto
  then obtain d w' where d: "run_tests_tool env [''pytest -q''] w = (Inr d, w')" "dget d ''error'' = None" "dget d ''read_ok'' = None" "dget d ''write_ok'' = None"
    "code \<noteq> 0 \<longrightarrow> dget d ''tests_passed'' = Some (PBool False)" by blast
  have f: "tool_failure render d = []" by (simp add: tool_failure_def d(2-4))
  have s: "split_tools [PStr ''adapter/ca/run-tests/v1''] = Inr ([''adapter/ca/run-tests/v1''], [])" by code_simp
  have r: "run_tools render env (ts_desc t) [''adapter/ca/run-tests/v1''] [] w = ([], [(''adapter/ca/run-tests/v1'', d)], w')"
    by (simp add: call_tool_def d(1) f)
  then have "\<exists>r. dispatch_tier3 render env None ctx t w = Inr (r, w') \<and> dr_dispatched r \<and> dr_status r = ''success'' \<and> dr_trace r = [(''adapter/ca/run-tests/v1'', d)]"
    using assms(1,2,4) s by (simp add: dispatch_tier3_def execute_tools_def evidence_only_def)
  then obtain r where "dispatch_tier3 render env None ctx t w = Inr (r, w')" "dr_dispatched r" "dr_status r = ''success''" "dr_trace r = [(''adapter/ca/run-tests/v1'', d)]"
    by blast
  then show ?thesis using assms(3) d(5) by (simp add: dispatch_with_state_def update_context_completed)
qed

section \<open>Witnesses\<close>

definition sample_env :: "unit tool_env" where
  "sample_env = \<lparr>te_read = (\<lambda>_ _. Inl ''no file''), te_write = (\<lambda>_ _ w. (Inl ''no file'', w)), te_first = (\<lambda>_. ''pytest''),
     te_run = (\<lambda>_ w. (Ended 1 ''1 failed'', w)), te_stage = (\<lambda>w. w), te_slm = (\<lambda>_ w. (None, w)), te_providers = [(3, ''local'')], te_allow_cloud = ''true''\<rparr>"

definition sample_loop :: "unit loop_env" where
  "sample_loop = \<lparr>le_render = (\<lambda>_. []), le_tools = sample_env, le_clock = rat_of_nat, le_saved = (\<lambda>_. True), le_nodes = sample_plan, le_slices = sample_slices\<rparr>"

definition sample_ctx :: exec_ctx where
  "sample_ctx = \<lparr>ec_completed = [], ec_failed = [], ec_retries = [], ec_max_retries = 2, ec_base = 1, ec_max_backoff = 30\<rparr>"

definition sample_budget :: turn_budget where
  "sample_budget = \<lparr>tb_max_tokens = 0, tb_max_time = 0, tb_max_slices = 3, tb_started = 0, tb_consumed = 0, tb_executed = 0\<rparr>"

lemma sample_success:
  "\<forall>t \<in> set (le_slices sample_loop). \<forall>ctx w. \<exists>r w'. dispatch_tier3 (le_render sample_loop) (le_tools sample_loop) None ctx t w = Inr (r, w')
     \<and> dr_status r = ''success'' \<and> dr_reason r = []"
proof -
  have s: "split_tools [PStr ''adapter/ca/stage-patch/v1''] = Inr ([''adapter/ca/stage-patch/v1''], [])" by code_simp
  have m: "te_slm sample_env d w = (None, w)" for d w by (simp add: sample_env_def)
  have "resolve_provider sample_env 3 = ''local''" by code_simp
  then show ?thesis
    by (simp add: m sample_loop_def sample_slices_def dispatch_tier3_def execute_tools_def is_provider_allowed_def s call_tool_def stage_patch_tool_def
      tool_failure_def evidence_only_def dget_or_def)
qed

theorem plan_completes_witness:
  "\<exists>node s. execute_dag_until sample_loop sample_ctx sample_budget () = Inr (''all_completed'', node, s) \<and> {''a'', ''b'', ''c''} \<subseteq> set (ec_completed (lo_ctx s))"
proof -
  have v: "validate_dag (\<lambda>_. []) (le_nodes sample_loop) = Inr []" using sample_plan_facts(1) by (simp add: sample_loop_def)
  have n: "le_nodes sample_loop = sample_plan" "le_slices sample_loop = sample_slices" "le_saved sample_loop = (\<lambda>_. True)" by (simp_all add: sample_loop_def)
  have ids: "pn_id ` set sample_plan = {''c'', ''b'', ''a''}" by (simp add: sample_plan_def)
  have "card (pn_id ` set sample_plan) = 3" unfolding ids by simp
  then have "\<exists>node s. execute_dag_until sample_loop sample_ctx sample_budget () = Inr (''all_completed'', node, s)
      \<and> pn_id ` set (le_nodes sample_loop) \<subseteq> set (ec_completed (lo_ctx s))"
    by (intro plan_completes [OF v _ _ sample_success]) (simp_all add: n sample_ctx_def sample_budget_def, simp_all add: sample_plan_def sample_slices_def)
  then show ?thesis by (simp add: n ids insert_commute)
qed

text \<open>A turn that may run two slices stops after them.\<close>

lemma sample_two:
  "case execute_dag_until sample_loop sample_ctx (sample_budget\<lparr>tb_max_slices := 2\<rparr>) () of
     Inr (why, node, s) \<Rightarrow> why = ''slice_limit_reached'' \<and> ec_completed (lo_ctx s) = [''a'', ''b''] \<and> lo_executed s = [''a-slice'', ''b-slice''] | Inl _ \<Rightarrow> False"
  by code_simp

theorem execution_respects_plan_witness:
  "\<exists>why node s. execute_dag_until sample_loop sample_ctx (sample_budget\<lparr>tb_max_slices := 2\<rparr>) () = Inr (why, node, s)
     \<and> ec_completed (lo_ctx s) = [''a'', ''b''] \<and> (\<exists>n \<in> set sample_plan. pn_id n = ''b'' \<and> (\<forall>v \<in> set (pn_deps n). v = PStr ''a''))"
proof -
  have v: "validate_dag (\<lambda>_. []) (le_nodes sample_loop) = Inr []" using sample_plan_facts(1) by (simp add: sample_loop_def)
  obtain why node s where r: "execute_dag_until sample_loop sample_ctx (sample_budget\<lparr>tb_max_slices := 2\<rparr>) () = Inr (why, node, s)"
    "ec_completed (lo_ctx s) = [''a'', ''b'']" using sample_two by (auto split: sum.splits)
  from execution_respects_plan [OF v r(1)] obtain new where new: "ec_completed (lo_ctx s) = new"
    "\<forall>i < length new. \<exists>n \<in> set (le_nodes sample_loop). pn_id n = new ! i \<and> (\<forall>v \<in> set (pn_deps n). \<exists>d \<in> set (take i new). v = PStr d)"
    by (auto simp: sample_ctx_def)
  from new(2) [rule_format, of 1] have "\<exists>n \<in> set sample_plan. pn_id n = ''b'' \<and> (\<forall>v \<in> set (pn_deps n). v = PStr ''a'')"
    unfolding new(1) [symmetric] r(2) by (simp add: sample_loop_def)
  with r show ?thesis by blast
qed

theorem execution_within_budget_witness:
  "\<exists>why node s. execute_dag_until sample_loop sample_ctx (sample_budget\<lparr>tb_max_slices := 2\<rparr>) () = Inr (why, node, s) \<and> length (lo_executed s) \<le> 2"
proof -
  obtain why node s where r: "execute_dag_until sample_loop sample_ctx (sample_budget\<lparr>tb_max_slices := 2\<rparr>) () = Inr (why, node, s)"
    using sample_two by (auto split: sum.splits)
  from execution_within_budget [OF r] have "length (lo_executed s) \<le> 2" by (simp add: sample_budget_def)
  with r show ?thesis by blast
qed

theorem failed_tests_complete_node_witness:
  "\<exists>r ctx' w'. dispatch_with_state (\<lambda>_. []) sample_env None sample_ctx ((hd sample_slices)\<lparr>ts_tools := [PStr ''adapter/ca/run-tests/v1''], ts_model := Some ''llm''\<rparr>) ()
      = Inr (r, ctx', w') \<and> dr_status r = ''success'' \<and> ''c'' \<in> set (ec_completed ctx')"
proof -
  let ?t = "(hd sample_slices)\<lparr>ts_tools := [PStr ''adapter/ca/run-tests/v1''], ts_model := Some ''llm''\<rparr>"
  have t: "ts_node ?t = ''c''" "ts_tier ?t = 3" by (simp_all add: sample_slices_def)
  have "resolve_provider sample_env 3 = ''local''" by code_simp
  then have p: "is_provider_allowed sample_env (resolve_provider sample_env (ts_tier ?t))" by (simp add: t is_provider_allowed_def)
  have "fst (te_run sample_env [''pytest -q''] ()) \<in> {Not_Found, Timed_Out, Ended 1 ''1 failed''}" by (simp add: sample_env_def)
  from failed_tests_complete_node [where t = ?t and ctx = sample_ctx and render = "\<lambda>_. []", OF _ _ _ p this] t(1)
  show ?thesis by (simp, blast)
qed

end
