(* ===== verification/Profile_Store.thy ===== *)
theory Profile_Store
  imports Yaml_Print "HOL-Library.Char_ord" "HOL-Library.List_Lexorder"
begin

text \<open>
  The profiles of \<^verbatim>\<open>persistence/filesystem.py\<close>: its YAML writer (\<^verbatim>\<open>_dump_yaml\<close>), which is not the inverse of the reader
  (\<open>Yaml_Loader\<close>) on every document, and the profile files addressed by user and domain key. A path is the list of its
  parts; files are their texts. A write goes to a temporary file that replaces the target, so its effect is one
  assignment. The rendering \<open>str(v)\<close> of containers is an argument.
\<close>

section \<open>The writer\<close>

definition quoting_words :: "string list" where
  "quoting_words = [''true'', ''false'', ''null'', ''yes'', ''no'', ''on'', ''off'']"

definition needs_quote :: "string \<Rightarrow> bool" where
  "needs_quote s \<longleftrightarrow> s = [] \<or> strip s \<noteq> s
     \<or> hd s \<in> {CHR '':'', CHR ''{'', CHR ''['', CHR ''|'', CHR ''>'', CHR ''&'', CHR ''*'', CHR ''!'', CHR ''%'', CHR ''@'', CHR 0x60, CHR ''#''}
     \<or> to_lower s \<in> set quoting_words \<or> CHR 0x0A \<in> set s \<or> is_substr '': '' s"

definition escape_char :: "char \<Rightarrow> string" where
  "escape_char c = (if c = CHR 0x5C then [CHR 0x5C, CHR 0x5C] else if c = CHR 0x22 then [CHR 0x5C, CHR 0x22]
     else if c = CHR 0x0A then [CHR 0x5C, CHR ''n''] else [c])"

text \<open>\<open>str(v)\<close> and the quotes, for a string and for a container.\<close>

definition yaml_text :: "string \<Rightarrow> string" where
  "yaml_text s = (if needs_quote s then CHR 0x22 # concat (map escape_char s) @ [CHR 0x22] else s)"

fun yaml_scalar :: "(pyval \<Rightarrow> string) \<Rightarrow> pyval \<Rightarrow> string" where
  "yaml_scalar render PNone = ''null''"
| "yaml_scalar render (PBool b) = (if b then ''true'' else ''false'')"
| "yaml_scalar render (PInt n) = int_str n"
| "yaml_scalar render (PFloat f) = fmt_8g f"
| "yaml_scalar render v = yaml_text (py_str render v)"

fun yaml_lines :: "(pyval \<Rightarrow> string) \<Rightarrow> pyval \<Rightarrow> nat \<Rightarrow> string list"
  and entry_lines :: "(pyval \<Rightarrow> string) \<Rightarrow> (string \<times> pyval) list \<Rightarrow> nat \<Rightarrow> string list"
  and item_lines :: "(pyval \<Rightarrow> string) \<Rightarrow> pyval list \<Rightarrow> nat \<Rightarrow> string list" where
  "yaml_lines render (PDict []) ind = [pad (2 * ind) @ ''{}'']"
| "yaml_lines render (PDict (p # d)) ind = entry_lines render (p # d) ind"
| "yaml_lines render (PList xs) ind = item_lines render xs ind"
| "yaml_lines render v ind = [pad (2 * ind) @ yaml_scalar render v]"
| "entry_lines render [] ind = []"
| "entry_lines render ((k, v) # d) ind = (case v of
      PDict (p # e) \<Rightarrow> (pad (2 * ind) @ k @ '':'') # yaml_lines render v (ind + 1)
    | PList (x # xs) \<Rightarrow> (pad (2 * ind) @ k @ '':'') # yaml_lines render v (ind + 1)
    | PList [] \<Rightarrow> [pad (2 * ind) @ k @ '': []'']
    | PDict [] \<Rightarrow> [pad (2 * ind) @ k @ '': {}'']
    | _ \<Rightarrow> [pad (2 * ind) @ k @ '': '' @ yaml_scalar render v]) @ entry_lines render d ind"
| "item_lines render [] ind = []"
| "item_lines render (x # xs) ind = (case x of
      PDict (p # e) \<Rightarrow> (let nested = yaml_lines render x (ind + 1) in (pad (2 * ind) @ ''- '' @ lstrip (hd nested)) # tl nested)
    | _ \<Rightarrow> [pad (2 * ind) @ ''- '' @ yaml_scalar render x]) @ item_lines render xs ind"

definition dump_yaml :: "(pyval \<Rightarrow> string) \<Rightarrow> pyval \<Rightarrow> string" where
  "dump_yaml render v = join_with [CHR 0x0A] (yaml_lines render v 0) @ [CHR 0x0A]"

section \<open>The files\<close>

type_synonym yaml_files = "(path, string) dict"

definition safe_name :: "string \<Rightarrow> string" where
  "safe_name s = map (\<lambda>c. if c = CHR ''/'' \<or> c = CHR 0x5C then CHR ''_'' else c) s"

text \<open>Joining drops an empty part and a single dot.\<close>

definition dir_part :: "string \<Rightarrow> path" where
  "dir_part s = (if s = [] \<or> s = ''.'' then [] else [s])"

definition profile_dir :: "path \<Rightarrow> string \<Rightarrow> path" where
  "profile_dir repo user = repo @ [''data'', ''profiles''] @ dir_part (safe_name user)"

definition profile_path :: "path \<Rightarrow> string \<Rightarrow> string \<Rightarrow> path" where
  "profile_path repo user domain_key = profile_dir repo user @ [safe_name domain_key @ ''.yaml'']"

text \<open>\<open>None\<close>: there is no such file.\<close>

definition load_subject_profile :: "path \<Rightarrow> yaml_files \<Rightarrow> pydict option" where
  "load_subject_profile p fs = Option.bind (dget fs p) load_yaml"

definition save_subject_profile :: "(pyval \<Rightarrow> string) \<Rightarrow> path \<Rightarrow> pydict \<Rightarrow> yaml_files \<Rightarrow> yaml_files" where
  "save_subject_profile render p d fs = dput p (dump_yaml render (PDict d)) fs"

definition load_profile :: "path \<Rightarrow> string \<Rightarrow> string \<Rightarrow> yaml_files \<Rightarrow> pydict option" where
  "load_profile repo user domain_key fs = (case dget fs (profile_path repo user domain_key) of None \<Rightarrow> None | Some t \<Rightarrow> load_yaml t)"

definition save_profile :: "(pyval \<Rightarrow> string) \<Rightarrow> path \<Rightarrow> string \<Rightarrow> string \<Rightarrow> pydict \<Rightarrow> yaml_files \<Rightarrow> yaml_files" where
  "save_profile render repo user domain_key d fs = dput (profile_path repo user domain_key) (dump_yaml render (PDict d)) fs"

text \<open>\<open>p.stem\<close>; a name that is nothing but the suffix is its own stem.\<close>

definition stem :: "string \<Rightarrow> string" where
  "stem name = (if name = ''.yaml'' then name else take (length name - 5) name)"

definition list_profiles :: "path \<Rightarrow> string \<Rightarrow> yaml_files \<Rightarrow> string list" where
  "list_profiles repo user fs = sort (map (stem \<circ> last)
     (filter (\<lambda>p. p \<noteq> [] \<and> butlast p = profile_dir repo user \<and> ends_with ''.yaml'' (last p)) (dkeys fs)))"

definition delete_profile :: "path \<Rightarrow> string \<Rightarrow> string \<Rightarrow> yaml_files \<Rightarrow> bool \<times> yaml_files" where
  "delete_profile repo user domain_key fs = (let p = profile_path repo user domain_key in
     if dhas fs p then (True, ddel p fs) else (False, fs))"

section \<open>Documents that survive\<close>

text \<open>A value in an entry; the sequences have scalars for items.\<close>

definition entry_text :: "(pyval \<Rightarrow> string) \<Rightarrow> pyval \<Rightarrow> string" where
  "entry_text render v = (case v of PList [] \<Rightarrow> ''[]'' | PDict [] \<Rightarrow> ''{}'' | _ \<Rightarrow> yaml_scalar render v)"

text \<open>Strings that the writer quotes must not need an escape; the others must not hold a comment sign.\<close>

definition legible :: "string \<Rightarrow> bool" where
  "legible s \<longleftrightarrow> (\<forall>c \<in> set s. \<not> is_break c) \<and> (if needs_quote s then CHR 0x22 \<notin> set s \<and> CHR 0x5C \<notin> set s else CHR ''#'' \<notin> set s)"

fun legible_entry :: "pyval \<Rightarrow> bool" where
  "legible_entry (PStr s) = legible s"
| "legible_entry (PFloat f) = False"
| "legible_entry (PList xs) = (xs = [])"
| "legible_entry (PDict d) = (d = [])"
| "legible_entry v = True"

definition legible_item :: "pyval \<Rightarrow> bool" where
  "legible_item v \<longleftrightarrow> legible_entry v \<and> \<not> is_list v \<and> \<not> is_dict v"

text \<open>Strings that do not look like something else.\<close>

definition wordy :: "string \<Rightarrow> bool" where
  "wordy s \<longleftrightarrow> needs_quote s \<or> (s \<noteq> ''~'' \<and> \<not> wrapped (CHR 0x22) (CHR 0x22) s \<and> \<not> wrapped (CHR 0x27) (CHR 0x27) s
     \<and> parse_int s = None \<and> parse_float s = None)"

fun stable_entry :: "pyval \<Rightarrow> bool" where
  "stable_entry (PStr s) = (legible s \<and> wordy s)"
| "stable_entry v = legible_entry v"

definition stable_item :: "pyval \<Rightarrow> bool" where
  "stable_item v \<longleftrightarrow> stable_entry v \<and> \<not> is_list v \<and> \<not> is_dict v"

section \<open>The writer is a printer\<close>

lemma entry_text_simps:
  "entry_text render (PList []) = ''[]''" "entry_text render (PDict []) = ''{}''" "entry_text render PNone = yaml_scalar render PNone"
  "entry_text render (PBool b) = yaml_scalar render (PBool b)" "entry_text render (PInt n) = yaml_scalar render (PInt n)"
  "entry_text render (PFloat f) = yaml_scalar render (PFloat f)" "entry_text render (PStr s) = yaml_scalar render (PStr s)"
  by (simp_all add: entry_text_def)

lemma cut_no_comment: "CHR ''#'' \<notin> set s \<Longrightarrow> cut_comment d q sp s = s"
  by (induction d q sp s rule: cut_comment.induct) auto

lemma escape_none: "\<forall>c \<in> set s. c \<noteq> CHR 0x22 \<and> c \<noteq> CHR 0x5C \<and> c \<noteq> CHR 0x0A \<Longrightarrow> concat (map escape_char s) = s"
  by (induction s) (auto simp: escape_char_def)

lemma legible_quoted:
  assumes "legible s" "needs_quote s"
  shows "yaml_text s = scalar_text (PStr s)" "plain_scalar (PStr s)"
proof -
  have s: "\<forall>c \<in> set s. c \<noteq> CHR 0x22 \<and> c \<noteq> CHR 0x5C \<and> \<not> is_break c" using assms by (auto simp: legible_def)
  have "is_break (CHR 0x0A)" by (simp add: is_break_def)
  with s have "\<forall>c \<in> set s. c \<noteq> CHR 0x22 \<and> c \<noteq> CHR 0x5C \<and> c \<noteq> CHR 0x0A" by metis
  then show "yaml_text s = scalar_text (PStr s)" using assms(2) by (simp add: yaml_text_def escape_none)
  show "plain_scalar (PStr s)" using s by (simp add: plain_text_def)
qed

lemma unquoted_tight: "\<not> needs_quote s \<Longrightarrow> tight s"
  using strip_hd [of s] strip_last [of s] by (auto simp: needs_quote_def tight_def)

text \<open>Apart from the strings it leaves without quotes, the writer has the texts of the reference printer.\<close>

lemma legible_text:
  assumes "legible_entry v"
  shows "(\<exists>s. v = PStr s \<and> \<not> needs_quote s \<and> entry_text render v = s \<and> legible s) \<or> (plain_scalar v \<and> entry_text render v = scalar_text v)"
proof (cases v)
  case (PStr s)
  with assms have "legible s" by simp
  then show ?thesis using legible_quoted [of s] by (cases "needs_quote s") (simp_all add: PStr entry_text_def yaml_text_def)
qed (use assms in \<open>auto simp: entry_text_def\<close>)

interpretation writer: printer "entry_text render" legible_entry legible_item for render
proof
  fix v c sp assume v: "legible_entry v"
  show "tight (entry_text render v)" using legible_text [OF v, of render] unquoted_tight tight_scalar by metis
  show "\<not> is_break c" if "c \<in> set (entry_text render v)"
    using legible_text [OF v, of render] that scalar_text_tight(4) by (metis legible_def)
  show "cut_comment False False sp (entry_text render v) = entry_text render v"
    using legible_text [OF v, of render] cut_scalar cut_no_comment by (metis legible_def)
qed (simp_all add: legible_item_def)

lemma entry_lines_emit:
  "plain_doc legible_entry legible_item d \<Longrightarrow> n = 2 * ind \<Longrightarrow> entry_lines render d ind = emit (entry_text render) n d"
proof (induction n d arbitrary: ind rule: emit_induct)
  case (Cons n k v d)
  have items: "item_lines render xs i = map (\<lambda>y. pad (2 * i) @ ''- '' @ entry_text render y) xs" if "list_all legible_item xs" for xs i
    using that by (induction xs) (auto simp: legible_item_def entry_text_def split: pyval.splits)
  have d: "entry_lines render d ind = emit (entry_text render) n d" using Cons by simp
  show ?case
  proof (cases v rule: plain_case)
    case (map p e)
    then have "entry_lines render (p # e) (ind + 1) = emit (entry_text render) (n + 2) (p # e)" using Cons by (intro Cons.IH(1)) simp_all
    then show ?thesis using d Cons.prems(2) by (simp add: map)
  next
    case (seq x xs)
    then show ?thesis using d items [of "x # xs" "ind + 1"] Cons.prems by (simp add: add.commute)
  next
    case scalar
    then show ?thesis using d Cons.prems(2) by (cases v) (simp_all add: entry_text_simps)
  qed
qed simp

lemma join_lines: "ls \<noteq> [] \<Longrightarrow> join_with [c] ls @ [c] = concat (map (\<lambda>l. l @ [c]) ls)"
  by (induction "[c]" ls rule: join_with.induct) auto

lemma lines_unlines:
  assumes "\<forall>l \<in> set ls. \<forall>c \<in> set l. \<not> is_break c"
  shows "file_lines (unlines ls) = ls"
  using assms
proof (induction ls)
  case Nil
  show ?case by (subst file_lines_def, subst lines_by.simps) (simp add: unlines_def)
next
  case (Cons l ls)
  let ?b = "\<lambda>c. c = CHR 0x0A \<or> c = CHR 0x0D"
  have "\<forall>c \<in> set l. \<not> ?b c" using Cons.prems by (auto simp: is_break_def)
  then have "take_line ?b (l @ CHR 0x0A # unlines ls) = (l, unlines ls)" by (induction l) auto
  then show ?case using Cons unfolding file_lines_def by (subst lines_by.simps) (simp add: unlines_def)
qed

text \<open>Reading what was written gives the document whose scalars are the ones that their texts stand for.\<close>

lemma load_dumped:
  assumes "plain_doc legible_entry legible_item d"
  shows "load_yaml (dump_yaml render (PDict d)) = Some (read_doc (entry_text render) d)"
proof (cases d)
  case Nil
  have "load_yaml (''{}'' @ [CHR 0x0A]) = Some []" by code_simp
  then show ?thesis by (simp add: Nil dump_yaml_def pad_def)
next
  case (Cons p e)
  note l = writer.load_printed [OF assms, of render]
  have "yaml_lines render (PDict d) 0 = emit (entry_text render) 0 d" using entry_lines_emit [OF assms, of 0 0 render] by (simp add: Cons)
  moreover have "emit (entry_text render) 0 d \<noteq> []" by (cases p) (auto simp: Cons split: pyval.splits list.splits)
  ultimately have "dump_yaml render (PDict d) = unlines (emit (entry_text render) 0 d)"
    using join_lines [of "emit (entry_text render) 0 d" "CHR 0x0A"] by (simp add: dump_yaml_def unlines_def)
  then show ?thesis using l lines_unlines [OF l(2)] by (simp add: load_yaml_def)
qed

lemma unquoted_word:
  assumes "\<not> needs_quote s"
  shows "parse_scalar s = (if wrapped (CHR 0x22) (CHR 0x22) s \<or> wrapped (CHR 0x27) (CHR 0x27) s then PStr (inner s)
    else if s = ''~'' then PNone
    else case parse_int s of Some n \<Rightarrow> PInt n | None \<Rightarrow> (case parse_float s of Some f \<Rightarrow> PFloat f | None \<Rightarrow> PStr s))"
proof -
  have s: "strip s = s" "s \<noteq> []" "hd s \<noteq> CHR ''[''" "hd s \<noteq> CHR ''{''" "to_lower s \<notin> {''true'', ''false'', ''null''}"
    using assms by (auto simp: needs_quote_def quoting_words_def)
  then have "\<not> wrapped (CHR ''['') b s" "\<not> wrapped (CHR ''{'') b s" for b by (auto simp: wrapped_def starts_with_def hd_conv_nth neq_Nil_conv)
  moreover have "to_lower s = ''~'' \<longleftrightarrow> s = ''~''" "to_lower s \<noteq> []"
  proof -
    have "lower_char c = CHR ''~'' \<longleftrightarrow> c = CHR ''~''" for c
    proof (cases "c = CHR ''~''")
      case False
      show ?thesis
      proof
        assume "lower_char c = CHR ''~''"
        then have "(of_char c :: nat) + 32 = 126 \<and> ((65 \<le> (of_char c :: nat) \<and> (of_char c :: nat) \<le> 90) \<or> (192 \<le> (of_char c :: nat) \<and> (of_char c :: nat) \<le> 222))"
          using False by (auto simp: lower_char_def Let_def split: if_splits dest!: arg_cong [of _ _ "of_char :: char \<Rightarrow> nat"])
        then show "c = CHR ''~''" by linarith
      qed (use False in simp)
    qed (simp add: lower_char_def)
    then show "to_lower s = ''~'' \<longleftrightarrow> s = ''~''" "to_lower s \<noteq> []" using s(2) by (auto simp: to_lower_def map_eq_Cons_conv)
  qed
  ultimately show ?thesis using s by (subst parse_scalar.simps) (auto simp: Let_def split: option.splits)
qed

lemma stable_same:
  assumes "stable_entry v" shows "parse_scalar (entry_text render v) = v"
proof -
  have "legible_entry v" using assms by (cases v) simp_all
  from legible_text [OF this, of render] show ?thesis
  proof
    assume "\<exists>s. v = PStr s \<and> \<not> needs_quote s \<and> entry_text render v = s \<and> legible s"
    then obtain s where s: "v = PStr s" "\<not> needs_quote s" "entry_text render v = s" by blast
    with assms have "wordy s" by simp
    with s(2) show ?thesis unfolding s(3) unfolding s(1) unquoted_word [OF s(2)] by (simp add: wordy_def)
  qed (simp add: parse_scalar_text)
qed

lemma plain_doc_mono:
  assumes "\<And>v. ok v \<Longrightarrow> ok' v" "\<And>v. itm v \<Longrightarrow> itm' v" shows "plain_doc ok itm d \<Longrightarrow> plain_doc ok' itm' d"
  using assms by (induction ok itm d rule: plain_doc.induct) (auto simp: list_all_iff split: pyval.splits)

lemma stable_legible: "stable_entry v \<Longrightarrow> legible_entry v" "stable_item v \<Longrightarrow> legible_item v"
  by (cases v; simp add: stable_item_def legible_item_def)+

section \<open>Files and paths\<close>

lemma profile_path_eq:
  "profile_path repo u k = profile_path repo u' k' \<longleftrightarrow> dir_part (safe_name u) = dir_part (safe_name u') \<and> safe_name k = safe_name k'"
  by (auto simp: profile_path_def profile_dir_def)

lemma load_saved:
  "load_profile repo u' k' (save_profile render repo u k d fs) =
     (if profile_path repo u' k' = profile_path repo u k then load_yaml (dump_yaml render (PDict d)) else load_profile repo u' k' fs)"
  by (simp add: load_profile_def save_profile_def)

lemma listed_saved:
  "set (list_profiles repo u (save_profile render repo u k d fs)) = insert (stem (safe_name k @ ''.yaml'')) (set (list_profiles repo u fs))"
proof -
  let ?Q = "\<lambda>p. p \<noteq> [] \<and> butlast p = profile_dir repo u \<and> ends_with ''.yaml'' (last p)"
  let ?p = "profile_path repo u k"
  have "ends_with ''.yaml'' (x @ ''.yaml'')" for x by (simp add: ends_with_def starts_with_def)
  then have "?Q ?p" "last ?p = safe_name k @ ''.yaml''" by (simp_all add: profile_path_def)
  moreover from this have "{p. (p = ?p \<or> p \<in> S) \<and> ?Q p} = insert ?p {p \<in> S. ?Q p}" for S by (rule_tac set_eqI) (simp, metis)
  moreover have "set (list_profiles repo u fs') = (\<lambda>p. stem (last p)) ` {p \<in> set (dkeys fs'). ?Q p}" for fs' :: yaml_files
    by (simp add: list_profiles_def)
  moreover have "set (dkeys (save_profile render repo u k d fs)) = insert ?p (set (dkeys fs))" by (simp add: save_profile_def)
  ultimately show ?thesis by simp
qed

lemma digits_plain:
  assumes "all_digits s"
  shows "tight s" "to_lower s = s" "\<not> needs_quote s" "legible s" "\<not> wrapped (CHR 0x22) (CHR 0x22) s" "\<not> wrapped (CHR 0x27) (CHR 0x27) s" "s \<noteq> ''~''"
proof -
  have c: "digit_of c \<noteq> None" if "c \<in> set s" for c using assms that by (simp add: all_digits_def)
  have s: "s \<noteq> []" "hd s \<in> set s" "last s \<in> set s" using assms by (simp_all add: all_digits_def)
  show tight: "tight s" using s digit_plain(1) [OF c] by (simp add: tight_def)
  show low: "to_lower s = s" unfolding to_lower_def by (rule map_idI) (simp add: c digit_plain(3))
  have word: "s \<noteq> w" if "digit_of (last w) = None" for w using c s(3) that by metis
  have ch: "x \<notin> set s" if "digit_of x = None" for x using c that by blast
  have sub: "is_substr (y # ys) t \<Longrightarrow> y \<in> set t" for y ys t
    by (induction "y # ys" t rule: is_substr.induct) (auto simp: take_Suc split: if_splits)
  have "\<not> is_substr '': '' s" using sub [of "CHR '':''" "'' ''" s] ch [of "CHR '':''"] by (auto simp: digit_of_def)
  moreover have "hd s \<noteq> x" if "digit_of x = None" for x using ch [OF that] s(2) by blast
  moreover have "s \<noteq> w" if "w \<in> set quoting_words" for w
    using that by (auto simp: quoting_words_def digit_of_def dest!: word [rotated] intro!: word)
  ultimately show nq: "\<not> needs_quote s"
    unfolding needs_quote_def low using s(1) tight_strip [OF tight] ch [of "CHR 0x0A"] by (auto simp: digit_of_def)
  show "legible s" using digit_plain(4) [OF c] nq ch [of "CHR ''#''"] by (auto simp: legible_def digit_of_def)
  show "\<not> wrapped (CHR 0x22) (CHR 0x22) s" "\<not> wrapped (CHR 0x27) (CHR 0x27) s" "s \<noteq> ''~''"
    using s ch [of "CHR 0x22"] ch [of "CHR 0x27"] ch [of "CHR ''~''"]
    by (auto simp: wrapped_def starts_with_def digit_of_def neq_Nil_conv)
qed

lemma parse_all_digits: "all_digits s \<Longrightarrow> \<exists>n. parse_digits s = Some n \<and> parse_int s = Some (int n)"
proof -
  assume a: "all_digits s"
  have "\<exists>n. digits_acc acc p s = Some n" if "s \<noteq> [] \<or> p" "\<forall>c \<in> set s. digit_of c \<noteq> None" for acc p
    using that by (induction s arbitrary: acc p) (auto simp: underscore_no_digit)
  from this [of False 0] obtain n where n: "parse_digits s = Some n" using a unfolding parse_digits_def all_digits_def by blast
  have "hd s \<notin> {CHR ''-'', CHR ''+''}" using digit_plain(2) [of "hd s"] a by (auto simp: all_digits_def)
  then have "sign_split s = (False, s)" by (cases s) (auto simp: sign_split_def)
  then show ?thesis using n tight_strip [OF digits_plain(1) [OF a]] by (simp add: parse_int_def)
qed

section \<open>Properties\<close>

text \<open>A profile whose entries the writer can express is read back as it was saved, under every user and key whose names
  become the same file name, and under no other; the other profiles keep their contents, and the user's list gains it.\<close>

theorem profile_roundtrip:
  assumes "plain_doc stable_entry stable_item d"
  shows "load_profile repo u' k' (save_profile render repo u k d fs) =
      (if dir_part (safe_name u') = dir_part (safe_name u) \<and> safe_name k' = safe_name k then Some d else load_profile repo u' k' fs)
    \<and> set (list_profiles repo u (save_profile render repo u k d fs)) = insert (stem (safe_name k @ ''.yaml'')) (set (list_profiles repo u fs))"
proof -
  have "plain_doc legible_entry legible_item d" using stable_legible by (rule plain_doc_mono [OF _ _ assms])
  from load_dumped [OF this, of render] have "load_yaml (dump_yaml render (PDict d)) = Some (read_doc (entry_text render) d)" .
  moreover have "read_doc (entry_text render) d = d"
    by (rule read_same [OF stable_same _ _ _ assms]) (simp_all add: stable_item_def)
  ultimately show ?thesis by (simp only: load_saved listed_saved profile_path_eq)
qed

text \<open>A text of digits does not survive: whatever leading zeros it has, it is read back as the number.\<close>

theorem digit_text_becomes_number:
  assumes "plain_key f" "all_digits s"
  shows "\<exists>n. parse_digits s = Some n \<and> load_profile repo u k (save_profile render repo u k [(f, PStr s)] fs) = Some [(f, PInt (int n))]"
proof -
  note p = digits_plain [OF assms(2)]
  obtain n where n: "parse_digits s = Some n" "parse_int s = Some (int n)" using parse_all_digits [OF assms(2)] by blast
  have "plain_doc legible_entry legible_item [(f, PStr s)]" using assms(1) p(4) by simp
  from load_dumped [OF this, of render] have "load_yaml (dump_yaml render (PDict [(f, PStr s)])) = Some [(f, PInt (int n))]"
    using unquoted_word [OF p(3)] p(3,5-7) n(2) by (simp add: entry_text_simps yaml_text_def)
  with n(1) show ?thesis by (simp add: load_saved)
qed

section \<open>Witnesses\<close>

definition sample_kept :: pydict where
  "sample_kept = [(''name'', PStr ''Ada L.''), (''level'', PInt 3), (''prefs'', PDict [(''lang'', PStr ''yes''), (''active'', PBool True)]),
     (''topics'', PList [PStr ''graph theory'', PStr ''12:30'', PNone]), (''notes'', PList [])]"

text \<open>Other documents change: a comment sign cuts a text, quotes keep their backslashes, an item with one entry becomes a
  text, and a float keeps eight digits.\<close>

lemma writer_losses:
  "load_yaml (dump_yaml (\<lambda>_. []) (PDict [(''a'', PStr ''Ada #1'')])) = Some [(''a'', PStr ''Ada'')]"
  "load_yaml (dump_yaml (\<lambda>_. []) (PDict [(''a'', PStr [CHR 0x0A])])) = Some [(''a'', PStr [CHR 0x5C, CHR ''n''])]"
  "load_yaml (dump_yaml (\<lambda>_. []) (PDict [(''a'', PList [PDict [(''b'', PInt 1)]])])) = Some [(''a'', PList [PStr ''b: 1''])]"
  "load_yaml (dump_yaml (\<lambda>_. []) (PDict [(''a'', PFloat (Fin 1760000000.5))])) = Some [(''a'', PFloat (Fin 1760000000))]"
  by code_simp+

theorem profile_roundtrip_witness:
  "load_profile [''repo''] ''a/b'' ''education'' (save_profile (\<lambda>_. []) [''repo''] ''a_b'' ''education'' sample_kept []) = Some sample_kept"
proof -
  have "plain_doc stable_entry stable_item sample_kept" by code_simp
  from profile_roundtrip [OF this, of "[''repo'']" "''a/b''" "''education''" "\<lambda>_. []" "''a_b''" "''education''" "[]"]
  show ?thesis by (simp add: safe_name_def)
qed

theorem digit_text_becomes_number_witness:
  "load_profile [''repo''] ''u'' ''d'' (save_profile (\<lambda>_. []) [''repo''] ''u'' ''d'' [(''zip'', PStr ''00123'')] []) = Some [(''zip'', PInt 123)]"
proof -
  have "plain_key ''zip''" "all_digits ''00123''" "parse_digits ''00123'' = Some 123" by code_simp+
  with digit_text_becomes_number [of "''zip''" "''00123''" "[''repo'']" "''u''" "''d''" "\<lambda>_. []" "[]"] show ?thesis by auto
qed

end
