(* ===== verification/Ledger_Store.thy ===== *)
theory Ledger_Store
  imports Orchestrator Scoped_Store "HOL-Library.Char_ord" "HOL-Library.List_Lexorder" "HOL-Library.Multiset"
begin

text \<open>
  The ledgers of \<^verbatim>\<open>persistence/filesystem.py\<close>: their paths, appending, the verification of hash chains, commitments and
  the queries over all ledgers. A ledger file is the list of its records (a line of canonical JSON is read back as the
  record it was written from); files are a dictionary by path. The digest, \<open>repr\<close>, and \<open>str\<close> of containers are arguments;
  the patterns of \<open>glob\<close> are taken for session ids without wildcards.
\<close>

section \<open>Paths\<close>

definition get_log_ledger_path :: "path \<Rightarrow> string \<Rightarrow> string option \<Rightarrow> path" where
  "get_log_ledger_path lg sid domain = join_path lg (case domain of
      Some (c # d) \<Rightarrow> ''session-'' @ sid @ ''-'' @ (c # d) @ ''.jsonl''
    | _ \<Rightarrow> ''session-'' @ sid @ ''.jsonl'')"

definition get_system_ledger_path :: "path \<Rightarrow> string \<Rightarrow> path" where
  "get_system_ledger_path lg sid = join_path (lg @ [''system'']) (''session-'' @ sid @ ''.jsonl'')"

definition get_domain_ledger_path :: "path \<Rightarrow> string \<Rightarrow> path" where
  "get_domain_ledger_path lg domain = join_path (lg @ [''domains'']) domain @ [''domain.jsonl'']"

definition get_module_ledger_path :: "path \<Rightarrow> string \<Rightarrow> string \<Rightarrow> path" where
  "get_module_ledger_path lg domain m = join_path (join_path (lg @ [''domains'']) domain @ [''modules'']) (m @ ''.jsonl'')"

definition get_system_log_ledger_path :: "path \<Rightarrow> path" where
  "get_system_log_ledger_path lg = lg @ [''system'', ''system.jsonl'']"

section \<open>Appending\<close>

record ledger_store =
  st_files :: "(path, pydict list) dict"
  st_signal :: "signal option"

definition load_ledger_records :: "ledger_store \<Rightarrow> path \<Rightarrow> pydict list" where
  "load_ledger_records s p = dget_or (st_files s) p []"

definition append_line :: "path \<Rightarrow> pydict \<Rightarrow> ledger_store \<Rightarrow> ledger_store" where
  "append_line p r s = s\<lparr>st_files := dput p (load_ledger_records s p @ [r]) (st_files s), st_signal := notify_log_commit (st_signal s)\<rparr>"

definition append_record :: "path \<Rightarrow> string \<Rightarrow> pydict \<Rightarrow> path option \<Rightarrow> ledger_store \<Rightarrow> ledger_store" where
  "append_record lg sid r p s = append_line (case p of None \<Rightarrow> get_log_ledger_path lg sid None | Some q \<Rightarrow> q) r s"

definition append_system_log_record :: "path \<Rightarrow> pydict \<Rightarrow> ledger_store \<Rightarrow> ledger_store" where
  "append_system_log_record lg r s = append_line (get_system_log_ledger_path lg) r s"

section \<open>Listing\<close>

text \<open>\<open>sorted(dir.glob(prefix*suffix))\<close>, and the two patterns below the directory of the domains.\<close>

definition glob_in :: "ledger_store \<Rightarrow> path \<Rightarrow> string \<Rightarrow> string \<Rightarrow> path list" where
  "glob_in s dir prefix suffix =
     sort (filter (\<lambda>p. p \<noteq> [] \<and> butlast p = dir \<and> starts_with prefix (last p) \<and> ends_with suffix (last p)) (dkeys (st_files s)))"

definition domain_ledgers :: "ledger_store \<Rightarrow> path \<Rightarrow> path list" where
  "domain_ledgers s lg = sort (filter (\<lambda>p. length p = length lg + 3 \<and> take (length lg + 1) p = lg @ [''domains''] \<and> last p = ''domain.jsonl'') (dkeys (st_files s)))"

definition module_ledgers :: "ledger_store \<Rightarrow> path \<Rightarrow> path list" where
  "module_ledgers s lg = sort (filter (\<lambda>p. length p = length lg + 4 \<and> take (length lg + 1) p = lg @ [''domains''] \<and> p ! (length lg + 2) = ''modules''
     \<and> ends_with ''.jsonl'' (last p)) (dkeys (st_files s)))"

definition iter_all_ledger_paths :: "ledger_store \<Rightarrow> path \<Rightarrow> path list" where
  "iter_all_ledger_paths s lg = glob_in s lg ''session-'' ''.jsonl'' @ glob_in s (lg @ [''system'']) [] ''.jsonl'' @ domain_ledgers s lg @ module_ledgers s lg"

text \<open>\<open>name[len("session-"):-len(".jsonl")]\<close>.\<close>

definition session_of_name :: "string \<Rightarrow> string" where
  "session_of_name name = take (length name - 14) (drop 8 name)"

definition list_log_session_ids :: "ledger_store \<Rightarrow> path \<Rightarrow> string list" where
  "list_log_session_ids s lg =
     fold (\<lambda>p ids. let sid = session_of_name (last p) in if sid \<in> set ids then ids else ids @ [sid])
       (glob_in s (lg @ [''system'']) ''session-'' ''.jsonl'') (map (\<lambda>p. session_of_name (last p)) (glob_in s lg ''session-'' ''.jsonl''))"

section \<open>Verification\<close>

record verdict =
  vd_intact :: bool
  vd_checked :: nat
  vd_index :: "nat option"
  vd_id :: pyval
  vd_error :: "string option"

definition intact_verdict :: "nat \<Rightarrow> verdict" where
  "intact_verdict n = \<lparr>vd_intact = True, vd_checked = n, vd_index = None, vd_id = PNone, vd_error = None\<rparr>"

definition broken_verdict :: "nat \<Rightarrow> pydict \<Rightarrow> string \<Rightarrow> verdict" where
  "broken_verdict i r e = \<lparr>vd_intact = False, vd_checked = i + 1, vd_index = Some i, vd_id = dget_or r ''record_id'' PNone, vd_error = Some e\<rparr>"

fun verify_from :: "(pydict \<Rightarrow> string) \<Rightarrow> (pyval \<Rightarrow> string) \<Rightarrow> nat \<Rightarrow> pydict \<Rightarrow> pydict list \<Rightarrow> verdict" where
  "verify_from hash rep i prev [] = intact_verdict i"
| "verify_from hash rep i prev (r # rs) = (let actual = dget_or r ''prev_record_hash'' (PStr []) in
     if actual \<noteq> PStr (hash prev)
     then broken_verdict i r (''Hash mismatch at index '' @ int_str (int i) @ '': expected '' @ rep (PStr (hash prev)) @ '', got '' @ rep actual)
     else verify_from hash rep (i + 1) r rs)"

definition verify_records :: "(pydict \<Rightarrow> string) \<Rightarrow> (pyval \<Rightarrow> string) \<Rightarrow> pydict list \<Rightarrow> verdict" where
  "verify_records hash rep rs = (case rs of
      [] \<Rightarrow> intact_verdict 0
    | r # rs' \<Rightarrow> (let first_prev = dget_or r ''prev_record_hash'' PNone in
        if first_prev \<noteq> PStr ''genesis''
        then broken_verdict 0 r (''First record prev_record_hash must be '' @ [CHR 0x27] @ ''genesis'' @ [CHR 0x27] @ '', got '' @ rep first_prev)
        else verify_from hash rep 1 r rs'))"

definition validate_session :: "(pydict \<Rightarrow> string) \<Rightarrow> (pyval \<Rightarrow> string) \<Rightarrow> path \<Rightarrow> ledger_store \<Rightarrow> string \<Rightarrow> verdict" where
  "validate_session hash rep lg s sid = verify_records hash rep (load_ledger_records s (get_log_ledger_path lg sid None))"

text \<open>Every ledger once, under its path relative to the directory of the logs.\<close>

fun unseen :: "path list \<Rightarrow> path list \<Rightarrow> path list" where
  "unseen seen [] = []"
| "unseen seen (p # ps) = (if p \<in> set seen then unseen seen ps else p # unseen (p # seen) ps)"

definition validate_log_chain :: "(pydict \<Rightarrow> string) \<Rightarrow> (pyval \<Rightarrow> string) \<Rightarrow> path \<Rightarrow> ledger_store \<Rightarrow> bool \<times> (string \<times> verdict) list" where
  "validate_log_chain hash rep lg s =
     (let results = map (\<lambda>p. (join_with ''/'' (drop (length lg) p), verify_records hash rep (load_ledger_records s p))) (unseen [] (iter_all_ledger_paths s lg))
      in (list_all (\<lambda>(_, v). vd_intact v) results, results))"

section \<open>Commitments\<close>

definition has_policy_commitment :: "path \<Rightarrow> ledger_store \<Rightarrow> string \<Rightarrow> string option \<Rightarrow> string \<Rightarrow> bool" where
  "has_policy_commitment lg s subject version digest \<longleftrightarrow>
     list_ex (\<lambda>p. list_ex (\<lambda>r. dget_or r ''record_type'' PNone = PStr ''CommitmentRecord'' \<and> dget_or r ''subject_id'' PNone = PStr subject
         \<and> dget_or r ''subject_hash'' PNone = PStr digest
         \<and> (case version of None \<Rightarrow> True | Some v \<Rightarrow> dget_or r ''subject_version'' PNone = PStr v)) (load_ledger_records s p)) (iter_all_ledger_paths s lg)"

definition has_system_physics_commitment :: "path \<Rightarrow> ledger_store \<Rightarrow> string \<Rightarrow> bool" where
  "has_system_physics_commitment lg s digest \<longleftrightarrow>
     list_ex (\<lambda>r. dget_or r ''record_type'' PNone = PStr ''CommitmentRecord'' \<and> dget_or r ''commitment_type'' PNone = PStr ''system_physics_activation''
         \<and> dget_or r ''subject_hash'' PNone = PStr digest) (load_ledger_records s (get_system_log_ledger_path lg))"

section \<open>Queries\<close>

text \<open>The filters of a query; the domain key only chooses the file of a session.\<close>

record log_query =
  lq_session :: "string option"
  lq_type :: "string option"
  lq_event :: "string option"
  lq_domain :: "string option"
  lq_org :: "string option"
  lq_site :: "string option"
  lq_limit :: int
  lq_offset :: int

definition any_query :: log_query where
  "any_query = \<lparr>lq_session = None, lq_type = None, lq_event = None, lq_domain = None, lq_org = None, lq_site = None, lq_limit = 100, lq_offset = 0\<rparr>"

definition session_records :: "path \<Rightarrow> ledger_store \<Rightarrow> string \<Rightarrow> string option \<Rightarrow> pydict list" where
  "session_records lg s sid domain =
     (let p = get_log_ledger_path lg sid domain;
          prefix = path_parts (''session-'' @ sid @ ''-'')
      in load_ledger_records s p
         @ (if wanted domain then []
            else concat (map (load_ledger_records s) (filter (\<lambda>q. last q \<noteq> last p) (glob_in s (lg @ butlast prefix) (last prefix) ''.jsonl''))))
         @ load_ledger_records s (get_system_ledger_path lg sid))"

definition all_records :: "path \<Rightarrow> ledger_store \<Rightarrow> pydict list" where
  "all_records lg s = concat (map (load_ledger_records s) (iter_all_ledger_paths s lg))"

text \<open>A filter that is off without a text, and one that is off without a value.\<close>

definition if_named :: "string option \<Rightarrow> string \<Rightarrow> pydict list \<Rightarrow> pydict list" where
  "if_named x k rs = (case x of Some (c # t) \<Rightarrow> filter (\<lambda>r. dget_or r k PNone = PStr (c # t)) rs | _ \<Rightarrow> rs)"

definition if_given :: "string option \<Rightarrow> string \<Rightarrow> pydict list \<Rightarrow> pydict list" where
  "if_given x k rs = (case x of Some t \<Rightarrow> filter (\<lambda>r. dget_or r k PNone = PStr t) rs | None \<Rightarrow> rs)"

definition stamp :: "pydict \<Rightarrow> pyval" where
  "stamp r = dget_or r ''timestamp_utc'' (PStr [])"

text \<open>A stable sort by time stamps; stamps that do not compare raise.\<close>

fun insert_record :: "pydict \<Rightarrow> pydict list \<Rightarrow> pydict list res" where
  "insert_record r [] = Inr [r]"
| "insert_record r (q # qs) = res_bind (py_ord OpLt (stamp q) (stamp r)) (\<lambda>before.
     if before then res_bind (insert_record r qs) (\<lambda>rs. Inr (q # rs)) else Inr (r # q # qs))"

fun sort_records :: "pydict list \<Rightarrow> pydict list res" where
  "sort_records [] = Inr []"
| "sort_records (r # rs) = res_bind (sort_records rs) (insert_record r)"

definition selected :: "path \<Rightarrow> ledger_store \<Rightarrow> log_query \<Rightarrow> pydict list" where
  "selected lg s q =
     (let rs = (case lq_session q of Some (c # sid) \<Rightarrow> session_records lg s (c # sid) (lq_domain q) | _ \<Rightarrow> all_records lg s)
      in if_given (lq_site q) ''site_id'' (if_given (lq_org q) ''organization_id''
           (if_named (lq_event q) ''event_type'' (if_named (lq_type q) ''record_type'' rs))))"

definition query_log_records :: "path \<Rightarrow> ledger_store \<Rightarrow> log_query \<Rightarrow> pydict list res" where
  "query_log_records lg s q = res_bind (sort_records (selected lg s q)) (\<lambda>rs. Inr (py_slice (lq_offset q) (lq_offset q + lq_limit q) rs))"

text \<open>The latest version of each escalation.\<close>

definition keep_latest :: "pydict \<Rightarrow> (pyval, pydict) dict \<Rightarrow> (pyval, pydict) dict res" where
  "keep_latest r seen = (let rid = dget_or r ''record_id'' PNone in if truthy rid then key_put rid r seen else Inr seen)"

definition query_escalations :: "(pyval \<Rightarrow> string) \<Rightarrow> path \<Rightarrow> ledger_store \<Rightarrow> string option \<Rightarrow> string option \<Rightarrow> string option \<Rightarrow> string option \<Rightarrow> int \<Rightarrow> int \<Rightarrow> pydict list res" where
  "query_escalations render lg s status domain org site limit offset =
     res_bind (query_log_records lg s (any_query\<lparr>lq_type := Some ''EscalationRecord'', lq_org := org, lq_site := site, lq_limit := 10000\<rparr>)) (\<lambda>rs.
     res_bind (fold_res keep_latest rs []) (\<lambda>seen.
       let rs1 = if_named status ''status'' (map snd seen);
           rs2 = (case domain of Some (c # d) \<Rightarrow> filter (\<lambda>r. get_model_pack_id render r = c # d) rs1 | _ \<Rightarrow> rs1)
       in Inr (py_slice offset (offset + limit) rs2)))"

definition query_commitments :: "path \<Rightarrow> ledger_store \<Rightarrow> string \<Rightarrow> pydict list res" where
  "query_commitments lg s subject =
     res_bind (query_log_records lg s (any_query\<lparr>lq_type := Some ''CommitmentRecord''\<rparr>)) (\<lambda>rs.
       Inr (filter (\<lambda>r. dget_or r ''subject_id'' PNone = PStr subject) rs))"

section \<open>The summary of the sessions\<close>

record summary =
  sm_session :: pyval
  sm_count :: nat
  sm_first :: pyval
  sm_last :: pyval
  sm_domains :: "pyval list"

text \<open>\<open>p.stem\<close> of a ledger.\<close>

definition ledger_stem :: "path \<Rightarrow> string" where
  "ledger_stem p = (if last p = ''.jsonl'' then last p else take (length (last p) - 6) (last p))"

text \<open>A bound moves where the stamp is set and the bound is empty or compares.\<close>

definition moved :: "cmpop \<Rightarrow> pyval \<Rightarrow> pyval \<Rightarrow> pyval res" where
  "moved op ts bound = (if \<not> truthy ts then Inr bound else if \<not> truthy bound then Inr ts
     else res_bind (py_ord op ts bound) (\<lambda>b. Inr (if b then ts else bound)))"

definition count_record :: "string \<Rightarrow> pydict \<Rightarrow> (pyval, summary) dict \<Rightarrow> (pyval, summary) dict res" where
  "count_record name r seen =
     (let sid = dget_or r ''session_id'' (PStr name); t0 = dget_or r ''timestamp_utc'' PNone in
      res_bind (key_get seen sid) (\<lambda>old.
      let e = (case old of Some e \<Rightarrow> e | None \<Rightarrow> \<lparr>sm_session = sid, sm_count = 0, sm_first = t0, sm_last = t0, sm_domains = []\<rparr>);
          domain = py_or (dget_or r ''domain_id'' PNone) (dget_or r ''to_domain'' PNone) in
      res_bind (moved OpLt (stamp r) (sm_first e)) (\<lambda>first.
      res_bind (moved OpGt (stamp r) (sm_last e)) (\<lambda>last.
      if truthy domain \<and> \<not> hashable domain then Inl TypeError
      else Inr (dput sid (e\<lparr>sm_count := sm_count e + 1, sm_first := first, sm_last := last,
             sm_domains := (if truthy domain \<and> domain \<notin> set (sm_domains e) then sm_domains e @ [domain] else sm_domains e)\<rparr>) seen)))))"

fun insert_value :: "pyval \<Rightarrow> pyval list \<Rightarrow> pyval list res" where
  "insert_value v [] = Inr [v]"
| "insert_value v (w # ws) = res_bind (py_ord OpLt w v) (\<lambda>before.
     if before then res_bind (insert_value v ws) (\<lambda>vs. Inr (w # vs)) else Inr (v # w # ws))"

definition list_log_sessions_summary :: "path \<Rightarrow> ledger_store \<Rightarrow> summary list res" where
  "list_log_sessions_summary lg s =
     res_bind (fold_res (\<lambda>p. fold_res (count_record (ledger_stem p)) (load_ledger_records s p)) (iter_all_ledger_paths s lg) []) (\<lambda>seen.
       map_res (\<lambda>(_, e). res_bind (fold_res insert_value (sm_domains e) []) (\<lambda>ds. Inr (e\<lparr>sm_domains := ds\<rparr>))) seen)"

section \<open>Verification is exact\<close>

lemma prev_of_iff: "dget_or r ''prev_record_hash'' v = PStr x \<longleftrightarrow> prev_of r = Some x" if "v \<noteq> PStr x"
  using that by (auto simp: prev_of_def dget_or_def split: option.splits pyval.splits)

lemma linked_Nil_ex [simp]: "Ex (linked h prev start [])"
  by (rule exI [of _ start]) simp

lemma verify_from_exact:
  assumes "\<And>r. hash r \<noteq> []"
  shows "(vd_intact (verify_from hash rep i prev rs) \<longleftrightarrow> (\<exists>h. linked hash prev_of (hash prev) rs h))
    \<and> (vd_intact (verify_from hash rep i prev rs) \<longrightarrow> verify_from hash rep i prev rs = intact_verdict (i + length rs))
    \<and> (\<not> vd_intact (verify_from hash rep i prev rs) \<longrightarrow> (\<exists>k < length rs. vd_index (verify_from hash rep i prev rs) = Some (i + k)
        \<and> vd_checked (verify_from hash rep i prev rs) = i + k + 1 \<and> vd_id (verify_from hash rep i prev rs) = dget_or (rs ! k) ''record_id'' PNone
        \<and> (\<exists>h. linked hash prev_of (hash prev) (take k rs) h) \<and> \<not> (\<exists>h. linked hash prev_of (hash prev) (take (Suc k) rs) h)))"
proof (induction rs arbitrary: i prev)
  case Nil
  then show ?case by (simp add: intact_verdict_def)
next
  case (Cons r rs)
  have eq: "dget_or r ''prev_record_hash'' (PStr []) = PStr (hash prev) \<longleftrightarrow> prev_of r = Some (hash prev)"
    by (rule prev_of_iff) (simp add: assms [symmetric])
  show ?case
  proof (cases "prev_of r = Some (hash prev)")
    case True
    then have v: "verify_from hash rep i prev (r # rs) = verify_from hash rep (i + 1) r rs" using eq by (simp add: Let_def)
    have l: "linked hash prev_of (hash prev) (r # xs) h \<longleftrightarrow> linked hash prev_of (hash r) xs h" for xs h using True by simp
    show ?thesis
    proof (cases "vd_intact (verify_from hash rep (i + 1) r rs)")
      case True
      then show ?thesis using Cons [of "i + 1" r] by (simp only: v l) simp
    next
      case False
      then obtain k where "k < length rs" "vd_index (verify_from hash rep (i + 1) r rs) = Some (i + 1 + k)" "vd_checked (verify_from hash rep (i + 1) r rs) = i + 1 + k + 1"
        "vd_id (verify_from hash rep (i + 1) r rs) = dget_or (rs ! k) ''record_id'' PNone" "\<exists>h. linked hash prev_of (hash r) (take k rs) h" "\<not> (\<exists>h. linked hash prev_of (hash r) (take (Suc k) rs) h)"
        using Cons [of "i + 1" r] by blast
      moreover have "\<not> (\<exists>h. linked hash prev_of (hash r) rs h)" using False Cons [of "i + 1" r] by blast
      ultimately show ?thesis using False True unfolding v by (intro conjI impI exI [of _ "Suc k"]) simp_all
    qed
  next
    case False
    then show ?thesis using eq by (simp add: Let_def broken_verdict_def)
  qed
qed

lemma linked_take: "linked h prev start (take k rs) x \<Longrightarrow> linked h prev start (take (Suc k) rs) y \<Longrightarrow> k < length rs \<Longrightarrow> prev (rs ! k) = Some x"
proof (induction rs arbitrary: start k)
  case (Cons r rs)
  then show ?case by (cases k) auto
qed simp

text \<open>Whatever follows, a broken ledger stays broken at the same record.\<close>

lemma verify_from_append: "\<not> vd_intact (verify_from hash rep i prev rs) \<Longrightarrow> verify_from hash rep i prev (rs @ xs) = verify_from hash rep i prev rs"
  by (induction rs arbitrary: i prev) (auto simp: intact_verdict_def Let_def split: if_split_asm)

lemma verify_append: "\<not> vd_intact (verify_records hash rep rs) \<Longrightarrow> verify_records hash rep (rs @ xs) = verify_records hash rep rs"
  by (cases rs) (auto simp: verify_records_def verify_from_append intact_verdict_def Let_def split: if_split_asm)

lemma first_prev_iff: "dget_or r ''prev_record_hash'' PNone = PStr ''genesis'' \<longleftrightarrow> prev_of r = Some ''genesis''"
  by (rule prev_of_iff) simp

lemma verify_intact:
  assumes "\<And>r. hash r \<noteq> []"
  shows "vd_intact (verify_records hash rep rs) \<longleftrightarrow> (\<exists>h. linked hash prev_of ''genesis'' rs h)"
    "vd_intact (verify_records hash rep rs) \<Longrightarrow> verify_records hash rep rs = intact_verdict (length rs)"
proof -
  have "(vd_intact (verify_records hash rep rs) \<longleftrightarrow> (\<exists>h. linked hash prev_of ''genesis'' rs h))
    \<and> (vd_intact (verify_records hash rep rs) \<longrightarrow> verify_records hash rep rs = intact_verdict (length rs))"
  proof (cases rs)
    case (Cons r rs')
    show ?thesis
    proof (cases "prev_of r = Some ''genesis''")
      case True
      then have "verify_records hash rep rs = verify_from hash rep 1 r rs'" by (simp add: verify_records_def Cons first_prev_iff Let_def)
      then show ?thesis using verify_from_exact [of hash rep 1 r rs', OF assms] True by (simp add: Cons)
    next
      case False
      then show ?thesis by (simp add: verify_records_def Cons first_prev_iff Let_def broken_verdict_def)
    qed
  qed (simp add: verify_records_def intact_verdict_def)
  then show "vd_intact (verify_records hash rep rs) \<longleftrightarrow> (\<exists>h. linked hash prev_of ''genesis'' rs h)"
    "vd_intact (verify_records hash rep rs) \<Longrightarrow> verify_records hash rep rs = intact_verdict (length rs)" by blast+
qed

text \<open>The record after another one has to name its digest.\<close>

lemma linked_middle: "linked h prev start (xs @ [q, r] @ ys) x \<Longrightarrow> prev r = Some (h q)"
  by (induction xs arbitrary: start) auto

section \<open>Appending\<close>

datatype log_write = Write_Record string pydict "path option" | Write_System pydict

fun run_write :: "path \<Rightarrow> log_write \<Rightarrow> ledger_store \<Rightarrow> ledger_store" where
  "run_write lg (Write_Record sid r p) s = append_record lg sid r p s"
| "run_write lg (Write_System r) s = append_system_log_record lg r s"

fun target :: "path \<Rightarrow> log_write \<Rightarrow> path \<times> pydict" where
  "target lg (Write_Record sid r p) = (case p of None \<Rightarrow> get_log_ledger_path lg sid None | Some q \<Rightarrow> q, r)"
| "target lg (Write_System r) = (get_system_log_ledger_path lg, r)"

definition written_to :: "path \<Rightarrow> path \<Rightarrow> log_write list \<Rightarrow> pydict list" where
  "written_to lg p ws = map snd (filter (\<lambda>(q, r). q = p) (map (target lg) ws))"

lemma run_write_line: "run_write lg w s = append_line (fst (target lg w)) (snd (target lg w)) s"
  by (cases w) (simp_all add: append_record_def append_system_log_record_def)

lemma load_append: "load_ledger_records (append_line q r s) p = load_ledger_records s p @ (if q = p then [r] else [])"
  by (simp add: load_ledger_records_def append_line_def dget_or_def)

lemma load_run: "load_ledger_records (fold (run_write lg) ws s) p = load_ledger_records s p @ written_to lg p ws"
proof (induction ws arbitrary: s)
  case (Cons w ws)
  have w: "written_to lg p (w # ws) = (if fst (target lg w) = p then [snd (target lg w)] else []) @ written_to lg p ws"
    by (simp add: written_to_def case_prod_beta)
  show ?case using Cons [of "run_write lg w s"] by (simp add: run_write_line load_append w)
qed (simp add: written_to_def)

lemma keys_run: "set (dkeys (st_files s)) \<subseteq> set (dkeys (st_files (fold (run_write lg) ws s)))"
proof (induction ws arbitrary: s)
  case (Cons w ws)
  have "set (dkeys (st_files s)) \<subseteq> set (dkeys (st_files (run_write lg w s)))" by (auto simp: run_write_line append_line_def)
  then show ?case using Cons [of "run_write lg w s"] by simp
qed simp

lemma paths_mono: "set (dkeys (st_files s)) \<subseteq> set (dkeys (st_files t)) \<Longrightarrow> set (iter_all_ledger_paths s lg) \<subseteq> set (iter_all_ledger_paths t lg)"
  by (auto simp: iter_all_ledger_paths_def glob_in_def domain_ledgers_def module_ledgers_def)

section \<open>Order\<close>

lemma str_lt_less: "str_lt s t \<longleftrightarrow> s < t"
proof (induction s t rule: str_lt.induct)
  case (4 c s d t)
  then show ?case by (auto simp: less_char_def)
qed (simp_all add: list_less_def)

definition stamped :: "pydict \<Rightarrow> bool" where
  "stamped r \<longleftrightarrow> is_str (stamp r)"

definition stamp_text :: "pydict \<Rightarrow> string" where
  "stamp_text r = (case stamp r of PStr t \<Rightarrow> t | _ \<Rightarrow> [])"

lemma stamp_before: "stamped q \<Longrightarrow> stamped r \<Longrightarrow> py_ord OpLt (stamp q) (stamp r) = Inr (stamp_text q < stamp_text r)"
  by (cases "stamp q"; cases "stamp r") (simp_all add: stamped_def stamp_text_def scmp_def str_lt_less)

lemma insert_record_sorted: "stamped r \<Longrightarrow> list_all stamped rs \<Longrightarrow> insert_record r rs = Inr (insort_key stamp_text r rs)"
  by (induction rs) (auto simp: stamp_before not_less)

lemma sort_records_sorted: "list_all stamped rs \<Longrightarrow> sort_records rs = Inr (sort_key stamp_text rs)"
proof (induction rs)
  case (Cons r rs)
  moreover have "list_all stamped (sort_key stamp_text rs)" using Cons.prems by (simp add: list_all_iff)
  ultimately show ?case by (simp add: insert_record_sorted)
qed simp

lemma filters_sub: "set (if_named x k rs) \<subseteq> set rs" "set (if_given x k rs) \<subseteq> set rs"
  by (auto simp: if_named_def if_given_def split: option.splits list.splits)

lemma selected_sub: "r \<in> set (selected lg s q) \<Longrightarrow> \<exists>p. r \<in> set (load_ledger_records s p)"
proof -
  assume "r \<in> set (selected lg s q)"
  then have "r \<in> set (case lq_session q of Some (c # sid) \<Rightarrow> session_records lg s (c # sid) (lq_domain q) | _ \<Rightarrow> all_records lg s)"
    unfolding selected_def Let_def by (meson filters_sub subsetD)
  moreover have "r \<in> set (session_records lg s sid d) \<Longrightarrow> \<exists>p. r \<in> set (load_ledger_records s p)" for sid d
    unfolding session_records_def Let_def set_append by (cases "wanted d") auto
  moreover have "r \<in> set (all_records lg s) \<Longrightarrow> \<exists>p. r \<in> set (load_ledger_records s p)" by (auto simp: all_records_def)
  ultimately show ?thesis by (auto split: option.splits list.splits)
qed

lemma count_before:
  fixes f :: "'a \<Rightarrow> 'b :: linorder"
  assumes "sorted (map f xs)" "i < length xs"
  shows "length (filter (\<lambda>x. f x < f (xs ! i)) xs) \<le> i"
proof -
  have "\<forall>x \<in> set (drop i xs). \<not> f x < f (xs ! i)"
  proof
    fix x assume "x \<in> set (drop i xs)"
    then obtain k where "k < length xs - i" "x = drop i xs ! k" by (auto simp: in_set_conv_nth)
    then have "i + k < length xs" "x = xs ! (i + k)" by auto
    then show "\<not> f x < f (xs ! i)" using sorted_nth_mono [OF assms(1), of i "i + k"] by simp
  qed
  then have "filter (\<lambda>x. f x < f (xs ! i)) (drop i xs) = []" by (simp add: filter_empty_conv)
  then have "filter (\<lambda>x. f x < f (xs ! i)) (take i xs @ drop i xs) = filter (\<lambda>x. f x < f (xs ! i)) (take i xs)" by (simp only: filter_append append_Nil2)
  then show ?thesis using length_filter_le [of "\<lambda>x. f x < f (xs ! i)" "take i xs"] by simp
qed

section \<open>Queries through the scoped wrapper\<close>

text \<open>The queries as methods of an adapter, called with keyword arguments.\<close>

definition kw_text :: "pydict \<Rightarrow> string \<Rightarrow> string option" where
  "kw_text kw k = (case dget kw k of Some (PStr t) \<Rightarrow> Some t | _ \<Rightarrow> None)"

definition kw_int :: "pydict \<Rightarrow> string \<Rightarrow> int \<Rightarrow> int" where
  "kw_int kw k n = (case dget kw k of Some (PInt i) \<Rightarrow> i | _ \<Rightarrow> n)"

definition query_of :: "pydict \<Rightarrow> log_query" where
  "query_of kw = \<lparr>lq_session = kw_text kw ''session_id'', lq_type = kw_text kw ''record_type'', lq_event = kw_text kw ''event_type'',
     lq_domain = kw_text kw ''domain_id'', lq_org = kw_text kw ''organization_id'', lq_site = kw_text kw ''site_id'',
     lq_limit = kw_int kw ''limit'' 100, lq_offset = kw_int kw ''offset'' 0\<rparr>"

definition query_inner :: "(pyval \<Rightarrow> string) \<Rightarrow> path \<Rightarrow> ledger_store inner" where
  "query_inner render lg op s =
     (if io_name op = ''query_log_records'' then map_sum id (\<lambda>rs. PList (map PDict rs)) (query_log_records lg s (query_of (io_kwargs op)))
      else if io_name op = ''query_escalations''
      then map_sum id (\<lambda>rs. PList (map PDict rs)) (let kw = io_kwargs op in query_escalations render lg s (kw_text kw ''status'') (kw_text kw ''domain_id'')
        (kw_text kw ''organization_id'') (kw_text kw ''site_id'') (kw_int kw ''limit'' 100) (kw_int kw ''offset'' 0))
      else (case io_args op of [PStr subject] \<Rightarrow> map_sum id (\<lambda>rs. PList (map PDict rs)) (query_commitments lg s subject) | _ \<Rightarrow> Inl TypeError), s)"

lemma linked_prev: "linked h prev start rs x \<Longrightarrow> r \<in> set rs \<Longrightarrow> prev r = Some start \<or> (\<exists>q. prev r = Some (h q))"
  by (induction rs arbitrary: start) auto

lemma linked_first: "linked h prev start rs x \<Longrightarrow> rs \<noteq> [] \<Longrightarrow> prev (hd rs) = Some start"
  by (cases rs) auto

text \<open>Two chains in one file: the second record that starts a chain breaks the file.\<close>

lemma shuffled_chains:
  assumes "zs \<in> shuffles xs ys" "xs \<noteq> []" "ys \<noteq> []" "prev (hd xs) = Some g" "prev (hd ys) = Some g" "\<And>r. h r \<noteq> g"
  shows "\<not> (\<exists>x. linked h prev g zs x)"
proof -
  have no: False if "z # zs' \<in> shuffles (z # as) bs" "zs' \<in> shuffles as bs" "bs \<noteq> []" "prev (hd bs) = Some g" "linked h prev g (z # zs') x" for z zs' as bs x
  proof -
    have "hd bs \<in> set zs'" using that(2,3) by (simp add: set_shuffles)
    then have "prev (hd bs) = Some (h z) \<or> (\<exists>q. prev (hd bs) = Some (h q))" using linked_prev [of h prev "h z" zs' x] that(5) by simp
    then show False using that(4) assms(6) by auto
  qed
  obtain a as b bs where ab: "xs = a # as" "ys = b # bs" using assms(2,3) by (meson neq_Nil_conv)
  then obtain z zs' where z: "zs = z # zs'" using assms(1) by (cases zs) auto
  show ?thesis
  proof
    assume "\<exists>x. linked h prev g zs x"
    then obtain x where x: "linked h prev g (z # zs') x" by (auto simp: z)
    from assms(1) consider "z = a" "zs' \<in> shuffles as ys" | "z = b" "zs' \<in> shuffles xs bs" by (auto simp: z ab Cons_in_shuffles_iff)
    then show False
    proof cases
      case 1
      then show False using no [OF _ 1(2) assms(3,5) x] assms(1) ab z by simp
    next
      case 2
      then have "zs' \<in> shuffles bs xs" by (simp add: shuffles_commutes)
      then show False using no [of z zs' bs xs x] 2 assms(1,2,4) ab z x by (simp add: shuffles_commutes)
    qed
  qed
qed

lemma unseen_set: "set (unseen seen ps) = set ps - set seen"
  by (induction seen ps rule: unseen.induct) auto

lemma validate_chain_exact:
  "fst (validate_log_chain hash rep lg s) \<longleftrightarrow> (\<forall>p \<in> set (iter_all_ledger_paths s lg). vd_intact (verify_records hash rep (load_ledger_records s p)))"
  by (auto simp: validate_log_chain_def Let_def list_all_iff unseen_set)

definition plain_name :: "string \<Rightarrow> bool" where
  "plain_name n \<longleftrightarrow> path_parts n = [n] \<and> \<not> starts_with ''/'' n"

lemma domain_ledger_listed:
  assumes "plain_name domain" "load_ledger_records s (get_domain_ledger_path lg domain) \<noteq> []"
  shows "get_domain_ledger_path lg domain \<in> set (iter_all_ledger_paths s lg)"
proof -
  have p: "get_domain_ledger_path lg domain = lg @ [''domains'', domain, ''domain.jsonl'']"
    using assms(1) by (simp add: get_domain_ledger_path_def join_path_def plain_name_def)
  have "dget (st_files s) (get_domain_ledger_path lg domain) \<noteq> None" using assms(2) by (auto simp: load_ledger_records_def dget_or_def split: option.splits)
  then have "get_domain_ledger_path lg domain \<in> set (dkeys (st_files s))" by (simp add: dget_None_iff)
  then show ?thesis by (simp add: iter_all_ledger_paths_def domain_ledgers_def p)
qed

section \<open>Properties\<close>

text \<open>C4: verification accepts a ledger exactly if its records are chained from the genesis mark; otherwise it reports the
  first record at which the chain breaks, the records before it being chained.\<close>

theorem verify_exact:
  assumes "\<forall>r. hash r \<noteq> []"
  shows "let v = verify_records hash rep rs in
    (vd_intact v \<longleftrightarrow> (\<exists>h. linked hash prev_of ''genesis'' rs h)) \<and> (vd_intact v \<longrightarrow> v = intact_verdict (length rs))
    \<and> (\<not> vd_intact v \<longrightarrow> (\<exists>i < length rs. vd_index v = Some i \<and> vd_checked v = i + 1 \<and> vd_id v = dget_or (rs ! i) ''record_id'' PNone
        \<and> (\<exists>h. linked hash prev_of ''genesis'' (take i rs) h) \<and> \<not> (\<exists>h. linked hash prev_of ''genesis'' (take (i + 1) rs) h)))"
proof -
  have "\<exists>i < length rs. vd_index v = Some i \<and> vd_checked v = i + 1 \<and> vd_id v = dget_or (rs ! i) ''record_id'' PNone
        \<and> (\<exists>h. linked hash prev_of ''genesis'' (take i rs) h) \<and> \<not> (\<exists>h. linked hash prev_of ''genesis'' (take (i + 1) rs) h)"
    if v: "v = verify_records hash rep rs" "\<not> vd_intact v" for v
  proof -
    obtain r rs' where rs: "rs = r # rs'" using v by (cases rs) (auto simp: verify_records_def intact_verdict_def)
    show ?thesis
    proof (cases "prev_of r = Some ''genesis''")
      case True
      then have e: "v = verify_from hash rep 1 r rs'" using v by (simp add: verify_records_def rs first_prev_iff Let_def)
      with verify_from_exact [of hash rep 1 r rs'] assms v(2) obtain k where "k < length rs'" "vd_index v = Some (1 + k)" "vd_checked v = 1 + k + 1"
        "vd_id v = dget_or (rs' ! k) ''record_id'' PNone" "\<exists>h. linked hash prev_of (hash r) (take k rs') h"
        "\<not> (\<exists>h. linked hash prev_of (hash r) (take (Suc k) rs') h)" by blast
      then show ?thesis using True by (intro exI [of _ "Suc k"]) (simp add: rs)
    next
      case False
      then show ?thesis using v by (simp add: verify_records_def rs first_prev_iff Let_def broken_verdict_def)
    qed
  qed
  then show ?thesis using verify_intact [of hash rep rs] assms by (simp add: Let_def)
qed

text \<open>Ledgers only grow: whatever is written, every file keeps its records and gains the records written to it in order,
  a commitment that was found stays found, and a ledger that was broken stays broken at the same record.\<close>

theorem ledgers_append_only:
  fixes s :: ledger_store
  shows "let t = fold (run_write lg) ws s in load_ledger_records t p = load_ledger_records s p @ written_to lg p ws
    \<and> (has_policy_commitment lg s subject version digest \<longrightarrow> has_policy_commitment lg t subject version digest)
    \<and> (has_system_physics_commitment lg s digest \<longrightarrow> has_system_physics_commitment lg t digest)
    \<and> (\<not> vd_intact (verify_records hash rep (load_ledger_records s p)) \<longrightarrow>
         verify_records hash rep (load_ledger_records t p) = verify_records hash rep (load_ledger_records s p))"
proof -
  let ?t = "fold (run_write lg) ws s"
  have l: "load_ledger_records ?t p = load_ledger_records s p @ written_to lg p ws" for p by (rule load_run)
  have "set (iter_all_ledger_paths s lg) \<subseteq> set (iter_all_ledger_paths ?t lg)" by (rule paths_mono [OF keys_run])
  then have "has_policy_commitment lg s subject version digest \<longrightarrow> has_policy_commitment lg ?t subject version digest"
    unfolding has_policy_commitment_def list_ex_iff l by auto
  moreover have "has_system_physics_commitment lg s digest \<longrightarrow> has_system_physics_commitment lg ?t digest"
    by (auto simp: has_system_physics_commitment_def l)
  ultimately show ?thesis by (simp add: Let_def l verify_append)
qed

text \<open>All sessions of a domain write to one ledger, each from its own genesis mark: the records of one session alone pass
  validation, but a domain ledger that two sessions have written to, in whatever order, is reported as broken.\<close>

theorem shared_domain_ledger_breaks:
  fixes oc :: "'s orchestrator" and oc2 :: "'t orchestrator"
  assumes "new_orchestrator env rid now domain profile step s0 action_map policy routes
      (start_world session profile physics_hash c locks triggers) = Inr oc"
    and "(session_step env retrieve)\<^sup>*\<^sup>* oc oc'"
    and "new_orchestrator env rid2 now2 domain2 profile2 step2 s2 action_map2 policy2 routes2
      (start_world session2 profile2 physics_hash2 c2 locks2 triggers2) = Inr oc2"
    and "(session_step env retrieve2)\<^sup>*\<^sup>* oc2 oc2'"
    and "\<forall>r. le_hash env r \<noteq> [] \<and> le_hash env r \<noteq> ''genesis''" "plain_name d"
    and "load_ledger_records s (get_domain_ledger_path lg d) \<in> shuffles (lw_records (wo_writer (oc_world oc'))) (lw_records (wo_writer (oc_world oc2')))"
  shows "verify_records (le_hash env) rep (lw_ledger (wo_writer (oc_world oc'))) = intact_verdict (length (lw_records (wo_writer (oc_world oc'))))
    \<and> \<not> fst (validate_log_chain (le_hash env) rep lg s)"
proof -
  let ?x = "lw_records (wo_writer (oc_world oc'))" and ?y = "lw_records (wo_writer (oc_world oc2'))" and ?p = "get_domain_ledger_path lg d"
  have x: "linked (le_hash env) prev_of ''genesis'' ?x (lw_prev_hash (wo_writer (oc_world oc')))" "?x \<noteq> []" "lw_ledger (wo_writer (oc_world oc')) = ?x"
    using start_records [OF assms(1)] steps_records [OF assms(2)] by (auto simp: chain_ok_def)
  have y: "linked (le_hash env) prev_of ''genesis'' ?y (lw_prev_hash (wo_writer (oc_world oc2')))" "?y \<noteq> []"
    using start_records [OF assms(3)] steps_records [OF assms(4)] by (auto simp: chain_ok_def)
  have hd: "prev_of (hd ?x) = Some ''genesis''" "prev_of (hd ?y) = Some ''genesis''"
    using linked_first [OF x(1,2)] linked_first [OF y] by simp_all
  have "\<not> (\<exists>h. linked (le_hash env) prev_of ''genesis'' (load_ledger_records s ?p) h)"
    using assms(5) by (intro shuffled_chains [OF assms(7) x(2) y(2) hd]) simp
  then have "\<not> vd_intact (verify_records (le_hash env) rep (load_ledger_records s ?p))" using verify_intact(1) assms(5) by blast
  moreover have "load_ledger_records s ?p \<noteq> []" using assms(7) x(2) by (cases ?x) auto
  then have "?p \<in> set (iter_all_ledger_paths s lg)" by (rule domain_ledger_listed [OF assms(6)])
  ultimately have "\<not> fst (validate_log_chain (le_hash env) rep lg s)" by (auto simp: validate_chain_exact)
  moreover have "vd_intact (verify_records (le_hash env) rep ?x)" using x(1) verify_intact(1) [of "le_hash env" rep ?x] assms(5) by blast
  ultimately show ?thesis using verify_intact(2) [of "le_hash env" rep ?x] assms(5) by (simp add: x(3))
qed

text \<open>The commitments of a subject are looked for among the oldest hundred commitments of the whole store: one that has a
  hundred older commitments of other subjects before it is not found.\<close>

theorem commitments_beyond_hundred:
  assumes "\<forall>r \<in> set (all_records lg s). stamped r"
  defines "cs \<equiv> filter (\<lambda>r. dget_or r ''record_type'' PNone = PStr ''CommitmentRecord'') (all_records lg s)"
  shows "query_commitments lg s subject = Inr (filter (\<lambda>r. dget_or r ''subject_id'' PNone = PStr subject) (take 100 (sort_key stamp_text cs)))
    \<and> ((\<forall>r \<in> set cs. dget_or r ''subject_id'' PNone = PStr subject \<longrightarrow> 100 \<le> length (filter (\<lambda>q. stamp_text q < stamp_text r) cs))
        \<longrightarrow> query_commitments lg s subject = Inr [])"
proof -
  let ?sub = "\<lambda>r. dget_or r ''subject_id'' PNone = PStr subject" and ?xs = "sort_key stamp_text cs"
  have sel: "selected lg s (any_query\<lparr>lq_type := Some ''CommitmentRecord''\<rparr>) = cs"
    by (simp add: selected_def any_query_def if_named_def if_given_def cs_def)
  have "list_all stamped cs" using assms(1) by (auto simp: list_all_iff cs_def)
  then have q: "query_commitments lg s subject = Inr (filter ?sub (take 100 ?xs))"
    unfolding query_commitments_def query_log_records_def sel
    by (simp add: sort_records_sorted py_slice_def slice_bound_def any_query_def Let_def min_def)
  have "filter ?sub (take 100 ?xs) = []" if h: "\<forall>r \<in> set cs. ?sub r \<longrightarrow> 100 \<le> length (filter (\<lambda>q. stamp_text q < stamp_text r) cs)"
  proof -
    have "\<not> ?sub r" if r: "r \<in> set (take 100 ?xs)" for r
    proof
      assume "?sub r"
      from r obtain i where i: "i < length ?xs" "i < 100" "r = ?xs ! i" by (auto simp: in_set_conv_nth)
      then have "r \<in> set cs" by (metis nth_mem set_sort)
      with h \<open>?sub r\<close> have "100 \<le> length (filter (\<lambda>q. stamp_text q < stamp_text r) cs)" by blast
      also have "\<dots> = length (filter (\<lambda>q. stamp_text q < stamp_text r) ?xs)" by (metis mset_filter mset_sort size_mset)
      also have "\<dots> \<le> i" using count_before [of stamp_text ?xs i] i by (simp add: sorted_sort_key)
      finally show False using i(2) by simp
    qed
    then show ?thesis by (simp add: filter_empty_conv)
  qed
  then show ?thesis by (simp add: q)
qed

text \<open>A query for log records through the scoped wrapper is not scoped: without a session its answer is the same for the
  wrappers of all domains, and the plain query returns the records of every domain.\<close>

theorem scoped_query_ignores_domain:
  assumes "kw_text kw ''session_id'' = None"
  shows "scoped_run (query_inner render lg) a (QueryLogRecords kw) s = scoped_run (query_inner render lg) a' (QueryLogRecords kw) s
    \<and> ((\<forall>r \<in> set (all_records lg s). stamped r) \<and> length (all_records lg s) \<le> 100 \<longrightarrow>
        (\<exists>rs. scoped_run (query_inner render lg) a (QueryLogRecords []) s = (Inr (PList (map PDict rs)), s) \<and> mset rs = mset (all_records lg s)))"
proof -
  have other: "kw_text (set_default ''domain_id'' v kw) k = kw_text kw k" "kw_int (set_default ''domain_id'' v kw) k n = kw_int kw k n"
    if "k \<noteq> ''domain_id''" for v k n using that by (simp_all add: kw_text_def kw_int_def set_default_def)
  have same: "query_log_records lg s (query_of (set_default ''domain_id'' v kw)) = query_log_records lg s (query_of kw)" for v
    by (simp add: query_log_records_def selected_def query_of_def other assms)
  have "scoped_run (query_inner render lg) a (QueryLogRecords kw) s = scoped_run (query_inner render lg) a' (QueryLogRecords kw) s"
    by (simp add: ask_def query_inner_def same)
  moreover have "\<exists>rs. scoped_run (query_inner render lg) a (QueryLogRecords []) s = (Inr (PList (map PDict rs)), s) \<and> mset rs = mset (all_records lg s)"
    if "\<forall>r \<in> set (all_records lg s). stamped r" "length (all_records lg s) \<le> 100"
  proof -
    have sel: "selected lg s (query_of [(''domain_id'', v)]) = all_records lg s" for v
      by (simp add: selected_def query_of_def kw_text_def if_named_def if_given_def)
    have "query_log_records lg s (query_of [(''domain_id'', v)]) = Inr (sort_key stamp_text (all_records lg s))" for v
      unfolding query_log_records_def sel using that
      by (simp add: list_all_iff sort_records_sorted query_of_def kw_int_def py_slice_def slice_bound_def Let_def)
    then show ?thesis
      by (intro exI [of _ "sort_key stamp_text (all_records lg s)"]) (simp add: ask_def query_inner_def set_default_def dhas_def)
  qed
  ultimately show ?thesis by blast
qed

section \<open>More on files and sessions\<close>

text \<open>The validation of one session reads a file that the server never writes: the records of a session go to the ledger of its
  domain, so the answer is that nothing was found broken among no records.\<close>

lemma session_validation_vacuous:
  assumes "load_ledger_records s (get_log_ledger_path lg sid None) = []" "\<forall>w \<in> set ws. fst (target lg w) \<noteq> get_log_ledger_path lg sid None"
  shows "validate_session hash rep lg (fold (run_write lg) ws s) sid = intact_verdict 0"
proof -
  have "written_to lg (get_log_ledger_path lg sid None) ws = []" using assms(2) by (auto simp: written_to_def filter_empty_conv)
  then show ?thesis by (simp add: validate_session_def load_run assms(1) verify_records_def)
qed

text \<open>Ledgers of modules whose id has slashes are in none of the listed paths.\<close>

lemma nested_ledger_unlisted:
  assumes "plain_name d" "\<not> starts_with ''/'' (m @ ''.jsonl'')" "2 \<le> length (path_parts (m @ ''.jsonl''))"
  shows "get_module_ledger_path lg d m \<notin> set (iter_all_ledger_paths s lg)"
proof -
  have "length (get_module_ledger_path lg d m) \<ge> length lg + 5"
    using assms by (simp add: get_module_ledger_path_def join_path_def plain_name_def)
  moreover have "length p \<le> length lg + 4" if p: "p \<in> set (iter_all_ledger_paths s lg)" for p
  proof -
    have "length p = Suc (length d)" if "p \<noteq> []" "butlast p = d" for d using that by (cases p rule: rev_cases) auto
    with p show ?thesis by (fastforce simp: iter_all_ledger_paths_def glob_in_def domain_ledgers_def module_ledgers_def)
  qed
  ultimately show ?thesis by fastforce
qed

section \<open>Witnesses\<close>

definition id_hash :: "pydict \<Rightarrow> string" where
  "id_hash r = CHR ''h'' # (case dget r ''record_id'' of Some (PStr i) \<Rightarrow> i | _ \<Rightarrow> [])"

definition id_env :: ledger_env where
  "id_env = \<lparr>le_hash = id_hash, le_sink = (\<lambda>_. None), le_render = (\<lambda>_. '''')\<rparr>"

lemma id_hash_marks: "id_hash r \<noteq> [] \<and> id_hash r \<noteq> ''genesis''"
  by (simp add: id_hash_def)

definition entry_rec :: "string \<Rightarrow> string \<Rightarrow> string \<Rightarrow> pydict" where
  "entry_rec i prev subject = [(''record_type'', PStr ''CommitmentRecord''), (''record_id'', PStr i), (''prev_record_hash'', PStr prev),
     (''subject_id'', PStr subject), (''subject_hash'', PStr ''x''), (''timestamp_utc'', PStr i)]"

theorem verify_exact_witness:
  "vd_index (verify_records id_hash (\<lambda>_. []) [entry_rec ''a'' ''genesis'' ''s'', entry_rec ''b'' ''ha'' ''s'', entry_rec ''c'' ''genesis'' ''s'']) = Some 2
    \<and> (\<exists>h. linked id_hash prev_of ''genesis'' [entry_rec ''a'' ''genesis'' ''s'', entry_rec ''b'' ''ha'' ''s''] h)"
proof -
  let ?v = "verify_records id_hash (\<lambda>_. []) [entry_rec ''a'' ''genesis'' ''s'', entry_rec ''b'' ''ha'' ''s'', entry_rec ''c'' ''genesis'' ''s'']"
  have v: "\<not> vd_intact ?v" "vd_index ?v = Some 2" by code_simp+
  have h: "\<forall>r. id_hash r \<noteq> []" using id_hash_marks by blast
  let ?rs = "[entry_rec ''a'' ''genesis'' ''s'', entry_rec ''b'' ''ha'' ''s'', entry_rec ''c'' ''genesis'' ''s'']"
  from verify_exact [OF h, of "\<lambda>_. []" ?rs] v(1) obtain i where "vd_index ?v = Some i" "\<exists>h. linked id_hash prev_of ''genesis'' (take i ?rs) h"
    unfolding Let_def by blast
  with v(2) show ?thesis by (simp del: linked.simps)
qed

definition sample_store :: ledger_store where
  "sample_store = \<lparr>st_files = [([''log'', ''domains'', ''algebra'', ''domain.jsonl''], [entry_rec ''a'' ''genesis'' ''s'', entry_rec ''b'' ''genesis'' ''s''])], st_signal = None\<rparr>"

theorem ledgers_append_only_witness:
  "has_policy_commitment [''log''] (fold (run_write [''log'']) [Write_Record ''s1'' (entry_rec ''c'' ''genesis'' ''t'') None] sample_store) ''s'' None ''x''"
proof -
  have "has_policy_commitment [''log''] sample_store ''s'' None ''x''" by code_simp
  with ledgers_append_only [of "[''log'']" "[Write_Record ''s1'' (entry_rec ''c'' ''genesis'' ''t'') None]" sample_store "[]" "''s''" None "''x''" id_hash "\<lambda>_. []"]
  show ?thesis by (simp only: Let_def)
qed

definition id_open :: "unit orchestrator res" where
  "id_open = new_orchestrator id_env ''c1'' ''t0'' sample_domain sample_profile None () None [] None sample_world"

lemma id_opens: "\<exists>oc r. id_open = Inr oc \<and> lw_records (wo_writer (oc_world oc)) = [r]"
proof -
  have "case id_open of Inl _ \<Rightarrow> False | Inr oc \<Rightarrow> True" by code_simp
  then obtain oc where "id_open = Inr oc" using case_sum_False by blast
  then show ?thesis using start_records [OF \<open>id_open = Inr oc\<close> [unfolded id_open_def sample_world_def]] by blast
qed

theorem shared_domain_ledger_breaks_witness:
  "\<exists>(s :: ledger_store) r. load_ledger_records s (get_domain_ledger_path [''log''] ''algebra'') = [r, r] \<and> \<not> fst (validate_log_chain id_hash (\<lambda>_. []) [''log''] s)"
proof -
  obtain oc r where o: "id_open = Inr oc" "lw_records (wo_writer (oc_world oc)) = [r]" using id_opens by blast
  define s where "s = \<lparr>st_files = [(get_domain_ledger_path [''log''] ''algebra'', [r, r])], st_signal = None\<rparr>"
  have l: "load_ledger_records s (get_domain_ledger_path [''log''] ''algebra'') = [r, r]" by (simp add: s_def load_ledger_records_def dget_or_def)
  have p: "plain_name ''algebra''" by code_simp
  have h: "\<forall>r. le_hash id_env r \<noteq> [] \<and> le_hash id_env r \<noteq> ''genesis''" using id_hash_marks by (simp add: id_env_def)
  have "[r, r] \<in> shuffles [r] [r]" by simp
  then have m: "load_ledger_records s (get_domain_ledger_path [''log''] ''algebra'') \<in> shuffles (lw_records (wo_writer (oc_world oc))) (lw_records (wo_writer (oc_world oc)))"
    by (simp only: l o(2))
  note op = o(1) [unfolded id_open_def sample_world_def]
  from shared_domain_ledger_breaks [OF op rtranclp.rtrancl_refl op rtranclp.rtrancl_refl h p m, of "\<lambda>_. []"]
  have "\<not> fst (validate_log_chain id_hash (\<lambda>_. []) [''log''] s)" by (simp add: id_env_def)
  with l show ?thesis by blast
qed

definition crowded_store :: ledger_store where
  "crowded_store = \<lparr>st_files = [([''log'', ''system'', ''system.jsonl''], replicate 100 (entry_rec ''a'' ''genesis'' ''other'') @ [entry_rec ''b'' ''genesis'' ''s''])], st_signal = None\<rparr>"

lemma crowded_records: "all_records [''log''] crowded_store = replicate 100 (entry_rec ''a'' ''genesis'' ''other'') @ [entry_rec ''b'' ''genesis'' ''s'']"
proof -
  have "iter_all_ledger_paths crowded_store [''log''] = [[''log'', ''system'', ''system.jsonl'']]"
    by (simp add: iter_all_ledger_paths_def glob_in_def domain_ledgers_def module_ledgers_def crowded_store_def starts_with_def ends_with_def)
  then show ?thesis by (simp add: all_records_def crowded_store_def load_ledger_records_def dget_or_def)
qed

theorem commitments_beyond_hundred_witness:
  "query_commitments [''log''] crowded_store ''s'' = Inr [] \<and> has_policy_commitment [''log''] crowded_store ''s'' None ''x''"
proof -
  let ?a = "entry_rec ''a'' ''genesis'' ''other''" and ?b = "entry_rec ''b'' ''genesis'' ''s''"
  have e: "stamp_text ?a = ''a''" "stamp_text ?b = ''b''" "stamped ?a" "stamped ?b" "dget_or ?a ''subject_id'' PNone = PStr ''other''"
    "dget_or ?a ''record_type'' PNone = PStr ''CommitmentRecord''" "dget_or ?b ''record_type'' PNone = PStr ''CommitmentRecord''" by code_simp+
  have st: "\<forall>r \<in> set (all_records [''log''] crowded_store). stamped r" unfolding crowded_records by (simp add: e)
  have less: "''a'' < ''b''" by (simp add: less_char_def)
  have "query_commitments [''log''] crowded_store ''s'' = Inr []"
    by (rule commitments_beyond_hundred [OF st, of "''s''", THEN conjunct2, THEN mp]) (simp add: crowded_records e less)
  moreover have "has_policy_commitment [''log''] crowded_store ''s'' None ''x''" by code_simp
  ultimately show ?thesis by blast
qed

theorem scoped_query_ignores_domain_witness:
  "\<exists>rs. scoped_run (query_inner (\<lambda>_. []) [''log'']) \<lparr>sa_domain = ''poetry'', sa_module = None\<rparr> (QueryLogRecords []) sample_store
     = (Inr (PList (map PDict rs)), sample_store) \<and> mset rs = {#entry_rec ''a'' ''genesis'' ''s'', entry_rec ''b'' ''genesis'' ''s''#}"
proof -
  have all: "all_records [''log''] sample_store = [entry_rec ''a'' ''genesis'' ''s'', entry_rec ''b'' ''genesis'' ''s'']" by code_simp
  have st: "\<forall>r \<in> set (all_records [''log''] sample_store). stamped r" unfolding all by code_simp
  have "kw_text [] ''session_id'' = None" by (simp add: kw_text_def)
  from scoped_query_ignores_domain [OF this, of "\<lambda>_. []" "[''log'']" "\<lparr>sa_domain = ''poetry'', sa_module = None\<rparr>" sample_store] st
  show ?thesis unfolding all by simp
qed

end
