(* ===== verification/Spec2Isabelle.thy ===== *)
theory Spec2Isabelle
  imports Permissions Transactions Context_Ttl Inspection Telemetry Log_Bus Session_State Resolver Route_Compiler
    Ledger Orchestrator Connector_Routing Auth Scoped_Store
    Load_Estimator Daemon_Monitor Daemon_Batch Cross_Domain Command_Schema
    Operating_Context Yaml_Loader Yaml_Print Admin_Operations Staging Domain_Registry
    Business_Policy Institutional Api_Base Decision_Precedent Thread_Routing Plan_Dag Dag_Execution
    Profile_Store Ledger_Store
begin

text \<open>
  \<^bold>\<open>The program.\<close> Lumina is an orchestration framework: a user turn arrives at an API, its input is inspected, an
  orchestrator decides an action under the rules of a domain pack, drafts a prompt contract for a language model,
  and writes everything it decided to an append-only ledger. Around that core stand the permission model of
  modules, the authority tracks of tokens, an event bus with a masking stage, session freezing, connector routing
  and a persistence wrapper that isolates domain packs. Beside it run a monitor daemon that works in idle time, the
  services that stage files, route threads and look up precedents, and the planner of the coding agent. The paths
  below are under \<^verbatim>\<open>src/src/lumina\<close>, those of the planner under \<^verbatim>\<open>src/model-packs/coding-agent\<close>.

  \<^bold>\<open>How the parts interact.\<close>
  \<^item> A turn (\<open>Orchestrator.process_turn\<close>) calls the domain library step (an argument),
    the actor resolver (\<open>Resolver\<close>: invariants, standing orders with their budgets, escalation), the contract drafter
    (\<open>Resolver\<close>), and the system log writer (\<open>Ledger\<close>), and emits an event on the log bus when it runs (\<open>Log_Bus\<close>).
  \<^item> An escalation record freezes the session and the user and generates an unlock pin (\<open>Session_State\<close>) and fires
    the black-box triggers.
  \<^item> The bus masks an event (\<open>Telemetry\<close>) before it queues it; the micro-router's handlers
    move it to the archive or the bounded stores.
  \<^item> The inspection pipeline (\<open>Inspection\<close>) runs before the turn; the
    resolver evaluates invariants with the same comparison rules.
  \<^item> Requests are guarded by tokens (\<open>Auth\<close>), module
    permissions (\<open>Permissions\<close>) and the commit guard (\<open>Log_Bus\<close>), which rejects an endpoint that wrote no ledger record. The active role
    comes from an operating context (\<open>Operating_Context\<close>, \<open>Api_Base\<close>).
  \<^item> Domain packs are declared in YAML files: the registry (\<open>Domain_Registry\<close>) and the profile files (\<open>Profile_Store\<close>) are read by
    the YAML loader (\<open>Yaml_Loader\<close>), and the governance checks (\<open>Admin_Operations\<close>) ask the registry.
  \<^item> The monitor (\<open>Daemon_Monitor\<close>) starts a task when the load estimate (\<open>Load_Estimator\<close>) is low and preempts it when it
    rises; the tasks report proposals (\<open>Daemon_Batch\<close>), and the cross-domain task compares packs (\<open>Cross_Domain\<close>).
  \<^item> Threads and precedents (\<open>Thread_Routing\<close>, \<open>Decision_Precedent\<close>) search the institutional store (\<open>Institutional\<close>) under the
    thresholds of a layered policy (\<open>Business_Policy\<close>); what they propose waits for one confirmation.
  \<^item> Records reach the disk through the ledger files (\<open>Ledger_Store\<close>), which also verify the chains that \<open>Ledger\<close> links.

  \<^bold>\<open>Shared theories.\<close>
  \<^item> \<open>Prelude\<close>: the result monad \<open>res\<close> (an exception or a value), folds that may raise, dictionaries as association
    lists in insertion order, the locales \<open>dict_ops\<close> (what a lookup returns after an update or a deletion) and
    \<open>bounded_buffer\<close> (a buffer that keeps the last \<open>n\<close> items; interpreted on the ring of turns, the event stores and the
    telemetry window), and \<open>last_n\<close>.
  \<^item> \<open>Py_Values\<close>: the untyped values the code reads from YAML and JSON (\<open>None\<close>, booleans, unbounded integers, floats,
    strings, lists, dictionaries), truth, equality, hashing, the conversions \<open>int\<close>, \<open>float\<close> and \<open>str\<close> with what they
    raise, string splitting and stripping, paths, and the rounding and formatting of numbers. A float is a rational or one of the three special values; rounding
    of float arithmetic is not modelled. A numeric string is read by its grammar.

  \<^bold>\<open>Components.\<close>
  \<^item> \<open>Permissions\<close> (\<^verbatim>\<open>core/permissions.py\<close>): \<open>check_permission\<close> and its steps over an untyped permission block; refinement of a
    declarative access predicate, scope of administrators, guests, tiers, symbolic modes.
  \<^item> \<open>Transactions\<close> (\<^verbatim>\<open>core/state_machine.py\<close>): the transaction state machine, its history, its serialised form; a step
    relation with reachability, irrevocability of commits, the history as a legal path, round trip.
  \<^item> \<open>Context_Ttl\<close> (\<^verbatim>\<open>core/ttl_manager.py\<close>): contexts with a time to live; pruning keeps exactly the live ones.
  \<^item> \<open>Inspection\<close> (\<^verbatim>\<open>middleware/invariant_checker.py\<close>, \<^verbatim>\<open>output_validator.py\<close>, \<^verbatim>\<open>pipeline.py\<close>, anomaly merging of
    \<^verbatim>\<open>nlp_preprocessor.py\<close>): expression parsing and evaluation, schema validation, sanitising, the verdict.
  \<^item> \<open>Route_Compiler\<close> (\<^verbatim>\<open>core/route_compiler.py\<close>): compilation of routes; strict routes refer only to declared parts.
  \<^item> \<open>Resolver\<close> (\<^verbatim>\<open>orchestrator/actor_resolver.py\<close>, \<^verbatim>\<open>contract_drafter.py\<close>): the decision of a turn; the budget of a
    standing order and its persistence.
  \<^item> \<open>Telemetry\<close> (\<^verbatim>\<open>system_log/event_payload.py\<close>, \<^verbatim>\<open>telemetry_mask.py\<close>): events, patterns, masking.
  \<^item> \<open>Log_Bus\<close> (\<^verbatim>\<open>system_log/log_bus.py\<close>, \<^verbatim>\<open>log_router.py\<close>, \<^verbatim>\<open>alert_store.py\<close>, \<^verbatim>\<open>commit_guard.py\<close>): delivery, stores with
    paging, the commit guard.
  \<^item> \<open>Session_State\<close> (\<^verbatim>\<open>session/ring_buffer.py\<close>, \<^verbatim>\<open>blackbox_triggers.py\<close>, \<^verbatim>\<open>blackbox.py\<close>, \<^verbatim>\<open>core/session_unlock.py\<close>): the
    ring of recent turns, triggers, pruning of snapshots, pins and freezes.
  \<^item> \<open>Ledger\<close> (\<^verbatim>\<open>orchestrator/system_log_writer.py\<close>, \<^verbatim>\<open>core/pack_identity.py\<close>): the hash-chained append and the records
    of commitments, traces, escalations and provenance; the locale \<open>hash_chain\<close> holds the laws of such a chain.
  \<^item> \<open>Orchestrator\<close> (\<^verbatim>\<open>orchestrator/ppa_orchestrator.py\<close>): construction and a whole turn; the ledger of a session is a
    chain, every turn leaves its audit trail, equal heads mean equal ledgers, an escalation freezes the session.
  \<^item> \<open>Connector_Routing\<close> (\<^verbatim>\<open>connector_routing/router.py\<close>): the staged resolution of a connector.
  \<^item> \<open>Auth\<close> (\<^verbatim>\<open>auth/auth.py\<close>): tokens of the three tracks, passwords, the transcript seal.
  \<^item> \<open>Scoped_Store\<close> (\<^verbatim>\<open>persistence/scoped.py\<close>): the wrapper given to domain packs, as the inner calls it makes.
  \<^item> \<open>Load_Estimator\<close> (\<^verbatim>\<open>daemon/load_estimator.py\<close>): the weighted score and the telemetry window; bounds of the score.
  \<^item> \<open>Daemon_Monitor\<close> (\<^verbatim>\<open>daemon/preemption.py\<close>, \<^verbatim>\<open>task_adapter.py\<close>, \<^verbatim>\<open>resource_monitor.py\<close>): the state machine of the monitor
    as a step relation over the main loop, the running task and outside calls, with \<open>stop\<close> split at its two waits; its
    invariant by rule induction, and the race of a start with a waiting stop.
  \<^item> \<open>Daemon_Batch\<close> (\<^verbatim>\<open>daemon/report.py\<close>, \<^verbatim>\<open>scheduler.py\<close>): proposals, approvals, the batch and its history.
  \<^item> \<open>Cross_Domain\<close> (\<^verbatim>\<open>daemon/cross_domain.py\<close>): mutual opt-in, overlap of glossaries, matching of invariants.
  \<^item> \<open>Command_Schema\<close> (\<^verbatim>\<open>middleware/command_schema_registry.py\<close>): the registry of commands; the validator accepts exactly
    the commands of a declarative predicate.
  \<^item> \<open>Operating_Context\<close> (\<^verbatim>\<open>auth/operating_context.py\<close>): memberships and the context a login or a token selects.
  \<^item> \<open>Yaml_Loader\<close> (\<^verbatim>\<open>core/yaml_loader.py\<close>): the reader; every text is read or rejected, the recursion ends.
  \<^item> \<open>Yaml_Print\<close>: a printer of documents; the locale \<open>printer\<close> states what the text of a scalar must satisfy, and proves once
    that the reader returns the document. It is interpreted here on a reference printer and in \<open>Profile_Store\<close> on the writer
    of the program.
  \<^item> \<open>Admin_Operations\<close> (\<^verbatim>\<open>system_log/admin_operations.py\<close>): the builders of records, who may govern a domain.
  \<^item> \<open>Staging\<close> (\<^verbatim>\<open>staging/\<close>): templates, the writer with its merge, and the service on top of \<open>Transactions\<close>; what an
    approval writes, and the life cycle of envelopes over every run whose approvals write outside the staging directory,
    with writes that fail.
  \<^item> \<open>Domain_Registry\<close> (\<^verbatim>\<open>core/domain_registry.py\<close>): construction from the text of the file, resolution of domains, caching.
  \<^item> \<open>Business_Policy\<close> (\<^verbatim>\<open>core/policy_validation.py\<close>, \<^verbatim>\<open>thread_routing/policy.py\<close>, \<^verbatim>\<open>decision_precedent/policy.py\<close>): three layers
    of thresholds and their validation.
  \<^item> \<open>Institutional\<close> (\<^verbatim>\<open>retrieval/contracts.py\<close>, \<^verbatim>\<open>vector_store.py\<close>, \<^verbatim>\<open>institutional.py\<close>): the filter, the vector store and the
    indexer; a search stays in its scope.
  \<^item> \<open>Api_Base\<close> (\<^verbatim>\<open>api/middleware.py\<close>, \<^verbatim>\<open>api/dependencies.py\<close>): the guards of a request, and the locale \<open>one_shot\<close> of a
    table whose entries are settled at most once, interpreted in the next two theories.
  \<^item> \<open>Decision_Precedent\<close> (\<^verbatim>\<open>decision_precedent/\<close>, \<^verbatim>\<open>api/routes/decision_precedent.py\<close>): candidates, scores, tiers, both endpoints.
  \<^item> \<open>Thread_Routing\<close> (\<^verbatim>\<open>thread_routing/\<close>, its endpoints): choice of a thread, bindings of sessions, rolling recaps.
  \<^item> \<open>Plan_Dag\<close> (\<^verbatim>\<open>domain-lib/tier2_decomposer.py\<close>, \<^verbatim>\<open>dag_validator.py\<close> and the tiers that use them): both topological sorts,
    validation, slices.
  \<^item> \<open>Dag_Execution\<close> (\<^verbatim>\<open>domain-lib/tier3_ready_scheduler.py\<close>, \<^verbatim>\<open>retry_policy.py\<close>, the dispatcher): the loop of a turn over the
    slices of a plan; order, budget and completion.
  \<^item> \<open>Profile_Store\<close> (\<^verbatim>\<open>persistence/filesystem.py\<close>): the YAML writer and the profile files; what is read back, and what is not.
  \<^item> \<open>Ledger_Store\<close> (\<^verbatim>\<open>persistence/filesystem.py\<close>): ledger files, their verification, commitments, queries and summaries.

  \<^bold>\<open>State and errors.\<close> Module globals and object attributes are records passed explicitly. An exception is a value
  of \<open>py_exn\<close> on the left of a sum; where an operation mutates before it raises, the state is returned beside the
  error. A turn is the exception: of a turn that raises, which may have written a trace record, only the exception is
  described, and the theorems on turns are about those that return. Clocks, random draws, digests, text codings, the wrapped stores and the language model are arguments; what
  a theorem needs of them is a named hypothesis (for example injectivity of the digest on the records at hand).

  \<^bold>\<open>Bounds and fuel.\<close> The block parser of the YAML reader has fuel, twice the number of lines and two more; that this
  is enough for every text is proved in \<open>Yaml_Loader\<close>. Nothing else uses fuel: the other parsers and the masking recurse
  on their input, with a length measure where a parser consumes a prefix; the topological sort ends by the
  length of its queue and the open nodes, the loop of a turn by the slices it may still run. Bounded stores keep 1000
  warnings and 100 alerts, a query of commitments 100 records, as in the code.

  \<^bold>\<open>Not modelled.\<close> The HTTP layer and the services, the SQL store and the user and session files, embeddings and
  signals, mail, the language-model bridge and text heuristics, system tools, and the domain packs but for the planner
  of the coding agent: they are input and output, third-party calls or domain content. Threads and the event loop
  are replaced by explicit steps.
\<close>

end
